(* ===== verification/Prelude.thy ===== *)
theory Prelude
  imports Main "HOL-Library.Word"
begin

section \<open>Shared types, errors and lemmas\<close>

text \<open>
  The prelude of the development: names for the machine types of
  \<open>libdevcore/Common.h\<close>, the exceptions the modelled code throws as values of a
  datatype, the bind of the result type, and generic lemmas on words and lists.
\<close>

unbundle bit_operations_syntax

subsection \<open>Machine types\<close>

text \<open>
  \<open>u8\<close>, \<open>u32\<close> and \<open>u64\<close> are \<open>uint8_t\<close>, \<open>unsigned\<close> and \<open>size_t\<close>; \<open>u256\<close> is the
  256-bit unchecked (wrapping) integer of \<open>Common.h\<close>; \<open>bytes\<close> is \<open>vector<uint8_t>\<close>.
\<close>

type_synonym u8 = "8 word"
type_synonym u32 = "32 word"
type_synonym u64 = "64 word"
type_synonym u256 = "256 word"
type_synonym bytes = "u8 list"

subsection \<open>Exceptions as values\<close>

text \<open>
  Every \<open>assertThrow\<close>, \<open>BOOST_THROW_EXCEPTION\<close> and throwing container access of the
  modelled code is a branch that returns \<open>Inl\<close> of one of these.
\<close>

datatype exn =
    DevException string
  | InvalidOpcode
  | InvalidDeposit
  | InvalidAddress
  | BadHexCharacter
  | OptimizerException string
  | AssemblyException string
  | StackTooDeepException
  | ItemNotAvailableException
  | OutOfRange

type_synonym 'a result = "exn + 'a"

definition bindE :: "'a result \<Rightarrow> ('a \<Rightarrow> 'b result) \<Rightarrow> 'b result" where
  "bindE m f = (case m of Inl e \<Rightarrow> Inl e | Inr x \<Rightarrow> f x)"

lemma bindE_simps [simp]:
  "bindE (Inl e) f = Inl e"
  "bindE (Inr x) f = f x"
  by (simp_all add: bindE_def)

lemma bindE_Inr_iff: "bindE m f = Inr y \<longleftrightarrow> (\<exists>x. m = Inr x \<and> f x = Inr y)"
  by (cases m) auto

lemma bindE_cong [fundef_cong]:
  "m = m' \<Longrightarrow> (\<And>x. m' = Inr x \<Longrightarrow> f x = f' x) \<Longrightarrow> bindE m f = bindE m' f'"
  by (cases m') auto

subsection \<open>Words\<close>

lemma unat_less_length: "unat (v :: 'a::len word) < 2 ^ LENGTH('a)"
  by (rule unsigned_less)

lemma unat_ucast_up:
  assumes "LENGTH('a::len) \<le> LENGTH('b::len)"
  shows "unat (ucast (v :: 'a word) :: 'b word) = unat v"
proof -
  have "unat v < 2 ^ LENGTH('b)"
    using unat_less_length [of v] power_increasing [OF assms, of "2 :: nat"] by linarith
  then show ?thesis by (simp add: unsigned_ucast_eq take_bit_nat_eq_self)
qed

lemma unat_drop_bit_div: "unat (drop_bit n v) = unat v div 2 ^ n"
  by (metis unat_drop_bit_eq drop_bit_eq_div)

lemma drop_push_bit_word:
  assumes "unat (w :: 'a::len word) * 2 ^ n < 2 ^ LENGTH('a)"
  shows "drop_bit n (push_bit n w) = w"
proof -
  have "unat (push_bit n w) = unat w * 2 ^ n"
    using assms
    by (simp only: unsigned_push_bit_eq push_bit_eq_mult [where 'a = nat] take_bit_nat_eq_self)
  then show ?thesis
    by (metis unat_drop_bit_div nonzero_mult_div_cancel_right power_not_zero unsigned_word_eqI
        zero_neq_numeral)
qed

lemma word_size_less_256: "(unat (v :: u256)) < 2 ^ 256"
  using unsigned_less[of v] by simp

lemma unat_drop_bit_less:
  assumes "v \<noteq> 0" and "0 < n"
  shows "unat (drop_bit n v) < unat v"
proof -
  have "0 < unat v" using assms(1) by (simp add: unat_gt_0)
  moreover have "(1::nat) < 2 ^ n" using assms(2) by (intro one_less_power) simp_all
  ultimately show ?thesis by (simp add: unat_drop_bit_div div_less_dividend)
qed

subsection \<open>Lists\<close>

lemma list_all2_map_fst: "list_all2 (\<lambda>x y. f x = y) xs (map f xs)"
  by (induction xs) auto

lemma sum_list_replicate_nat: "sum_list (replicate n (k::nat)) = n * k"
  by (induction n) auto

end
