(* ===== verification/CommonData.thy ===== *)
theory CommonData
  imports Prelude
begin

section \<open>Hex, decimal and big-endian data (libdevcore/CommonData)\<close>

text \<open>
  The conversions of \<open>libdevcore/CommonData.h\<close> and \<open>CommonData.cpp\<close> between integers,
  byte vectors and hex strings, with their round trips. The code's templates over the
  integer type are polymorphic in the word length here.
\<close>

subsection \<open>Hex strings\<close>

datatype WhenError = DontThrow | Throw
datatype HexPrefix = DontAdd | Add

text \<open>One hex digit of a value below 16, in lower case, as \<open>std::hex\<close> prints it.\<close>

definition hexDigit :: "nat \<Rightarrow> char" where
  "hexDigit n = (if n < 10 then char_of (48 + n) else char_of (87 + n))"

text \<open>
  \<open>setw(w) << setfill('0') << hex << v\<close> of a byte: at least \<open>w\<close> characters, and as many
  digits as the value has.
\<close>

definition hexByte :: "nat \<Rightarrow> u8 \<Rightarrow> string" where
  "hexByte w v =
     (let n = unat v;
          ds = (if n < 16 then [hexDigit n] else [hexDigit (n div 16), hexDigit (n mod 16)])
      in replicate (w - length ds) (CHR ''0'') @ ds)"

definition toHex :: "bytes \<Rightarrow> nat \<Rightarrow> HexPrefix \<Rightarrow> string" where
  "toHex data w prefix =
     (let ret = (case data of [] \<Rightarrow> []
                 | b # bs \<Rightarrow> hexByte w b @ concat (map (hexByte 2) bs))
      in if prefix = Add then ''0x'' @ ret else ret)"

definition fromHexChar :: "char \<Rightarrow> WhenError \<Rightarrow> int result" where
  "fromHexChar c th =
     (let n = (of_char c :: nat) in
      if 48 \<le> n \<and> n \<le> 57 then Inr (int n - 48)
      else if 97 \<le> n \<and> n \<le> 102 then Inr (int n - 97 + 10)
      else if 65 \<le> n \<and> n \<le> 70 then Inr (int n - 65 + 10)
      else if th = Throw then Inl BadHexCharacter
      else Inr (- 1))"

text \<open>
  The digit of a character inside \<open>fromHex(string)\<close>, which always calls the character
  version with \<open>DontThrow\<close>: \<open>None\<close> for the \<open>-1\<close> of a bad character.
\<close>

definition hexVal :: "char \<Rightarrow> int option" where
  "hexVal c = (case fromHexChar c DontThrow of
                 Inl e \<Rightarrow> None
               | Inr h \<Rightarrow> if h = - 1 then None else Some h)"

text \<open>The pair loop of \<open>fromHex(string)\<close>, with the vector built so far.\<close>

fun fromHexPairs :: "string \<Rightarrow> WhenError \<Rightarrow> bytes \<Rightarrow> bytes result" where
  "fromHexPairs (a # b # cs) th ret =
     (case (hexVal a, hexVal b) of
        (Some h, Some l) \<Rightarrow> fromHexPairs cs th (ret @ [word_of_int (h * 16 + l)])
      | _ \<Rightarrow> if th = Throw then Inl BadHexCharacter else Inr [])"
| "fromHexPairs cs th ret = Inr ret"

definition fromHex :: "string \<Rightarrow> WhenError \<Rightarrow> bytes result" where
  "fromHex str th =
     (let s = (if 2 \<le> length str \<and> str ! 0 = CHR ''0'' \<and> str ! 1 = CHR ''x'' then 2 else 0);
          body = drop s str
      in if odd (length str)
         then (case hexVal (hd body) of
                 Some h \<Rightarrow> fromHexPairs (tl body) th [word_of_int h]
               | None \<Rightarrow> if th = Throw then Inl BadHexCharacter else Inr [])
         else fromHexPairs body th [])"

definition isHexChar :: "char \<Rightarrow> bool" where
  "isHexChar c \<longleftrightarrow> c \<in> set ''0123456789abcdefABCDEF''"

definition isValidHex :: "string \<Rightarrow> bool" where
  "isValidHex str \<longleftrightarrow> take 2 str = ''0x'' \<and> list_all isHexChar (drop 2 str)"

definition isDecChar :: "char \<Rightarrow> bool" where
  "isDecChar c \<longleftrightarrow> c \<in> set ''0123456789''"

definition isValidDecimal :: "string \<Rightarrow> bool" where
  "isValidDecimal str =
     (if str = [] then False
      else if str = ''0'' then True
      else if hd str = CHR ''0'' then False
      else list_all isDecChar str)"

text \<open>\<open>tolower\<close> and \<open>toupper\<close> of the C locale.\<close>

definition tolower :: "char \<Rightarrow> char" where
  "tolower c = (let n = (of_char c :: nat) in if 65 \<le> n \<and> n \<le> 90 then char_of (n + 32) else c)"

definition toupper :: "char \<Rightarrow> char" where
  "toupper c = (let n = (of_char c :: nat) in if 97 \<le> n \<and> n \<le> 122 then char_of (n - 32) else c)"

subsection \<open>Big-endian bytes\<close>

text \<open>
  \<open>toBigEndian(val, out)\<close> fills a container of a given size from its end with the low
  bytes of the value; the size is the first argument.
\<close>

fun toBigEndian :: "nat \<Rightarrow> 'a::len word \<Rightarrow> bytes" where
  "toBigEndian 0 v = []"
| "toBigEndian (Suc n) v = toBigEndian n (drop_bit 8 v) @ [ucast (v AND 0xff)]"

definition fromBigEndian :: "bytes \<Rightarrow> 'a::len word" where
  "fromBigEndian bs = fold (\<lambda>b ret. push_bit 8 ret OR ucast b) bs 0"

function bytesRequired :: "'a::len word \<Rightarrow> nat" where
  "bytesRequired v = (if v \<noteq> 0 then Suc (bytesRequired (drop_bit 8 v)) else 0)"
  by pat_completeness auto
termination
  by (relation "measure unat") (auto intro!: unat_drop_bit_less)

declare bytesRequired.simps [simp del]

definition toCompactBigEndian :: "'a::len word \<Rightarrow> nat \<Rightarrow> bytes" where
  "toCompactBigEndian v m = toBigEndian (max m (bytesRequired v)) v"

definition toBigEndian256 :: "u256 \<Rightarrow> bytes" where
  "toBigEndian256 v = toBigEndian 32 v"

definition toHex256 :: "u256 \<Rightarrow> HexPrefix \<Rightarrow> string" where
  "toHex256 v prefix =
     (let str = toHex (toBigEndian256 v) 2 DontAdd
      in if prefix = Add then ''0x'' @ str else str)"

subsection \<open>Big-endian laws\<close>

lemma length_toBigEndian [simp]: "length (toBigEndian n v) = n"
  by (induction n v rule: toBigEndian.induct) auto

lemma fromBigEndian_Nil [simp]: "fromBigEndian [] = 0"
  by (simp add: fromBigEndian_def)

lemma fromBigEndian_snoc:
  "fromBigEndian (bs @ [b]) = push_bit 8 (fromBigEndian bs) OR ucast b"
  by (simp add: fromBigEndian_def)

lemma ucast_and_255 [simp]: "(ucast (v AND 255) :: u8) = ucast (v :: 'a::len word)"
proof -
  have "v AND 255 = take_bit 8 v"
    by (simp add: take_bit_eq_mask mask_eq_exp_minus_1)
  then show ?thesis
    by (auto intro!: bit_word_eqI simp: bit_ucast_iff bit_take_bit_iff)
qed

lemma fromBigEndian_toBigEndian:
  "fromBigEndian (toBigEndian n v) = take_bit (8 * n) (v :: 'a::len word)"
proof (induction n v rule: toBigEndian.induct)
  case (1 v)
  then show ?case by simp
next
  case (2 n v)
  show ?case
    by (rule bit_word_eqI)
      (auto simp: fromBigEndian_snoc 2 bit_or_iff bit_push_bit_iff bit_take_bit_iff
        bit_drop_bit_eq bit_ucast_iff)
qed

lemma bytesRequired_0 [simp]: "bytesRequired 0 = 0"
  by (simp add: bytesRequired.simps)

lemma bytesRequired_eq_0 [simp]: "bytesRequired v = 0 \<longleftrightarrow> v = 0"
  by (subst bytesRequired.simps) simp

lemma bytesRequired_le_iff: "bytesRequired v \<le> n \<longleftrightarrow> unat v < 256 ^ n"
proof (induction n arbitrary: v)
  case 0
  then show ?case by (simp add: unat_eq_zero)
next
  case (Suc n)
  show ?case
  proof (cases "v = 0")
    case True
    then show ?thesis by simp
  next
    case False
    then have "bytesRequired v \<le> Suc n \<longleftrightarrow> bytesRequired (drop_bit 8 v) \<le> n"
      by (subst bytesRequired.simps) simp
    also have "\<dots> \<longleftrightarrow> unat v div 256 < 256 ^ n"
      by (simp only: Suc unat_drop_bit_div) simp
    also have "\<dots> \<longleftrightarrow> unat v < 256 ^ Suc n"
      by (simp add: div_less_iff_less_mult mult.commute)
    finally show ?thesis .
  qed
qed

lemma bytesRequired_mono: "unat v \<le> unat w \<Longrightarrow> bytesRequired v \<le> bytesRequired w"
  by (metis bytesRequired_le_iff le_refl order.strict_trans1)

lemma bytesRequired_bound: "unat v < 256 ^ bytesRequired v"
  using bytesRequired_le_iff by blast

lemma bytesRequired_256: "bytesRequired (v :: u256) \<le> 32"
  by (simp add: bytesRequired_le_iff word_size_less_256 [THEN order.strict_trans2])

lemma take_bit_bytesRequired:
  assumes "bytesRequired v \<le> n"
  shows "take_bit (8 * n) v = v"
proof -
  have "unat v < 2 ^ (8 * n)"
    using assms by (simp add: bytesRequired_le_iff power_mult)
  then have "take_bit (8 * n) (unat v) = unat v"
    by (simp add: take_bit_nat_eq_self)
  then show ?thesis
    by (metis unsigned_take_bit_eq unsigned_word_eqI)
qed

lemma fromBigEndian_toBigEndian_id:
  "bytesRequired v \<le> n \<Longrightarrow> fromBigEndian (toBigEndian n v) = v"
  by (simp add: fromBigEndian_toBigEndian take_bit_bytesRequired)

lemma fromBigEndian_compact: "fromBigEndian (toCompactBigEndian v m) = v"
  by (simp add: toCompactBigEndian_def fromBigEndian_toBigEndian_id)

lemma bit_fromBigEndian_ge:
  "8 * length bs \<le> i \<Longrightarrow> \<not> bit (fromBigEndian bs :: 'a::len word) i"
proof (induction bs arbitrary: i rule: rev_induct)
  case Nil
  then show ?case by simp
next
  case (snoc b bs)
  then show ?case
    by (auto simp: fromBigEndian_snoc bit_or_iff bit_push_bit_iff bit_ucast_iff
        dest: bit_imp_le_length)
qed

lemma toBigEndian_fromBigEndian:
  assumes "8 * length bs \<le> LENGTH('a::len)"
  shows "toBigEndian (length bs) (fromBigEndian bs :: 'a word) = bs"
  using assms
proof (induction bs rule: rev_induct)
  case Nil
  then show ?case by simp
next
  case (snoc b bs)
  have hi: "drop_bit 8 (fromBigEndian (bs @ [b]) :: 'a word) = fromBigEndian bs"
  proof (rule bit_word_eqI)
    fix i assume "i < LENGTH('a)"
    show "bit (drop_bit 8 (fromBigEndian (bs @ [b]) :: 'a word)) i
        \<longleftrightarrow> bit (fromBigEndian bs :: 'a word) i"
    proof (cases "8 + i < LENGTH('a)")
      case True
      then show ?thesis
        by (auto simp: bit_drop_bit_eq fromBigEndian_snoc bit_or_iff bit_push_bit_iff
            bit_ucast_iff dest: bit_imp_le_length)
    next
      case False
      then have "8 * length bs \<le> i" using snoc.prems by simp
      then show ?thesis
        using False by (auto simp: bit_drop_bit_eq bit_fromBigEndian_ge dest: bit_imp_le_length)
    qed
  qed
  have lo: "(ucast (fromBigEndian (bs @ [b]) :: 'a word) :: u8) = b"
  proof (rule bit_word_eqI)
    fix i assume "i < LENGTH(8)"
    then show "bit (ucast (fromBigEndian (bs @ [b]) :: 'a word) :: u8) i \<longleftrightarrow> bit b i"
      using snoc.prems
      by (auto simp: fromBigEndian_snoc bit_or_iff bit_push_bit_iff bit_ucast_iff)
  qed
  show ?case using snoc by (simp add: hi lo)
qed

lemma hd_toCompactBigEndian_nonzero:
  assumes "v \<noteq> (0 :: 'a::len word)"
  shows "toCompactBigEndian v 0 \<noteq> [] \<and> hd (toCompactBigEndian v 0) \<noteq> 0"
proof
  obtain n where n: "bytesRequired v = Suc n"
    using assms by (metis bytesRequired_eq_0 not0_implies_Suc)
  show ne: "toCompactBigEndian v 0 \<noteq> []"
    using assms by (simp add: toCompactBigEndian_def flip: length_0_conv)
  show "hd (toCompactBigEndian v 0) \<noteq> 0"
  proof
    assume 0: "hd (toCompactBigEndian v 0) = 0"
    obtain bs where bs: "toCompactBigEndian v 0 = 0 # bs" using ne 0 by (metis list.collapse)
    have len: "length bs = n"
      using bs n by (metis Suc_inject length_Cons length_toBigEndian max_0L toCompactBigEndian_def)
    have "v = fromBigEndian (0 # bs)" using bs fromBigEndian_compact by metis
    also have "\<dots> = fromBigEndian bs" by (simp add: fromBigEndian_def)
    finally have v: "v = fromBigEndian bs" .
    have "take_bit (8 * n) v = v"
    proof (rule bit_word_eqI)
      fix i
      show "bit (take_bit (8 * n) v) i \<longleftrightarrow> bit v i"
        using bit_fromBigEndian_ge [of bs i, where 'a = 'a]
        by (cases "8 * n \<le> i") (auto simp: bit_take_bit_iff v len)
    qed
    then have "unat v < 2 ^ (8 * n)"
      by (metis take_bit_nat_less_exp unsigned_take_bit_eq)
    then have "bytesRequired v \<le> n" by (simp add: bytesRequired_le_iff power_mult)
    then show False using n by simp
  qed
qed

subsection \<open>Hex laws\<close>

lemma of_char_hexDigit:
  "n < 16 \<Longrightarrow> (of_char (hexDigit n) :: nat) = (if n < 10 then 48 + n else 87 + n)"
  by (auto simp: hexDigit_def of_char_of)

lemma hexVal_hexDigit: "n < 16 \<Longrightarrow> hexVal (hexDigit n) = Some (int n)"
  by (auto simp: hexVal_def fromHexChar_def of_char_hexDigit)

lemma hexVal_Some_range: "hexVal c = Some h \<Longrightarrow> 0 \<le> h \<and> h < 16"
  by (auto simp: hexVal_def fromHexChar_def Let_def split: if_splits)

lemma hexDigit_neq_x: "n < 16 \<Longrightarrow> hexDigit n \<noteq> CHR ''x''"
proof
  assume n: "n < 16" and "hexDigit n = CHR ''x''"
  then have "(of_char (hexDigit n) :: nat) = of_char (CHR ''x'')" by simp
  then show False using n by (simp add: of_char_hexDigit split: if_splits)
qed

lemma unat_u8: "unat (v :: u8) < 256"
  using unsigned_less [of v] by simp

lemma unat_u8_div16: "unat (v :: u8) div 16 < 16"
  using unat_u8 [of v] by simp

lemma hexDigit_0: "hexDigit 0 = CHR ''0''"
  by code_simp

lemma hexByte_2: "hexByte 2 v = [hexDigit (unat v div 16), hexDigit (unat v mod 16)]"
  by (auto simp: hexByte_def Let_def hexDigit_0)

lemma toHex_2: "toHex bs 2 p = (if p = Add then ''0x'' else []) @ concat (map (hexByte 2) bs)"
  by (cases bs) (auto simp: toHex_def Let_def)

lemma fromHexPairs_toHex:
  "fromHexPairs (concat (map (hexByte 2) bs)) th ret = Inr (ret @ bs)"
proof (induction bs arbitrary: ret)
  case Nil
  then show ?case by simp
next
  case (Cons b bs)
  have "(word_of_int (int (unat b div 16) * 16 + int (unat b mod 16)) :: u8) = b"
  proof -
    have "int (unat b div 16) * 16 + int (unat b mod 16) = int (unat b)"
      by (metis div_mult_mod_eq of_nat_add of_nat_mult of_nat_numeral)
    then show ?thesis by simp
  qed
  then show ?case
    using unat_u8 [of b] Cons by (simp add: hexByte_2 hexVal_hexDigit)
qed

lemma even_length_hex: "even (length (concat (map (hexByte 2) bs)))"
  by (induction bs) (auto simp: hexByte_2)

lemma hex_body_no_prefix:
  "\<not> (2 \<le> length (concat (map (hexByte 2) bs)) \<and> concat (map (hexByte 2) bs) ! 1 = CHR ''x'')"
  using hexDigit_neq_x by (cases bs) (auto simp: hexByte_2)

text \<open>C17: \<open>fromHex\<close> reads back every byte string that \<open>toHex\<close> prints, with or without the
  prefix and whatever it does on errors.\<close>

theorem fromHex_toHex: "fromHex (toHex bs 2 p) th = Inr bs"
proof (cases p)
  case DontAdd
  then show ?thesis
    using even_length_hex [of bs] hex_body_no_prefix [of bs]
    by (auto simp: fromHex_def toHex_2 fromHexPairs_toHex Let_def)
next
  case Add
  then show ?thesis
    using even_length_hex [of bs] by (simp add: fromHex_def toHex_2 fromHexPairs_toHex)
qed

lemma isHexChar_iff: "isHexChar c \<longleftrightarrow> hexVal c \<noteq> None"
proof
  assume "isHexChar c"
  then show "hexVal c \<noteq> None"
    by (auto simp: isHexChar_def hexVal_def fromHexChar_def)
next
  assume h: "hexVal c \<noteq> None"
  define n where "n = (of_char c :: nat)"
  have "n \<in> set ([48..<58] @ [97..<103] @ [65..<71])"
    using h unfolding set_append set_upt
    by (auto simp: hexVal_def fromHexChar_def Let_def n_def simp del: upt_rec_numeral split: if_splits)
  also have "\<dots> = set (map of_char ''0123456789abcdefABCDEF'')" by code_simp
  finally have "n \<in> set (map of_char ''0123456789abcdefABCDEF'')" .
  then show "isHexChar c"
    unfolding isHexChar_def n_def set_map image_iff of_char_eq_iff by blast
qed

lemma fromHexPairs_valid:
  "list_all isHexChar cs \<Longrightarrow> even (length cs) \<Longrightarrow>
     \<exists>bs. fromHexPairs cs th ret = Inr (ret @ bs) \<and> length bs = length cs div 2"
proof (induction cs th ret rule: fromHexPairs.induct)
  case (1 a b cs th ret)
  then obtain h l where "hexVal a = Some h" "hexVal b = Some l"
    by (auto simp: isHexChar_iff)
  with 1 show ?case by fastforce
qed auto

text \<open>A string that \<open>isValidHex\<close> accepts is read by \<open>fromHex\<close> without an exception, into one
  byte for each two digits (a leading odd digit is a byte of its own).\<close>

theorem isValidHex_fromHex:
  assumes "isValidHex str"
  shows "\<exists>bs. fromHex str th = Inr bs \<and> length bs = (length str - 1) div 2"
proof -
  obtain cs where str: "str = CHR ''0'' # CHR ''x'' # cs" and cs: "list_all isHexChar cs"
    using assms by (cases str; cases "tl str") (auto simp: isValidHex_def)
  show ?thesis
  proof (cases "even (length cs)")
    case True
    then show ?thesis using fromHexPairs_valid [OF cs True, of th "[]"] by (auto simp: str fromHex_def)
  next
    case False
    then obtain c cs' where c: "cs = c # cs'" by (cases cs) auto
    with cs obtain h where "hexVal c = Some h" by (auto simp: isHexChar_iff)
    moreover obtain bs where "fromHexPairs cs' th [word_of_int h] = Inr ([word_of_int h] @ bs)"
      "length bs = length cs' div 2"
      using fromHexPairs_valid [of cs' th "[word_of_int h]"] cs c False by auto
    ultimately show ?thesis using False by (auto simp: str c fromHex_def)
  qed
qed

theorem isValidHex_fromHex_witness:
  "\<exists>bs. fromHex ''0xa1F'' Throw = Inr bs \<and> length bs = (length ''0xa1F'' - 1) div 2"
  by (rule isValidHex_fromHex) code_simp

lemma isValidHex_toHex: "isValidHex (toHex bs 2 Add)"
proof -
  have "list_all isHexChar (concat (map (hexByte 2) bs))"
    by (induction bs) (auto simp: hexByte_2 isHexChar_iff hexVal_hexDigit unat_u8_div16)
  then show ?thesis by (simp add: isValidHex_def toHex_2)
qed

lemma fromHexPairs_bad:
  "\<not> list_all isHexChar cs \<Longrightarrow> even (length cs) \<Longrightarrow>
     fromHexPairs cs th ret = (if th = Throw then Inl BadHexCharacter else Inr [])"
  by (induction cs th ret rule: fromHexPairs.induct) (auto simp: isHexChar_iff split: option.splits)


subsection \<open>Signed numbers (libdevcore/Common.h)\<close>

text \<open>
  \<open>s256\<close> has a sign and a magnitude of 256 bits: an \<open>int\<close> here, since no value the code
  computes leaves that range. The lemmas say that the conversions are the two's complement
  reading of a word.
\<close>

definition u2s :: "u256 \<Rightarrow> int" where
  "u2s u = (if bit u 255 then - (2 ^ 256 - uint u) else uint u)"

definition s2u :: "int \<Rightarrow> u256" where
  "s2u s = (if 0 \<le> s then word_of_int s else word_of_int (2 ^ 256 + s))"

lemma u2s_sint: "u2s u = sint u"
proof -
  have "take_bit 256 (uint u) = uint u"
    using unsigned_less [of u, where 'a = int] by (simp add: take_bit_int_eq_self)
  then have "sint u = (if bit u 255 then uint u - 2 ^ 256 else uint u)"
    unfolding sint_uint signed_take_bit_eq_take_bit_minus by (simp add: bit_uint_iff)
  then show ?thesis by (simp add: u2s_def)
qed

lemma s2u_word_of_int: "s2u s = word_of_int s"
  by (simp add: s2u_def flip: word_of_int_2p_len)

lemma s2u_u2s: "s2u (u2s u) = u"
  by (simp add: u2s_sint s2u_word_of_int)

end
