(* ===== verification/Instruction.thy ===== *)
theory Instruction
  imports CommonData
begin

section \<open>Instructions (libevmasm/Instruction)\<close>

text \<open>
  \<open>enum class Instruction: uint8_t\<close>, the instruction tables, the classification functions
  of \<open>Instruction.h\<close> and the byte-code walkers of \<open>Instruction.cpp\<close>. The enum is its
  underlying byte, because the code casts arbitrary bytes to it (\<open>Instruction(*it)\<close>,
  \<open>Instruction(uint8_t(_data))\<close>) and compares it with \<open><=\<close>; every enumerator is an
  abbreviation of its value, named \<open>i_\<close> and the enumerator.
\<close>

subsection \<open>The enumeration\<close>

type_synonym instruction = u8

abbreviation i_STOP :: instruction where "i_STOP \<equiv> 0x00"
abbreviation i_ADD :: instruction where "i_ADD \<equiv> 0x01"
abbreviation i_MUL :: instruction where "i_MUL \<equiv> 0x02"
abbreviation i_SUB :: instruction where "i_SUB \<equiv> 0x03"
abbreviation i_DIV :: instruction where "i_DIV \<equiv> 0x04"
abbreviation i_SDIV :: instruction where "i_SDIV \<equiv> 0x05"
abbreviation i_MOD :: instruction where "i_MOD \<equiv> 0x06"
abbreviation i_SMOD :: instruction where "i_SMOD \<equiv> 0x07"
abbreviation i_ADDMOD :: instruction where "i_ADDMOD \<equiv> 0x08"
abbreviation i_MULMOD :: instruction where "i_MULMOD \<equiv> 0x09"
abbreviation i_EXP :: instruction where "i_EXP \<equiv> 0x0a"
abbreviation i_SIGNEXTEND :: instruction where "i_SIGNEXTEND \<equiv> 0x0b"
abbreviation i_LT :: instruction where "i_LT \<equiv> 0x10"
abbreviation i_GT :: instruction where "i_GT \<equiv> 0x11"
abbreviation i_SLT :: instruction where "i_SLT \<equiv> 0x12"
abbreviation i_SGT :: instruction where "i_SGT \<equiv> 0x13"
abbreviation i_EQ :: instruction where "i_EQ \<equiv> 0x14"
abbreviation i_ISZERO :: instruction where "i_ISZERO \<equiv> 0x15"
abbreviation i_AND :: instruction where "i_AND \<equiv> 0x16"
abbreviation i_OR :: instruction where "i_OR \<equiv> 0x17"
abbreviation i_XOR :: instruction where "i_XOR \<equiv> 0x18"
abbreviation i_NOT :: instruction where "i_NOT \<equiv> 0x19"
abbreviation i_BYTE :: instruction where "i_BYTE \<equiv> 0x1a"
abbreviation i_SHL :: instruction where "i_SHL \<equiv> 0x1b"
abbreviation i_SHR :: instruction where "i_SHR \<equiv> 0x1c"
abbreviation i_SAR :: instruction where "i_SAR \<equiv> 0x1d"
abbreviation i_KECCAK256 :: instruction where "i_KECCAK256 \<equiv> 0x20"
abbreviation i_ADDRESS :: instruction where "i_ADDRESS \<equiv> 0x30"
abbreviation i_BALANCE :: instruction where "i_BALANCE \<equiv> 0x31"
abbreviation i_ORIGIN :: instruction where "i_ORIGIN \<equiv> 0x32"
abbreviation i_CALLER :: instruction where "i_CALLER \<equiv> 0x33"
abbreviation i_CALLVALUE :: instruction where "i_CALLVALUE \<equiv> 0x34"
abbreviation i_CALLDATALOAD :: instruction where "i_CALLDATALOAD \<equiv> 0x35"
abbreviation i_CALLDATASIZE :: instruction where "i_CALLDATASIZE \<equiv> 0x36"
abbreviation i_CALLDATACOPY :: instruction where "i_CALLDATACOPY \<equiv> 0x37"
abbreviation i_CODESIZE :: instruction where "i_CODESIZE \<equiv> 0x38"
abbreviation i_CODECOPY :: instruction where "i_CODECOPY \<equiv> 0x39"
abbreviation i_GASPRICE :: instruction where "i_GASPRICE \<equiv> 0x3a"
abbreviation i_EXTCODESIZE :: instruction where "i_EXTCODESIZE \<equiv> 0x3b"
abbreviation i_EXTCODECOPY :: instruction where "i_EXTCODECOPY \<equiv> 0x3c"
abbreviation i_RETURNDATASIZE :: instruction where "i_RETURNDATASIZE \<equiv> 0x3d"
abbreviation i_RETURNDATACOPY :: instruction where "i_RETURNDATACOPY \<equiv> 0x3e"
abbreviation i_EXTCODEHASH :: instruction where "i_EXTCODEHASH \<equiv> 0x3f"
abbreviation i_BLOCKHASH :: instruction where "i_BLOCKHASH \<equiv> 0x40"
abbreviation i_COINBASE :: instruction where "i_COINBASE \<equiv> 0x41"
abbreviation i_TIMESTAMP :: instruction where "i_TIMESTAMP \<equiv> 0x42"
abbreviation i_NUMBER :: instruction where "i_NUMBER \<equiv> 0x43"
abbreviation i_DIFFICULTY :: instruction where "i_DIFFICULTY \<equiv> 0x44"
abbreviation i_GASLIMIT :: instruction where "i_GASLIMIT \<equiv> 0x45"
abbreviation i_ETHASH :: instruction where "i_ETHASH \<equiv> 0x46"
abbreviation i_POP :: instruction where "i_POP \<equiv> 0x50"
abbreviation i_MLOAD :: instruction where "i_MLOAD \<equiv> 0x51"
abbreviation i_MSTORE :: instruction where "i_MSTORE \<equiv> 0x52"
abbreviation i_MSTORE8 :: instruction where "i_MSTORE8 \<equiv> 0x53"
abbreviation i_SLOAD :: instruction where "i_SLOAD \<equiv> 0x54"
abbreviation i_SSTORE :: instruction where "i_SSTORE \<equiv> 0x55"
abbreviation i_JUMP :: instruction where "i_JUMP \<equiv> 0x56"
abbreviation i_JUMPI :: instruction where "i_JUMPI \<equiv> 0x57"
abbreviation i_PC :: instruction where "i_PC \<equiv> 0x58"
abbreviation i_MSIZE :: instruction where "i_MSIZE \<equiv> 0x59"
abbreviation i_GAS :: instruction where "i_GAS \<equiv> 0x5a"
abbreviation i_JUMPDEST :: instruction where "i_JUMPDEST \<equiv> 0x5b"
abbreviation i_PUSH1 :: instruction where "i_PUSH1 \<equiv> 0x60"
abbreviation i_PUSH2 :: instruction where "i_PUSH2 \<equiv> 0x61"
abbreviation i_PUSH3 :: instruction where "i_PUSH3 \<equiv> 0x62"
abbreviation i_PUSH4 :: instruction where "i_PUSH4 \<equiv> 0x63"
abbreviation i_PUSH5 :: instruction where "i_PUSH5 \<equiv> 0x64"
abbreviation i_PUSH6 :: instruction where "i_PUSH6 \<equiv> 0x65"
abbreviation i_PUSH7 :: instruction where "i_PUSH7 \<equiv> 0x66"
abbreviation i_PUSH8 :: instruction where "i_PUSH8 \<equiv> 0x67"
abbreviation i_PUSH9 :: instruction where "i_PUSH9 \<equiv> 0x68"
abbreviation i_PUSH10 :: instruction where "i_PUSH10 \<equiv> 0x69"
abbreviation i_PUSH11 :: instruction where "i_PUSH11 \<equiv> 0x6a"
abbreviation i_PUSH12 :: instruction where "i_PUSH12 \<equiv> 0x6b"
abbreviation i_PUSH13 :: instruction where "i_PUSH13 \<equiv> 0x6c"
abbreviation i_PUSH14 :: instruction where "i_PUSH14 \<equiv> 0x6d"
abbreviation i_PUSH15 :: instruction where "i_PUSH15 \<equiv> 0x6e"
abbreviation i_PUSH16 :: instruction where "i_PUSH16 \<equiv> 0x6f"
abbreviation i_PUSH17 :: instruction where "i_PUSH17 \<equiv> 0x70"
abbreviation i_PUSH18 :: instruction where "i_PUSH18 \<equiv> 0x71"
abbreviation i_PUSH19 :: instruction where "i_PUSH19 \<equiv> 0x72"
abbreviation i_PUSH20 :: instruction where "i_PUSH20 \<equiv> 0x73"
abbreviation i_PUSH21 :: instruction where "i_PUSH21 \<equiv> 0x74"
abbreviation i_PUSH22 :: instruction where "i_PUSH22 \<equiv> 0x75"
abbreviation i_PUSH23 :: instruction where "i_PUSH23 \<equiv> 0x76"
abbreviation i_PUSH24 :: instruction where "i_PUSH24 \<equiv> 0x77"
abbreviation i_PUSH25 :: instruction where "i_PUSH25 \<equiv> 0x78"
abbreviation i_PUSH26 :: instruction where "i_PUSH26 \<equiv> 0x79"
abbreviation i_PUSH27 :: instruction where "i_PUSH27 \<equiv> 0x7a"
abbreviation i_PUSH28 :: instruction where "i_PUSH28 \<equiv> 0x7b"
abbreviation i_PUSH29 :: instruction where "i_PUSH29 \<equiv> 0x7c"
abbreviation i_PUSH30 :: instruction where "i_PUSH30 \<equiv> 0x7d"
abbreviation i_PUSH31 :: instruction where "i_PUSH31 \<equiv> 0x7e"
abbreviation i_PUSH32 :: instruction where "i_PUSH32 \<equiv> 0x7f"
abbreviation i_DUP1 :: instruction where "i_DUP1 \<equiv> 0x80"
abbreviation i_DUP2 :: instruction where "i_DUP2 \<equiv> 0x81"
abbreviation i_DUP3 :: instruction where "i_DUP3 \<equiv> 0x82"
abbreviation i_DUP4 :: instruction where "i_DUP4 \<equiv> 0x83"
abbreviation i_DUP5 :: instruction where "i_DUP5 \<equiv> 0x84"
abbreviation i_DUP6 :: instruction where "i_DUP6 \<equiv> 0x85"
abbreviation i_DUP7 :: instruction where "i_DUP7 \<equiv> 0x86"
abbreviation i_DUP8 :: instruction where "i_DUP8 \<equiv> 0x87"
abbreviation i_DUP9 :: instruction where "i_DUP9 \<equiv> 0x88"
abbreviation i_DUP10 :: instruction where "i_DUP10 \<equiv> 0x89"
abbreviation i_DUP11 :: instruction where "i_DUP11 \<equiv> 0x8a"
abbreviation i_DUP12 :: instruction where "i_DUP12 \<equiv> 0x8b"
abbreviation i_DUP13 :: instruction where "i_DUP13 \<equiv> 0x8c"
abbreviation i_DUP14 :: instruction where "i_DUP14 \<equiv> 0x8d"
abbreviation i_DUP15 :: instruction where "i_DUP15 \<equiv> 0x8e"
abbreviation i_DUP16 :: instruction where "i_DUP16 \<equiv> 0x8f"
abbreviation i_SWAP1 :: instruction where "i_SWAP1 \<equiv> 0x90"
abbreviation i_SWAP2 :: instruction where "i_SWAP2 \<equiv> 0x91"
abbreviation i_SWAP3 :: instruction where "i_SWAP3 \<equiv> 0x92"
abbreviation i_SWAP4 :: instruction where "i_SWAP4 \<equiv> 0x93"
abbreviation i_SWAP5 :: instruction where "i_SWAP5 \<equiv> 0x94"
abbreviation i_SWAP6 :: instruction where "i_SWAP6 \<equiv> 0x95"
abbreviation i_SWAP7 :: instruction where "i_SWAP7 \<equiv> 0x96"
abbreviation i_SWAP8 :: instruction where "i_SWAP8 \<equiv> 0x97"
abbreviation i_SWAP9 :: instruction where "i_SWAP9 \<equiv> 0x98"
abbreviation i_SWAP10 :: instruction where "i_SWAP10 \<equiv> 0x99"
abbreviation i_SWAP11 :: instruction where "i_SWAP11 \<equiv> 0x9a"
abbreviation i_SWAP12 :: instruction where "i_SWAP12 \<equiv> 0x9b"
abbreviation i_SWAP13 :: instruction where "i_SWAP13 \<equiv> 0x9c"
abbreviation i_SWAP14 :: instruction where "i_SWAP14 \<equiv> 0x9d"
abbreviation i_SWAP15 :: instruction where "i_SWAP15 \<equiv> 0x9e"
abbreviation i_SWAP16 :: instruction where "i_SWAP16 \<equiv> 0x9f"
abbreviation i_LOG0 :: instruction where "i_LOG0 \<equiv> 0xa0"
abbreviation i_LOG1 :: instruction where "i_LOG1 \<equiv> 0xa1"
abbreviation i_LOG2 :: instruction where "i_LOG2 \<equiv> 0xa2"
abbreviation i_LOG3 :: instruction where "i_LOG3 \<equiv> 0xa3"
abbreviation i_LOG4 :: instruction where "i_LOG4 \<equiv> 0xa4"
abbreviation i_JUMPTO :: instruction where "i_JUMPTO \<equiv> 0xb0"
abbreviation i_JUMPIF :: instruction where "i_JUMPIF \<equiv> 0xb1"
abbreviation i_JUMPV :: instruction where "i_JUMPV \<equiv> 0xb2"
abbreviation i_JUMPSUB :: instruction where "i_JUMPSUB \<equiv> 0xb3"
abbreviation i_JUMPSUBV :: instruction where "i_JUMPSUBV \<equiv> 0xb4"
abbreviation i_BEGINSUB :: instruction where "i_BEGINSUB \<equiv> 0xb5"
abbreviation i_BEGINDATA :: instruction where "i_BEGINDATA \<equiv> 0xb6"
abbreviation i_RETURNSUB :: instruction where "i_RETURNSUB \<equiv> 0xb7"
abbreviation i_PUTLOCAL :: instruction where "i_PUTLOCAL \<equiv> 0xb8"
abbreviation i_GETLOCAL :: instruction where "i_GETLOCAL \<equiv> 0xb9"
abbreviation i_CREATE :: instruction where "i_CREATE \<equiv> 0xf0"
abbreviation i_CALL :: instruction where "i_CALL \<equiv> 0xf1"
abbreviation i_CALLCODE :: instruction where "i_CALLCODE \<equiv> 0xf2"
abbreviation i_RETURN :: instruction where "i_RETURN \<equiv> 0xf3"
abbreviation i_DELEGATECALL :: instruction where "i_DELEGATECALL \<equiv> 0xf4"
abbreviation i_CREATE2 :: instruction where "i_CREATE2 \<equiv> 0xf5"
abbreviation i_STATICCALL :: instruction where "i_STATICCALL \<equiv> 0xfa"
abbreviation i_REVERT :: instruction where "i_REVERT \<equiv> 0xfd"
abbreviation i_INVALID :: instruction where "i_INVALID \<equiv> 0xfe"
abbreviation i_SELFDESTRUCT :: instruction where "i_SELFDESTRUCT \<equiv> 0xff"

subsection \<open>Classification\<close>

definition isPushInstruction :: "instruction \<Rightarrow> bool" where
  "isPushInstruction i \<longleftrightarrow> i_PUSH1 \<le> i \<and> i \<le> i_PUSH32"

definition isDupInstruction :: "instruction \<Rightarrow> bool" where
  "isDupInstruction i \<longleftrightarrow> i_DUP1 \<le> i \<and> i \<le> i_DUP16"

definition isSwapInstruction :: "instruction \<Rightarrow> bool" where
  "isSwapInstruction i \<longleftrightarrow> i_SWAP1 \<le> i \<and> i \<le> i_SWAP16"

definition isLogInstruction :: "instruction \<Rightarrow> bool" where
  "isLogInstruction i \<longleftrightarrow> i_LOG0 \<le> i \<and> i \<le> i_LOG4"

text \<open>The numbers are computed on \<open>unsigned\<close>, so they wrap below the first of the family.\<close>

definition getPushNumber :: "instruction \<Rightarrow> u32" where
  "getPushNumber i = ucast i - ucast i_PUSH1 + 1"

definition getDupNumber :: "instruction \<Rightarrow> u32" where
  "getDupNumber i = ucast i - ucast i_DUP1 + 1"

definition getSwapNumber :: "instruction \<Rightarrow> u32" where
  "getSwapNumber i = ucast i - ucast i_SWAP1 + 1"

definition getLogNumber :: "instruction \<Rightarrow> u32" where
  "getLogNumber i = ucast i - ucast i_LOG0"

definition pushInstruction :: "u32 \<Rightarrow> instruction result" where
  "pushInstruction n =
     (if 1 \<le> n \<and> n \<le> 32 then Inr (ucast (ucast i_PUSH1 + n - 1)) else Inl InvalidOpcode)"

definition dupInstruction :: "u32 \<Rightarrow> instruction result" where
  "dupInstruction n =
     (if 1 \<le> n \<and> n \<le> 16 then Inr (ucast (ucast i_DUP1 + n - 1)) else Inl InvalidOpcode)"

definition swapInstruction :: "u32 \<Rightarrow> instruction result" where
  "swapInstruction n =
     (if 1 \<le> n \<and> n \<le> 16 then Inr (ucast (ucast i_SWAP1 + n - 1)) else Inl InvalidOpcode)"

definition logInstruction :: "u32 \<Rightarrow> instruction result" where
  "logInstruction n =
     (if n \<le> 4 then Inr (ucast (ucast i_LOG0 + n)) else Inl InvalidOpcode)"

subsection \<open>The tables\<close>

datatype Tier =
    TierZero | TierBase | TierVeryLow | TierLow | TierMid | TierHigh
  | TierExt | TierExtCode | TierBalance | TierSpecial | TierInvalid

record InstructionInfo =
  info_name :: string
  info_additional :: int
  info_args :: int
  info_ret :: int
  info_sideEffects :: bool
  info_gasPriceTier :: Tier

text \<open>The aggregate initialiser \<open>{name, additional, args, ret, sideEffects, tier}\<close>.\<close>

abbreviation mkInfo :: "string \<Rightarrow> int \<Rightarrow> int \<Rightarrow> int \<Rightarrow> bool \<Rightarrow> Tier \<Rightarrow> InstructionInfo" where
  "mkInfo n a ar r s t \<equiv> \<lparr>info_name = n, info_additional = a, info_args = ar, info_ret = r,
     info_sideEffects = s, info_gasPriceTier = t\<rparr>"

definition c_instructions :: "(string \<times> instruction) list" where
  "c_instructions =
    [
     (''STOP'', i_STOP),
     (''ADD'', i_ADD),
     (''SUB'', i_SUB),
     (''MUL'', i_MUL),
     (''DIV'', i_DIV),
     (''SDIV'', i_SDIV),
     (''MOD'', i_MOD),
     (''SMOD'', i_SMOD),
     (''EXP'', i_EXP),
     (''NOT'', i_NOT),
     (''LT'', i_LT),
     (''GT'', i_GT),
     (''SLT'', i_SLT),
     (''SGT'', i_SGT),
     (''EQ'', i_EQ),
     (''ISZERO'', i_ISZERO),
     (''AND'', i_AND),
     (''OR'', i_OR),
     (''XOR'', i_XOR),
     (''BYTE'', i_BYTE),
     (''SHL'', i_SHL),
     (''SHR'', i_SHR),
     (''SAR'', i_SAR),
     (''ADDMOD'', i_ADDMOD),
     (''MULMOD'', i_MULMOD),
     (''SIGNEXTEND'', i_SIGNEXTEND),
     (''KECCAK256'', i_KECCAK256),
     (''ADDRESS'', i_ADDRESS),
     (''BALANCE'', i_BALANCE),
     (''ORIGIN'', i_ORIGIN),
     (''CALLER'', i_CALLER),
     (''CALLVALUE'', i_CALLVALUE),
     (''CALLDATALOAD'', i_CALLDATALOAD),
     (''CALLDATASIZE'', i_CALLDATASIZE),
     (''CALLDATACOPY'', i_CALLDATACOPY),
     (''CODESIZE'', i_CODESIZE),
     (''CODECOPY'', i_CODECOPY),
     (''GASPRICE'', i_GASPRICE),
     (''EXTCODESIZE'', i_EXTCODESIZE),
     (''EXTCODECOPY'', i_EXTCODECOPY),
     (''RETURNDATASIZE'', i_RETURNDATASIZE),
     (''RETURNDATACOPY'', i_RETURNDATACOPY),
     (''EXTCODEHASH'', i_EXTCODEHASH),
     (''BLOCKHASH'', i_BLOCKHASH),
     (''COINBASE'', i_COINBASE),
     (''TIMESTAMP'', i_TIMESTAMP),
     (''NUMBER'', i_NUMBER),
     (''DIFFICULTY'', i_DIFFICULTY),
     (''GASLIMIT'', i_GASLIMIT),
     (''ETHASH'', i_ETHASH),
     (''POP'', i_POP),
     (''MLOAD'', i_MLOAD),
     (''MSTORE'', i_MSTORE),
     (''MSTORE8'', i_MSTORE8),
     (''SLOAD'', i_SLOAD),
     (''SSTORE'', i_SSTORE),
     (''JUMP'', i_JUMP),
     (''JUMPI'', i_JUMPI),
     (''PC'', i_PC),
     (''MSIZE'', i_MSIZE),
     (''GAS'', i_GAS),
     (''JUMPDEST'', i_JUMPDEST),
     (''PUSH1'', i_PUSH1),
     (''PUSH2'', i_PUSH2),
     (''PUSH3'', i_PUSH3),
     (''PUSH4'', i_PUSH4),
     (''PUSH5'', i_PUSH5),
     (''PUSH6'', i_PUSH6),
     (''PUSH7'', i_PUSH7),
     (''PUSH8'', i_PUSH8),
     (''PUSH9'', i_PUSH9),
     (''PUSH10'', i_PUSH10),
     (''PUSH11'', i_PUSH11),
     (''PUSH12'', i_PUSH12),
     (''PUSH13'', i_PUSH13),
     (''PUSH14'', i_PUSH14),
     (''PUSH15'', i_PUSH15),
     (''PUSH16'', i_PUSH16),
     (''PUSH17'', i_PUSH17),
     (''PUSH18'', i_PUSH18),
     (''PUSH19'', i_PUSH19),
     (''PUSH20'', i_PUSH20),
     (''PUSH21'', i_PUSH21),
     (''PUSH22'', i_PUSH22),
     (''PUSH23'', i_PUSH23),
     (''PUSH24'', i_PUSH24),
     (''PUSH25'', i_PUSH25),
     (''PUSH26'', i_PUSH26),
     (''PUSH27'', i_PUSH27),
     (''PUSH28'', i_PUSH28),
     (''PUSH29'', i_PUSH29),
     (''PUSH30'', i_PUSH30),
     (''PUSH31'', i_PUSH31),
     (''PUSH32'', i_PUSH32),
     (''DUP1'', i_DUP1),
     (''DUP2'', i_DUP2),
     (''DUP3'', i_DUP3),
     (''DUP4'', i_DUP4),
     (''DUP5'', i_DUP5),
     (''DUP6'', i_DUP6),
     (''DUP7'', i_DUP7),
     (''DUP8'', i_DUP8),
     (''DUP9'', i_DUP9),
     (''DUP10'', i_DUP10),
     (''DUP11'', i_DUP11),
     (''DUP12'', i_DUP12),
     (''DUP13'', i_DUP13),
     (''DUP14'', i_DUP14),
     (''DUP15'', i_DUP15),
     (''DUP16'', i_DUP16),
     (''SWAP1'', i_SWAP1),
     (''SWAP2'', i_SWAP2),
     (''SWAP3'', i_SWAP3),
     (''SWAP4'', i_SWAP4),
     (''SWAP5'', i_SWAP5),
     (''SWAP6'', i_SWAP6),
     (''SWAP7'', i_SWAP7),
     (''SWAP8'', i_SWAP8),
     (''SWAP9'', i_SWAP9),
     (''SWAP10'', i_SWAP10),
     (''SWAP11'', i_SWAP11),
     (''SWAP12'', i_SWAP12),
     (''SWAP13'', i_SWAP13),
     (''SWAP14'', i_SWAP14),
     (''SWAP15'', i_SWAP15),
     (''SWAP16'', i_SWAP16),
     (''LOG0'', i_LOG0),
     (''LOG1'', i_LOG1),
     (''LOG2'', i_LOG2),
     (''LOG3'', i_LOG3),
     (''LOG4'', i_LOG4),
     (''CREATE'', i_CREATE),
     (''CALL'', i_CALL),
     (''CALLCODE'', i_CALLCODE),
     (''STATICCALL'', i_STATICCALL),
     (''RETURN'', i_RETURN),
     (''DELEGATECALL'', i_DELEGATECALL),
     (''CREATE2'', i_CREATE2),
     (''REVERT'', i_REVERT),
     (''INVALID'', i_INVALID),
     (''SELFDESTRUCT'', i_SELFDESTRUCT)]"

definition c_instructionInfo :: "(instruction \<times> InstructionInfo) list" where
  "c_instructionInfo =
    [
     (i_STOP, mkInfo ''STOP'' 0 0 0 True TierZero),
     (i_ADD, mkInfo ''ADD'' 0 2 1 False TierVeryLow),
     (i_SUB, mkInfo ''SUB'' 0 2 1 False TierVeryLow),
     (i_MUL, mkInfo ''MUL'' 0 2 1 False TierLow),
     (i_DIV, mkInfo ''DIV'' 0 2 1 False TierLow),
     (i_SDIV, mkInfo ''SDIV'' 0 2 1 False TierLow),
     (i_MOD, mkInfo ''MOD'' 0 2 1 False TierLow),
     (i_SMOD, mkInfo ''SMOD'' 0 2 1 False TierLow),
     (i_EXP, mkInfo ''EXP'' 0 2 1 False TierSpecial),
     (i_NOT, mkInfo ''NOT'' 0 1 1 False TierVeryLow),
     (i_LT, mkInfo ''LT'' 0 2 1 False TierVeryLow),
     (i_GT, mkInfo ''GT'' 0 2 1 False TierVeryLow),
     (i_SLT, mkInfo ''SLT'' 0 2 1 False TierVeryLow),
     (i_SGT, mkInfo ''SGT'' 0 2 1 False TierVeryLow),
     (i_EQ, mkInfo ''EQ'' 0 2 1 False TierVeryLow),
     (i_ISZERO, mkInfo ''ISZERO'' 0 1 1 False TierVeryLow),
     (i_AND, mkInfo ''AND'' 0 2 1 False TierVeryLow),
     (i_OR, mkInfo ''OR'' 0 2 1 False TierVeryLow),
     (i_XOR, mkInfo ''XOR'' 0 2 1 False TierVeryLow),
     (i_BYTE, mkInfo ''BYTE'' 0 2 1 False TierVeryLow),
     (i_SHL, mkInfo ''SHL'' 0 2 1 False TierVeryLow),
     (i_SHR, mkInfo ''SHR'' 0 2 1 False TierVeryLow),
     (i_SAR, mkInfo ''SAR'' 0 2 1 False TierVeryLow),
     (i_ADDMOD, mkInfo ''ADDMOD'' 0 3 1 False TierMid),
     (i_MULMOD, mkInfo ''MULMOD'' 0 3 1 False TierMid),
     (i_SIGNEXTEND, mkInfo ''SIGNEXTEND'' 0 2 1 False TierLow),
     (i_KECCAK256, mkInfo ''KECCAK256'' 0 2 1 True TierSpecial),
     (i_ADDRESS, mkInfo ''ADDRESS'' 0 0 1 False TierBase),
     (i_BALANCE, mkInfo ''BALANCE'' 0 1 1 False TierBalance),
     (i_ORIGIN, mkInfo ''ORIGIN'' 0 0 1 False TierBase),
     (i_CALLER, mkInfo ''CALLER'' 0 0 1 False TierBase),
     (i_CALLVALUE, mkInfo ''CALLVALUE'' 0 0 1 False TierBase),
     (i_CALLDATALOAD, mkInfo ''CALLDATALOAD'' 0 1 1 False TierVeryLow),
     (i_CALLDATASIZE, mkInfo ''CALLDATASIZE'' 0 0 1 False TierBase),
     (i_CALLDATACOPY, mkInfo ''CALLDATACOPY'' 0 3 0 True TierVeryLow),
     (i_CODESIZE, mkInfo ''CODESIZE'' 0 0 1 False TierBase),
     (i_CODECOPY, mkInfo ''CODECOPY'' 0 3 0 True TierVeryLow),
     (i_GASPRICE, mkInfo ''GASPRICE'' 0 0 1 False TierBase),
     (i_EXTCODESIZE, mkInfo ''EXTCODESIZE'' 0 1 1 False TierExtCode),
     (i_EXTCODECOPY, mkInfo ''EXTCODECOPY'' 0 4 0 True TierExtCode),
     (i_RETURNDATASIZE, mkInfo ''RETURNDATASIZE'' 0 0 1 False TierBase),
     (i_RETURNDATACOPY, mkInfo ''RETURNDATACOPY'' 0 3 0 True TierVeryLow),
     (i_EXTCODEHASH, mkInfo ''EXTCODEHASH'' 0 1 1 False TierBalance),
     (i_BLOCKHASH, mkInfo ''BLOCKHASH'' 0 1 1 False TierExt),
     (i_COINBASE, mkInfo ''COINBASE'' 0 0 1 False TierBase),
     (i_TIMESTAMP, mkInfo ''TIMESTAMP'' 0 0 1 False TierBase),
     (i_NUMBER, mkInfo ''NUMBER'' 0 0 1 False TierBase),
     (i_DIFFICULTY, mkInfo ''DIFFICULTY'' 0 0 1 False TierBase),
     (i_GASLIMIT, mkInfo ''GASLIMIT'' 0 0 1 False TierBase),
     (i_ETHASH, mkInfo ''ETHASH'' 0 5 1 False TierExt),
     (i_POP, mkInfo ''POP'' 0 1 0 False TierBase),
     (i_MLOAD, mkInfo ''MLOAD'' 0 1 1 True TierVeryLow),
     (i_MSTORE, mkInfo ''MSTORE'' 0 2 0 True TierVeryLow),
     (i_MSTORE8, mkInfo ''MSTORE8'' 0 2 0 True TierVeryLow),
     (i_SLOAD, mkInfo ''SLOAD'' 0 1 1 False TierSpecial),
     (i_SSTORE, mkInfo ''SSTORE'' 0 2 0 True TierSpecial),
     (i_JUMP, mkInfo ''JUMP'' 0 1 0 True TierMid),
     (i_JUMPI, mkInfo ''JUMPI'' 0 2 0 True TierHigh),
     (i_PC, mkInfo ''PC'' 0 0 1 False TierBase),
     (i_MSIZE, mkInfo ''MSIZE'' 0 0 1 False TierBase),
     (i_GAS, mkInfo ''GAS'' 0 0 1 False TierBase),
     (i_JUMPDEST, mkInfo ''JUMPDEST'' 0 0 0 True TierSpecial),
     (i_PUSH1, mkInfo ''PUSH1'' 1 0 1 False TierVeryLow),
     (i_PUSH2, mkInfo ''PUSH2'' 2 0 1 False TierVeryLow),
     (i_PUSH3, mkInfo ''PUSH3'' 3 0 1 False TierVeryLow),
     (i_PUSH4, mkInfo ''PUSH4'' 4 0 1 False TierVeryLow),
     (i_PUSH5, mkInfo ''PUSH5'' 5 0 1 False TierVeryLow),
     (i_PUSH6, mkInfo ''PUSH6'' 6 0 1 False TierVeryLow),
     (i_PUSH7, mkInfo ''PUSH7'' 7 0 1 False TierVeryLow),
     (i_PUSH8, mkInfo ''PUSH8'' 8 0 1 False TierVeryLow),
     (i_PUSH9, mkInfo ''PUSH9'' 9 0 1 False TierVeryLow),
     (i_PUSH10, mkInfo ''PUSH10'' 10 0 1 False TierVeryLow),
     (i_PUSH11, mkInfo ''PUSH11'' 11 0 1 False TierVeryLow),
     (i_PUSH12, mkInfo ''PUSH12'' 12 0 1 False TierVeryLow),
     (i_PUSH13, mkInfo ''PUSH13'' 13 0 1 False TierVeryLow),
     (i_PUSH14, mkInfo ''PUSH14'' 14 0 1 False TierVeryLow),
     (i_PUSH15, mkInfo ''PUSH15'' 15 0 1 False TierVeryLow),
     (i_PUSH16, mkInfo ''PUSH16'' 16 0 1 False TierVeryLow),
     (i_PUSH17, mkInfo ''PUSH17'' 17 0 1 False TierVeryLow),
     (i_PUSH18, mkInfo ''PUSH18'' 18 0 1 False TierVeryLow),
     (i_PUSH19, mkInfo ''PUSH19'' 19 0 1 False TierVeryLow),
     (i_PUSH20, mkInfo ''PUSH20'' 20 0 1 False TierVeryLow),
     (i_PUSH21, mkInfo ''PUSH21'' 21 0 1 False TierVeryLow),
     (i_PUSH22, mkInfo ''PUSH22'' 22 0 1 False TierVeryLow),
     (i_PUSH23, mkInfo ''PUSH23'' 23 0 1 False TierVeryLow),
     (i_PUSH24, mkInfo ''PUSH24'' 24 0 1 False TierVeryLow),
     (i_PUSH25, mkInfo ''PUSH25'' 25 0 1 False TierVeryLow),
     (i_PUSH26, mkInfo ''PUSH26'' 26 0 1 False TierVeryLow),
     (i_PUSH27, mkInfo ''PUSH27'' 27 0 1 False TierVeryLow),
     (i_PUSH28, mkInfo ''PUSH28'' 28 0 1 False TierVeryLow),
     (i_PUSH29, mkInfo ''PUSH29'' 29 0 1 False TierVeryLow),
     (i_PUSH30, mkInfo ''PUSH30'' 30 0 1 False TierVeryLow),
     (i_PUSH31, mkInfo ''PUSH31'' 31 0 1 False TierVeryLow),
     (i_PUSH32, mkInfo ''PUSH32'' 32 0 1 False TierVeryLow),
     (i_DUP1, mkInfo ''DUP1'' 0 1 2 False TierVeryLow),
     (i_DUP2, mkInfo ''DUP2'' 0 2 3 False TierVeryLow),
     (i_DUP3, mkInfo ''DUP3'' 0 3 4 False TierVeryLow),
     (i_DUP4, mkInfo ''DUP4'' 0 4 5 False TierVeryLow),
     (i_DUP5, mkInfo ''DUP5'' 0 5 6 False TierVeryLow),
     (i_DUP6, mkInfo ''DUP6'' 0 6 7 False TierVeryLow),
     (i_DUP7, mkInfo ''DUP7'' 0 7 8 False TierVeryLow),
     (i_DUP8, mkInfo ''DUP8'' 0 8 9 False TierVeryLow),
     (i_DUP9, mkInfo ''DUP9'' 0 9 10 False TierVeryLow),
     (i_DUP10, mkInfo ''DUP10'' 0 10 11 False TierVeryLow),
     (i_DUP11, mkInfo ''DUP11'' 0 11 12 False TierVeryLow),
     (i_DUP12, mkInfo ''DUP12'' 0 12 13 False TierVeryLow),
     (i_DUP13, mkInfo ''DUP13'' 0 13 14 False TierVeryLow),
     (i_DUP14, mkInfo ''DUP14'' 0 14 15 False TierVeryLow),
     (i_DUP15, mkInfo ''DUP15'' 0 15 16 False TierVeryLow),
     (i_DUP16, mkInfo ''DUP16'' 0 16 17 False TierVeryLow),
     (i_SWAP1, mkInfo ''SWAP1'' 0 2 2 False TierVeryLow),
     (i_SWAP2, mkInfo ''SWAP2'' 0 3 3 False TierVeryLow),
     (i_SWAP3, mkInfo ''SWAP3'' 0 4 4 False TierVeryLow),
     (i_SWAP4, mkInfo ''SWAP4'' 0 5 5 False TierVeryLow),
     (i_SWAP5, mkInfo ''SWAP5'' 0 6 6 False TierVeryLow),
     (i_SWAP6, mkInfo ''SWAP6'' 0 7 7 False TierVeryLow),
     (i_SWAP7, mkInfo ''SWAP7'' 0 8 8 False TierVeryLow),
     (i_SWAP8, mkInfo ''SWAP8'' 0 9 9 False TierVeryLow),
     (i_SWAP9, mkInfo ''SWAP9'' 0 10 10 False TierVeryLow),
     (i_SWAP10, mkInfo ''SWAP10'' 0 11 11 False TierVeryLow),
     (i_SWAP11, mkInfo ''SWAP11'' 0 12 12 False TierVeryLow),
     (i_SWAP12, mkInfo ''SWAP12'' 0 13 13 False TierVeryLow),
     (i_SWAP13, mkInfo ''SWAP13'' 0 14 14 False TierVeryLow),
     (i_SWAP14, mkInfo ''SWAP14'' 0 15 15 False TierVeryLow),
     (i_SWAP15, mkInfo ''SWAP15'' 0 16 16 False TierVeryLow),
     (i_SWAP16, mkInfo ''SWAP16'' 0 17 17 False TierVeryLow),
     (i_LOG0, mkInfo ''LOG0'' 0 2 0 True TierSpecial),
     (i_LOG1, mkInfo ''LOG1'' 0 3 0 True TierSpecial),
     (i_LOG2, mkInfo ''LOG2'' 0 4 0 True TierSpecial),
     (i_LOG3, mkInfo ''LOG3'' 0 5 0 True TierSpecial),
     (i_LOG4, mkInfo ''LOG4'' 0 6 0 True TierSpecial),
     (i_CREATE, mkInfo ''CREATE'' 0 3 1 True TierSpecial),
     (i_CALL, mkInfo ''CALL'' 0 7 1 True TierSpecial),
     (i_CALLCODE, mkInfo ''CALLCODE'' 0 7 1 True TierSpecial),
     (i_RETURN, mkInfo ''RETURN'' 0 2 0 True TierZero),
     (i_DELEGATECALL, mkInfo ''DELEGATECALL'' 0 6 1 True TierSpecial),
     (i_STATICCALL, mkInfo ''STATICCALL'' 0 6 1 True TierSpecial),
     (i_CREATE2, mkInfo ''CREATE2'' 0 4 1 True TierSpecial),
     (i_REVERT, mkInfo ''REVERT'' 0 2 0 True TierZero),
     (i_INVALID, mkInfo ''INVALID'' 0 0 0 True TierZero),
     (i_SELFDESTRUCT, mkInfo ''SELFDESTRUCT'' 0 1 0 True TierSpecial)]"

text \<open>\<open>std::to_string\<close> and \<open>dev::toString\<close> of an unsigned number.\<close>

fun toDec :: "nat \<Rightarrow> string" where
  "toDec n = (if n < 10 then [hexDigit n] else toDec (n div 10) @ [hexDigit (n mod 10)])"

declare toDec.simps [simp del]

text \<open>\<open>std::hex << v\<close>: the hexadecimal digits without leading zeros.\<close>

fun toHexNum :: "nat \<Rightarrow> string" where
  "toHexNum n = (if n < 16 then [hexDigit n] else toHexNum (n div 16) @ [hexDigit (n mod 16)])"

declare toHexNum.simps [simp del]

definition isValidInstruction :: "instruction \<Rightarrow> bool" where
  "isValidInstruction i \<longleftrightarrow> map_of c_instructionInfo i \<noteq> None"

definition instructionInfo :: "instruction \<Rightarrow> InstructionInfo" where
  "instructionInfo i =
     (case map_of c_instructionInfo i of
        Some x \<Rightarrow> x
      | None \<Rightarrow> mkInfo (''<INVALID_INSTRUCTION: '' @ toDec (unat i) @ ''>'') 0 0 0 False TierInvalid)"

subsection \<open>Walking byte code\<close>

text \<open>
  The inner loop of \<open>eachInstruction\<close>: while data bytes are due and the stream has more,
  shift them into the data word. It returns the word, the number of bytes still due and
  the rest of the stream.
\<close>

fun readData :: "nat \<Rightarrow> bytes \<Rightarrow> u256 \<Rightarrow> u256 \<times> nat \<times> bytes" where
  "readData (Suc k) (b # bs) d = readData k bs (push_bit 8 d OR ucast b)"
| "readData k bs d = (d, k, bs)"

lemma readData_length: "length (snd (snd (readData k bs d))) \<le> length bs"
  by (induction k bs d rule: readData.induct) auto

text \<open>The calls \<open>_onInstruction(instr, data)\<close> of \<open>eachInstruction\<close>, in order.\<close>

function eachInstruction :: "bytes \<Rightarrow> (instruction \<times> u256) list" where
  "eachInstruction [] = []"
| "eachInstruction (instr # mem) =
     (let additional = (if isValidInstruction instr
                        then nat (info_additional (instructionInfo instr)) else 0);
          r = readData additional mem 0
      in (instr, push_bit (8 * fst (snd r)) (fst r)) # eachInstruction (snd (snd r)))"
  by pat_completeness auto
termination
  by (relation "measure length") (auto simp: less_Suc_eq_le readData_length)

definition disassemble :: "bytes \<Rightarrow> string" where
  "disassemble mem =
     concat (map (\<lambda>(instr, data).
       if \<not> isValidInstruction instr then ''0x'' @ toHexNum (unat instr) @ '' ''
       else let inf = instructionInfo instr in
         info_name inf @ '' '' @
         (if info_additional inf \<noteq> 0 then ''0x'' @ toHexNum (unat data) @ '' '' else []))
     (eachInstruction mem))"

subsection \<open>Table lemmas\<close>

named_theorems instr_class \<open>unfolding of the opcode classification functions\<close>

lemmas [instr_class] =
  isPushInstruction_def isDupInstruction_def isSwapInstruction_def isLogInstruction_def
  getPushNumber_def getDupNumber_def getSwapNumber_def getLogNumber_def word_le_nat_alt

lemma c_instructionInfo_keys_distinct: "distinct (map fst c_instructionInfo)"
  by (simp add: c_instructionInfo_def)

lemma instructionInfo_eq:
  "(i, x) \<in> set c_instructionInfo \<Longrightarrow> instructionInfo i = x"
  using c_instructionInfo_keys_distinct by (simp add: instructionInfo_def)

lemma instructionInfo_table_rows:
  "list_all (\<lambda>(i, x). isValidInstruction i \<and> instructionInfo i = x) c_instructionInfo"
  using c_instructionInfo_keys_distinct
  by (auto simp: list_all_iff instructionInfo_def isValidInstruction_def)

text \<open>One equation per row, in a collection of its own.\<close>

named_theorems instr_table \<open>the rows of the instruction table\<close>

lemmas instructionInfo_table [instr_table] =
  instructionInfo_table_rows [unfolded c_instructionInfo_def list.pred_inject prod.case]

lemma isValidInstruction_iff: "isValidInstruction i \<longleftrightarrow> i \<in> fst ` set c_instructionInfo"
  by (simp add: isValidInstruction_def map_of_eq_None_iff)

lemma instructionInfo_invalid:
  "\<not> isValidInstruction i \<Longrightarrow>
     instructionInfo i = mkInfo (''<INVALID_INSTRUCTION: '' @ toDec (unat i) @ ''>'') 0 0 0 False TierInvalid"
  by (simp add: isValidInstruction_def instructionInfo_def)

text \<open>A property of every row of the table is a property of every valid opcode.\<close>

lemma instructionInfo_rows:
  assumes "list_all (\<lambda>(i, x). P i x) c_instructionInfo" and "isValidInstruction i"
  shows "P i (instructionInfo i)"
  using assms by (auto simp: isValidInstruction_iff list_all_iff instructionInfo_eq)

lemma instructionInfo_all:
  assumes "list_all (\<lambda>(i, x). P i x) c_instructionInfo"
    and "\<And>i n. \<not> isValidInstruction i \<Longrightarrow> P i (mkInfo n 0 0 0 False TierInvalid)"
  shows "P i (instructionInfo i)"
  using instructionInfo_rows [OF assms(1)] assms(2)
  by (cases "isValidInstruction i") (auto simp: instructionInfo_invalid)

lemma info_args_range: "0 \<le> info_args (instructionInfo i) \<and> info_args (instructionInfo i) \<le> 17"
  by (rule instructionInfo_all) (simp_all add: c_instructionInfo_def)

lemma info_ret_range: "0 \<le> info_ret (instructionInfo i) \<and> info_ret (instructionInfo i) \<le> 17"
  by (rule instructionInfo_all) (simp_all add: c_instructionInfo_def)

lemma info_additional_range:
  "0 \<le> info_additional (instructionInfo i) \<and> info_additional (instructionInfo i) \<le> 32"
  by (rule instructionInfo_all) (simp_all add: c_instructionInfo_def)

text \<open>The families of the table: what PUSH, DUP, SWAP and LOG rows say.\<close>

lemma word_interval:
  assumes "set (map word_of_nat [a..<b]) \<subseteq> A" and "a \<le> unat (i :: 'a::len word)" and "unat i < b"
  shows "i \<in> A"
proof -
  have "word_of_nat (unat i) \<in> set (map word_of_nat [a..<b] :: 'a word list)"
    unfolding set_map set_upt using assms(2,3) by (intro imageI) simp
  moreover have "word_of_nat (unat i) = i" by simp
  ultimately show ?thesis using assms(1) by auto
qed

text \<open>Each family is a contiguous run of rows of the table.\<close>

lemma family_rows:
  "map word_of_nat [96..<128] = take 32 (drop 62 (map fst c_instructionInfo))"
  "map word_of_nat [128..<144] = take 16 (drop 94 (map fst c_instructionInfo))"
  "map word_of_nat [144..<160] = take 16 (drop 110 (map fst c_instructionInfo))"
  "map word_of_nat [160..<165] = take 5 (drop 126 (map fst c_instructionInfo))"
  by (simp_all add: c_instructionInfo_def)

lemma set_take_drop: "set (take n (drop k xs)) \<subseteq> set xs"
  by (meson in_set_dropD in_set_takeD subsetI)

lemma family_valid:
  "isPushInstruction i \<Longrightarrow> isValidInstruction i"
  "isDupInstruction i \<Longrightarrow> isValidInstruction i"
  "isSwapInstruction i \<Longrightarrow> isValidInstruction i"
  "isLogInstruction i \<Longrightarrow> isValidInstruction i"
proof -
  have valid: "isValidInstruction i"
    if "map word_of_nat [a..<b] = take n (drop k (map fst c_instructionInfo))"
      and "a \<le> unat i" and "unat i < b" for a b n k
    using word_interval [of a b "set (map fst c_instructionInfo)" i] that
      set_take_drop [of n k "map fst c_instructionInfo"]
    by (simp add: isValidInstruction_iff)
  show "isPushInstruction i \<Longrightarrow> isValidInstruction i"
    by (rule valid [OF family_rows(1)]) (simp_all add: instr_class)
  show "isDupInstruction i \<Longrightarrow> isValidInstruction i"
    by (rule valid [OF family_rows(2)]) (simp_all add: instr_class)
  show "isSwapInstruction i \<Longrightarrow> isValidInstruction i"
    by (rule valid [OF family_rows(3)]) (simp_all add: instr_class)
  show "isLogInstruction i \<Longrightarrow> isValidInstruction i"
    by (rule valid [OF family_rows(4)]) (simp_all add: instr_class)
qed

lemma push_rows:
  assumes "isPushInstruction i"
  shows "info_additional (instructionInfo i) = int (unat (getPushNumber i)) \<and>
     info_args (instructionInfo i) = 0 \<and> info_ret (instructionInfo i) = 1 \<and>
     \<not> info_sideEffects (instructionInfo i)"
proof -
  have "list_all (\<lambda>(i, x). isPushInstruction i \<longrightarrow>
      info_additional x = int (unat (getPushNumber i)) \<and> info_args x = 0 \<and> info_ret x = 1 \<and>
      \<not> info_sideEffects x) c_instructionInfo"
    by (simp add: c_instructionInfo_def instr_class)
  from instructionInfo_rows [OF this family_valid(1) [OF assms]] assms show ?thesis by simp
qed

lemma dup_rows:
  assumes "isDupInstruction i"
  shows "info_args (instructionInfo i) = int (unat (getDupNumber i)) \<and>
     info_ret (instructionInfo i) = int (unat (getDupNumber i)) + 1 \<and>
     info_additional (instructionInfo i) = 0 \<and> \<not> info_sideEffects (instructionInfo i)"
proof -
  have "list_all (\<lambda>(i, x). isDupInstruction i \<longrightarrow>
      info_args x = int (unat (getDupNumber i)) \<and> info_ret x = int (unat (getDupNumber i)) + 1 \<and>
      info_additional x = 0 \<and> \<not> info_sideEffects x) c_instructionInfo"
    by (simp add: c_instructionInfo_def instr_class)
  from instructionInfo_rows [OF this family_valid(2) [OF assms]] assms show ?thesis by simp
qed

lemma swap_rows:
  assumes "isSwapInstruction i"
  shows "info_args (instructionInfo i) = int (unat (getSwapNumber i)) + 1 \<and>
     info_ret (instructionInfo i) = int (unat (getSwapNumber i)) + 1 \<and>
     info_additional (instructionInfo i) = 0 \<and> \<not> info_sideEffects (instructionInfo i)"
proof -
  have "list_all (\<lambda>(i, x). isSwapInstruction i \<longrightarrow>
      info_args x = int (unat (getSwapNumber i)) + 1 \<and>
      info_ret x = int (unat (getSwapNumber i)) + 1 \<and>
      info_additional x = 0 \<and> \<not> info_sideEffects x) c_instructionInfo"
    by (simp add: c_instructionInfo_def instr_class)
  from instructionInfo_rows [OF this family_valid(3) [OF assms]] assms show ?thesis by simp
qed

lemma log_rows:
  assumes "isLogInstruction i"
  shows "info_args (instructionInfo i) = int (unat (getLogNumber i)) + 2 \<and>
     info_ret (instructionInfo i) = 0 \<and>
     info_additional (instructionInfo i) = 0 \<and> info_sideEffects (instructionInfo i)"
proof -
  have "list_all (\<lambda>(i, x). isLogInstruction i \<longrightarrow>
      info_args x = int (unat (getLogNumber i)) + 2 \<and> info_ret x = 0 \<and>
      info_additional x = 0 \<and> info_sideEffects x) c_instructionInfo"
    by (simp add: c_instructionInfo_def instr_class)
  from instructionInfo_rows [OF this family_valid(4) [OF assms]] assms show ?thesis by simp
qed

subsection \<open>Instruction numbers\<close>

lemma pushInstruction_inverse:
  assumes "pushInstruction n = Inr i"
  shows "isPushInstruction i \<and> getPushNumber i = n"
proof -
  have n: "1 \<le> unat n" "unat n < 33" and i: "i = ucast (0x60 + n - 1)"
    using assms by (auto simp: pushInstruction_def word_le_nat_alt split: if_splits)
  have "n \<in> {n. isPushInstruction (ucast (0x60 + n - 1)) \<and> getPushNumber (ucast (0x60 + n - 1)) = n}"
    by (rule word_interval [OF _ n]) (simp add: instr_class upt_conv_Cons del: set_upt)
  then show ?thesis by (simp add: i)
qed

lemma dupInstruction_inverse:
  assumes "dupInstruction n = Inr i"
  shows "isDupInstruction i \<and> getDupNumber i = n"
proof -
  have n: "1 \<le> unat n" "unat n < 17" and i: "i = ucast (0x80 + n - 1)"
    using assms by (auto simp: dupInstruction_def word_le_nat_alt split: if_splits)
  have "n \<in> {n. isDupInstruction (ucast (0x80 + n - 1)) \<and> getDupNumber (ucast (0x80 + n - 1)) = n}"
    by (rule word_interval [OF _ n]) (simp add: instr_class upt_conv_Cons del: set_upt)
  then show ?thesis by (simp add: i)
qed

lemma swapInstruction_inverse:
  assumes "swapInstruction n = Inr i"
  shows "isSwapInstruction i \<and> getSwapNumber i = n"
proof -
  have n: "1 \<le> unat n" "unat n < 17" and i: "i = ucast (0x90 + n - 1)"
    using assms by (auto simp: swapInstruction_def word_le_nat_alt split: if_splits)
  have "n \<in> {n. isSwapInstruction (ucast (0x90 + n - 1)) \<and> getSwapNumber (ucast (0x90 + n - 1)) = n}"
    by (rule word_interval [OF _ n]) (simp add: instr_class upt_conv_Cons del: set_upt)
  then show ?thesis by (simp add: i)
qed

lemma logInstruction_inverse:
  assumes "logInstruction n = Inr i"
  shows "isLogInstruction i \<and> getLogNumber i = n"
proof -
  have n: "0 \<le> unat n" "unat n < 5" and i: "i = ucast (0xa0 + n)"
    using assms by (auto simp: logInstruction_def word_le_nat_alt split: if_splits)
  have "n \<in> {n. isLogInstruction (ucast (0xa0 + n)) \<and> getLogNumber (ucast (0xa0 + n)) = n}"
    by (rule word_interval [OF _ n]) (simp add: instr_class upt_conv_Cons del: set_upt)
  then show ?thesis by (simp add: i)
qed

subsection \<open>Walking is the inverse of encoding\<close>

text \<open>
  The encoding of one instruction and its data, and the result of \<open>readData\<close>: the bytes
  read, big-endian.
\<close>

definition dataSize :: "instruction \<Rightarrow> nat" where
  "dataSize i = nat (info_additional (instructionInfo i))"

definition encodeInstruction :: "instruction \<times> u256 \<Rightarrow> bytes" where
  "encodeInstruction c = fst c # toBigEndian (dataSize (fst c)) (snd c)"

lemma dataSize_le: "dataSize i \<le> 32"
  using info_additional_range [of i] by (simp add: dataSize_def nat_le_iff)

lemma dataSize_alt:
  "(if isValidInstruction i then nat (info_additional (instructionInfo i)) else 0) = dataSize i"
  by (simp add: dataSize_def instructionInfo_invalid)

lemma eachInstruction_Cons:
  "eachInstruction (i # mem) =
     (let r = readData (dataSize i) mem 0
      in (i, push_bit (8 * fst (snd r)) (fst r)) # eachInstruction (snd (snd r)))"
  by (simp add: dataSize_alt)

declare eachInstruction.simps(2) [simp del]

lemma readData_eq:
  "readData k bs d =
     (fold (\<lambda>b r. push_bit 8 r OR ucast b) (take k bs) d, k - length bs, drop k bs)"
  by (induction k bs d rule: readData.induct) auto

lemma readData_0:
  "readData k bs 0 = (fromBigEndian (take k bs), k - length bs, drop k bs)"
  by (simp add: readData_eq fromBigEndian_def)

text \<open>C13: decoding the code assembled from a list of opcodes with their data gives the list back,
  when every datum fits in the bytes the instruction table gives its opcode.\<close>

theorem eachInstruction_encode:
  "list_all (\<lambda>c. bytesRequired (snd c) \<le> dataSize (fst c)) cs \<Longrightarrow>
     eachInstruction (concat (map encodeInstruction cs)) = cs"
  by (induction cs)
    (auto simp: encodeInstruction_def eachInstruction_Cons readData_0 fromBigEndian_toBigEndian_id)

theorem eachInstruction_encode_witness:
  "eachInstruction (concat (map encodeInstruction [(i_PUSH2, 513), (i_ADD, 0)])) =
     [(i_PUSH2, 513), (i_ADD, 0)]"
  by (rule eachInstruction_encode) code_simp

lemma fromBigEndian_zeros:
  "fromBigEndian (bs @ replicate n 0) = push_bit (8 * n) (fromBigEndian bs)"
proof (induction n)
  case 0
  then show ?case by simp
next
  case (Suc n)
  have "bs @ replicate (Suc n) 0 = (bs @ replicate n 0) @ [0]"
    by (simp add: replicate_append_same)
  then show ?case
    by (simp only: fromBigEndian_snoc Suc) (simp add: push_bit_push_bit add.commute)
qed

lemma toBigEndian_padded:
  "length bs \<le> k \<Longrightarrow> k \<le> 32 \<Longrightarrow>
     toBigEndian k (push_bit (8 * (k - length bs)) (fromBigEndian bs) :: u256) =
       bs @ replicate (k - length bs) 0"
  using toBigEndian_fromBigEndian [of "bs @ replicate (k - length bs) 0", where 'a = 256]
  by (simp add: fromBigEndian_zeros)

text \<open>C14: \<open>eachInstruction\<close> decodes every byte string, valid or not: its calls, encoded again, are
  the byte string, followed by the zeros that pad the data of a last truncated push.\<close>

theorem eachInstruction_complete:
  "\<exists>n. concat (map encodeInstruction (eachInstruction mem)) = mem @ replicate n 0"
proof (induction mem rule: eachInstruction.induct)
  case 1
  then show ?case by simp
next
  case (2 i mem)
  define k where "k = dataSize i"
  have IH: "\<exists>n. concat (map encodeInstruction (eachInstruction (drop k mem))) =
      drop k mem @ replicate n 0"
    using 2 [OF refl refl] by (simp add: k_def readData_0 dataSize_alt)
  show ?case
  proof (cases "length mem < k")
    case True
    then show ?thesis
      using dataSize_le [of i] toBigEndian_padded [of mem k]
      by (simp add: eachInstruction_Cons readData_0 encodeInstruction_def flip: k_def)
  next
    case False
    then have "length (take k mem) = k" by simp
    then have "toBigEndian k (fromBigEndian (take k mem) :: u256) = take k mem"
      using dataSize_le [of i] toBigEndian_fromBigEndian [of "take k mem", where 'a = 256]
      by (simp flip: k_def)
    moreover obtain n where "concat (map encodeInstruction (eachInstruction (drop k mem))) =
        drop k mem @ replicate n 0"
      using IH by blast
    ultimately have "concat (map encodeInstruction (eachInstruction (i # mem))) =
        i # (take k mem @ drop k mem) @ replicate n 0"
      using False by (simp add: eachInstruction_Cons readData_0 encodeInstruction_def flip: k_def)
    then show ?thesis by (intro exI [of _ n]) simp
  qed
qed

end
