(* ===== verification/SourceLocation.thy ===== *)
theory SourceLocation
  imports Prelude
begin

section \<open>Source locations (liblangutil/SourceLocation)\<close>

text \<open>
  A half-open interval of positions in a character stream. The stream is a shared pointer
  in the code: here an optional pair of the object's identity, which the pointer comparisons
  read, and its name, which the order and the printer read.
\<close>

record SourceLocation =
  sl_start :: int
  sl_end :: int
  sl_source :: "(nat \<times> string) option"

definition noLocation :: SourceLocation where
  "noLocation = \<lparr>sl_start = - 1, sl_end = - 1, sl_source = None\<rparr>"

text \<open>\<open>source.get()\<close>: the identity, \<open>None\<close> for the null pointer.\<close>

definition sourcePtr :: "SourceLocation \<Rightarrow> nat option" where
  "sourcePtr l = map_option fst (sl_source l)"

definition location_eq :: "SourceLocation \<Rightarrow> SourceLocation \<Rightarrow> bool" where
  "location_eq a b \<longleftrightarrow> sourcePtr a = sourcePtr b \<and> sl_start a = sl_start b \<and> sl_end a = sl_end b"

definition location_isEmpty :: "SourceLocation \<Rightarrow> bool" where
  "location_isEmpty l \<longleftrightarrow> sl_start l = - 1 \<and> sl_end l = - 1"

text \<open>\<open>std::string\<close> compares bytes, lexicographically.\<close>

definition string_less :: "string \<Rightarrow> string \<Rightarrow> bool" where
  "string_less a b \<longleftrightarrow> ord_class.lexordp (map of_char a :: nat list) (map of_char b)"

definition location_less :: "SourceLocation \<Rightarrow> SourceLocation \<Rightarrow> bool" where
  "location_less a b =
     (case (sl_source a, sl_source b) of
        (Some (_, n), Some (_, m)) \<Rightarrow>
          string_less n m \<or> n = m \<and>
            (sl_start a < sl_start b \<or> sl_start a = sl_start b \<and> sl_end a < sl_end b)
      | (s, t) \<Rightarrow>
          s = None \<and> t \<noteq> None \<or> (s = None) = (t = None) \<and>
            (sl_start a < sl_start b \<or> sl_start a = sl_start b \<and> sl_end a < sl_end b))"

definition location_contains :: "SourceLocation \<Rightarrow> SourceLocation \<Rightarrow> bool" where
  "location_contains a b =
     (if location_isEmpty a \<or> location_isEmpty b \<or> sourcePtr a \<noteq> sourcePtr b then False
      else sl_start a \<le> sl_start b \<and> sl_end b \<le> sl_end a)"

definition location_intersects :: "SourceLocation \<Rightarrow> SourceLocation \<Rightarrow> bool" where
  "location_intersects a b =
     (if location_isEmpty a \<or> location_isEmpty b \<or> sourcePtr a \<noteq> sourcePtr b then False
      else sl_start b < sl_end a \<and> sl_start a < sl_end b)"

lemma location_intersects_sym: "location_intersects a b = location_intersects b a"
  by (auto simp: location_intersects_def)

lemma location_contains_trans:
  "location_contains a b \<Longrightarrow> location_contains b c \<Longrightarrow> location_contains a c"
  by (auto simp: location_contains_def split: if_splits)

lemma location_intersects_iff:
  "location_intersects a b \<longleftrightarrow>
     \<not> location_isEmpty a \<and> \<not> location_isEmpty b \<and> sourcePtr a = sourcePtr b \<and>
     (if sl_start a < sl_end a \<and> sl_start b < sl_end b
      then {sl_start a..<sl_end a} \<inter> {sl_start b..<sl_end b} \<noteq> {}
      else sl_start b < sl_end a \<and> sl_start a < sl_end b)"
  by (auto simp: location_intersects_def disjoint_iff max_def
      intro: exI [of _ "max (sl_start a) (sl_start b)"])

end
