(* ===== verification/AssemblyItem.thy ===== *)
theory AssemblyItem
  imports Instruction SourceLocation
begin

section \<open>Assembly items (libevmasm/AssemblyItem)\<close>

text \<open>
  The items of an assembly: opcodes, pushes of constants, tags, data and sub-assembly
  references, with the accessors and printers of \<open>AssemblyItem.h\<close> and
  \<open>AssemblyItem.cpp\<close>. \<open>size_t\<close> is a 64-bit word, as the \<open>static_assert\<close> of the file
  allows; sizes in bytes are \<open>nat\<close>.
\<close>

datatype AssemblyItemType =
    UndefinedItem
  | Operation
  | Push
  | PushString
  | PushTag
  | PushSub
  | PushSubSize
  | PushProgramSize
  | Tag
  | PushData
  | PushLibraryAddress
  | PushDeployTimeAddress

text \<open>The enum's values, which \<open>operator<\<close> of the item compares.\<close>

fun itemTypeValue :: "AssemblyItemType \<Rightarrow> nat" where
  "itemTypeValue UndefinedItem = 0"
| "itemTypeValue Operation = 1"
| "itemTypeValue Push = 2"
| "itemTypeValue PushString = 3"
| "itemTypeValue PushTag = 4"
| "itemTypeValue PushSub = 5"
| "itemTypeValue PushSubSize = 6"
| "itemTypeValue PushProgramSize = 7"
| "itemTypeValue Tag = 8"
| "itemTypeValue PushData = 9"
| "itemTypeValue PushLibraryAddress = 10"
| "itemTypeValue PushDeployTimeAddress = 11"

lemma itemTypeValue_inject: "itemTypeValue s = itemTypeValue t \<Longrightarrow> s = t"
  by (cases s; cases t; simp)

instantiation AssemblyItemType :: linorder
begin

definition less_eq_AssemblyItemType :: "AssemblyItemType \<Rightarrow> AssemblyItemType \<Rightarrow> bool" where
  "less_eq_AssemblyItemType s t \<longleftrightarrow> itemTypeValue s \<le> itemTypeValue t"

definition less_AssemblyItemType :: "AssemblyItemType \<Rightarrow> AssemblyItemType \<Rightarrow> bool" where
  "less_AssemblyItemType s t \<longleftrightarrow> itemTypeValue s < itemTypeValue t"

instance
  by standard
    (auto simp: less_eq_AssemblyItemType_def less_AssemblyItemType_def itemTypeValue_inject)

end

datatype JumpType = Ordinary | IntoFunction | OutOfFunction

text \<open>
  The members of the class. \<open>m_instruction\<close> is valid only for an \<open>Operation\<close> and
  \<open>m_data\<close> only for the other types; the constructors leave the other one 0, where the
  code leaves it uninitialised or null, and no accessor reads it.
\<close>

record AssemblyItem =
  m_type :: AssemblyItemType
  m_instruction :: instruction
  m_data :: u256
  m_location :: SourceLocation
  m_jumpType :: JumpType
  m_pushedValue :: "u256 option"

type_synonym AssemblyItems = "AssemblyItem list"

subsection \<open>Constructors\<close>

definition itemOfType :: "AssemblyItemType \<Rightarrow> u256 \<Rightarrow> SourceLocation \<Rightarrow> AssemblyItem" where
  "itemOfType t d l =
     \<lparr>m_type = t,
      m_instruction = (if t = Operation then ucast d else 0),
      m_data = (if t = Operation then 0 else d),
      m_location = l, m_jumpType = Ordinary, m_pushedValue = None\<rparr>"

definition itemOp :: "instruction \<Rightarrow> SourceLocation \<Rightarrow> AssemblyItem" where
  "itemOp i l =
     \<lparr>m_type = Operation, m_instruction = i, m_data = 0,
      m_location = l, m_jumpType = Ordinary, m_pushedValue = None\<rparr>"

definition itemPush :: "u256 \<Rightarrow> SourceLocation \<Rightarrow> AssemblyItem" where
  "itemPush v l = itemOfType Push v l"

text \<open>The implicit conversions, with the default location.\<close>

abbreviation opItem :: "instruction \<Rightarrow> AssemblyItem" where
  "opItem i \<equiv> itemOp i noLocation"

abbreviation pushItem :: "u256 \<Rightarrow> AssemblyItem" where
  "pushItem v \<equiv> itemPush v noLocation"

subsection \<open>Accessors\<close>

definition instructionOf :: "AssemblyItem \<Rightarrow> instruction result" where
  "instructionOf it =
     (if m_type it = Operation then Inr (m_instruction it) else Inl (DevException []))"

definition dataOf :: "AssemblyItem \<Rightarrow> u256 result" where
  "dataOf it = (if m_type it \<noteq> Operation then Inr (m_data it) else Inl (DevException []))"

definition setData :: "AssemblyItem \<Rightarrow> u256 \<Rightarrow> AssemblyItem result" where
  "setData it d =
     (if m_type it \<noteq> Operation then Inr (it\<lparr>m_data := d\<rparr>) else Inl (DevException []))"

text \<open>\<open>tag()\<close> and \<open>pushTag()\<close>.\<close>

definition tagOf :: "AssemblyItem \<Rightarrow> AssemblyItem result" where
  "tagOf it = (if m_type it = PushTag \<or> m_type it = Tag
               then Inr (itemOfType Tag (m_data it) noLocation) else Inl (DevException []))"

definition pushTagOf :: "AssemblyItem \<Rightarrow> AssemblyItem result" where
  "pushTagOf it = (if m_type it = PushTag \<or> m_type it = Tag
                   then Inr (itemOfType PushTag (m_data it) noLocation) else Inl (DevException []))"

definition splitForeignPushTag :: "AssemblyItem \<Rightarrow> (u64 \<times> u64) result" where
  "splitForeignPushTag it =
     (if m_type it = PushTag \<or> m_type it = Tag
      then let combined = m_data it;
               subId = ucast (drop_bit 64 combined - 1);
               tag = ucast (combined AND 0xffffffffffffffff)
           in Inr (subId, tag)
      else Inl (DevException []))"

definition setPushTagSubIdAndTag :: "AssemblyItem \<Rightarrow> u64 \<Rightarrow> u64 \<Rightarrow> AssemblyItem result" where
  "setPushTagSubIdAndTag it subId tag =
     (if m_type it = PushTag \<or> m_type it = Tag
      then setData it
             (if subId \<noteq> - 1 then ucast tag OR push_bit 64 (ucast subId + 1) else ucast tag)
      else Inl (DevException []))"

definition toSubAssemblyTag :: "AssemblyItem \<Rightarrow> u64 \<Rightarrow> AssemblyItem result" where
  "toSubAssemblyTag it subId =
     bindE (dataOf it) (\<lambda>d.
     if \<not> d < push_bit 64 1 then Inl (DevException ''Tag already has subassembly set.'')
     else if \<not> (m_type it = PushTag \<or> m_type it = Tag) then Inl (DevException [])
     else let tag = ucast (d AND 0xffffffffffffffff)
          in setPushTagSubIdAndTag (it\<lparr>m_type := PushTag\<rparr>) subId tag)"

subsection \<open>Comparisons\<close>

definition item_eq :: "AssemblyItem \<Rightarrow> AssemblyItem \<Rightarrow> bool" where
  "item_eq a b =
     (if m_type a \<noteq> m_type b then False
      else if m_type a = Operation then m_instruction a = m_instruction b
      else m_data a = m_data b)"

definition item_less :: "AssemblyItem \<Rightarrow> AssemblyItem \<Rightarrow> bool" where
  "item_less a b =
     (if m_type a \<noteq> m_type b then m_type a < m_type b
      else if m_type a = Operation then m_instruction a < m_instruction b
      else m_data a < m_data b)"

text \<open>The comparison \<open>item == Instruction::X\<close>, through the implicit conversion.\<close>

definition is_op :: "AssemblyItem \<Rightarrow> instruction \<Rightarrow> bool" where
  "is_op it i \<longleftrightarrow> item_eq it (opItem i)"

subsection \<open>Sizes and stack effect\<close>

definition item_bytesRequired :: "AssemblyItem \<Rightarrow> nat \<Rightarrow> nat result" where
  "item_bytesRequired it addressLength =
     (case m_type it of
        Operation \<Rightarrow> Inr 1
      | Tag \<Rightarrow> Inr 1
      | PushString \<Rightarrow> Inr (1 + 32)
      | Push \<Rightarrow> Inr (1 + max 1 (bytesRequired (m_data it)))
      | PushSubSize \<Rightarrow> Inr (1 + 4)
      | PushProgramSize \<Rightarrow> Inr (1 + 4)
      | PushTag \<Rightarrow> Inr (1 + addressLength)
      | PushData \<Rightarrow> Inr (1 + addressLength)
      | PushSub \<Rightarrow> Inr (1 + addressLength)
      | PushLibraryAddress \<Rightarrow> Inr (1 + 20)
      | PushDeployTimeAddress \<Rightarrow> Inr (1 + 20)
      | UndefinedItem \<Rightarrow> Inl InvalidOpcode)"

fun items_bytesRequired :: "AssemblyItems \<Rightarrow> nat \<Rightarrow> nat result" where
  "items_bytesRequired [] addressLength = Inr 0"
| "items_bytesRequired (it # its) addressLength =
     bindE (item_bytesRequired it addressLength) (\<lambda>n.
     bindE (items_bytesRequired its addressLength) (\<lambda>m. Inr (n + m)))"

definition item_arguments :: "AssemblyItem \<Rightarrow> int" where
  "item_arguments it =
     (if m_type it = Operation then info_args (instructionInfo (m_instruction it)) else 0)"

definition item_returnValues :: "AssemblyItem \<Rightarrow> int" where
  "item_returnValues it =
     (case m_type it of
        Operation \<Rightarrow> info_ret (instructionInfo (m_instruction it))
      | Tag \<Rightarrow> 0
      | UndefinedItem \<Rightarrow> 0
      | _ \<Rightarrow> 1)"

definition item_deposit :: "AssemblyItem \<Rightarrow> int" where
  "item_deposit it = item_returnValues it - item_arguments it"

definition canBeFunctional :: "AssemblyItem \<Rightarrow> bool" where
  "canBeFunctional it =
     (if m_jumpType it \<noteq> Ordinary then False
      else case m_type it of
        Operation \<Rightarrow> \<not> isDupInstruction (m_instruction it) \<and> \<not> isSwapInstruction (m_instruction it)
      | Tag \<Rightarrow> False
      | UndefinedItem \<Rightarrow> False
      | _ \<Rightarrow> True)"

subsection \<open>Printing\<close>

definition getJumpTypeAsString :: "AssemblyItem \<Rightarrow> string" where
  "getJumpTypeAsString it =
     (case m_jumpType it of
        IntoFunction \<Rightarrow> ''[in]''
      | OutOfFunction \<Rightarrow> ''[out]''
      | Ordinary \<Rightarrow> [])"

definition toAssemblyText :: "AssemblyItem \<Rightarrow> string result" where
  "toAssemblyText it =
     bindE
      (case m_type it of
         Operation \<Rightarrow>
           if \<not> isValidInstruction (m_instruction it)
           then Inl (AssemblyException ''Invalid instruction.'')
           else Inr (map tolower (info_name (instructionInfo (m_instruction it))))
       | Push \<Rightarrow> Inr (toHex (toCompactBigEndian (m_data it) 1) 1 Add)
       | PushString \<Rightarrow> Inr (''data_'' @ toHex256 (m_data it) DontAdd)
       | PushTag \<Rightarrow>
           bindE (splitForeignPushTag it) (\<lambda>(sub, tag).
             if sub = - 1 then Inr (''tag_'' @ toDec (unat tag))
             else Inr (''tag_'' @ toDec (unat sub) @ ''_'' @ toDec (unat tag)))
       | Tag \<Rightarrow>
           if m_data it < 0x10000
           then Inr (''tag_'' @ toDec (unat (ucast (m_data it) :: u64)) @ '':'')
           else Inl (AssemblyException ''Declaration of sub-assembly tag.'')
       | PushData \<Rightarrow> Inr (''data_'' @ toHex256 (m_data it) DontAdd)
       | PushSub \<Rightarrow> Inr (''dataOffset(sub_'' @ toDec (unat (ucast (m_data it) :: u64)) @ '')'')
       | PushSubSize \<Rightarrow> Inr (''dataSize(sub_'' @ toDec (unat (ucast (m_data it) :: u64)) @ '')'')
       | PushProgramSize \<Rightarrow> Inr ''bytecodeSize''
       | PushLibraryAddress \<Rightarrow>
           Inr (''linkerSymbol('' @ [CHR 0x22] @ toHex256 (m_data it) DontAdd @ [CHR 0x22] @ '')'')
       | PushDeployTimeAddress \<Rightarrow> Inr ''deployTimeAddress()''
       | UndefinedItem \<Rightarrow> Inl (AssemblyException ''Invalid assembly item.''))
      (\<lambda>text.
        if m_jumpType it = IntoFunction then Inr (text @ [CHR 0x09] @ ''// in'')
        else if m_jumpType it = OutOfFunction then Inr (text @ [CHR 0x09] @ ''// out'')
        else Inr text)"

text \<open>\<open>operator<<\<close>; \<open>(unsigned)\<close> keeps the low 32 bits.\<close>

definition showItem :: "AssemblyItem \<Rightarrow> string result" where
  "showItem it =
     (case m_type it of
        Operation \<Rightarrow>
          Inr ('' '' @ info_name (instructionInfo (m_instruction it)) @
            (if m_instruction it = i_JUMP \<or> m_instruction it = i_JUMPI
             then [CHR 0x09] @ getJumpTypeAsString it else []))
      | Push \<Rightarrow> Inr ('' PUSH '' @ toHexNum (unat (m_data it)))
      | PushString \<Rightarrow> Inr ('' PushString'' @ toHexNum (unat (ucast (m_data it) :: u32)))
      | PushTag \<Rightarrow>
          bindE (splitForeignPushTag it) (\<lambda>(subId, tag).
            if subId = - 1 then Inr ('' PushTag '' @ toDec (unat tag))
            else Inr ('' PushTag '' @ toDec (unat subId) @ '':'' @ toDec (unat tag)))
      | Tag \<Rightarrow> Inr ('' Tag '' @ toDec (unat (m_data it)))
      | PushData \<Rightarrow> Inr ('' PushData '' @ toHexNum (unat (ucast (m_data it) :: u32)))
      | PushSub \<Rightarrow> Inr ('' PushSub '' @ toHexNum (unat (ucast (m_data it) :: u64)))
      | PushSubSize \<Rightarrow> Inr ('' PushSubSize '' @ toHexNum (unat (ucast (m_data it) :: u64)))
      | PushProgramSize \<Rightarrow> Inr '' PushProgramSize''
      | PushLibraryAddress \<Rightarrow>
          (let hash = toHex256 (m_data it) DontAdd
           in Inr ('' PushLibraryAddress '' @ take 8 hash @ ''...'' @ drop (length hash - 8) hash))
      | PushDeployTimeAddress \<Rightarrow> Inr '' PushDeployTimeAddress''
      | UndefinedItem \<Rightarrow> Inr '' ???'')"

subsection \<open>Laws\<close>

lemma itemOp_sel [simp]:
  "m_type (itemOp i l) = Operation" "m_instruction (itemOp i l) = i" "m_location (itemOp i l) = l"
  "m_jumpType (itemOp i l) = Ordinary"
  by (simp_all add: itemOp_def)

lemma itemOfType_sel [simp]:
  "m_type (itemOfType t d l) = t" "t \<noteq> Operation \<Longrightarrow> m_data (itemOfType t d l) = d"
  "m_location (itemOfType t d l) = l" "m_jumpType (itemOfType t d l) = Ordinary"
  by (simp_all add: itemOfType_def)

lemma itemPush_sel [simp]:
  "m_type (itemPush v l) = Push" "m_data (itemPush v l) = v" "m_location (itemPush v l) = l"
  by (simp_all add: itemPush_def)

lemma is_op_iff: "is_op it i \<longleftrightarrow> m_type it = Operation \<and> m_instruction it = i"
  by (auto simp: is_op_def item_eq_def)

lemma item_eq_refl [simp]: "item_eq a a"
  by (simp add: item_eq_def)

lemma item_eq_sym: "item_eq a b \<Longrightarrow> item_eq b a"
  by (auto simp: item_eq_def split: if_splits)

lemma item_eq_trans: "item_eq a b \<Longrightarrow> item_eq b c \<Longrightarrow> item_eq a c"
  by (auto simp: item_eq_def split: if_splits)

lemma item_less_irrefl: "\<not> item_less a a"
  by (simp add: item_less_def)

lemma item_less_trans: "item_less a b \<Longrightarrow> item_less b c \<Longrightarrow> item_less a c"
  by (auto simp: item_less_def split: if_splits dest: less_trans)

text \<open>The order of items is compatible with their equality: two items are equal exactly when
  neither is less than the other.\<close>

lemma item_less_eq_compat: "\<not> item_less a b \<and> \<not> item_less b a \<longleftrightarrow> item_eq a b"
  by (auto simp: item_less_def item_eq_def not_less intro: antisym)

lemma split_combined:
  fixes s t :: u64
  assumes "s \<noteq> - 1"
  shows "ucast (drop_bit 64 (ucast t OR push_bit 64 (ucast s + 1) :: u256) - 1) = s"
    and "ucast ((ucast t OR push_bit 64 (ucast s + 1) :: u256) AND 0xffffffffffffffff) = t"
proof -
  have mask: "(0xffffffffffffffff :: u256) = mask 64" by (simp add: mask_eq_exp_minus_1)
  have hi: "drop_bit 64 (ucast t :: u256) = 0"
    by (rule bit_word_eqI) (auto simp: bit_drop_bit_eq bit_ucast_iff dest: bit_imp_le_length)
  define w where "w = (ucast s + 1 :: u256)"
  have w: "unat w \<le> 2 ^ 64"
    using unat_less_length [of s]
    by (simp add: w_def unat_word_ariths unat_ucast_up less_eq_Suc_le mod_le_divisor
        order.trans [OF mod_less_eq_dividend])
  have "drop_bit 64 (push_bit 64 w) = w"
    by (rule drop_push_bit_word) (use w in simp)
  then have "drop_bit 64 (ucast t OR push_bit 64 (ucast s + 1) :: u256) = ucast s + 1"
    by (simp add: hi flip: w_def)
  then have "drop_bit 64 (ucast t OR push_bit 64 (ucast s + 1) :: u256) - 1 = ucast s"
    by (simp only:) simp
  then show "ucast (drop_bit 64 (ucast t OR push_bit 64 (ucast s + 1) :: u256) - 1) = s"
    by (simp only:) (rule bit_word_eqI, auto simp: bit_simps)
  show "ucast ((ucast t OR push_bit 64 (ucast s + 1) :: u256) AND 0xffffffffffffffff) = t"
    unfolding mask by (rule bit_word_eqI) (auto simp: bit_simps dest: bit_imp_le_length)
qed


lemma split_local:
  fixes t :: u64
  shows "ucast (drop_bit 64 (ucast t :: u256) - 1) = (- 1 :: u64)"
    and "ucast ((ucast t :: u256) AND 0xffffffffffffffff) = t"
proof -
  have mask: "(0xffffffffffffffff :: u256) = mask 64" by (simp add: mask_eq_exp_minus_1)
  have hi: "drop_bit 64 (ucast t :: u256) = 0"
    by (rule bit_word_eqI) (auto simp: bit_drop_bit_eq bit_ucast_iff dest: bit_imp_le_length)
  show "ucast (drop_bit 64 (ucast t :: u256) - 1) = (- 1 :: u64)"
    unfolding hi by (rule bit_word_eqI) (auto simp: bit_simps)
  show "ucast ((ucast t :: u256) AND 0xffffffffffffffff) = t"
    unfolding mask by (rule bit_word_eqI) (auto simp: bit_simps dest: bit_imp_le_length)
qed

text \<open>
  Writing the sub-assembly id and the tag into an item and splitting it gives them back,
  for every pair: the id \<open>size_t(-1)\<close> of a local tag included.
\<close>

lemma split_setPushTag:
  assumes "m_type it = PushTag \<or> m_type it = Tag"
  shows "bindE (setPushTagSubIdAndTag it s t) splitForeignPushTag = Inr (s, t)"
  using assms split_combined [of s t] split_local [of t]
  by (auto simp: setPushTagSubIdAndTag_def setData_def splitForeignPushTag_def Let_def)

text \<open>C16: moving a local tag into a sub-assembly makes a push tag that splits into the
  sub-assembly and the tag, for every 64-bit tag.\<close>

theorem split_toSubAssemblyTag:
  assumes "m_type it = PushTag \<or> m_type it = Tag" and "m_data it < push_bit 64 1"
  shows "\<exists>it'. toSubAssemblyTag it s = Inr it' \<and> m_type it' = PushTag \<and>
     splitForeignPushTag it' = Inr (s, ucast (m_data it))"
proof -
  define r where "r = it\<lparr>m_type := PushTag\<rparr>"
  define t :: u64 where "t = ucast (m_data it AND 0xffffffffffffffff)"
  have mask: "(0xffffffffffffffff :: u256) = mask 64" by (simp add: mask_eq_exp_minus_1)
  have t: "t = ucast (m_data it)"
    unfolding t_def mask by (rule bit_word_eqI) (auto simp: bit_simps)
  have sub: "toSubAssemblyTag it s = setPushTagSubIdAndTag r s t"
    using assms by (auto simp: toSubAssemblyTag_def dataOf_def r_def t_def)
  have "bindE (setPushTagSubIdAndTag r s t) splitForeignPushTag = Inr (s, t)"
    by (rule split_setPushTag) (simp add: r_def)
  then obtain it' where it': "setPushTagSubIdAndTag r s t = Inr it'"
    "splitForeignPushTag it' = Inr (s, t)"
    by (auto simp: bindE_Inr_iff)
  moreover have "m_type it' = PushTag"
    using it'(1) by (auto simp: setPushTagSubIdAndTag_def setData_def r_def split: if_splits)
  ultimately show ?thesis using sub t by auto
qed

theorem split_toSubAssemblyTag_witness:
  "\<exists>it'. toSubAssemblyTag (itemOfType Tag 7 noLocation) 3 = Inr it' \<and> m_type it' = PushTag \<and>
     splitForeignPushTag it' = Inr (3, 7)"
  using split_toSubAssemblyTag [of "itemOfType Tag 7 noLocation" 3] by simp

text \<open>An item other than an undefined one takes between 1 and 33 bytes, when addresses take
  at most 32.\<close>

theorem item_bytesRequired_le:
  "item_bytesRequired it a = Inr n \<Longrightarrow> a \<le> 32 \<Longrightarrow> 1 \<le> n \<and> n \<le> 33"
  using bytesRequired_256 [of "m_data it"]
  by (auto simp: item_bytesRequired_def split: AssemblyItemType.splits)

theorem item_bytesRequired_le_witness: "1 \<le> (33::nat) \<and> (33::nat) \<le> 33"
proof -
  have "item_bytesRequired (pushItem (- 1)) 4 = Inr 33" by code_simp
  from item_bytesRequired_le [OF this] show ?thesis by simp
qed

lemma item_bytesRequired_Inr:
  "(\<exists>n. item_bytesRequired it a = Inr n) \<longleftrightarrow> m_type it \<noteq> UndefinedItem"
  by (cases "m_type it") (auto simp: item_bytesRequired_def)

lemma items_bytesRequired_append:
  "items_bytesRequired (xs @ ys) a =
     bindE (items_bytesRequired xs a) (\<lambda>n. bindE (items_bytesRequired ys a) (\<lambda>m. Inr (n + m)))"
proof (induction xs)
  case Nil
  then show ?case by (cases "items_bytesRequired ys a") auto
next
  case (Cons x xs)
  then show ?case
    by (cases "item_bytesRequired x a"; cases "items_bytesRequired xs a";
        cases "items_bytesRequired ys a") auto
qed

lemma items_bytesRequired_total:
  "(\<exists>n. items_bytesRequired its a = Inr n) \<longleftrightarrow> list_all (\<lambda>it. m_type it \<noteq> UndefinedItem) its"
  by (induction its) (auto simp: bindE_Inr_iff simp flip: item_bytesRequired_Inr [of _ a])

lemma item_arguments_nonneg: "0 \<le> item_arguments it"
  using info_args_range by (simp add: item_arguments_def)

lemma item_returnValues_nonneg: "0 \<le> item_returnValues it"
  using info_ret_range by (simp add: item_returnValues_def split: AssemblyItemType.splits)

text \<open>C15: writing a sub-assembly id and a tag into a tag item and splitting the item gives both
  back, for all 64-bit values, the id \<open>size_t(-1)\<close> of a local tag included.\<close>

theorem foreign_tag_roundtrip:
  assumes "m_type it = PushTag \<or> m_type it = Tag"
  shows "bindE (setPushTagSubIdAndTag it s t) splitForeignPushTag = Inr (s, t)"
  using assms by (rule split_setPushTag)

theorem foreign_tag_roundtrip_witness:
  "bindE (setPushTagSubIdAndTag (itemOfType PushTag 0 noLocation) (- 1) (- 1)) splitForeignPushTag =
     Inr (- 1, - 1)"
  by (rule foreign_tag_roundtrip) simp

end
