(* ===== verification/SemanticInformation.thy ===== *)
theory SemanticInformation
  imports AssemblyItem
begin

section \<open>Semantic classification of items (libevmasm/SemanticInformation)\<close>

text \<open>
  The predicates of \<open>SemanticInformation.cpp\<close>, with the source's case lists, and what they
  promise of each other and of the instruction table.
\<close>

definition itemIsDup :: "AssemblyItem \<Rightarrow> bool" where
  "itemIsDup it = (if m_type it \<noteq> Operation then False else isDupInstruction (m_instruction it))"

definition itemIsSwap :: "AssemblyItem \<Rightarrow> bool" where
  "itemIsSwap it = (if m_type it \<noteq> Operation then False else isSwapInstruction (m_instruction it))"

definition breaksCSEAnalysisBlock :: "AssemblyItem \<Rightarrow> bool \<Rightarrow> bool" where
  "breaksCSEAnalysisBlock it msizeImportant =
     (case m_type it of
        UndefinedItem \<Rightarrow> True
      | Tag \<Rightarrow> True
      | PushDeployTimeAddress \<Rightarrow> True
      | Operation \<Rightarrow>
          (let i = m_instruction it; inf = instructionInfo i in
           if itemIsSwap it \<or> itemIsDup it then False
           else if i = i_GAS \<or> i = i_PC then True
           else if i = i_MSIZE then True
           else if i = i_SSTORE then False
           else if i = i_MSTORE then False
           else if \<not> msizeImportant \<and> (i = i_MLOAD \<or> i = i_KECCAK256) then False
           else info_sideEffects inf \<or> info_args inf > 2)
      | _ \<Rightarrow> False)"

definition isCommutativeOperation :: "AssemblyItem \<Rightarrow> bool" where
  "isCommutativeOperation it =
     (if m_type it \<noteq> Operation then False
      else m_instruction it \<in> set [i_ADD, i_MUL, i_EQ, i_AND, i_OR, i_XOR])"

definition isJumpInstruction :: "AssemblyItem \<Rightarrow> bool" where
  "isJumpInstruction it \<longleftrightarrow> item_eq it (opItem i_JUMP) \<or> item_eq it (opItem i_JUMPI)"

definition altersControlFlow :: "AssemblyItem \<Rightarrow> bool" where
  "altersControlFlow it =
     (if m_type it \<noteq> Operation then False
      else m_instruction it \<in>
        set [i_JUMP, i_JUMPI, i_RETURN, i_SELFDESTRUCT, i_STOP, i_INVALID, i_REVERT])"

definition isDeterministic :: "AssemblyItem \<Rightarrow> bool" where
  "isDeterministic it =
     (if m_type it \<noteq> Operation then True
      else m_instruction it \<notin>
        set [i_CALL, i_CALLCODE, i_DELEGATECALL, i_STATICCALL, i_CREATE, i_CREATE2, i_GAS, i_PC,
             i_MSIZE, i_BALANCE, i_EXTCODESIZE, i_EXTCODEHASH, i_RETURNDATACOPY,
             i_RETURNDATASIZE])"

definition movable :: "instruction \<Rightarrow> bool" where
  "movable i =
     (if isDupInstruction i \<or> isSwapInstruction i then False
      else if info_sideEffects (instructionInfo i) then False
      else i \<notin> set [i_KECCAK256, i_BALANCE, i_EXTCODESIZE, i_EXTCODEHASH, i_RETURNDATASIZE,
                    i_SLOAD, i_PC, i_MSIZE, i_GAS])"

definition invalidatesMemory :: "instruction \<Rightarrow> bool" where
  "invalidatesMemory i \<longleftrightarrow>
     i \<in> set [i_CALLDATACOPY, i_CODECOPY, i_EXTCODECOPY, i_RETURNDATACOPY, i_MSTORE, i_MSTORE8,
              i_CALL, i_CALLCODE, i_DELEGATECALL, i_STATICCALL]"

definition invalidatesStorage :: "instruction \<Rightarrow> bool" where
  "invalidatesStorage i \<longleftrightarrow>
     i \<in> set [i_CALL, i_CALLCODE, i_DELEGATECALL, i_CREATE, i_CREATE2, i_SSTORE]"

definition invalidInViewFunctions :: "instruction \<Rightarrow> bool" where
  "invalidInViewFunctions i \<longleftrightarrow>
     i \<in> set [i_SSTORE, i_JUMP, i_JUMPI, i_LOG0, i_LOG1, i_LOG2, i_LOG3, i_LOG4, i_CREATE, i_CALL,
              i_CALLCODE, i_DELEGATECALL, i_CREATE2, i_SELFDESTRUCT]"

definition invalidInPureFunctions :: "instruction \<Rightarrow> bool" where
  "invalidInPureFunctions i =
     (if i \<in> set [i_ADDRESS, i_BALANCE, i_ORIGIN, i_CALLER, i_CALLVALUE, i_GAS, i_GASPRICE,
                  i_EXTCODESIZE, i_EXTCODECOPY, i_EXTCODEHASH, i_BLOCKHASH, i_COINBASE,
                  i_TIMESTAMP, i_NUMBER, i_DIFFICULTY, i_GASLIMIT, i_ETHASH, i_STATICCALL,
                  i_SLOAD]
      then True else invalidInViewFunctions i)"

subsection \<open>Agreement with the instruction table\<close>

lemma isCommutativeOperation_iff:
  "isCommutativeOperation it \<longleftrightarrow>
     m_type it = Operation \<and> m_instruction it \<in> set [i_ADD, i_MUL, i_EQ, i_AND, i_OR, i_XOR]"
  by (simp only: isCommutativeOperation_def) simp

text \<open>Every opcode that may change memory or storage, or that is not allowed in view functions,
  is a valid opcode the instruction table marks as having side effects.\<close>

theorem invalidates_sideEffects:
  assumes "invalidatesMemory i \<or> invalidatesStorage i \<or> invalidInViewFunctions i"
  shows "isValidInstruction i \<and> info_sideEffects (instructionInfo i)"
proof -
  have "list_all (\<lambda>i. isValidInstruction i \<and> info_sideEffects (instructionInfo i))
      [i_CALLDATACOPY, i_CODECOPY, i_EXTCODECOPY, i_RETURNDATACOPY, i_MSTORE, i_MSTORE8,
       i_CALL, i_CALLCODE, i_DELEGATECALL, i_STATICCALL, i_CREATE, i_CREATE2, i_SSTORE, i_JUMP,
       i_JUMPI, i_LOG0, i_LOG1, i_LOG2, i_LOG3, i_LOG4, i_SELFDESTRUCT]"
    unfolding list.pred_inject by (simp add: instr_table)
  then show ?thesis
    using assms
    by (auto simp: invalidatesMemory_def invalidatesStorage_def invalidInViewFunctions_def)
qed

theorem invalidates_sideEffects_witness:
  "isValidInstruction i_SSTORE \<and> info_sideEffects (instructionInfo i_SSTORE)"
  by (rule invalidates_sideEffects) (simp add: invalidatesStorage_def)

end
