(* ===== verification/SimplificationRules.thy ===== *)
theory SimplificationRules
  imports SemanticInformation "HOL-Library.List_Lexorder"
begin

section \<open>Expressions and patterns (libevmasm/ExpressionClasses.h, SimplificationRules)\<close>

text \<open>
  The expressions of the common subexpression eliminator, the container of their equivalence
  classes, and the patterns that simplification rules match them against. An \<open>Id\<close> is a
  natural number below \<open>2 ^ 32\<close>; the pointers to items are never null where the code runs
  (every expression is built with an item), so an expression holds its item, and the copies
  that \<open>storeItem\<close> keeps alive are not part of the state.
\<close>

type_synonym Id = nat
type_synonym Ids = "Id list"

record Expression =
  e_id :: Id
  e_item :: AssemblyItem
  e_arguments :: Ids
  e_sequenceNumber :: nat

text \<open>\<open>Id(-1)\<close>, which \<open>tryToSimplify\<close> returns when no rule applies.\<close>

definition noId :: Id where
  "noId = 2 ^ 32 - 1"

definition expression_less :: "Expression \<Rightarrow> Expression \<Rightarrow> bool" where
  "expression_less a b =
     (let t = m_type (e_item a); u = m_type (e_item b);
          rest = (e_arguments a < e_arguments b \<or>
            e_arguments a = e_arguments b \<and> e_sequenceNumber a < e_sequenceNumber b)
      in
      if t \<noteq> u then t < u
      else if t = Operation then
        m_instruction (e_item a) < m_instruction (e_item b) \<or>
        m_instruction (e_item a) = m_instruction (e_item b) \<and> rest
      else m_data (e_item a) < m_data (e_item b) \<or> m_data (e_item a) = m_data (e_item b) \<and> rest)"

text \<open>The equivalence \<open>std::set\<close> derives from the order.\<close>

definition expression_equiv :: "Expression \<Rightarrow> Expression \<Rightarrow> bool" where
  "expression_equiv a b \<longleftrightarrow> \<not> expression_less a b \<and> \<not> expression_less b a"

lemma expression_equiv_iff:
  "expression_equiv a b \<longleftrightarrow>
     item_eq (e_item a) (e_item b) \<and> e_arguments a = e_arguments b \<and>
     e_sequenceNumber a = e_sequenceNumber b"
  by (auto simp: expression_equiv_def expression_less_def item_eq_def Let_def not_less)

lemma expression_less_trans: "expression_less a b \<Longrightarrow> expression_less b c \<Longrightarrow> expression_less a c"
  by (auto simp: expression_less_def Let_def split: if_splits)

lemma expression_less_irrefl: "\<not> expression_less a a"
  by (simp add: expression_less_def)

text \<open>
  The container. \<open>m_expressions\<close> is the content of the \<open>std::set\<close>, the elements in the
  order of their insertion.
\<close>

record ExpressionClasses =
  m_representatives :: "Expression list"
  m_expressions :: "Expression list"

definition setFind :: "Expression list \<Rightarrow> Expression \<Rightarrow> Expression option" where
  "setFind es e = find (expression_equiv e) es"

definition setInsert :: "Expression list \<Rightarrow> Expression \<Rightarrow> Expression list" where
  "setInsert es e = (if setFind es e = None then es @ [e] else es)"

definition representative :: "ExpressionClasses \<Rightarrow> Id \<Rightarrow> Expression result" where
  "representative cs i =
     (if i < length (m_representatives cs) then Inr (m_representatives cs ! i) else Inl OutOfRange)"

subsection \<open>Patterns\<close>

datatype Pattern =
  Pattern
    (p_type: AssemblyItemType)
    (p_requireDataMatch: bool)
    (p_instruction: instruction)
    (p_data: "u256 option")
    (p_arguments: "Pattern list")
    (p_matchGroup: nat)

text \<open>
  The map of match groups, shared by the patterns of a \<open>Rules\<close> object through a pointer: a
  parameter of the operations that use it. 0 is no group.
\<close>

type_synonym MatchGroups = "nat \<rightharpoonup> Expression"

definition patValue :: "u256 \<Rightarrow> Pattern" where
  "patValue v = Pattern Push True 0 (Some v) [] 0"

definition patType :: "AssemblyItemType \<Rightarrow> Pattern" where
  "patType t = Pattern t False 0 None [] 0"

definition patOp :: "instruction \<Rightarrow> Pattern list \<Rightarrow> Pattern" where
  "patOp i args = Pattern Operation False i None args 0"

fun setMatchGroup :: "Pattern \<Rightarrow> nat \<Rightarrow> Pattern" where
  "setMatchGroup (Pattern t r i d args g) n = Pattern t r i d args n"

definition patInstruction :: "Pattern \<Rightarrow> instruction result" where
  "patInstruction p =
     (if p_type p = Operation then Inr (p_instruction p) else Inl (OptimizerException []))"

definition patData :: "Pattern \<Rightarrow> u256 result" where
  "patData p = (case p_data p of Some d \<Rightarrow> Inr d | None \<Rightarrow> Inl (OptimizerException []))"

definition matchGroupValue :: "Pattern \<Rightarrow> MatchGroups \<Rightarrow> Expression result" where
  "matchGroupValue p mg =
     (if \<not> 0 < p_matchGroup p then Inl (OptimizerException [])
      else case mg (p_matchGroup p) of
          Some e \<Rightarrow> Inr e
        | None \<Rightarrow> Inl (OptimizerException []))"

text \<open>\<open>id()\<close> and \<open>d()\<close>.\<close>

definition patId :: "Pattern \<Rightarrow> MatchGroups \<Rightarrow> Id result" where
  "patId p mg = bindE (matchGroupValue p mg) (\<lambda>e. Inr (e_id e))"

definition patD :: "Pattern \<Rightarrow> MatchGroups \<Rightarrow> u256 result" where
  "patD p mg = bindE (matchGroupValue p mg) (\<lambda>e. dataOf (e_item e))"

definition matchesBaseItem :: "Pattern \<Rightarrow> AssemblyItem \<Rightarrow> bool result" where
  "matchesBaseItem p it =
     (if p_type p = UndefinedItem then Inr True
      else if p_type p \<noteq> m_type it then Inr False
      else if p_type p = Operation then Inr (p_instruction p = m_instruction it)
      else if p_requireDataMatch p then
        bindE (patData p) (\<lambda>d. bindE (dataOf it) (\<lambda>d'. Inr (d = d')))
      else Inr True)"

definition matchGroupStep :: "nat \<Rightarrow> Expression \<Rightarrow> MatchGroups \<Rightarrow> bool \<times> MatchGroups" where
  "matchGroupStep g e mg =
     (if g = 0 then (True, mg)
      else case mg g of
          None \<Rightarrow> (True, mg(g \<mapsto> e))
        | Some e' \<Rightarrow> (e_id e' = e_id e, mg))"

fun matches :: "Pattern \<Rightarrow> Expression \<Rightarrow> ExpressionClasses \<Rightarrow> MatchGroups \<Rightarrow>
    (bool \<times> MatchGroups) result"
  and matchesArgs :: "Pattern list \<Rightarrow> Ids \<Rightarrow> ExpressionClasses \<Rightarrow> MatchGroups \<Rightarrow>
    (bool \<times> MatchGroups) result"
  where
  "matches (Pattern t r i d args g) e cs mg =
     bindE (matchesBaseItem (Pattern t r i d args g) (e_item e)) (\<lambda>base.
     if \<not> base then Inr (False, mg)
     else case matchGroupStep g e mg of (ok, mg') \<Rightarrow>
       if \<not> ok then Inr (False, mg')
       else if \<not> (args = [] \<or> length (e_arguments e) = length args)
       then Inl (OptimizerException [])
       else matchesArgs args (e_arguments e) cs mg')"
| "matchesArgs [] ids cs mg = Inr (True, mg)"
| "matchesArgs (p # ps) [] cs mg = Inl OutOfRange"
| "matchesArgs (p # ps) (i # ids) cs mg =
     bindE (representative cs i) (\<lambda>e.
     bindE (matches p e cs mg) (\<lambda>(ok, mg').
     if ok then matchesArgs ps ids cs mg' else Inr (False, mg')))"

definition toAssemblyItem :: "Pattern \<Rightarrow> SourceLocation \<Rightarrow> AssemblyItem result" where
  "toAssemblyItem p l =
     (if p_type p = Operation then Inr (itemOp (p_instruction p) l)
      else bindE (patData p) (\<lambda>d. Inr (itemOfType (p_type p) d l)))"

subsection \<open>Rules\<close>

record SimplificationRule =
  r_pattern :: Pattern
  r_action :: "MatchGroups \<Rightarrow> Pattern result"
  r_removesNonConstants :: bool

subsection \<open>Templates\<close>

datatype ExpressionTemplate =
  ExpressionTemplate
    (t_hasId: bool)
    (t_id: Id)
    (t_item: AssemblyItem)
    (t_arguments: "ExpressionTemplate list")

text \<open>The constructor from a pattern.\<close>

fun toTemplate :: "Pattern \<Rightarrow> MatchGroups \<Rightarrow> SourceLocation \<Rightarrow> ExpressionTemplate result"
  and toTemplates :: "Pattern list \<Rightarrow> MatchGroups \<Rightarrow> SourceLocation \<Rightarrow>
    ExpressionTemplate list result"
  where
  "toTemplate (Pattern t r i d args g) mg l =
     bindE (if g \<noteq> 0
            then bindE (patId (Pattern t r i d args g) mg)
                   (\<lambda>n. Inr (True, n, itemOfType UndefinedItem 0 noLocation))
            else bindE (toAssemblyItem (Pattern t r i d args g) l) (\<lambda>it. Inr (False, noId, it)))
       (\<lambda>(h, n, it).
     bindE (toTemplates args mg l) (\<lambda>ts. Inr (ExpressionTemplate h n it ts)))"
| "toTemplates [] mg l = Inr []"
| "toTemplates (p # ps) mg l =
     bindE (toTemplate p mg l) (\<lambda>t. bindE (toTemplates ps mg l) (\<lambda>ts. Inr (t # ts)))"

subsection \<open>Printing\<close>

fun showPattern :: "Pattern \<Rightarrow> string" where
  "showPattern (Pattern t r i d args g) =
     (case t of
        Operation \<Rightarrow> info_name (instructionInfo i)
      | Push \<Rightarrow> (case d of Some v \<Rightarrow> ''PUSH '' @ toHexNum (unat v) | None \<Rightarrow> ''PUSH '')
      | UndefinedItem \<Rightarrow> ''ANY''
      | _ \<Rightarrow>
          (case d of
             Some v \<Rightarrow> ''t='' @ toDec (itemTypeValue t) @ '' d='' @ toHexNum (unat v)
           | None \<Rightarrow> ''t='' @ toDec (itemTypeValue t) @ '' d: nullptr'')) @
     (if \<not> r then '' ~'' else []) @
     (if g \<noteq> 0 then ''['' @ toDec g @ '']'' else []) @
     ''('' @ concat (map (\<lambda>p. showPattern p @ '', '') args) @ '')''"

fun showTemplate :: "ExpressionTemplate \<Rightarrow> string result"
  and showTemplates :: "ExpressionTemplate list \<Rightarrow> string result"
  where
  "showTemplate (ExpressionTemplate h n it args) =
     bindE (if h then Inr (toDec n) else showItem it) (\<lambda>s.
     bindE (showTemplates args) (\<lambda>as. Inr (s @ ''('' @ as @ '')'')))"
| "showTemplates [] = Inr []"
| "showTemplates (t # ts) =
     bindE (showTemplate t) (\<lambda>s. bindE (showTemplates ts) (\<lambda>ss. Inr (s @ ss)))"

end
