(* ===== verification/EVM.thy ===== *)
theory EVM
  imports SemanticInformation "HOL-Library.Signed_Division"
begin

section \<open>The machine the code is optimised for\<close>

text \<open>
  A specification of the Ethereum Virtual Machine at the level of assembly items, against
  which the optimiser passes are proved. It is no translation of code under \<open>src\<close>: the
  arithmetic, comparison and bitwise operations are those of the Yellow Paper on 256-bit
  words, and everything the machine reads from or does to its environment is a parameter
  (\<open>evm\<close>): the value of a side-effect free opcode in the current world, the effect of the
  others, and the value that a symbolic push (a tag, an offset, an address) has after
  assembly. Gas is not counted and the limit of 1024 stack slots is not modelled; \<open>GAS\<close>,
  \<open>PC\<close>, \<open>MSIZE\<close> and \<open>CODESIZE\<close> are read from the world, so programs whose result depends
  on their own layout or on the gas left are outside what the theorems say.
\<close>

subsection \<open>Arithmetic\<close>

definition evm_signextend :: "u256 \<Rightarrow> u256 \<Rightarrow> u256" where
  "evm_signextend k x = (if 31 \<le> k then x else signed_take_bit (8 * unat k + 7) x)"

definition evm_byte :: "u256 \<Rightarrow> u256 \<Rightarrow> u256" where
  "evm_byte k x = (if 32 \<le> k then 0 else take_bit 8 (drop_bit (8 * (31 - unat k)) x))"

definition evm_bool :: "bool \<Rightarrow> u256" where
  "evm_bool b = (if b then 1 else 0)"

fun evm_arith1 :: "instruction \<Rightarrow> u256 \<Rightarrow> u256 option" where
  "evm_arith1 i a =
     (if i = i_NOT then Some (NOT a)
      else if i = i_ISZERO then Some (evm_bool (a = 0))
      else None)"

fun evm_arith2 :: "instruction \<Rightarrow> u256 \<Rightarrow> u256 \<Rightarrow> u256 option" where
  "evm_arith2 i a b =
     (if i = i_ADD then Some (a + b)
      else if i = i_MUL then Some (a * b)
      else if i = i_SUB then Some (a - b)
      else if i = i_DIV then Some (if b = 0 then 0 else word_of_nat (unat a div unat b))
      else if i = i_SDIV then Some (if b = 0 then 0 else word_of_int (sint a sdiv sint b))
      else if i = i_MOD then Some (if b = 0 then 0 else word_of_nat (unat a mod unat b))
      else if i = i_SMOD then Some (if b = 0 then 0 else word_of_int (sint a smod sint b))
      else if i = i_EXP then Some (a ^ unat b)
      else if i = i_SIGNEXTEND then Some (evm_signextend a b)
      else if i = i_LT then Some (evm_bool (a < b))
      else if i = i_GT then Some (evm_bool (b < a))
      else if i = i_SLT then Some (evm_bool (sint a < sint b))
      else if i = i_SGT then Some (evm_bool (sint b < sint a))
      else if i = i_EQ then Some (evm_bool (a = b))
      else if i = i_AND then Some (a AND b)
      else if i = i_OR then Some (a OR b)
      else if i = i_XOR then Some (a XOR b)
      else if i = i_BYTE then Some (evm_byte a b)
      else if i = i_SHL then Some (if 256 \<le> a then 0 else push_bit (unat a) b)
      else if i = i_SHR then Some (if 256 \<le> a then 0 else drop_bit (unat a) b)
      else if i = i_SAR then Some (if 256 \<le> a then (if sint b < 0 then - 1 else 0)
                                   else signed_drop_bit (unat a) b)
      else None)"

fun evm_arith3 :: "instruction \<Rightarrow> u256 \<Rightarrow> u256 \<Rightarrow> u256 \<Rightarrow> u256 option" where
  "evm_arith3 i a b m =
     (if i = i_ADDMOD then Some (if m = 0 then 0 else word_of_nat ((unat a + unat b) mod unat m))
      else if i = i_MULMOD then Some (if m = 0 then 0 else word_of_nat ((unat a * unat b) mod unat m))
      else None)"

text \<open>The operands are given in the order of the opcode, the top of the stack first.\<close>

definition evm_arith :: "instruction \<Rightarrow> u256 list \<Rightarrow> u256 option" where
  "evm_arith i as =
     (case as of [a] \<Rightarrow> evm_arith1 i a
      | [a, b] \<Rightarrow> evm_arith2 i a b
      | [a, b, c] \<Rightarrow> evm_arith3 i a b c
      | _ \<Rightarrow> None)"

declare evm_arith1.simps [simp del] evm_arith2.simps [simp del] evm_arith3.simps [simp del]

lemma evm_arith2_ops [simp]:
  "evm_arith2 i_ADD a b = Some (a + b)"
  "evm_arith2 i_MUL a b = Some (a * b)"
  "evm_arith2 i_SUB a b = Some (a - b)"
  "evm_arith2 i_DIV a b = Some (if b = 0 then 0 else word_of_nat (unat a div unat b))"
  "evm_arith2 i_SDIV a b = Some (if b = 0 then 0 else word_of_int (sint a sdiv sint b))"
  "evm_arith2 i_MOD a b = Some (if b = 0 then 0 else word_of_nat (unat a mod unat b))"
  "evm_arith2 i_SMOD a b = Some (if b = 0 then 0 else word_of_int (sint a smod sint b))"
  "evm_arith2 i_EXP a b = Some (a ^ unat b)"
  "evm_arith2 i_SIGNEXTEND a b = Some (evm_signextend a b)"
  "evm_arith2 i_LT a b = Some (evm_bool (a < b))"
  "evm_arith2 i_GT a b = Some (evm_bool (b < a))"
  "evm_arith2 i_SLT a b = Some (evm_bool (sint a < sint b))"
  "evm_arith2 i_SGT a b = Some (evm_bool (sint b < sint a))"
  "evm_arith2 i_EQ a b = Some (evm_bool (a = b))"
  "evm_arith2 i_AND a b = Some (a AND b)"
  "evm_arith2 i_OR a b = Some (a OR b)"
  "evm_arith2 i_XOR a b = Some (a XOR b)"
  "evm_arith2 i_BYTE a b = Some (evm_byte a b)"
  "evm_arith2 i_SHL a b = Some (if 256 \<le> a then 0 else push_bit (unat a) b)"
  "evm_arith2 i_SHR a b = Some (if 256 \<le> a then 0 else drop_bit (unat a) b)"
  "evm_arith2 i_SAR a b = Some (if 256 \<le> a then (if sint b < 0 then - 1 else 0)
     else signed_drop_bit (unat a) b)"
  by (simp_all add: evm_arith2.simps)

lemma evm_arith1_ops [simp]:
  "evm_arith1 i_NOT a = Some (NOT a)"
  "evm_arith1 i_ISZERO a = Some (evm_bool (a = 0))"
  by (simp_all add: evm_arith1.simps)

lemma evm_arith3_ops [simp]:
  "evm_arith3 i_ADDMOD a b m = Some (if m = 0 then 0 else word_of_nat ((unat a + unat b) mod unat m))"
  "evm_arith3 i_MULMOD a b m = Some (if m = 0 then 0 else word_of_nat ((unat a * unat b) mod unat m))"
  by (simp_all add: evm_arith3.simps)

definition evm_ariths :: "instruction list" where
  "evm_ariths =
     [i_ADD, i_MUL, i_SUB, i_DIV, i_SDIV, i_MOD, i_SMOD, i_ADDMOD, i_MULMOD, i_EXP, i_SIGNEXTEND,
      i_LT, i_GT, i_SLT, i_SGT, i_EQ, i_ISZERO, i_AND, i_OR, i_XOR, i_NOT, i_BYTE, i_SHL, i_SHR,
      i_SAR]"

lemma evm_arith_total:
  "i \<in> set evm_ariths \<Longrightarrow> length as = nat (info_args (instructionInfo i)) \<Longrightarrow>
     evm_arith i as \<noteq> None"
  by (auto simp: evm_ariths_def instr_table evm_arith_def length_Suc_conv numeral_eq_Suc
      evm_arith1.simps evm_arith2.simps evm_arith3.simps)

lemma evm_arith2_commutes:
  assumes "i \<in> set [i_ADD, i_MUL, i_EQ, i_AND, i_OR, i_XOR]"
  shows "evm_arith2 i y x = evm_arith2 i x y"
proof -
  have "i = i_ADD \<or> i = i_MUL \<or> i = i_EQ \<or> i = i_AND \<or> i = i_OR \<or> i = i_XOR"
    using assms by simp
  then show ?thesis
    by (elim disjE) (simp_all add: add.commute [of y x] mult.commute [of y x]
        and.commute [of y x] or.commute [of y x] xor.commute [of y x] eq_commute [of y x])
qed

text \<open>Opcodes that only read the environment and leave one value.\<close>

definition evm_reads :: "instruction list" where
  "evm_reads =
     [i_ADDRESS, i_BALANCE, i_ORIGIN, i_CALLER, i_CALLVALUE, i_CALLDATALOAD, i_CALLDATASIZE,
      i_CODESIZE, i_GASPRICE, i_EXTCODESIZE, i_RETURNDATASIZE, i_EXTCODEHASH, i_BLOCKHASH,
      i_COINBASE, i_TIMESTAMP, i_NUMBER, i_DIFFICULTY, i_GASLIMIT, i_ETHASH, i_SLOAD, i_PC,
      i_MSIZE, i_GAS]"

definition evm_halts :: "instruction list" where
  "evm_halts = [i_STOP, i_RETURN, i_REVERT, i_INVALID, i_SELFDESTRUCT]"

record 'w evm =
  ev_read :: "instruction \<Rightarrow> u256 list \<Rightarrow> 'w \<Rightarrow> u256"
  ev_write :: "instruction \<Rightarrow> u256 list \<Rightarrow> 'w \<Rightarrow> u256 list \<times> 'w"
  ev_push :: "AssemblyItemType \<Rightarrow> u256 \<Rightarrow> u256"

subsection \<open>One item\<close>

datatype 'w step =
    Next "u256 list" 'w
  | JumpTo u256 "u256 list" 'w
  | Halt instruction "u256 list" 'w
  | Fail

definition exec_op :: "'w evm \<Rightarrow> instruction \<Rightarrow> u256 list \<Rightarrow> 'w \<Rightarrow> 'w step" where
  "exec_op E i stk w =
     (let n = nat (info_args (instructionInfo i)); as = take n stk; rest = drop n stk in
      if \<not> isValidInstruction i \<or> length stk < n \<or> isPushInstruction i then Fail
      else if isDupInstruction i then Next (stk ! (n - 1) # stk) w
      else if isSwapInstruction i then Next (stk[0 := stk ! (n - 1), n - 1 := stk ! 0]) w
      else if i = i_POP \<or> i = i_JUMPDEST then Next rest w
      else if i = i_JUMP then JumpTo (stk ! 0) rest w
      else if i = i_JUMPI then (if stk ! 1 \<noteq> 0 then JumpTo (stk ! 0) rest w else Next rest w)
      else if i \<in> set evm_halts then Halt i as w
      else case evm_arith i as of
          Some v \<Rightarrow> Next (v # rest) w
        | None \<Rightarrow>
            if i \<in> set evm_reads then Next (ev_read E i as w # rest) w
            else (case ev_write E i as w of (rs, w') \<Rightarrow> Next (rs @ rest) w'))"

definition exec_item :: "'w evm \<Rightarrow> AssemblyItem \<Rightarrow> u256 list \<Rightarrow> 'w \<Rightarrow> 'w step" where
  "exec_item E it stk w =
     (case m_type it of
        UndefinedItem \<Rightarrow> Fail
      | Operation \<Rightarrow> exec_op E (m_instruction it) stk w
      | Tag \<Rightarrow> Next stk w
      | Push \<Rightarrow> Next (m_data it # stk) w
      | t \<Rightarrow> Next (ev_push E t (m_data it) # stk) w)"

text \<open>A block of items, up to the first that does not fall through.\<close>

fun exec_block :: "'w evm \<Rightarrow> AssemblyItems \<Rightarrow> u256 list \<Rightarrow> 'w \<Rightarrow> 'w step" where
  "exec_block E [] stk w = Next stk w"
| "exec_block E (it # its) stk w =
     (case exec_item E it stk w of
        Next stk' w' \<Rightarrow> exec_block E its stk' w'
      | r \<Rightarrow> r)"

subsection \<open>Whole programs\<close>

text \<open>
  The code after the first tag whose address after assembly is \<open>v\<close>. A jump anywhere else
  fails.
\<close>

fun findTag :: "'w evm \<Rightarrow> AssemblyItems \<Rightarrow> u256 \<Rightarrow> AssemblyItems option" where
  "findTag E [] v = None"
| "findTag E (it # its) v =
     (if m_type it = Tag \<and> ev_push E PushTag (m_data it) = v then Some its else findTag E its v)"

datatype 'w outcome =
    Halted instruction "u256 list" 'w
  | Ended "u256 list" 'w
  | Failed

text \<open>
  \<open>run n E P xs stk w\<close>: execute at most \<open>n\<close> items of \<open>xs\<close>, a suffix of the program \<open>P\<close>,
  from the given stack and world; \<open>None\<close> when \<open>n\<close> is too small.
\<close>

fun run :: "nat \<Rightarrow> 'w evm \<Rightarrow> AssemblyItems \<Rightarrow> AssemblyItems \<Rightarrow> u256 list \<Rightarrow> 'w \<Rightarrow>
    'w outcome option" where
  "run 0 E P xs stk w = None"
| "run (Suc n) E P [] stk w = Some (Ended stk w)"
| "run (Suc n) E P (it # its) stk w =
     (case exec_item E it stk w of
        Next stk' w' \<Rightarrow> run n E P its stk' w'
      | JumpTo v stk' w' \<Rightarrow>
          (case findTag E P v of
             Some xs \<Rightarrow> run n E P xs stk' w'
           | None \<Rightarrow> Some Failed)
      | Halt i as w' \<Rightarrow> Some (Halted i as w')
      | Fail \<Rightarrow> Some Failed)"

lemma run_mono: "run n E P xs stk w = Some r \<Longrightarrow> n \<le> m \<Longrightarrow> run m E P xs stk w = Some r"
proof (induction n arbitrary: m xs stk w)
  case 0
  then show ?case by simp
next
  case (Suc n)
  then obtain k where m: "m = Suc k" and k: "n \<le> k" by (cases m) auto
  show ?case
  proof (cases xs)
    case Nil
    then show ?thesis using Suc.prems m by simp
  next
    case (Cons it its)
    then show ?thesis
      using Suc.prems(1) m Suc.IH [OF _ k]
      by (cases "exec_item E it stk w") (simp_all split: option.splits)
  qed
qed

lemma exec_block_append:
  "exec_block E (xs @ ys) stk w =
     (case exec_block E xs stk w of Next stk' w' \<Rightarrow> exec_block E ys stk' w' | r \<Rightarrow> r)"
  by (induction xs arbitrary: stk w) (auto split: step.splits)

text \<open>Running a block inside a program: it executes, then jumps, stops or goes on.\<close>

lemma run_block:
  assumes "run n E P (a @ xs) stk w = Some r"
  shows "case exec_block E a stk w of
      Next stk' w' \<Rightarrow> length a \<le> n \<and> run (n - length a) E P xs stk' w' = Some r
    | JumpTo v stk' w' \<Rightarrow>
        (case findTag E P v of
           Some ys \<Rightarrow> \<exists>k < n. run k E P ys stk' w' = Some r
         | None \<Rightarrow> r = Failed)
    | Halt i as w' \<Rightarrow> r = Halted i as w'
    | Fail \<Rightarrow> r = Failed"
  using assms
proof (induction a arbitrary: n stk w)
  case Nil
  then show ?case by simp
next
  case (Cons it a)
  then obtain m where n: "n = Suc m" by (cases n) auto
  show ?case
  proof (cases "exec_item E it stk w")
    case (Next stk' w')
    then have "run m E P (a @ xs) stk' w' = Some r" using Cons.prems n by simp
    from Cons.IH [OF this] show ?thesis
      using Next n by (auto split: step.splits option.splits intro: less_SucI)
  next
    case (JumpTo v stk' w')
    then show ?thesis using Cons.prems n by (auto split: option.splits)
  qed (use Cons.prems n in auto)
qed

lemma run_block_Next:
  assumes "exec_block E a stk w = Next stk' w'" and "run k E P xs stk' w' = Some r"
  shows "run (length a + k) E P (a @ xs) stk w = Some r"
  using assms by (induction a arbitrary: stk w) (auto split: step.splits)

lemma run_block_JumpTo:
  assumes "exec_block E a stk w = JumpTo v stk' w'" and "findTag E P v = Some ys"
    and "run k E P ys stk' w' = Some r"
  shows "run (length a + k) E P (a @ xs) stk w = Some r"
  using assms
proof (induction a arbitrary: stk w)
  case (Cons it a)
  show ?case
  proof (cases "exec_item E it stk w")
    case (JumpTo v' s' u')
    then show ?thesis using Cons.prems run_mono [of k E P ys stk' w' r] by auto
  qed (use Cons in auto)
qed simp

lemma run_block_Halt:
  assumes "exec_block E a stk w = Halt i as w'"
  shows "run (length a) E P (a @ xs) stk w = Some (Halted i as w')"
  using assms by (induction a arbitrary: stk w) (auto split: step.splits)

lemma findTag_append:
  "findTag E (xs @ ys) v =
     (case findTag E xs v of Some zs \<Rightarrow> Some (zs @ ys) | None \<Rightarrow> findTag E ys v)"
  by (induction xs) auto

end
