(* ===== verification/RuleList.thy ===== *)
theory RuleList
  imports SimplificationRules EVM
begin

section \<open>The simplification rules (libevmasm/RuleList.h)\<close>

text \<open>
  The list of rules the expression classes apply, its soundness against the arithmetic of
  the machine, and a measure that every rule decreases. The C++ templates build the list
  for placeholder patterns A, B, C (constants), X and Y (anything); an action is the lambda
  of the source, a function of the match groups at the time it is called.
\<close>

subsection \<open>Arithmetic on constants\<close>

definition divWorkaround :: "u256 \<Rightarrow> u256 \<Rightarrow> u256" where
  "divWorkaround a b = word_of_int (uint a div uint b)"

definition modWorkaround :: "u256 \<Rightarrow> u256 \<Rightarrow> u256" where
  "modWorkaround a b = word_of_int (uint a mod uint b)"

text \<open>The same templates at \<open>s256\<close>: division of \<open>bigint\<close> truncates towards zero.\<close>

definition divWorkaroundSigned :: "int \<Rightarrow> int \<Rightarrow> int" where
  "divWorkaroundSigned a b = a sdiv b"

definition modWorkaroundSigned :: "int \<Rightarrow> int \<Rightarrow> int" where
  "modWorkaroundSigned a b = a smod b"

text \<open>Modular exponentiation, by squaring so that it computes.\<close>

function powm :: "nat \<Rightarrow> nat \<Rightarrow> nat \<Rightarrow> nat" where
  "powm b e m =
     (if e = 0 then 1 mod m
      else let h = powm (b * b mod m) (e div 2) m in
           if odd e then b * h mod m else h)"
  by pat_completeness auto
termination by (relation "measure (\<lambda>(b, e, m). e)") auto

declare powm.simps [simp del]

definition signextendConst :: "u256 \<Rightarrow> u256 \<Rightarrow> u256" where
  "signextendConst a b =
     (if 31 \<le> a then b
      else let testBit = unat a * 8 + 7; m = push_bit testBit 1 - 1 in
           if bit b testBit then b OR NOT m else b AND m)"

definition byteConst :: "u256 \<Rightarrow> u256 \<Rightarrow> u256" where
  "byteConst a b = (if 32 \<le> a then 0 else drop_bit (unat (8 * (31 - a))) b AND 0xff)"

definition shlConst :: "u256 \<Rightarrow> u256 \<Rightarrow> u256" where
  "shlConst a b = (if 255 < a then 0 else word_of_int (push_bit (unat a) (uint b)))"

definition shrConst :: "u256 \<Rightarrow> u256 \<Rightarrow> u256" where
  "shrConst a b = (if 255 < a then 0 else drop_bit (unat a) b)"

subsection \<open>The list\<close>

definition mkRule :: "Pattern \<Rightarrow> (MatchGroups \<Rightarrow> Pattern result) \<Rightarrow> bool \<Rightarrow> SimplificationRule" where
  "mkRule p a r = \<lparr>r_pattern = p, r_action = a, r_removesNonConstants = r\<rparr>"

text \<open>The bodies of the lambdas: a pattern, or a computation on the data of constants.\<close>

definition returns :: "Pattern \<Rightarrow> MatchGroups \<Rightarrow> Pattern result" where
  "returns p mg = Inr p"

definition withD :: "Pattern \<Rightarrow> (u256 \<Rightarrow> Pattern) \<Rightarrow> MatchGroups \<Rightarrow> Pattern result" where
  "withD p f mg = bindE (patD p mg) (\<lambda>a. Inr (f a))"

definition withD2 :: "Pattern \<Rightarrow> Pattern \<Rightarrow> (u256 \<Rightarrow> u256 \<Rightarrow> Pattern) \<Rightarrow>
    MatchGroups \<Rightarrow> Pattern result" where
  "withD2 p q f mg = bindE (patD p mg) (\<lambda>a. bindE (patD q mg) (\<lambda>b. Inr (f a b)))"

definition withD3 :: "Pattern \<Rightarrow> Pattern \<Rightarrow> Pattern \<Rightarrow> (u256 \<Rightarrow> u256 \<Rightarrow> u256 \<Rightarrow> Pattern) \<Rightarrow>
    MatchGroups \<Rightarrow> Pattern result" where
  "withD3 p q r f mg =
     bindE (patD p mg) (\<lambda>a. bindE (patD q mg) (\<lambda>b. bindE (patD r mg) (\<lambda>c. Inr (f a b c))))"

definition constantRules :: "Pattern \<Rightarrow> Pattern \<Rightarrow> Pattern \<Rightarrow> SimplificationRule list" where
  "constantRules A B C =
  [mkRule (patOp i_ADD [A, B]) (withD2 A B (\<lambda>a b. patValue (a + b))) False,
   mkRule (patOp i_MUL [A, B]) (withD2 A B (\<lambda>a b. patValue (a * b))) False,
   mkRule (patOp i_SUB [A, B]) (withD2 A B (\<lambda>a b. patValue (a - b))) False,
   mkRule (patOp i_DIV [A, B])
     (withD2 A B (\<lambda>a b. patValue (if b = 0 then 0 else divWorkaround a b))) False,
   mkRule (patOp i_SDIV [A, B])
     (withD2 A B (\<lambda>a b. patValue (if b = 0 then 0 else s2u (divWorkaroundSigned (u2s a) (u2s b)))))
     False,
   mkRule (patOp i_MOD [A, B])
     (withD2 A B (\<lambda>a b. patValue (if b = 0 then 0 else modWorkaround a b))) False,
   mkRule (patOp i_SMOD [A, B])
     (withD2 A B (\<lambda>a b. patValue (if b = 0 then 0 else s2u (modWorkaroundSigned (u2s a) (u2s b)))))
     False,
   mkRule (patOp i_EXP [A, B])
     (withD2 A B (\<lambda>a b. patValue (word_of_nat (powm (unat a) (unat b) (2 ^ 256))))) False,
   mkRule (patOp i_NOT [A]) (withD A (\<lambda>a. patValue (NOT a))) False,
   mkRule (patOp i_LT [A, B]) (withD2 A B (\<lambda>a b. patValue (if a < b then 1 else 0))) False,
   mkRule (patOp i_GT [A, B]) (withD2 A B (\<lambda>a b. patValue (if a > b then 1 else 0))) False,
   mkRule (patOp i_SLT [A, B])
     (withD2 A B (\<lambda>a b. patValue (if u2s a < u2s b then 1 else 0))) False,
   mkRule (patOp i_SGT [A, B])
     (withD2 A B (\<lambda>a b. patValue (if u2s a > u2s b then 1 else 0))) False,
   mkRule (patOp i_EQ [A, B]) (withD2 A B (\<lambda>a b. patValue (if a = b then 1 else 0))) False,
   mkRule (patOp i_ISZERO [A]) (withD A (\<lambda>a. patValue (if a = 0 then 1 else 0))) False,
   mkRule (patOp i_AND [A, B]) (withD2 A B (\<lambda>a b. patValue (a AND b))) False,
   mkRule (patOp i_OR [A, B]) (withD2 A B (\<lambda>a b. patValue (a OR b))) False,
   mkRule (patOp i_XOR [A, B]) (withD2 A B (\<lambda>a b. patValue (a XOR b))) False,
   mkRule (patOp i_BYTE [A, B]) (withD2 A B (\<lambda>a b. patValue (byteConst a b))) False,
   mkRule (patOp i_ADDMOD [A, B, C])
     (withD3 A B C (\<lambda>a b c. patValue
       (if c = 0 then 0 else word_of_int ((uint a + uint b) mod uint c)))) False,
   mkRule (patOp i_MULMOD [A, B, C])
     (withD3 A B C (\<lambda>a b c. patValue
       (if c = 0 then 0 else word_of_int ((uint a * uint b) mod uint c)))) False,
   mkRule (patOp i_MULMOD [A, B, C]) (withD2 A B (\<lambda>a b. patValue (a * b))) False,
   mkRule (patOp i_SIGNEXTEND [A, B]) (withD2 A B (\<lambda>a b. patValue (signextendConst a b))) False,
   mkRule (patOp i_SHL [A, B]) (withD2 A B (\<lambda>a b. patValue (shlConst a b))) False,
   mkRule (patOp i_SHR [A, B]) (withD2 A B (\<lambda>a b. patValue (shrConst a b))) False]"

definition knownConstantRules :: "Pattern \<Rightarrow> SimplificationRule list" where
  "knownConstantRules X =
  [mkRule (patOp i_ADD [X, patValue 0]) (returns X) False,
   mkRule (patOp i_ADD [patValue 0, X]) (returns X) False,
   mkRule (patOp i_SUB [X, patValue 0]) (returns X) False,
   mkRule (patOp i_MUL [X, patValue 0]) (returns (patValue 0)) True,
   mkRule (patOp i_MUL [patValue 0, X]) (returns (patValue 0)) True,
   mkRule (patOp i_MUL [X, patValue 1]) (returns X) False,
   mkRule (patOp i_MUL [patValue 1, X]) (returns X) False,
   mkRule (patOp i_MUL [X, patValue (- 1)]) (returns (patOp i_SUB [patValue 0, X])) False,
   mkRule (patOp i_MUL [patValue (- 1), X]) (returns (patOp i_SUB [patValue 0, X])) False,
   mkRule (patOp i_DIV [X, patValue 0]) (returns (patValue 0)) True,
   mkRule (patOp i_DIV [patValue 0, X]) (returns (patValue 0)) True,
   mkRule (patOp i_DIV [X, patValue 1]) (returns X) False,
   mkRule (patOp i_SDIV [X, patValue 0]) (returns (patValue 0)) True,
   mkRule (patOp i_SDIV [patValue 0, X]) (returns (patValue 0)) True,
   mkRule (patOp i_SDIV [X, patValue 1]) (returns X) False,
   mkRule (patOp i_AND [X, patValue (NOT 0)]) (returns X) False,
   mkRule (patOp i_AND [patValue (NOT 0), X]) (returns X) False,
   mkRule (patOp i_AND [X, patValue 0]) (returns (patValue 0)) True,
   mkRule (patOp i_AND [patValue 0, X]) (returns (patValue 0)) True,
   mkRule (patOp i_OR [X, patValue 0]) (returns X) False,
   mkRule (patOp i_OR [patValue 0, X]) (returns X) False,
   mkRule (patOp i_OR [X, patValue (NOT 0)]) (returns (patValue (NOT 0))) True,
   mkRule (patOp i_OR [patValue (NOT 0), X]) (returns (patValue (NOT 0))) True,
   mkRule (patOp i_XOR [X, patValue 0]) (returns X) False,
   mkRule (patOp i_XOR [patValue 0, X]) (returns X) False,
   mkRule (patOp i_MOD [X, patValue 0]) (returns (patValue 0)) True,
   mkRule (patOp i_MOD [patValue 0, X]) (returns (patValue 0)) True,
   mkRule (patOp i_EQ [X, patValue 0]) (returns (patOp i_ISZERO [X])) False,
   mkRule (patOp i_EQ [patValue 0, X]) (returns (patOp i_ISZERO [X])) False]"

definition selfRules :: "Pattern \<Rightarrow> SimplificationRule list" where
  "selfRules X =
  [mkRule (patOp i_AND [X, X]) (returns X) True,
   mkRule (patOp i_OR [X, X]) (returns X) True,
   mkRule (patOp i_XOR [X, X]) (returns (patValue 0)) True,
   mkRule (patOp i_SUB [X, X]) (returns (patValue 0)) True,
   mkRule (patOp i_EQ [X, X]) (returns (patValue 1)) True,
   mkRule (patOp i_LT [X, X]) (returns (patValue 0)) True,
   mkRule (patOp i_SLT [X, X]) (returns (patValue 0)) True,
   mkRule (patOp i_GT [X, X]) (returns (patValue 0)) True,
   mkRule (patOp i_SGT [X, X]) (returns (patValue 0)) True,
   mkRule (patOp i_MOD [X, X]) (returns (patValue 0)) True]"

definition logicalRules :: "Pattern \<Rightarrow> Pattern \<Rightarrow> SimplificationRule list" where
  "logicalRules X Y =
  [mkRule (patOp i_NOT [patOp i_NOT [X]]) (returns X) False,
   mkRule (patOp i_XOR [X, patOp i_XOR [X, Y]]) (returns Y) True,
   mkRule (patOp i_XOR [X, patOp i_XOR [Y, X]]) (returns Y) True,
   mkRule (patOp i_XOR [patOp i_XOR [X, Y], X]) (returns Y) True,
   mkRule (patOp i_XOR [patOp i_XOR [Y, X], X]) (returns Y) True,
   mkRule (patOp i_OR [X, patOp i_AND [X, Y]]) (returns X) True,
   mkRule (patOp i_OR [X, patOp i_AND [Y, X]]) (returns X) True,
   mkRule (patOp i_OR [patOp i_AND [X, Y], X]) (returns X) True,
   mkRule (patOp i_OR [patOp i_AND [Y, X], X]) (returns X) True,
   mkRule (patOp i_AND [X, patOp i_OR [X, Y]]) (returns X) True,
   mkRule (patOp i_AND [X, patOp i_OR [Y, X]]) (returns X) True,
   mkRule (patOp i_AND [patOp i_OR [X, Y], X]) (returns X) True,
   mkRule (patOp i_AND [patOp i_OR [Y, X], X]) (returns X) True,
   mkRule (patOp i_AND [X, patOp i_NOT [X]]) (returns (patValue 0)) True,
   mkRule (patOp i_AND [patOp i_NOT [X], X]) (returns (patValue 0)) True,
   mkRule (patOp i_OR [X, patOp i_NOT [X]]) (returns (patValue (NOT 0))) True,
   mkRule (patOp i_OR [patOp i_NOT [X], X]) (returns (patValue (NOT 0))) True]"

definition simplificationRuleListPart1 ::
  "Pattern \<Rightarrow> Pattern \<Rightarrow> Pattern \<Rightarrow> Pattern \<Rightarrow> Pattern \<Rightarrow> SimplificationRule list" where
  "simplificationRuleListPart1 A B C X Y =
     constantRules A B C @ knownConstantRules X @ selfRules X @ logicalRules X Y"

text \<open>MOD by a power of two; masks of addresses; double negation.\<close>

definition modRules :: "Pattern \<Rightarrow> SimplificationRule list" where
  "modRules X =
     map (\<lambda>i. let value = push_bit i 1 in
            mkRule (patOp i_MOD [X, patValue value]) (returns (patOp i_AND [X, patValue (value - 1)]))
              False)
       [0..<256]"

definition addressMaskRules :: "SimplificationRule list" where
  "addressMaskRules =
     concat (map (\<lambda>opc. let m = patValue (push_bit 160 1 - 1) in
         [mkRule (patOp i_AND [patOp opc [], m]) (returns (patOp opc [])) False,
          mkRule (patOp i_AND [m, patOp opc []]) (returns (patOp opc [])) False])
       [i_ADDRESS, i_CALLER, i_ORIGIN, i_COINBASE])"

definition doubleNegationRules :: "Pattern \<Rightarrow> Pattern \<Rightarrow> SimplificationRule list" where
  "doubleNegationRules X Y =
     map (\<lambda>opc. mkRule (patOp i_ISZERO [patOp i_ISZERO [patOp opc [X, Y]]])
                  (returns (patOp opc [X, Y])) False)
       [i_EQ, i_LT, i_SLT, i_GT, i_SGT] @
     [mkRule (patOp i_ISZERO [patOp i_ISZERO [patOp i_ISZERO [X]]])
        (returns (patOp i_ISZERO [X])) False,
      mkRule (patOp i_ISZERO [patOp i_XOR [X, Y]]) (returns (patOp i_EQ [X, Y])) False]"

definition associativeOps :: "(instruction \<times> (u256 \<Rightarrow> u256 \<Rightarrow> u256)) list" where
  "associativeOps =
     [(i_ADD, (+)), (i_MUL, (*)), (i_AND, (AND)), (i_OR, (OR)), (i_XOR, (XOR))]"

definition associativeRulesFor :: "Pattern \<Rightarrow> Pattern \<Rightarrow> Pattern \<Rightarrow> Pattern \<Rightarrow>
    instruction \<times> (u256 \<Rightarrow> u256 \<Rightarrow> u256) \<Rightarrow> SimplificationRule list" where
  "associativeRulesFor A B X Y opFun =
     (case opFun of (opc, f) \<Rightarrow>
       concat (map (\<lambda>xa.
         [mkRule (patOp opc [patOp opc xa, B])
            (withD2 A B (\<lambda>a b. patOp opc [X, patValue (f a b)])) False,
          mkRule (patOp opc [patOp opc xa, Y]) (returns (patOp opc [patOp opc [X, Y], A])) False,
          mkRule (patOp opc [B, patOp opc xa])
            (withD2 A B (\<lambda>a b. patOp opc [X, patValue (f a b)])) False,
          mkRule (patOp opc [Y, patOp opc xa]) (returns (patOp opc [patOp opc [Y, X], A])) False])
         [[X, A], [A, X]]))"

definition subtractionRules :: "Pattern \<Rightarrow> Pattern \<Rightarrow> Pattern \<Rightarrow> SimplificationRule list" where
  "subtractionRules A X Y =
    [mkRule (patOp i_SUB [X, A]) (withD A (\<lambda>a. patOp i_ADD [X, patValue (0 - a)])) False,
     mkRule (patOp i_SUB [patOp i_ADD [X, A], Y])
       (returns (patOp i_ADD [patOp i_SUB [X, Y], A])) False,
     mkRule (patOp i_SUB [patOp i_ADD [A, X], Y])
       (returns (patOp i_ADD [patOp i_SUB [X, Y], A])) False,
     mkRule (patOp i_SUB [X, patOp i_ADD [Y, A]])
       (withD A (\<lambda>a. patOp i_ADD [patOp i_SUB [X, Y], patValue (0 - a)])) False,
     mkRule (patOp i_SUB [X, patOp i_ADD [A, Y]])
       (withD A (\<lambda>a. patOp i_ADD [patOp i_SUB [X, Y], patValue (0 - a)])) False]"

definition simplificationRuleListPart2 ::
  "Pattern \<Rightarrow> Pattern \<Rightarrow> Pattern \<Rightarrow> Pattern \<Rightarrow> SimplificationRule list" where
  "simplificationRuleListPart2 A B X Y =
     modRules X @ addressMaskRules @ doubleNegationRules X Y @
     concat (map (associativeRulesFor A B X Y) associativeOps) @ subtractionRules A X Y"

definition simplificationRuleList ::
  "Pattern \<Rightarrow> Pattern \<Rightarrow> Pattern \<Rightarrow> Pattern \<Rightarrow> Pattern \<Rightarrow> SimplificationRule list" where
  "simplificationRuleList A B C X Y =
     simplificationRuleListPart1 A B C X Y @ simplificationRuleListPart2 A B X Y"

text \<open>The placeholders of \<open>Rules::Rules\<close> and the list it builds.\<close>

definition patA :: Pattern where "patA = setMatchGroup (patType Push) 1"
definition patB :: Pattern where "patB = setMatchGroup (patType Push) 2"
definition patC :: Pattern where "patC = setMatchGroup (patType Push) 3"
definition patX :: Pattern where "patX = setMatchGroup (patType UndefinedItem) 4"
definition patY :: Pattern where "patY = setMatchGroup (patType UndefinedItem) 5"

definition allRules :: "SimplificationRule list" where
  "allRules = simplificationRuleList patA patB patC patX patY"

subsection \<open>What a pattern denotes\<close>

text \<open>
  The value of a pattern for values \<open>v\<close> of the match groups, where \<open>\<rho>\<close> gives the opcodes
  that are no arithmetic. An address is a 160-bit value.
\<close>

type_synonym opaque = "instruction \<Rightarrow> u256 list \<Rightarrow> u256"

definition op_sem :: "opaque \<Rightarrow> instruction \<Rightarrow> u256 list \<Rightarrow> u256" where
  "op_sem \<rho> i as = (case evm_arith i as of Some v \<Rightarrow> v | None \<Rightarrow> \<rho> i as)"

fun pat_sem :: "opaque \<Rightarrow> (nat \<Rightarrow> u256) \<Rightarrow> Pattern \<Rightarrow> u256" where
  "pat_sem \<rho> v (Pattern t r i d args g) =
     (if g \<noteq> 0 then v g
      else if t = Operation then op_sem \<rho> i (map (pat_sem \<rho> v) args)
      else case d of Some x \<Rightarrow> x | None \<Rightarrow> 0)"

definition addresses_fit :: "opaque \<Rightarrow> bool" where
  "addresses_fit \<rho> \<longleftrightarrow>
     list_all (\<lambda>i. \<rho> i [] < 2 ^ 160) [i_ADDRESS, i_CALLER, i_ORIGIN, i_COINBASE]"

text \<open>The values agree with the data that the actions read.\<close>

definition binds_constants :: "MatchGroups \<Rightarrow> (nat \<Rightarrow> u256) \<Rightarrow> bool" where
  "binds_constants mg v \<longleftrightarrow>
     list_all (\<lambda>p. \<forall>d. patD p mg = Inr d \<longrightarrow> v (p_matchGroup p) = d) [patA, patB, patC]"

definition rule_sound :: "SimplificationRule \<Rightarrow> bool" where
  "rule_sound r \<longleftrightarrow>
     (\<forall>\<rho> v mg q. addresses_fit \<rho> \<longrightarrow> binds_constants mg v \<longrightarrow> r_action r mg = Inr q \<longrightarrow>
        pat_sem \<rho> v q = pat_sem \<rho> v (r_pattern r))"

lemma pat_sem_simps [simp]:
  "pat_sem \<rho> v patA = v 1" "pat_sem \<rho> v patB = v 2" "pat_sem \<rho> v patC = v 3"
  "pat_sem \<rho> v patX = v 4" "pat_sem \<rho> v patY = v 5"
  "pat_sem \<rho> v (patValue x) = x"
  "pat_sem \<rho> v (patOp i args) = op_sem \<rho> i (map (pat_sem \<rho> v) args)"
  by (simp_all add: patA_def patB_def patC_def patX_def patY_def patType_def patValue_def patOp_def)

declare pat_sem.simps [simp del]

lemma op_sem_simps [simp]:
  "op_sem \<rho> i [a] = (case evm_arith1 i a of Some v \<Rightarrow> v | None \<Rightarrow> \<rho> i [a])"
  "op_sem \<rho> i [a, b] = (case evm_arith2 i a b of Some v \<Rightarrow> v | None \<Rightarrow> \<rho> i [a, b])"
  "op_sem \<rho> i [a, b, c] = (case evm_arith3 i a b c of Some v \<Rightarrow> v | None \<Rightarrow> \<rho> i [a, b, c])"
  "op_sem \<rho> i [] = \<rho> i []"
  by (simp_all add: op_sem_def evm_arith_def)

lemma patD_groups:
  assumes "binds_constants mg v"
  shows "patD patA mg = Inr a \<Longrightarrow> v 1 = a" and "patD patB mg = Inr b \<Longrightarrow> v 2 = b"
    and "patD patC mg = Inr c \<Longrightarrow> v 3 = c"
  using assms by (auto simp: binds_constants_def patA_def patB_def patC_def patType_def)

lemma rule_sound_returns:
  assumes "\<And>\<rho> v. addresses_fit \<rho> \<Longrightarrow> pat_sem \<rho> v q = pat_sem \<rho> v p"
  shows "rule_sound (mkRule p (returns q) b)"
  using assms by (auto simp: rule_sound_def mkRule_def returns_def)

lemma rule_sound_withD:
  assumes "\<And>\<rho> v. pat_sem \<rho> v (f (v 1)) = pat_sem \<rho> v p"
  shows "rule_sound (mkRule p (withD patA f) b)"
  unfolding rule_sound_def
proof (intro allI impI)
  fix \<rho> v mg q
  assume b: "binds_constants mg v" and "r_action (mkRule p (withD patA f) b) mg = Inr q"
  then obtain x where "patD patA mg = Inr x" and q: "q = f x"
    by (auto simp: mkRule_def withD_def bindE_Inr_iff)
  with patD_groups [OF b] assms [of \<rho> v]
  show "pat_sem \<rho> v q = pat_sem \<rho> v (r_pattern (mkRule p (withD patA f) b))"
    by (simp add: mkRule_def)
qed

lemma rule_sound_withD2:
  assumes "\<And>\<rho> v. pat_sem \<rho> v (f (v 1) (v 2)) = pat_sem \<rho> v p"
  shows "rule_sound (mkRule p (withD2 patA patB f) b)"
  unfolding rule_sound_def
proof (intro allI impI)
  fix \<rho> v mg q
  assume b: "binds_constants mg v" and "r_action (mkRule p (withD2 patA patB f) b) mg = Inr q"
  then obtain x y where "patD patA mg = Inr x" "patD patB mg = Inr y" and q: "q = f x y"
    by (auto simp: mkRule_def withD2_def bindE_Inr_iff)
  with patD_groups [OF b] assms [of \<rho> v]
  show "pat_sem \<rho> v q = pat_sem \<rho> v (r_pattern (mkRule p (withD2 patA patB f) b))"
    by (simp add: mkRule_def)
qed

lemma rule_sound_withD3:
  assumes "\<And>\<rho> v. pat_sem \<rho> v (f (v 1) (v 2) (v 3)) = pat_sem \<rho> v p"
  shows "rule_sound (mkRule p (withD3 patA patB patC f) b)"
  unfolding rule_sound_def
proof (intro allI impI)
  fix \<rho> v mg q
  assume b: "binds_constants mg v"
    and "r_action (mkRule p (withD3 patA patB patC f) b) mg = Inr q"
  then obtain x y z where "patD patA mg = Inr x" "patD patB mg = Inr y" "patD patC mg = Inr z"
    and q: "q = f x y z"
    by (auto simp: mkRule_def withD3_def bindE_Inr_iff)
  with patD_groups [OF b] assms [of \<rho> v]
  show "pat_sem \<rho> v q = pat_sem \<rho> v (r_pattern (mkRule p (withD3 patA patB patC f) b))"
    by (simp add: mkRule_def)
qed

lemmas rule_sound_intros =
  rule_sound_returns rule_sound_withD rule_sound_withD2 rule_sound_withD3

subsection \<open>The arithmetic agrees with the machine's\<close>

lemma divWorkaround_evm: "divWorkaround a b = word_of_nat (unat a div unat b)"
proof -
  have "uint a div uint b = int (unat a div unat b)" by (simp add: zdiv_int)
  then show ?thesis by (simp only: divWorkaround_def of_int_of_nat_eq)
qed

lemma modWorkaround_evm: "modWorkaround a b = word_of_nat (unat a mod unat b)"
proof -
  have "uint a mod uint b = int (unat a mod unat b)" by (simp add: zmod_int)
  then show ?thesis by (simp only: modWorkaround_def of_int_of_nat_eq)
qed

lemma powm_eq: "powm b e m = b ^ e mod m"
proof (induction b e m rule: powm.induct)
  case (1 b e m)
  show ?case
  proof (cases "e = 0")
    case False
    define h where "h = powm (b * b mod m) (e div 2) m"
    have "h = (b * b) ^ (e div 2) mod m" using 1 [OF False] by (simp add: h_def power_mod)
    then have h: "h = b ^ (2 * (e div 2)) mod m" by (simp add: power_mult power2_eq_square)
    have p: "powm b e m = (if odd e then b * h mod m else h)"
      using False by (simp add: powm.simps [of b e] h_def Let_def)
    show ?thesis
    proof (cases "odd e")
      case True
      then have "b ^ e = b * b ^ (2 * (e div 2))"
        by (metis odd_two_times_div_two_succ power_Suc Suc_eq_plus1)
      then show ?thesis using p True h by (simp add: mod_mult_right_eq)
    qed (use p h in simp)
  qed (simp add: powm.simps)
qed

lemma powm_evm: "(word_of_nat (powm (unat a) (unat b) (2 ^ 256)) :: u256) = a ^ unat b"
proof -
  have "(word_of_nat (unat a ^ unat b mod 2 ^ LENGTH(256)) :: u256) = word_of_nat (unat a ^ unat b)"
    by (simp only: word_of_nat_eq_iff take_bit_eq_mod mod_mod_trivial)
  then show ?thesis by (simp add: powm_eq)
qed

lemma mask_256: "push_bit n (1 :: u256) - 1 = mask n"
  by (simp add: mask_eq_exp_minus_1 push_bit_eq_mult)

lemma signextendConst_evm: "signextendConst a b = evm_signextend a b"
proof (cases "31 \<le> a")
  case False
  define n where "n = 8 * unat a + 7"
  have "unat a < 31" using False by (simp add: word_le_nat_alt)
  then have n: "n < 256" by (simp add: n_def)
  have "signextendConst a b = (if bit b n then b OR NOT (mask n) else b AND mask n)"
    using False by (simp only: signextendConst_def Let_def n_def mult.commute mask_256 if_False)
  also have "\<dots> = signed_take_bit n b"
    by (rule bit_word_eqI) (use n in \<open>auto simp: bit_simps min_def not_less le_less\<close>)
  finally show ?thesis using False by (simp add: evm_signextend_def n_def)
qed (simp add: signextendConst_def evm_signextend_def)

lemma byteConst_evm: "byteConst a b = evm_byte a b"
proof (cases "32 \<le> a")
  case False
  then have a: "unat a \<le> 31" by (simp add: word_le_nat_alt)
  then have "unat (31 - a) = 31 - unat a" by (simp add: unat_sub word_le_nat_alt)
  then have "unat (8 * (31 - a)) = 8 * (31 - unat a)" by (simp only: unat_word_ariths) simp
  moreover have "(0xff :: u256) = mask 8" by (simp add: mask_eq_exp_minus_1)
  ultimately show ?thesis using False by (simp add: byteConst_def evm_byte_def take_bit_eq_mask)
qed (simp add: byteConst_def evm_byte_def)

lemma shlConst_evm: "shlConst a b = (if 256 \<le> a then 0 else push_bit (unat a) b)"
proof -
  have "(255 < a) = (256 \<le> a)" by (auto simp: word_le_nat_alt word_less_nat_alt)
  moreover have "(word_of_int (push_bit n (uint b)) :: u256) = push_bit n b" for n
    by (simp add: push_bit_eq_mult)
  ultimately show ?thesis by (simp add: shlConst_def)
qed

lemma shrConst_evm: "shrConst a b = (if 256 \<le> a then 0 else drop_bit (unat a) b)"
proof -
  have "(255 < a) = (256 \<le> a)" by (auto simp: word_le_nat_alt word_less_nat_alt)
  then show ?thesis by (simp add: shrConst_def)
qed

lemma addmod_evm:
  "(word_of_int ((uint a + uint b) mod uint (c :: u256)) :: u256) =
     word_of_nat ((unat a + unat b) mod unat c)"
  "(word_of_int ((uint a * uint b) mod uint c) :: u256) =
     word_of_nat ((unat a * unat b) mod unat c)"
proof -
  have "(uint a + uint b) mod uint c = int ((unat a + unat b) mod unat c)"
    "(uint a * uint b) mod uint c = int ((unat a * unat b) mod unat c)"
    by (simp_all add: zmod_int)
  then show
    "(word_of_int ((uint a + uint b) mod uint c) :: u256) = word_of_nat ((unat a + unat b) mod unat c)"
    "(word_of_int ((uint a * uint b) mod uint c) :: u256) = word_of_nat ((unat a * unat b) mod unat c)"
    by (simp_all only: of_int_of_nat_eq)
qed

lemmas const_evm = divWorkaround_evm modWorkaround_evm divWorkaroundSigned_def
  modWorkaroundSigned_def u2s_sint s2u_word_of_int powm_evm [simplified] signextendConst_evm byteConst_evm
  shlConst_evm shrConst_evm addmod_evm evm_bool_def

subsection \<open>Every rule is sound, save one that can never be used\<close>

lemma absorb_256:
  fixes x y :: u256
  shows "x AND (x OR y) = x" "x AND (y OR x) = x" "(x OR y) AND x = x" "(y OR x) AND x = x"
    "x OR (x AND y) = x" "x OR (y AND x) = x" "(x AND y) OR x = x" "(y AND x) OR x = x"
    "x XOR (x XOR y) = y" "x XOR (y XOR x) = y" "(x XOR y) XOR x = y" "(y XOR x) XOR x = y"
    "x AND NOT x = 0" "NOT x AND x = 0" "x OR NOT x = - 1" "NOT x OR x = - 1"
  by (rule bit_word_eqI, auto simp: bit_simps)+

text \<open>The second of the two rules for MULMOD forgets the modulus.\<close>

definition unsoundRule :: SimplificationRule where
  "unsoundRule =
     mkRule (patOp i_MULMOD [patA, patB, patC]) (withD2 patA patB (\<lambda>a b. patValue (a * b))) False"

lemma constantRules_sound:
  "list_all (\<lambda>r. rule_sound r \<or> r = unsoundRule) (constantRules patA patB patC)"
  unfolding constantRules_def list.pred_inject unsoundRule_def [symmetric]
  by (intro conjI list.pred_inject(1); (rule disjI2 [OF refl] | rule disjI1, rule rule_sound_intros))
    (simp_all add: const_evm)

lemma knownConstantRules_sound: "list_all rule_sound (knownConstantRules patX)"
  unfolding knownConstantRules_def list.pred_inject
  by (intro conjI list.pred_inject(1); rule rule_sound_intros) (simp_all add: evm_bool_def)

lemma selfRules_sound: "list_all rule_sound (selfRules patX)"
  unfolding selfRules_def list.pred_inject
  by (intro conjI list.pred_inject(1); rule rule_sound_intros) (simp_all add: evm_bool_def)

lemma logicalRules_sound: "list_all rule_sound (logicalRules patX patY)"
  unfolding logicalRules_def list.pred_inject
  by (intro conjI list.pred_inject(1); rule rule_sound_intros) (simp_all add: absorb_256)

lemma mod_mask_256:
  "(word_of_nat (unat x mod 2 ^ n) :: u256) = x AND mask n"
proof -
  have "unat (x AND mask n) = unat x mod 2 ^ n"
    by (simp only: unsigned_take_bit_eq take_bit_eq_mask [symmetric]) (simp only: take_bit_eq_mod)
  then show ?thesis by (metis of_nat_unat ucast_id)
qed

lemma modRules_sound: "list_all rule_sound (modRules patX)"
proof -
  have "rule_sound (mkRule (patOp i_MOD [patX, patValue (push_bit n 1)])
      (returns (patOp i_AND [patX, patValue (push_bit n 1 - 1)])) False)" if "n < 256" for n
  proof (rule rule_sound_returns)
    fix \<rho> v
    have u: "unat (push_bit n 1 :: u256) = 2 ^ n"
      using that by (simp only: unsigned_push_bit_eq unsigned_1)
        (simp add: push_bit_of_1 take_bit_nat_eq_self)
    then have "(push_bit n 1 :: u256) \<noteq> 0" by (metis power_eq_0_iff unsigned_0 zero_neq_numeral)
    with u    show "pat_sem \<rho> v (patOp i_AND [patX, patValue (push_bit n 1 - 1)]) =
        pat_sem \<rho> v (patOp i_MOD [patX, patValue (push_bit n 1)])"
      by (simp add: mask_256 mod_mask_256 del: push_bit_of_1)
  qed
  then show ?thesis by (simp add: modRules_def list_all_iff Let_def del: push_bit_of_1)
qed

lemma addressMaskRules_sound: "list_all rule_sound addressMaskRules"
proof -
  have "w AND mask 160 = w" if "w < 2 ^ 160" for w :: u256
    using that by (rule less_mask_eq)
  then have "rule_sound (mkRule (patOp i_AND [patOp i [], patValue (push_bit 160 1 - 1)])
        (returns (patOp i [])) False) \<and>
      rule_sound (mkRule (patOp i_AND [patValue (push_bit 160 1 - 1), patOp i []])
        (returns (patOp i [])) False)"
    if "i \<in> set [i_ADDRESS, i_CALLER, i_ORIGIN, i_COINBASE]" for i
    using that unfolding mask_256
    by (intro conjI rule_sound_returns)
      (auto simp: addresses_fit_def list_all_iff and.commute [of "mask 160"])
  then show ?thesis
    unfolding addressMaskRules_def list_all_iff by (auto simp: Let_def)
qed

lemma evm_bool_iff:
  "evm_bool b = 0 \<longleftrightarrow> \<not> b" "evm_bool (\<not> b) = 0 \<longleftrightarrow> b" "evm_bool b = evm_bool c \<longleftrightarrow> b = c"
  by (simp_all add: evm_bool_def)

lemma xor_eq_0_256: "(x :: u256) XOR y = 0 \<longleftrightarrow> x = y"
  by (metis absorb_256(9) xor.right_neutral xor_self_eq)

lemma doubleNegationRules_sound: "list_all rule_sound (doubleNegationRules patX patY)"
proof -
  have "rule_sound (mkRule (patOp i_ISZERO [patOp i_ISZERO [patOp i [patX, patY]]])
      (returns (patOp i [patX, patY])) False)"
    if "i \<in> set [i_EQ, i_LT, i_SLT, i_GT, i_SGT]" for i
    using that by (intro rule_sound_returns) (auto simp: evm_bool_iff)
  moreover have "rule_sound (mkRule (patOp i_ISZERO [patOp i_ISZERO [patOp i_ISZERO [patX]]])
      (returns (patOp i_ISZERO [patX])) False)"
    by (rule rule_sound_returns) (simp add: evm_bool_iff)
  moreover have "rule_sound (mkRule (patOp i_ISZERO [patOp i_XOR [patX, patY]])
      (returns (patOp i_EQ [patX, patY])) False)"
    by (rule rule_sound_returns) (simp add: evm_bool_iff xor_eq_0_256)
  ultimately show ?thesis unfolding doubleNegationRules_def list_all_iff by auto
qed

text \<open>The associative rules need no more than a commutative semigroup.\<close>

lemma associativeOps_sem:
  assumes "(i, f) \<in> set associativeOps"
  shows "op_sem \<rho> i [x, y] = f x y" and "f x y = f y x" and "f (f x y) z = f x (f y z)"
  using assms
  by (auto simp: associativeOps_def ac_simps)

lemma associativeRulesFor_sound:
  assumes "p \<in> set associativeOps"
  shows "list_all rule_sound (associativeRulesFor patA patB patX patY p)"
proof -
  obtain i f where p: "p = (i, f)" by (cases p)
  note sem = associativeOps_sem [OF assms [unfolded p]]
  have left_comm: "f x (f y z) = f y (f x z)" for x y z
    by (metis sem(2) sem(3))
  show ?thesis
    unfolding associativeRulesFor_def p prod.case list.map concat.simps append.simps list.pred_inject
    by (intro conjI list.pred_inject(1); rule rule_sound_intros)
      (simp_all only: pat_sem_simps list.map sem(1), (metis sem(2,3) left_comm)+)
qed

lemma subtractionRules_sound: "list_all rule_sound (subtractionRules patA patX patY)"
  unfolding subtractionRules_def list.pred_inject
  by (intro conjI list.pred_inject(1); rule rule_sound_intros) (simp_all add: algebra_simps)

lemma allRules_sound: "list_all (\<lambda>r. rule_sound r \<or> r = unsoundRule) allRules"
proof -
  have "list_all rule_sound (concat (map (associativeRulesFor patA patB patX patY) associativeOps))"
    using associativeRulesFor_sound by (auto simp: list_all_iff)
  then show ?thesis
    using constantRules_sound knownConstantRules_sound selfRules_sound logicalRules_sound
      modRules_sound addressMaskRules_sound doubleNegationRules_sound subtractionRules_sound
    by (auto simp: allRules_def simplificationRuleList_def simplificationRuleListPart1_def
        simplificationRuleListPart2_def list_all_iff)
qed

subsection \<open>Every rule makes the expression lighter\<close>

text \<open>
  The measure that shows that simplification terminates. A constant weighs 1 and nothing
  else does; the operations with associative rules charge more for two operands that are
  not constant than for one, so that moving a constant to the outside pays off.
\<close>

fun opWeight :: "instruction \<Rightarrow> nat list \<Rightarrow> nat" where
  "opWeight i [l, r] =
     (if i = i_MUL then (if l = 1 \<or> r = 1 then 4 * (l + r) else 4 * l * r)
      else if i \<in> set [i_ADD, i_AND, i_OR, i_XOR] then
        (if l = 1 \<or> r = 1 then l + r + 2 else 2 * (l + r) + 1)
      else if i = i_SUB then 2 * (l + r) + 2
      else l + r + 3)"
| "opWeight i ws = sum_list ws + 3"

fun patWeight :: "(nat \<Rightarrow> nat) \<Rightarrow> Pattern \<Rightarrow> nat" where
  "patWeight w (Pattern t r i d args g) =
     (if g \<noteq> 0 then w g
      else if t = Operation then opWeight i (map (patWeight w) args)
      else 1)"

lemma patWeight_simps [simp]:
  "patWeight w patA = w 1" "patWeight w patB = w 2" "patWeight w patC = w 3"
  "patWeight w patX = w 4" "patWeight w patY = w 5"
  "patWeight w (patValue x) = 1"
  "patWeight w (patOp i args) = opWeight i (map (patWeight w) args)"
  by (simp_all add: patA_def patB_def patC_def patX_def patY_def patType_def patValue_def patOp_def)

declare patWeight.simps [simp del]

definition group_weights :: "(nat \<Rightarrow> nat) \<Rightarrow> bool" where
  "group_weights w \<longleftrightarrow> w 1 = 1 \<and> w 2 = 1 \<and> w 3 = 1 \<and> 1 \<le> w 4 \<and> 1 \<le> w 5"

text \<open>
  The rules \<open>(X+A)+Y\<close> to \<open>(X+Y)+A\<close> are applied only where \<open>Y\<close> is no constant: the rule
  with \<open>B\<close> for \<open>Y\<close> comes first.
\<close>

definition reorders :: "SimplificationRule \<Rightarrow> bool" where
  "reorders r \<longleftrightarrow>
     (\<exists>i xa. i \<in> set (map fst associativeOps) \<and> xa \<in> set [[patX, patA], [patA, patX]] \<and>
        r_pattern r \<in> set [patOp i [patOp i xa, patY], patOp i [patY, patOp i xa]])"

definition rule_lighter :: "SimplificationRule \<Rightarrow> bool" where
  "rule_lighter r \<longleftrightarrow>
     (\<forall>w mg q. group_weights w \<longrightarrow> (reorders r \<longrightarrow> w 5 \<noteq> 1) \<longrightarrow> r_action r mg = Inr q \<longrightarrow>
        patWeight w q < patWeight w (r_pattern r))"

lemma rule_lighter_intros:
  assumes "\<And>w a b c. group_weights w \<Longrightarrow> patWeight w (f a b c) < patWeight w p"
  shows "rule_lighter (mkRule p (returns (f 0 0 0)) r)"
    and "rule_lighter (mkRule p (withD x (\<lambda>a. f a 0 0)) r)"
    and "rule_lighter (mkRule p (withD2 x y (\<lambda>a b. f a b 0)) r)"
    and "rule_lighter (mkRule p (withD3 x y z (\<lambda>a b c. f a b c)) r)"
  using assms
  by (auto simp: rule_lighter_def mkRule_def returns_def withD_def withD2_def withD3_def
      bindE_Inr_iff)

lemma rule_lighter_returns:
  "(\<And>w. group_weights w \<Longrightarrow> patWeight w q < patWeight w p) \<Longrightarrow>
     rule_lighter (mkRule p (returns q) r)"
  by (rule rule_lighter_intros(1) [where f = "\<lambda>_ _ _. q"])

lemma rule_lighter_withD:
  "(\<And>w a. group_weights w \<Longrightarrow> patWeight w (f a) < patWeight w p) \<Longrightarrow>
     rule_lighter (mkRule p (withD x f) r)"
  by (rule rule_lighter_intros(2) [where f = "\<lambda>a _ _. f a"])

lemma rule_lighter_withD2:
  "(\<And>w a b. group_weights w \<Longrightarrow> patWeight w (f a b) < patWeight w p) \<Longrightarrow>
     rule_lighter (mkRule p (withD2 x y f) r)"
  by (rule rule_lighter_intros(3) [where f = "\<lambda>a b _. f a b"])

lemma rule_lighter_withD3:
  "(\<And>w a b c. group_weights w \<Longrightarrow> patWeight w (f a b c) < patWeight w p) \<Longrightarrow>
     rule_lighter (mkRule p (withD3 x y z f) r)"
  by (rule rule_lighter_intros(4))

lemmas rule_lighter = rule_lighter_returns rule_lighter_withD rule_lighter_withD2
  rule_lighter_withD3

lemma opWeight_binary_ge:
  assumes l: "1 \<le> l" and r: "1 \<le> r"
  shows "l + r + 2 \<le> opWeight i [l, r]"
proof -
  have "l + r + 2 \<le> 4 * l * r" if "l \<noteq> 1" "r \<noteq> 1"
  proof -
    have "2 * l \<le> l * r" and "2 * r \<le> l * r" using that l r by simp_all
    then show ?thesis using that l r by (simp only: mult.assoc)
  qed
  then show ?thesis using l r by auto
qed

lemma constantRules_lighter: "list_all rule_lighter (constantRules patA patB patC)"
  unfolding constantRules_def list.pred_inject
  by (intro conjI list.pred_inject(1); rule rule_lighter) (simp_all add: group_weights_def)

lemma knownConstantRules_lighter: "list_all rule_lighter (knownConstantRules patX)"
  unfolding knownConstantRules_def list.pred_inject
  by (intro conjI list.pred_inject(1); rule rule_lighter) (auto simp: group_weights_def)

lemma selfRules_lighter: "list_all rule_lighter (selfRules patX)"
  unfolding selfRules_def list.pred_inject
  by (intro conjI list.pred_inject(1); rule rule_lighter) (auto simp: group_weights_def)

lemma logicalRules_lighter: "list_all rule_lighter (logicalRules patX patY)"
  unfolding logicalRules_def list.pred_inject
  by (intro conjI list.pred_inject(1); rule rule_lighter) (auto simp: group_weights_def)

lemma modRules_lighter: "list_all rule_lighter (modRules patX)"
  unfolding modRules_def list_all_iff
  by (auto simp: Let_def group_weights_def intro!: rule_lighter_returns)

lemma addressMaskRules_lighter: "list_all rule_lighter addressMaskRules"
  unfolding addressMaskRules_def list_all_iff
  by (auto simp: Let_def group_weights_def intro!: rule_lighter_returns)

lemma doubleNegationRules_lighter: "list_all rule_lighter (doubleNegationRules patX patY)"
  unfolding doubleNegationRules_def list_all_iff
  by (auto simp: group_weights_def intro!: rule_lighter_returns)

lemma subtractionRules_lighter: "list_all rule_lighter (subtractionRules patA patX patY)"
  unfolding subtractionRules_def list.pred_inject
  by (intro conjI list.pred_inject(1); rule rule_lighter) (auto simp: group_weights_def)

lemma rule_lighter_reorder:
  assumes "reorders (mkRule p (returns q) r)"
    and "\<And>w. group_weights w \<Longrightarrow> w 5 \<noteq> 1 \<Longrightarrow> patWeight w q < patWeight w p"
  shows "rule_lighter (mkRule p (returns q) r)"
  using assms by (auto simp: rule_lighter_def mkRule_def returns_def)

lemma associative_weights:
  assumes "i \<in> set (map fst associativeOps)" and "1 \<le> x"
  shows "opWeight i [l, r] = opWeight i [r, l]"
    and "opWeight i [x, 1] < opWeight i [opWeight i [x, 1], 1]"
    and "2 \<le> y \<Longrightarrow> opWeight i [opWeight i [x, y], 1] < opWeight i [opWeight i [x, 1], y]"
proof -
  have i: "i = i_MUL \<or> i \<noteq> i_MUL \<and> i \<in> set [i_ADD, i_AND, i_OR, i_XOR]"
    using assms(1) by (auto simp: associativeOps_def)
  show "opWeight i [l, r] = opWeight i [r, l]" using i by auto
  show "opWeight i [x, 1] < opWeight i [opWeight i [x, 1], 1]" using i by auto
  assume y: "2 \<le> y"
  have "4 * (4 * x * y) + 4 < 4 * (4 * (x + 1)) * y" using y by (simp add: algebra_simps)
  then show "opWeight i [opWeight i [x, y], 1] < opWeight i [opWeight i [x, 1], y]"
    using i assms(2) y by (auto simp: algebra_simps)
qed

lemma associativeRulesFor_lighter:
  assumes "p \<in> set associativeOps"
  shows "list_all rule_lighter (associativeRulesFor patA patB patX patY p)"
proof -
  obtain i f where p: "p = (i, f)" by (cases p)
  then have i: "i \<in> set (map fst associativeOps)" using assms by force
  note sym = associative_weights(1) [OF i order.refl]
  have c: "opWeight i [x, 1] < opWeight i [opWeight i [x, 1], 1]" if "1 \<le> x" for x
    using associative_weights(2) [OF i that] .
  have n: "opWeight i [opWeight i [x, y], 1] < opWeight i [opWeight i [x, 1], y]"
    if "1 \<le> x" "1 \<le> y" "y \<noteq> 1" for x y
    using associative_weights(3) [OF i that(1), of y] that by simp
  have gw: "1 \<le> w 4 \<and> 1 \<le> w 5 \<and> w 1 = 1 \<and> w 2 = 1" if "group_weights w" for w
    using that by (simp add: group_weights_def)
  have rules: "rule_lighter (mkRule (patOp i [patOp i xa, patB])
        (withD2 patA patB (\<lambda>a b. patOp i [patX, patValue (f a b)])) False)"
      "rule_lighter (mkRule (patOp i [patB, patOp i xa])
        (withD2 patA patB (\<lambda>a b. patOp i [patX, patValue (f a b)])) False)"
      "rule_lighter (mkRule (patOp i [patOp i xa, patY])
        (returns (patOp i [patOp i [patX, patY], patA])) False)"
      "rule_lighter (mkRule (patOp i [patY, patOp i xa])
        (returns (patOp i [patOp i [patY, patX], patA])) False)"
    if xa: "xa = [patX, patA] \<or> xa = [patA, patX]" for xa
  proof -
    have xw: "patWeight w (patOp i xa) = opWeight i [w 4, 1]" if "group_weights w" for w
      using xa gw [OF that] sym [of 1 "w 4"] by (auto simp del: opWeight.simps)
    have re: "reorders (mkRule (patOp i [patOp i xa, patY]) a r)"
      "reorders (mkRule (patOp i [patY, patOp i xa]) a r)" for a r
      using i xa by (auto simp: reorders_def mkRule_def)
    have k: "opWeight i [w 4, 1] < opWeight i [patWeight w (patOp i xa), 1]"
      if "group_weights w" for w
      unfolding xw [OF that] using c gw [OF that] by blast
    show "rule_lighter (mkRule (patOp i [patOp i xa, patB])
        (withD2 patA patB (\<lambda>a b. patOp i [patX, patValue (f a b)])) False)"
      using k gw by (intro rule_lighter_withD2) (simp del: opWeight.simps)
    show "rule_lighter (mkRule (patOp i [patB, patOp i xa])
        (withD2 patA patB (\<lambda>a b. patOp i [patX, patValue (f a b)])) False)"
    proof (rule rule_lighter_withD2)
      fix w a b
      assume w: "group_weights w"
      show "patWeight w (patOp i [patX, patValue (f a b)]) < patWeight w (patOp i [patB, patOp i xa])"
        using k [OF w] gw [OF w] sym [of 1] by (simp del: opWeight.simps)
    qed
    show "rule_lighter (mkRule (patOp i [patOp i xa, patY])
        (returns (patOp i [patOp i [patX, patY], patA])) False)"
    proof (rule rule_lighter_reorder [OF re(1)])
      fix w
      assume w: "group_weights w" "w 5 \<noteq> 1"
      then have "opWeight i [opWeight i [w 4, w 5], 1] < opWeight i [opWeight i [w 4, 1], w 5]"
        using gw n by blast
      then show "patWeight w (patOp i [patOp i [patX, patY], patA]) <
          patWeight w (patOp i [patOp i xa, patY])"
        using w(1) gw [OF w(1)] xw [OF w(1)] by (simp del: opWeight.simps)
    qed
    show "rule_lighter (mkRule (patOp i [patY, patOp i xa])
        (returns (patOp i [patOp i [patY, patX], patA])) False)"
    proof (rule rule_lighter_reorder [OF re(2)])
      fix w
      assume w: "group_weights w" "w 5 \<noteq> 1"
      then have "opWeight i [opWeight i [w 4, w 5], 1] < opWeight i [opWeight i [w 4, 1], w 5]"
        using gw n by blast
      then show "patWeight w (patOp i [patOp i [patY, patX], patA]) <
          patWeight w (patOp i [patY, patOp i xa])"
        using w(1) gw [OF w(1)] xw [OF w(1)] sym [of "w 5"] by (simp del: opWeight.simps)
    qed
  qed
  show ?thesis
    unfolding associativeRulesFor_def p prod.case list.map concat.simps append.simps list.pred_inject
    by (intro conjI list.pred_inject(1) rules disjI1 [OF refl] disjI2 [OF refl])
qed

lemma allRules_lighter: "list_all rule_lighter allRules"
proof -
  have "list_all rule_lighter
      (concat (map (associativeRulesFor patA patB patX patY) associativeOps))"
    using associativeRulesFor_lighter by (auto simp: list_all_iff)
  then show ?thesis
    using constantRules_lighter knownConstantRules_lighter selfRules_lighter logicalRules_lighter
      modRules_lighter addressMaskRules_lighter doubleNegationRules_lighter subtractionRules_lighter
    by (auto simp: allRules_def simplificationRuleList_def simplificationRuleListPart1_def
        simplificationRuleListPart2_def list_all_iff)
qed

end
