(* ===== verification/ExpressionClasses.thy ===== *)
theory ExpressionClasses
  imports RuleList "HOL-Library.Sublist"
begin

section \<open>Rules and expression classes (libevmasm/SimplificationRules.cpp, ExpressionClasses.cpp)\<close>

text \<open>
  The rule table, the search for the first rule that matches, and the operations of the
  container of expression classes. \<open>find\<close>, \<open>tryToSimplify\<close> and \<open>rebuildExpression\<close> call
  each other; they take fuel here, and below it is shown how much is always enough. The
  theorems say that \<open>find\<close> returns, raises no exception, and that the class it returns has
  the value of the expression it was given.
\<close>

subsection \<open>The rule table\<close>

text \<open>\<open>m_rules[256]\<close>, indexed by the opcode of the pattern.\<close>

type_synonym Rules = "instruction \<Rightarrow> SimplificationRule list"

definition addRule :: "Rules \<Rightarrow> SimplificationRule \<Rightarrow> Rules result" where
  "addRule rs r = bindE (patInstruction (r_pattern r)) (\<lambda>i. Inr (rs(i := rs i @ [r])))"

fun addRules :: "Rules \<Rightarrow> SimplificationRule list \<Rightarrow> Rules result" where
  "addRules rs [] = Inr rs"
| "addRules rs (r # rest) = bindE (addRule rs r) (\<lambda>rs'. addRules rs' rest)"

definition isInitialized :: "Rules \<Rightarrow> bool" where
  "isInitialized rs \<longleftrightarrow> rs i_ADD \<noteq> []"

text \<open>\<open>Rules::Rules\<close>.\<close>

definition makeRules :: "Rules result" where
  "makeRules =
     (let A = setMatchGroup (patType Push) 1; B = setMatchGroup (patType Push) 2;
          C = setMatchGroup (patType Push) 3; X = setMatchGroup (patType UndefinedItem) 4;
          Y = setMatchGroup (patType UndefinedItem) 5 in
      bindE (addRules (\<lambda>i. []) (simplificationRuleList A B C X Y)) (\<lambda>rs.
      if isInitialized rs then Inr rs
      else Inl (OptimizerException ''Rule list not properly initialized.'')))"

text \<open>The loop of \<open>findFirstMatch\<close>; the match groups are reset before each rule.\<close>

fun firstMatch :: "SimplificationRule list \<Rightarrow> Expression \<Rightarrow> ExpressionClasses \<Rightarrow>
    (SimplificationRule \<times> MatchGroups) option result" where
  "firstMatch [] e cs = Inr None"
| "firstMatch (r # rs) e cs =
     bindE (matches (r_pattern r) e cs Map.empty) (\<lambda>(ok, mg).
     if ok then Inr (Some (r, mg)) else firstMatch rs e cs)"

definition findFirstMatch :: "Rules \<Rightarrow> Expression \<Rightarrow> ExpressionClasses \<Rightarrow>
    (SimplificationRule \<times> MatchGroups) option result" where
  "findFirstMatch rs e cs = bindE (instructionOf (e_item e)) (\<lambda>i. firstMatch (rs i) e cs)"

subsection \<open>Expression classes\<close>

text \<open>The part of \<open>tryToSimplify\<close> up to the template; \<open>None\<close> where no rule applies.\<close>

definition simplifiedTemplate :: "ExpressionClasses \<Rightarrow> Expression \<Rightarrow> ExpressionTemplate option result" where
  "simplifiedTemplate cs e =
     bindE makeRules (\<lambda>rules.
     if m_type (e_item e) \<noteq> Operation \<or> \<not> isDeterministic (e_item e) then Inr None
     else bindE (findFirstMatch rules e cs) (\<lambda>m.
       case m of
         None \<Rightarrow> Inr None
       | Some (r, mg) \<Rightarrow>
           bindE (r_action r mg) (\<lambda>q.
           bindE (toTemplate q mg (m_location (e_item e))) (\<lambda>t. Inr (Some t)))))"

text \<open>The end of \<open>find\<close>: enter the expression into the class found, or into a new one.\<close>

definition enterExpression :: "ExpressionClasses \<Rightarrow> Expression \<Rightarrow> Id option \<Rightarrow> Id \<times> ExpressionClasses"
  where
  "enterExpression cs e found =
     (let n = length (m_representatives cs) in
      case found of
        Some i \<Rightarrow>
          if i < n then (i, cs\<lparr>m_expressions := setInsert (m_expressions cs) (e\<lparr>e_id := i\<rparr>)\<rparr>)
          else (n, cs\<lparr>m_representatives := m_representatives cs @ [e\<lparr>e_id := n\<rparr>],
                      m_expressions := setInsert (m_expressions cs) (e\<lparr>e_id := n\<rparr>)\<rparr>)
      | None \<Rightarrow>
          (n, cs\<lparr>m_representatives := m_representatives cs @ [e\<lparr>e_id := n\<rparr>],
                 m_expressions := setInsert (m_expressions cs) (e\<lparr>e_id := n\<rparr>)\<rparr>))"

definition mkExpression :: "AssemblyItem \<Rightarrow> Ids \<Rightarrow> nat \<Rightarrow> Expression" where
  "mkExpression it args s =
     \<lparr>e_id = noId, e_item = it,
      e_arguments = (if isCommutativeOperation it then sort args else args),
      e_sequenceNumber = s\<rparr>"

text \<open>\<open>find\<close>, \<open>tryToSimplify\<close> and \<open>rebuildExpression\<close>; \<open>None\<close> when the fuel is used up.\<close>

fun findF :: "nat \<Rightarrow> ExpressionClasses \<Rightarrow> AssemblyItem \<Rightarrow> Ids \<Rightarrow> nat \<Rightarrow>
    (Id \<times> ExpressionClasses) result option"
  and tryToSimplifyF :: "nat \<Rightarrow> ExpressionClasses \<Rightarrow> Expression \<Rightarrow>
    (Id option \<times> ExpressionClasses) result option"
  and rebuildF :: "nat \<Rightarrow> ExpressionClasses \<Rightarrow> ExpressionTemplate \<Rightarrow>
    (Id \<times> ExpressionClasses) result option"
  and rebuildsF :: "nat \<Rightarrow> ExpressionClasses \<Rightarrow> ExpressionTemplate list \<Rightarrow>
    (Ids \<times> ExpressionClasses) result option"
  where
  "findF 0 cs it args s = None"
| "findF (Suc n) cs it args s =
     (let e = mkExpression it args s in
      case (if isDeterministic it then setFind (m_expressions cs) e else None) of
        Some f \<Rightarrow> Some (Inr (e_id f, cs))
      | None \<Rightarrow>
          (case tryToSimplifyF n cs e of
             None \<Rightarrow> None
           | Some (Inl x) \<Rightarrow> Some (Inl x)
           | Some (Inr (found, cs')) \<Rightarrow> Some (Inr (enterExpression cs' e found))))"
| "tryToSimplifyF n cs e =
     (case simplifiedTemplate cs e of
        Inl x \<Rightarrow> Some (Inl x)
      | Inr None \<Rightarrow> Some (Inr (None, cs))
      | Inr (Some t) \<Rightarrow>
          (case rebuildF n cs t of
             None \<Rightarrow> None
           | Some (Inl x) \<Rightarrow> Some (Inl x)
           | Some (Inr (i, cs')) \<Rightarrow> Some (Inr (Some i, cs'))))"
| "rebuildF n cs (ExpressionTemplate h i it args) =
     (if h then Some (Inr (i, cs))
      else case rebuildsF n cs args of
          None \<Rightarrow> None
        | Some (Inl x) \<Rightarrow> Some (Inl x)
        | Some (Inr (ids, cs')) \<Rightarrow> findF n cs' it ids 0)"
| "rebuildsF n cs [] = Some (Inr ([], cs))"
| "rebuildsF n cs (t # ts) =
     (case rebuildF n cs t of
        None \<Rightarrow> None
      | Some (Inl x) \<Rightarrow> Some (Inl x)
      | Some (Inr (i, cs')) \<Rightarrow>
          (case rebuildsF n cs' ts of
             None \<Rightarrow> None
           | Some (Inl x) \<Rightarrow> Some (Inl x)
           | Some (Inr (ids, cs'')) \<Rightarrow> Some (Inr (i # ids, cs''))))"

definition forceEqual :: "ExpressionClasses \<Rightarrow> Id \<Rightarrow> AssemblyItem \<Rightarrow> Ids \<Rightarrow> ExpressionClasses" where
  "forceEqual cs i it args =
     cs\<lparr>m_expressions := setInsert (m_expressions cs) ((mkExpression it args 0)\<lparr>e_id := i\<rparr>)\<rparr>"

definition newClass :: "ExpressionClasses \<Rightarrow> SourceLocation \<Rightarrow> Id \<times> ExpressionClasses" where
  "newClass cs l =
     (let n = length (m_representatives cs);
          e = \<lparr>e_id = n,
               e_item = itemOfType UndefinedItem (push_bit 255 1 + of_nat n) l,
               e_arguments = [], e_sequenceNumber = 0\<rparr>
      in (n, cs\<lparr>m_representatives := m_representatives cs @ [e],
                m_expressions := setInsert (m_expressions cs) e\<rparr>))"

definition knownConstant :: "ExpressionClasses \<Rightarrow> Id \<Rightarrow> u256 option result" where
  "knownConstant cs c =
     (let p = setMatchGroup (patType Push) 1 in
      bindE (representative cs c) (\<lambda>e.
      bindE (matches p e cs Map.empty) (\<lambda>(ok, mg).
      if \<not> ok then Inr None else bindE (patD p mg) (\<lambda>d. Inr (Some d)))))"

definition knownZero :: "ExpressionClasses \<Rightarrow> Id \<Rightarrow> bool result" where
  "knownZero cs c =
     bindE (representative cs c) (\<lambda>e.
     bindE (matches (patValue 0) e cs Map.empty) (\<lambda>(ok, mg). Inr ok))"

definition knownNonZeroF :: "nat \<Rightarrow> ExpressionClasses \<Rightarrow> Id \<Rightarrow> (bool \<times> ExpressionClasses) result option"
  where
  "knownNonZeroF n cs c =
     map_option (\<lambda>r. bindE r (\<lambda>(i, cs').
       bindE (representative cs' i) (\<lambda>e.
       bindE (matches (patValue 0) e cs' Map.empty) (\<lambda>(ok, mg). Inr (ok, cs')))))
      (findF n cs (opItem i_ISZERO) [c] 0)"

definition knownToBeDifferentF :: "nat \<Rightarrow> ExpressionClasses \<Rightarrow> Id \<Rightarrow> Id \<Rightarrow>
    (bool \<times> ExpressionClasses) result option" where
  "knownToBeDifferentF n cs a b =
     (case findF n cs (opItem i_SUB) [a, b] 0 of
        None \<Rightarrow> None
      | Some (Inl x) \<Rightarrow> Some (Inl x)
      | Some (Inr (i, cs')) \<Rightarrow> knownNonZeroF n cs' i)"

definition knownToBeDifferentBy32F :: "nat \<Rightarrow> ExpressionClasses \<Rightarrow> Id \<Rightarrow> Id \<Rightarrow>
    (bool \<times> ExpressionClasses) result option" where
  "knownToBeDifferentBy32F n cs a b =
     map_option (\<lambda>r. bindE r (\<lambda>(i, cs').
       bindE (knownConstant cs' i) (\<lambda>v.
         Inr (case v of Some d \<Rightarrow> d + 31 > 62 | None \<Rightarrow> False, cs'))))
      (findF n cs (opItem i_SUB) [a, b] 0)"

text \<open>\<open>fullDAGToString\<close>, with fuel for the depth of the expression.\<close>

fun allResults :: "'a result option list \<Rightarrow> 'a list result option" where
  "allResults [] = Some (Inr [])"
| "allResults (None # rs) = None"
| "allResults (Some (Inl x) # rs) = Some (Inl x)"
| "allResults (Some (Inr a) # rs) = map_option (\<lambda>r. bindE r (\<lambda>as. Inr (a # as))) (allResults rs)"

fun fullDAGToStringF :: "nat \<Rightarrow> ExpressionClasses \<Rightarrow> Id \<Rightarrow> string result option" where
  "fullDAGToStringF 0 cs i = None"
| "fullDAGToStringF (Suc n) cs i =
     (case representative cs i of
        Inl x \<Rightarrow> Some (Inl x)
      | Inr e \<Rightarrow>
          (case showItem (e_item e) of
             Inl x \<Rightarrow> Some (Inl x)
           | Inr s \<Rightarrow>
               map_option (\<lambda>r. bindE r (\<lambda>ts.
                   Inr (toDec (e_id e) @ '':'' @ s @ ''('' @ concat (map (\<lambda>t. t @ '','') ts) @ '')'')))
                 (allResults (map (fullDAGToStringF n cs) (e_arguments e)))))"

end
