(* ===== verification/ExpressionMatching.thy ===== *)
theory ExpressionMatching
  imports ExpressionClasses
begin

section \<open>Matching of patterns against expression classes\<close>

text \<open>
  What \<open>matches\<close> and \<open>findFirstMatch\<close> decide, stated without the order in which the match
  groups are filled; that the rule table is well formed and that its order keeps the rule
  that is not sound, and the rules that would loop, from being applied where they should
  not; and the values and weights of expression classes.
\<close>

subsection \<open>What matching decides\<close>

text \<open>
  A declarative reading of \<open>matches\<close>: the pattern fits the expression when the match groups
  stand for the classes \<open>\<sigma>\<close>.
\<close>

fun fits :: "ExpressionClasses \<Rightarrow> (nat \<Rightarrow> Id) \<Rightarrow> Pattern \<Rightarrow> Expression \<Rightarrow> bool"
  and fitsArgs :: "ExpressionClasses \<Rightarrow> (nat \<Rightarrow> Id) \<Rightarrow> Pattern list \<Rightarrow> Ids \<Rightarrow> bool"
  where
  "fits cs \<sigma> (Pattern t r i d args g) e \<longleftrightarrow>
     matchesBaseItem (Pattern t r i d args g) (e_item e) = Inr True \<and>
     (g \<noteq> 0 \<longrightarrow> \<sigma> g = e_id e) \<and> (args \<noteq> [] \<longrightarrow> fitsArgs cs \<sigma> args (e_arguments e))"
| "fitsArgs cs \<sigma> [] ids \<longleftrightarrow> ids = []"
| "fitsArgs cs \<sigma> (p # ps) [] \<longleftrightarrow> False"
| "fitsArgs cs \<sigma> (p # ps) (i # ids) \<longleftrightarrow>
     i < length (m_representatives cs) \<and> fits cs \<sigma> p (m_representatives cs ! i) \<and>
     fitsArgs cs \<sigma> ps ids"

text \<open>The opcodes that may occur in rules.\<close>

definition ruleOps :: "instruction list" where
  "ruleOps = evm_ariths @ [i_ADDRESS, i_CALLER, i_ORIGIN, i_COINBASE]"

text \<open>Well-formed patterns, the groups they use, and what the groups must hold.\<close>

fun pat_wf :: "Pattern \<Rightarrow> bool" where
  "pat_wf (Pattern t r i d args g) \<longleftrightarrow>
     (args \<noteq> [] \<longrightarrow> t = Operation \<and> g = 0) \<and>
     (t = Operation \<longrightarrow> g = 0 \<and> length args = nat (info_args (instructionInfo i)) \<and> i \<in> set ruleOps) \<and>
     (g = 0 \<longrightarrow> t = Operation \<or> t = Push \<and> d \<noteq> None \<and> r) \<and>
     (g \<noteq> 0 \<longrightarrow> g \<le> 5 \<and> \<not> r \<and> (if g \<le> 3 then t = Push else t = UndefinedItem)) \<and>
     list_all pat_wf args"

fun pat_groups :: "Pattern \<Rightarrow> nat set" where
  "pat_groups (Pattern t r i d args g) =
     (if g = 0 then \<Union> (set (map pat_groups args)) else insert g (\<Union> (set (map pat_groups args))))"

definition expr_wf :: "nat \<Rightarrow> Expression \<Rightarrow> bool" where
  "expr_wf n e \<longleftrightarrow>
     list_all (\<lambda>a. a < n) (e_arguments e) \<and>
     length (e_arguments e) =
       (if m_type (e_item e) = Operation
        then nat (info_args (instructionInfo (m_instruction (e_item e)))) else 0)"

definition sane :: "ExpressionClasses \<Rightarrow> bool" where
  "sane cs \<longleftrightarrow>
     (let n = length (m_representatives cs) in
      (\<forall>i < n. e_id (m_representatives cs ! i) = i \<and> expr_wf n (m_representatives cs ! i)) \<and>
      list_all (\<lambda>e. e_id e < n \<and> expr_wf n e) (m_expressions cs))"

definition agrees :: "(nat \<Rightarrow> Id) \<Rightarrow> MatchGroups \<Rightarrow> bool" where
  "agrees \<sigma> mg \<longleftrightarrow> (\<forall>g e. mg g = Some e \<longrightarrow> e_id e = \<sigma> g)"

definition groups_ok :: "ExpressionClasses \<Rightarrow> MatchGroups \<Rightarrow> bool" where
  "groups_ok cs mg \<longleftrightarrow>
     (\<forall>g e. mg g = Some e \<longrightarrow>
        0 < g \<and> (g \<le> 3 \<longrightarrow> m_type (e_item e) = Push) \<and> e \<in> set (m_representatives cs))"

lemma agrees_mono: "mg \<subseteq>\<^sub>m mg' \<Longrightarrow> agrees \<sigma> mg' \<Longrightarrow> agrees \<sigma> mg"
  by (auto simp: agrees_def map_le_def dom_def)

lemma matchGroupStep_spec:
  assumes "matchGroupStep g e mg = (ok, mg')"
  shows "mg \<subseteq>\<^sub>m mg'" and "ok \<Longrightarrow> g \<noteq> 0 \<Longrightarrow> g \<in> dom mg'"
    and "ok \<Longrightarrow> agrees \<sigma> mg' \<Longrightarrow> g \<noteq> 0 \<Longrightarrow> \<sigma> g = e_id e"
    and "agrees \<sigma> mg \<Longrightarrow> (g \<noteq> 0 \<Longrightarrow> \<sigma> g = e_id e) \<Longrightarrow> ok \<and> agrees \<sigma> mg'"
    and "mg' = mg \<or> mg' = mg(g \<mapsto> e) \<and> g \<noteq> 0"
  using assms
  by (auto simp: matchGroupStep_def agrees_def map_le_def split: if_splits option.splits)

lemma matchesBaseItem_total:
  assumes "pat_wf p"
  obtains b where "matchesBaseItem p it = Inr b"
proof (cases p)
  case (Pattern t r i d args g)
  have d: "\<exists>v. d = Some v" if "r" "t \<noteq> Operation"
    using assms that unfolding Pattern by (cases "g = 0") auto
  have "\<exists>b. matchesBaseItem p it = Inr b"
  proof (cases "r \<and> t \<noteq> Operation \<and> m_type it \<noteq> Operation")
    case True
    then show ?thesis using d by (auto simp: Pattern matchesBaseItem_def patData_def dataOf_def)
  next
    case False
    then show ?thesis by (auto simp: Pattern matchesBaseItem_def)
  qed
  then show thesis using that by blast
qed

lemma matchesBaseItem_op:
  "matchesBaseItem (Pattern Operation r i d args g) it = Inr True \<longleftrightarrow>
     m_type it = Operation \<and> m_instruction it = i"
  by (auto simp: matchesBaseItem_def)

lemma matchesBaseItem_push:
  "matchesBaseItem (Pattern Push False i d args g) it = Inr True \<longleftrightarrow> m_type it = Push"
  by (auto simp: matchesBaseItem_def)

lemma expr_wf_mono: "expr_wf n e \<Longrightarrow> n \<le> m \<Longrightarrow> expr_wf m e"
  by (auto simp: expr_wf_def list_all_iff)

lemma sane_representative:
  assumes "sane cs" and "i < length (m_representatives cs)"
  shows "representative cs i = Inr (m_representatives cs ! i)"
    and "e_id (m_representatives cs ! i) = i"
    and "expr_wf (length (m_representatives cs)) (m_representatives cs ! i)"
  using assms by (auto simp: sane_def representative_def Let_def)

definition match_result :: "ExpressionClasses \<Rightarrow> MatchGroups \<Rightarrow> nat set \<Rightarrow> ((nat \<Rightarrow> Id) \<Rightarrow> bool) \<Rightarrow>
    (bool \<times> MatchGroups) result \<Rightarrow> bool" where
  "match_result cs mg gs F r \<longleftrightarrow>
     (\<exists>ok mg'. r = Inr (ok, mg') \<and>
        (ok \<longrightarrow> mg \<subseteq>\<^sub>m mg' \<and> gs \<subseteq> dom mg' \<and> (groups_ok cs mg \<longrightarrow> groups_ok cs mg') \<and>
           (\<forall>\<sigma>. agrees \<sigma> mg' \<longrightarrow> F \<sigma>)) \<and>
        (\<forall>\<sigma>. agrees \<sigma> mg \<longrightarrow> F \<sigma> \<longrightarrow> ok \<and> agrees \<sigma> mg'))"

lemma match_resultI:
  assumes "r = Inr (ok, mg')"
    and "ok \<Longrightarrow> mg \<subseteq>\<^sub>m mg'" and "ok \<Longrightarrow> gs \<subseteq> dom mg'"
    and "ok \<Longrightarrow> groups_ok cs mg \<Longrightarrow> groups_ok cs mg'"
    and "\<And>\<sigma>. ok \<Longrightarrow> agrees \<sigma> mg' \<Longrightarrow> F \<sigma>"
    and "\<And>\<sigma>. agrees \<sigma> mg \<Longrightarrow> F \<sigma> \<Longrightarrow> ok \<and> agrees \<sigma> mg'"
  shows "match_result cs mg gs F r"
  using assms by (auto simp: match_result_def)

lemma match_resultE:
  assumes "match_result cs mg gs F r"
  obtains ok mg' where "r = Inr (ok, mg')"
    and "ok \<Longrightarrow> mg \<subseteq>\<^sub>m mg'" and "ok \<Longrightarrow> gs \<subseteq> dom mg'"
    and "ok \<Longrightarrow> groups_ok cs mg \<Longrightarrow> groups_ok cs mg'"
    and "\<And>\<sigma>. ok \<Longrightarrow> agrees \<sigma> mg' \<Longrightarrow> F \<sigma>"
    and "\<And>\<sigma>. agrees \<sigma> mg \<Longrightarrow> F \<sigma> \<Longrightarrow> ok \<and> agrees \<sigma> mg'"
proof -
  obtain ok mg' where "r = Inr (ok, mg')"
    and o: "ok \<longrightarrow> mg \<subseteq>\<^sub>m mg' \<and> gs \<subseteq> dom mg' \<and> (groups_ok cs mg \<longrightarrow> groups_ok cs mg') \<and>
      (\<forall>\<sigma>. agrees \<sigma> mg' \<longrightarrow> F \<sigma>)"
    and a: "\<forall>\<sigma>. agrees \<sigma> mg \<longrightarrow> F \<sigma> \<longrightarrow> ok \<and> agrees \<sigma> mg'"
    using assms unfolding match_result_def by blast
  then show thesis using that by simp
qed

lemma map_le_domD: "mg \<subseteq>\<^sub>m mg' \<Longrightarrow> dom mg \<subseteq> dom mg'"
  by (auto simp: map_le_def dom_def)

lemma matches_result:
  "sane cs \<Longrightarrow> pat_wf p \<Longrightarrow> expr_wf (length (m_representatives cs)) e \<Longrightarrow>
     (p_matchGroup p \<noteq> 0 \<Longrightarrow> e \<in> set (m_representatives cs)) \<Longrightarrow> match_result cs mg (pat_groups p) (\<lambda>\<sigma>. fits cs \<sigma> p e) (matches p e cs mg)"
  "sane cs \<Longrightarrow> list_all pat_wf ps \<Longrightarrow> list_all (\<lambda>a. a < length (m_representatives cs)) ids \<Longrightarrow>
     length ids = length ps \<Longrightarrow>
     match_result cs mg (\<Union> (set (map pat_groups ps))) (\<lambda>\<sigma>. fitsArgs cs \<sigma> ps ids)
       (matchesArgs ps ids cs mg)"
proof (induction p e cs mg and ps ids cs mg rule: matches_matchesArgs.induct)
  case (1 t r i d args g e cs mg)
  let ?p = "Pattern t r i d args g"
  obtain b where b: "matchesBaseItem ?p (e_item e) = Inr b"
    using matchesBaseItem_total [OF 1(3)] .
  obtain ok mg1 where s: "matchGroupStep g e mg = (ok, mg1)" by fastforce
  note st = matchGroupStep_spec [OF s]
  show ?case
  proof (cases "b \<and> ok")
    case False
    have eq: "matches ?p e cs mg = Inr (False, if b then mg1 else mg)"
      using False b s by auto
    show ?thesis
      by (rule match_resultI [OF eq]) (use False b st(4) in auto)
  next
    case True
    have len: "args = [] \<or> length (e_arguments e) = length args"
    proof (cases "args = []")
      case False
      then have t: "t = Operation" "length args = nat (info_args (instructionInfo i))"
        using 1(3) by simp_all
      then have "m_type (e_item e) = Operation" "m_instruction (e_item e) = i"
        using b True matchesBaseItem_op by auto
      then show ?thesis using t 1(4) by (simp add: expr_wf_def)
    qed simp
    have gok: "groups_ok cs mg \<Longrightarrow> groups_ok cs mg1"
    proof -
      assume mg: "groups_ok cs mg"
      have "m_type (e_item e) = Push" if "g \<noteq> 0" "g \<le> 3"
      proof -
        have "t = Push" "\<not> r" using 1(3) that by simp_all
        then show ?thesis using b True matchesBaseItem_push [of i d args g "e_item e"] by simp
      qed
      then have "g \<noteq> 0 \<Longrightarrow> groups_ok cs (mg(g \<mapsto> e))"
        using mg 1(5) by (simp add: groups_ok_def)
      then show "groups_ok cs mg1" using mg st(5) by metis
    qed
    show ?thesis
    proof (cases "args = []")
      case True
      have eq: "matches ?p e cs mg = Inr (True, mg1)" using \<open>b \<and> ok\<close> b s True by simp
      have gs: "g \<noteq> 0 \<Longrightarrow> g \<in> dom mg1" using st(2) \<open>b \<and> ok\<close> by blast
      have gr: "g \<noteq> 0 \<Longrightarrow> agrees \<sigma> mg1 \<Longrightarrow> \<sigma> g = e_id e" for \<sigma> using st(3) \<open>b \<and> ok\<close> by blast
      show ?thesis
      proof (rule match_resultI [OF eq])
        show "fits cs \<sigma> ?p e" if "agrees \<sigma> mg1" for \<sigma>
          using that gr b \<open>b \<and> ok\<close> True by simp
        show "True \<and> agrees \<sigma> mg1" if "agrees \<sigma> mg" "fits cs \<sigma> ?p e" for \<sigma>
          using st(4) [OF that(1)] that(2) by simp
      qed (use st(1) gs gok True in simp_all)
    next
      case ne: False
      have "match_result cs mg1 (\<Union> (set (map pat_groups args)))
          (\<lambda>\<sigma>. fitsArgs cs \<sigma> args (e_arguments e)) (matchesArgs args (e_arguments e) cs mg1)"
        using 1(1) [OF b _ s [symmetric]] True len ne 1(2-4) by (auto simp: expr_wf_def)
      then obtain ok2 mg2 where m: "matchesArgs args (e_arguments e) cs mg1 = Inr (ok2, mg2)"
        "ok2 \<Longrightarrow> mg1 \<subseteq>\<^sub>m mg2" "ok2 \<Longrightarrow> \<Union> (set (map pat_groups args)) \<subseteq> dom mg2"
        "ok2 \<Longrightarrow> groups_ok cs mg1 \<Longrightarrow> groups_ok cs mg2"
        "\<And>\<sigma>. ok2 \<Longrightarrow> agrees \<sigma> mg2 \<Longrightarrow> fitsArgs cs \<sigma> args (e_arguments e)"
        "\<And>\<sigma>. agrees \<sigma> mg1 \<Longrightarrow> fitsArgs cs \<sigma> args (e_arguments e) \<Longrightarrow> ok2 \<and> agrees \<sigma> mg2"
        by (rule match_resultE) blast
      have eq: "matches ?p e cs mg = Inr (ok2, mg2)"
        using b s True len ne m(1) by auto
      have g0: "g = 0" using 1(3) ne by simp
      show ?thesis
      proof (rule match_resultI [OF eq])
        show "fits cs \<sigma> ?p e" if "ok2" "agrees \<sigma> mg2" for \<sigma>
          using m(5) that b True g0 by simp
        show "ok2 \<and> agrees \<sigma> mg2" if "agrees \<sigma> mg" "fits cs \<sigma> ?p e" for \<sigma>
          using st(4) [OF that(1)] m(6) [of \<sigma>] that(2) ne g0 by simp
        show "ok2 \<Longrightarrow> mg \<subseteq>\<^sub>m mg2" using m(2) st(1) map_le_trans by blast
      qed (use m(3,4) gok g0 in simp_all)
    qed
  qed
next
  case (2 ids cs mg)
  then show ?case by (auto simp: match_result_def)
next
  case (3 p ps cs mg)
  then show ?case by simp
next
  case (4 p ps i ids cs mg)
  let ?e = "m_representatives cs ! i"
  have r: "representative cs i = Inr ?e" "expr_wf (length (m_representatives cs)) ?e"
    using sane_representative [OF 4(3)] 4(5) by auto
  have "match_result cs mg (pat_groups p) (\<lambda>\<sigma>. fits cs \<sigma> p ?e) (matches p ?e cs mg)"
    using 4(1) [OF r(1) 4(3) _ r(2)] 4(4,5) by simp
  then obtain ok mg1 where m: "matches p ?e cs mg = Inr (ok, mg1)"
    "ok \<Longrightarrow> mg \<subseteq>\<^sub>m mg1" "ok \<Longrightarrow> pat_groups p \<subseteq> dom mg1"
    "ok \<Longrightarrow> groups_ok cs mg \<Longrightarrow> groups_ok cs mg1"
    "\<And>\<sigma>. ok \<Longrightarrow> agrees \<sigma> mg1 \<Longrightarrow> fits cs \<sigma> p ?e"
    "\<And>\<sigma>. agrees \<sigma> mg \<Longrightarrow> fits cs \<sigma> p ?e \<Longrightarrow> ok \<and> agrees \<sigma> mg1"
    by (rule match_resultE) blast
  show ?case
  proof (cases ok)
    case False
    then have eq: "matchesArgs (p # ps) (i # ids) cs mg = Inr (False, mg1)"
      using r m(1) by simp
    show ?thesis by (rule match_resultI [OF eq]) (use m(6) False in auto)
  next
    case True
    have "match_result cs mg1 (\<Union> (set (map pat_groups ps))) (\<lambda>\<sigma>. fitsArgs cs \<sigma> ps ids)
        (matchesArgs ps ids cs mg1)"
      using 4(2) [OF r(1) m(1) refl True 4(3)] 4(4-6) by simp
    then obtain ok2 mg2 where m2: "matchesArgs ps ids cs mg1 = Inr (ok2, mg2)"
      "ok2 \<Longrightarrow> mg1 \<subseteq>\<^sub>m mg2" "ok2 \<Longrightarrow> \<Union> (set (map pat_groups ps)) \<subseteq> dom mg2"
      "ok2 \<Longrightarrow> groups_ok cs mg1 \<Longrightarrow> groups_ok cs mg2"
      "\<And>\<sigma>. ok2 \<Longrightarrow> agrees \<sigma> mg2 \<Longrightarrow> fitsArgs cs \<sigma> ps ids"
      "\<And>\<sigma>. agrees \<sigma> mg1 \<Longrightarrow> fitsArgs cs \<sigma> ps ids \<Longrightarrow> ok2 \<and> agrees \<sigma> mg2"
      by (rule match_resultE) blast
    have eq: "matchesArgs (p # ps) (i # ids) cs mg = Inr (ok2, mg2)"
      using r m(1) True m2(1) by simp
    have i: "i < length (m_representatives cs)" using 4(5) by simp
    show ?thesis
    proof (rule match_resultI [OF eq])
      show "fitsArgs cs \<sigma> (p # ps) (i # ids)" if "ok2" "agrees \<sigma> mg2" for \<sigma>
        using m(5) [OF True agrees_mono [OF m2(2) [OF that(1)] that(2)]] m2(5) [OF that] i by simp
      show "ok2 \<and> agrees \<sigma> mg2" if "agrees \<sigma> mg" "fitsArgs cs \<sigma> (p # ps) (i # ids)" for \<sigma>
        using m(6) [OF that(1)] m2(6) [of \<sigma>] that(2) by simp
      show "\<Union> (set (map pat_groups (p # ps))) \<subseteq> dom mg2" if ok2
        using map_le_domD [OF m2(2) [OF that]] m(3) [OF True] m2(3) [OF that] by auto
    qed (use m(2,4) m2(2,4) True map_le_trans in blast)+
  qed
qed

subsection \<open>The rules are well formed\<close>

definition rule_wf :: "SimplificationRule \<Rightarrow> bool" where
  "rule_wf r \<longleftrightarrow>
     (\<exists>i args. r_pattern r = patOp i args) \<and> pat_wf (r_pattern r) \<and>
     (\<forall>cs mg. groups_ok cs mg \<longrightarrow> pat_groups (r_pattern r) \<subseteq> dom mg \<longrightarrow>
        (\<exists>q. r_action r mg = Inr q \<and> pat_wf q \<and> pat_groups q \<subseteq> pat_groups (r_pattern r)))"

lemma pat_wf_simps [simp]:
  "pat_wf patA" "pat_wf patB" "pat_wf patC" "pat_wf patX" "pat_wf patY" "pat_wf (patValue v)"
  "pat_wf (patOp i args) \<longleftrightarrow>
     length args = nat (info_args (instructionInfo i)) \<and> i \<in> set ruleOps \<and> list_all pat_wf args"
  by (auto simp: patA_def patB_def patC_def patX_def patY_def patType_def patValue_def patOp_def)

lemma pat_groups_simps [simp]:
  "pat_groups patA = {1}" "pat_groups patB = {2}" "pat_groups patC = {3}" "pat_groups patX = {4}"
  "pat_groups patY = {5}" "pat_groups (patValue v) = {}"
  "pat_groups (patOp i args) = \<Union> (set (map pat_groups args))"
  by (auto simp: patA_def patB_def patC_def patX_def patY_def patType_def patValue_def patOp_def)

declare pat_wf.simps [simp del] pat_groups.simps [simp del]

lemma patD_bound:
  assumes "groups_ok cs mg" and "g \<in> dom mg" and "p_matchGroup p = g" and "g \<in> {1, 2, 3}"
  shows "\<exists>d. patD p mg = Inr d"
  using assms by (auto simp: patD_def matchGroupValue_def groups_ok_def dataOf_def)

lemma group_numbers [simp]:
  "p_matchGroup patA = 1" "p_matchGroup patB = 2" "p_matchGroup patC = 3"
  by (simp_all add: patA_def patB_def patC_def patType_def)

lemma rule_wf_returns:
  assumes "pat_wf (patOp i args)" and "pat_wf q" and "pat_groups q \<subseteq> pat_groups (patOp i args)"
  shows "rule_wf (mkRule (patOp i args) (returns q) b)"
  using assms by (auto simp: rule_wf_def mkRule_def returns_def simp del: pat_groups_simps pat_wf_simps)

lemma rule_wf_withD:
  assumes "pat_wf (patOp i args)" and "\<And>a. pat_wf (f a)" and "1 \<in> pat_groups (patOp i args)"
    and "\<And>a. pat_groups (f a) \<subseteq> pat_groups (patOp i args)"
  shows "rule_wf (mkRule (patOp i args) (withD patA f) b)"
proof -
  have "\<exists>q. withD patA f mg = Inr q \<and> pat_wf q \<and> pat_groups q \<subseteq> pat_groups (patOp i args)"
    if "groups_ok cs mg" "pat_groups (patOp i args) \<subseteq> dom mg" for cs mg
    using patD_bound [OF that(1), of 1 patA] assms(2-4) that(2) by (force simp: withD_def)
  then show ?thesis using assms(1) by (auto simp: rule_wf_def mkRule_def simp del: pat_groups_simps)
qed

lemma rule_wf_withD2:
  assumes "pat_wf (patOp i args)" and "\<And>a b. pat_wf (f a b)" and "{1, 2} \<subseteq> pat_groups (patOp i args)"
    and "\<And>a b. pat_groups (f a b) \<subseteq> pat_groups (patOp i args)"
  shows "rule_wf (mkRule (patOp i args) (withD2 patA patB f) b)"
proof -
  have "\<exists>q. withD2 patA patB f mg = Inr q \<and> pat_wf q \<and> pat_groups q \<subseteq> pat_groups (patOp i args)"
    if "groups_ok cs mg" "pat_groups (patOp i args) \<subseteq> dom mg" for cs mg
    using patD_bound [OF that(1), of 1 patA] patD_bound [OF that(1), of 2 patB] assms(2-4) that(2)
    by (force simp: withD2_def)
  then show ?thesis using assms(1) by (auto simp: rule_wf_def mkRule_def simp del: pat_groups_simps)
qed

lemma rule_wf_withD3:
  assumes "pat_wf (patOp i args)" and "\<And>a b c. pat_wf (f a b c)"
    and "{1, 2, 3} \<subseteq> pat_groups (patOp i args)"
    and "\<And>a b c. pat_groups (f a b c) \<subseteq> pat_groups (patOp i args)"
  shows "rule_wf (mkRule (patOp i args) (withD3 patA patB patC f) b)"
proof -
  have "\<exists>q. withD3 patA patB patC f mg = Inr q \<and> pat_wf q \<and> pat_groups q \<subseteq> pat_groups (patOp i args)"
    if m: "groups_ok cs mg" "pat_groups (patOp i args) \<subseteq> dom mg" for cs mg
  proof -
    have "1 \<in> dom mg" "2 \<in> dom mg" "3 \<in> dom mg"
      using assms(3) m(2) by (simp_all only: insert_subset) blast+
    then obtain x y z where "patD patA mg = Inr x" "patD patB mg = Inr y" "patD patC mg = Inr z"
      using patD_bound [OF m(1), of 1 patA] patD_bound [OF m(1), of 2 patB]
        patD_bound [OF m(1), of 3 patC] by auto
    then have "withD3 patA patB patC f mg = Inr (f x y z)" by (simp add: withD3_def)
    then show ?thesis using assms(2,4) by blast
  qed
  then show ?thesis using assms(1) by (auto simp: rule_wf_def mkRule_def simp del: pat_groups_simps)
qed

lemmas rule_wf_intros = rule_wf_returns rule_wf_withD rule_wf_withD2 rule_wf_withD3

text \<open>The operand counts of the opcodes that occur in rules.\<close>

lemma op_info_args:
  "info_args (instructionInfo i_ADD) = 2"
  "info_args (instructionInfo i_MUL) = 2"
  "info_args (instructionInfo i_SUB) = 2"
  "info_args (instructionInfo i_DIV) = 2"
  "info_args (instructionInfo i_SDIV) = 2"
  "info_args (instructionInfo i_MOD) = 2"
  "info_args (instructionInfo i_SMOD) = 2"
  "info_args (instructionInfo i_EXP) = 2"
  "info_args (instructionInfo i_SIGNEXTEND) = 2"
  "info_args (instructionInfo i_LT) = 2"
  "info_args (instructionInfo i_GT) = 2"
  "info_args (instructionInfo i_SLT) = 2"
  "info_args (instructionInfo i_SGT) = 2"
  "info_args (instructionInfo i_EQ) = 2"
  "info_args (instructionInfo i_AND) = 2"
  "info_args (instructionInfo i_OR) = 2"
  "info_args (instructionInfo i_XOR) = 2"
  "info_args (instructionInfo i_BYTE) = 2"
  "info_args (instructionInfo i_SHL) = 2"
  "info_args (instructionInfo i_SHR) = 2"
  "info_args (instructionInfo i_NOT) = 1"
  "info_args (instructionInfo i_ISZERO) = 1"
  "info_args (instructionInfo i_ADDMOD) = 3"
  "info_args (instructionInfo i_MULMOD) = 3"
  "info_args (instructionInfo i_ADDRESS) = 0"
  "info_args (instructionInfo i_CALLER) = 0"
  "info_args (instructionInfo i_ORIGIN) = 0"
  "info_args (instructionInfo i_COINBASE) = 0"
  by (simp_all add: instr_table)

lemma ruleOps_ops:
  "i_ADD \<in> set ruleOps"
  "i_MUL \<in> set ruleOps"
  "i_SUB \<in> set ruleOps"
  "i_DIV \<in> set ruleOps"
  "i_SDIV \<in> set ruleOps"
  "i_MOD \<in> set ruleOps"
  "i_SMOD \<in> set ruleOps"
  "i_EXP \<in> set ruleOps"
  "i_SIGNEXTEND \<in> set ruleOps"
  "i_LT \<in> set ruleOps"
  "i_GT \<in> set ruleOps"
  "i_SLT \<in> set ruleOps"
  "i_SGT \<in> set ruleOps"
  "i_EQ \<in> set ruleOps"
  "i_AND \<in> set ruleOps"
  "i_OR \<in> set ruleOps"
  "i_XOR \<in> set ruleOps"
  "i_BYTE \<in> set ruleOps"
  "i_SHL \<in> set ruleOps"
  "i_SHR \<in> set ruleOps"
  "i_NOT \<in> set ruleOps"
  "i_ISZERO \<in> set ruleOps"
  "i_ADDMOD \<in> set ruleOps"
  "i_MULMOD \<in> set ruleOps"
  "i_ADDRESS \<in> set ruleOps"
  "i_CALLER \<in> set ruleOps"
  "i_ORIGIN \<in> set ruleOps"
  "i_COINBASE \<in> set ruleOps"
  by (simp_all add: ruleOps_def evm_ariths_def)

lemmas op_args = op_info_args ruleOps_ops

lemma constantRules_wf: "list_all rule_wf (constantRules patA patB patC)"
  unfolding constantRules_def list.pred_inject
  by (intro conjI list.pred_inject(1); rule rule_wf_intros) (simp_all add: op_args)

lemma knownConstantRules_wf: "list_all rule_wf (knownConstantRules patX)"
  unfolding knownConstantRules_def list.pred_inject
  by (intro conjI list.pred_inject(1); rule rule_wf_intros) (simp_all add: op_args)

lemma selfRules_wf: "list_all rule_wf (selfRules patX)"
  unfolding selfRules_def list.pred_inject
  by (intro conjI list.pred_inject(1); rule rule_wf_intros) (simp_all add: op_args)

lemma logicalRules_wf: "list_all rule_wf (logicalRules patX patY)"
  unfolding logicalRules_def list.pred_inject
  by (intro conjI list.pred_inject(1); rule rule_wf_intros) (simp_all add: op_args)

lemma modRules_wf: "list_all rule_wf (modRules patX)"
  unfolding modRules_def list_all_iff
  by (auto simp: Let_def op_args intro!: rule_wf_returns)

lemma addressMaskRules_wf: "list_all rule_wf addressMaskRules"
  unfolding addressMaskRules_def list_all_iff
  by (auto simp: Let_def op_args intro!: rule_wf_returns)

lemma doubleNegationRules_wf: "list_all rule_wf (doubleNegationRules patX patY)"
  unfolding doubleNegationRules_def list_all_iff
  by (auto simp: op_args intro!: rule_wf_returns)

lemma subtractionRules_wf: "list_all rule_wf (subtractionRules patA patX patY)"
  unfolding subtractionRules_def list.pred_inject
  by (intro conjI list.pred_inject(1); rule rule_wf_intros) (simp_all add: op_args)

lemma associativeRulesFor_wf:
  assumes "p \<in> set associativeOps"
  shows "list_all rule_wf (associativeRulesFor patA patB patX patY p)"
proof -
  obtain i f where p: "p = (i, f)" by (cases p)
  have i: "info_args (instructionInfo i) = 2" "i \<in> set ruleOps"
    using assms p by (auto simp: associativeOps_def op_args)
  show ?thesis
    unfolding associativeRulesFor_def p prod.case list.map concat.simps append.simps list.pred_inject
    by (intro conjI list.pred_inject(1); rule rule_wf_intros) (simp_all add: i)
qed

lemma allRules_wf: "list_all rule_wf allRules"
proof -
  have "list_all rule_wf (concat (map (associativeRulesFor patA patB patX patY) associativeOps))"
    using associativeRulesFor_wf by (auto simp: list_all_iff)
  then show ?thesis
    using constantRules_wf knownConstantRules_wf selfRules_wf logicalRules_wf modRules_wf
      addressMaskRules_wf doubleNegationRules_wf subtractionRules_wf
    by (auto simp: allRules_def simplificationRuleList_def simplificationRuleListPart1_def
        simplificationRuleListPart2_def list_all_iff)
qed

text \<open>The table is the list, sorted by opcode and otherwise in its order.\<close>

lemma addRules_filter:
  "list_all rule_wf rs \<Longrightarrow>
     addRules t rs = Inr (\<lambda>i. t i @ filter (\<lambda>r. p_instruction (r_pattern r) = i) rs)"
proof (induction rs arbitrary: t)
  case (Cons r rs)
  then have "patInstruction (r_pattern r) = Inr (p_instruction (r_pattern r))"
    by (auto simp: rule_wf_def patInstruction_def patOp_def)
  then show ?case using Cons by (auto simp: addRule_def fun_eq_iff)
qed simp

definition ruleTable :: Rules where
  "ruleTable i = filter (\<lambda>r. p_instruction (r_pattern r) = i) allRules"

lemma makeRules_table: "makeRules = Inr ruleTable"
proof -
  have "mkRule (patOp i_ADD [patA, patB]) (withD2 patA patB (\<lambda>a b. patValue (a + b))) False
      \<in> set (ruleTable i_ADD)"
    by (simp add: ruleTable_def allRules_def simplificationRuleList_def constantRules_def
        simplificationRuleListPart1_def mkRule_def patOp_def)
  then have "isInitialized ruleTable" by (auto simp: isInitialized_def)
  moreover have "addRules (\<lambda>i. []) allRules = Inr ruleTable"
    using addRules_filter [OF allRules_wf] by (simp add: ruleTable_def fun_eq_iff)
  ultimately show ?thesis
    by (simp add: makeRules_def allRules_def patA_def patB_def patC_def patX_def patY_def Let_def)
qed

text \<open>A rule that reorders has the rule for two constants before it.\<close>

definition preceded :: "SimplificationRule \<Rightarrow> Pattern set \<Rightarrow> bool" where
  "preceded r seen \<longleftrightarrow>
     (\<forall>i \<in> set (map fst associativeOps). \<forall>xa \<in> set [[patX, patA], [patA, patX]].
        (r_pattern r = patOp i [patOp i xa, patY] \<longrightarrow> patOp i [patOp i xa, patB] \<in> seen) \<and>
        (r_pattern r = patOp i [patY, patOp i xa] \<longrightarrow> patOp i [patB, patOp i xa] \<in> seen))"

fun all_preceded :: "Pattern set \<Rightarrow> SimplificationRule list \<Rightarrow> bool" where
  "all_preceded seen [] \<longleftrightarrow> True"
| "all_preceded seen (r # rs) \<longleftrightarrow> preceded r seen \<and> all_preceded (insert (r_pattern r) seen) rs"

lemma preceded_mono: "preceded r s \<Longrightarrow> s \<subseteq> t \<Longrightarrow> preceded r t"
  unfolding preceded_def by blast

lemma all_preceded_append:
  "all_preceded s (xs @ ys) \<longleftrightarrow> all_preceded s xs \<and> all_preceded (s \<union> r_pattern ` set xs) ys"
  by (induction xs arbitrary: s) (auto simp: Un_insert_right insert_commute)

lemma all_preceded_not_reorders: "list_all (\<lambda>r. \<not> reorders r) rs \<Longrightarrow> all_preceded s rs"
proof (induction rs arbitrary: s)
  case (Cons r rs)
  then have "preceded r s" unfolding preceded_def reorders_def by auto
  with Cons show ?case by simp
qed simp

lemma all_preceded_concat:
  "(\<And>xs s. xs \<in> set xss \<Longrightarrow> all_preceded s xs) \<Longrightarrow> all_preceded s (concat xss)"
  by (induction xss arbitrary: s) (auto simp: all_preceded_append)

lemma all_preceded_filter:
  "all_preceded s rs \<Longrightarrow> {p \<in> s. p_instruction p = i} \<subseteq> t \<Longrightarrow>
     all_preceded t (filter (\<lambda>r. p_instruction (r_pattern r) = i) rs)"
proof (induction rs arbitrary: s t)
  case (Cons r rs)
  have p: "preceded r t" if "p_instruction (r_pattern r) = i"
    using Cons.prems that unfolding preceded_def all_preceded.simps
    by (intro ballI conjI impI) (fastforce simp: patOp_def)+
  show ?case
  proof (cases "p_instruction (r_pattern r) = i")
    case True
    then show ?thesis
      using p Cons.IH [of "insert (r_pattern r) s" "insert (r_pattern r) t"] Cons.prems by auto
  next
    case False
    then show ?thesis using Cons.IH [of "insert (r_pattern r) s" t] Cons.prems by auto
  qed
qed simp

lemma patOp_inject [simp]: "patOp i as = patOp j bs \<longleftrightarrow> i = j \<and> as = bs"
  by (simp add: patOp_def)

lemma placeholder_distinct [simp]:
  "patOp i as \<noteq> patA" "patOp i as \<noteq> patB" "patOp i as \<noteq> patX" "patOp i as \<noteq> patY"
  "patA \<noteq> patOp i as" "patB \<noteq> patOp i as" "patX \<noteq> patOp i as" "patY \<noteq> patOp i as"
  "patX \<noteq> patA" "patA \<noteq> patX" "patX \<noteq> patY" "patY \<noteq> patX" "patA \<noteq> patY" "patY \<noteq> patA"
  "patB \<noteq> patY" "patY \<noteq> patB" "patB \<noteq> patX" "patX \<noteq> patB" "patB \<noteq> patA" "patA \<noteq> patB"
  "patValue v \<noteq> patOp i as" "patOp i as \<noteq> patValue v" "patValue v \<noteq> patY" "patY \<noteq> patValue v"
  "patValue v \<noteq> patX" "patX \<noteq> patValue v" "patValue v \<noteq> patA" "patA \<noteq> patValue v"
  by (simp_all add: patOp_def patA_def patB_def patX_def patY_def patType_def patValue_def)

lemma reorders_groups: "reorders r \<Longrightarrow> pat_groups (r_pattern r) = {1, 4, 5}"
  by (auto simp: reorders_def)

lemma associativeRulesFor_preceded:
  assumes "p \<in> set associativeOps"
  shows "all_preceded s (associativeRulesFor patA patB patX patY p)"
proof -
  obtain i f where p: "p = (i, f)" by (cases p)
  show ?thesis
    unfolding associativeRulesFor_def p prod.case list.map concat.simps append.simps
    by (auto simp: mkRule_def preceded_def)
qed

lemma other_rules_not_reorders:
  "list_all (\<lambda>r. \<not> reorders r) (simplificationRuleListPart1 patA patB patC patX patY)"
  "list_all (\<lambda>r. \<not> reorders r) (modRules patX @ addressMaskRules @ doubleNegationRules patX patY)"
  "list_all (\<lambda>r. \<not> reorders r) (subtractionRules patA patX patY)"
proof -
  have g: "\<not> reorders r" if "pat_groups (r_pattern r) \<noteq> {1, 4, 5}" for r
    using reorders_groups that by blast
  have s: "\<not> reorders r" if "p_instruction (r_pattern r) = i_SUB" for r
    using that by (auto simp: reorders_def patOp_def associativeOps_def)
  have "list_all (\<lambda>r. 5 \<notin> pat_groups (r_pattern r) \<or> 1 \<notin> pat_groups (r_pattern r))
      (simplificationRuleListPart1 patA patB patC patX patY)"
    unfolding simplificationRuleListPart1_def constantRules_def knownConstantRules_def
      selfRules_def logicalRules_def list_all_append list.pred_inject
    by (simp add: mkRule_def)
  then show "list_all (\<lambda>r. \<not> reorders r) (simplificationRuleListPart1 patA patB patC patX patY)"
    using g by (auto simp: list_all_iff)
  have "list_all (\<lambda>r. 1 \<notin> pat_groups (r_pattern r))
      (modRules patX @ addressMaskRules @ doubleNegationRules patX patY)"
    by (auto simp: list_all_iff modRules_def addressMaskRules_def doubleNegationRules_def mkRule_def
        Let_def)
  then show "list_all (\<lambda>r. \<not> reorders r)
      (modRules patX @ addressMaskRules @ doubleNegationRules patX patY)"
    using g by (auto simp: list_all_iff)
  show "list_all (\<lambda>r. \<not> reorders r) (subtractionRules patA patX patY)"
    unfolding subtractionRules_def list.pred_inject
    by (intro conjI list.pred_inject(1) s) (simp_all add: mkRule_def patOp_def)
qed

lemma ruleTable_preceded: "all_preceded {} (ruleTable i)"
proof -
  have a: "all_preceded s (concat (map (associativeRulesFor patA patB patX patY) associativeOps))" for s
    using associativeRulesFor_preceded by (intro all_preceded_concat) auto
  have "all_preceded s allRules" for s
    using other_rules_not_reorders [THEN all_preceded_not_reorders] a
    unfolding allRules_def simplificationRuleList_def simplificationRuleListPart2_def
    by (simp add: all_preceded_append)
  from all_preceded_filter [OF this, of "{}"] show ?thesis by (simp add: ruleTable_def)
qed

lemma all_preceded_split:
  "all_preceded s (pre @ r # post) \<Longrightarrow> preceded r (s \<union> r_pattern ` set pre)"
  by (simp add: all_preceded_append)

text \<open>The rule that is not sound comes after one with the same pattern.\<close>

lemma ruleTable_unsound:
  assumes "ruleTable i = pre @ unsoundRule # post"
  shows "rule_sound unsoundRule \<or> r_pattern unsoundRule \<in> r_pattern ` set pre"
proof -
  have "unsoundRule \<in> set (ruleTable i)" using assms by simp
  then have i: "i = i_MULMOD"
    by (auto simp: ruleTable_def unsoundRule_def mkRule_def patOp_def)
  define good where "good = mkRule (patOp i_MULMOD [patA, patB, patC])
     (withD3 patA patB patC (\<lambda>a b c. patValue
       (if c = 0 then 0 else word_of_int ((uint a * uint b) mod uint c)))) False"
  have "rule_sound good"
    unfolding good_def by (rule rule_sound_intros) (simp add: const_evm)
  moreover have "\<exists>rest. ruleTable i_MULMOD = good # rest"
    unfolding ruleTable_def allRules_def simplificationRuleList_def simplificationRuleListPart1_def
      constantRules_def good_def
    by (simp add: mkRule_def patOp_def)
  moreover have "r_pattern good = r_pattern unsoundRule"
    by (simp add: good_def unsoundRule_def mkRule_def)
  ultimately show ?thesis
    using assms i by (cases pre) auto
qed

subsection \<open>Values and weights of classes\<close>

text \<open>
  An environment gives the value of an opcode that is no arithmetic (its operands and the
  sequence number of the storage or memory it reads), and of a symbolic push.
\<close>

record environment =
  env_op :: "instruction \<Rightarrow> u256 list \<Rightarrow> nat \<Rightarrow> u256"
  env_push :: "AssemblyItemType \<Rightarrow> u256 \<Rightarrow> u256"

definition env_ok :: "environment \<Rightarrow> bool" where
  "env_ok env \<longleftrightarrow>
     addresses_fit (\<lambda>i as. env_op env i as 0) \<and>
     list_all (\<lambda>i. \<forall>s. env_op env i [] s = env_op env i [] 0)
       [i_ADDRESS, i_CALLER, i_ORIGIN, i_COINBASE]"

definition item_sem :: "environment \<Rightarrow> AssemblyItem \<Rightarrow> u256 list \<Rightarrow> nat \<Rightarrow> u256" where
  "item_sem env it as s =
     (case m_type it of
        Operation \<Rightarrow>
          (case evm_arith (m_instruction it) as of
             Some v \<Rightarrow> v
           | None \<Rightarrow> env_op env (m_instruction it) as s)
      | Push \<Rightarrow> m_data it
      | t \<Rightarrow> env_push env t (m_data it))"

text \<open>Items whose value is not a function of their operands.\<close>

definition opaque_item :: "AssemblyItem \<Rightarrow> bool" where
  "opaque_item it \<longleftrightarrow> \<not> isDeterministic it"

definition expr_sem :: "environment \<Rightarrow> (Id \<Rightarrow> u256) \<Rightarrow> Expression \<Rightarrow> u256" where
  "expr_sem env val e = item_sem env (e_item e) (map val (e_arguments e)) (e_sequenceNumber e)"

definition expr_holds :: "environment \<Rightarrow> (Id \<Rightarrow> u256) \<Rightarrow> Expression \<Rightarrow> bool" where
  "expr_holds env val e \<longleftrightarrow> opaque_item (e_item e) \<or> val (e_id e) = expr_sem env val e"

text \<open>\<open>val\<close> gives every class the value of each of its expressions.\<close>

definition models :: "environment \<Rightarrow> ExpressionClasses \<Rightarrow> (Id \<Rightarrow> u256) \<Rightarrow> bool" where
  "models env cs val \<longleftrightarrow>
     list_all (expr_holds env val) (m_representatives cs) \<and>
     list_all (expr_holds env val) (m_expressions cs)"

definition exprWeight :: "(Id \<Rightarrow> nat) \<Rightarrow> Expression \<Rightarrow> nat" where
  "exprWeight w e =
     (case m_type (e_item e) of
        Push \<Rightarrow> 1
      | Operation \<Rightarrow> opWeight (m_instruction (e_item e)) (map w (e_arguments e))
      | _ \<Rightarrow> 2)"

text \<open>A class weighs what its representative weighs, and none of its expressions weighs less.\<close>

definition weighted :: "ExpressionClasses \<Rightarrow> (Id \<Rightarrow> nat) \<Rightarrow> bool" where
  "weighted cs w \<longleftrightarrow>
     (\<forall>i < length (m_representatives cs).
        1 \<le> w i \<and> w i = exprWeight w (m_representatives cs ! i)) \<and>
     list_all (\<lambda>e. w (e_id e) \<le> exprWeight w e) (m_expressions cs)"

lemma item_sem_cong: "item_eq it it' \<Longrightarrow> item_sem env it as s = item_sem env it' as s"
  by (auto simp: item_sem_def item_eq_def split: if_splits AssemblyItemType.splits option.splits)

lemma opaque_item_cong: "item_eq it it' \<Longrightarrow> opaque_item it = opaque_item it'"
  by (auto simp: opaque_item_def item_eq_def isDeterministic_def split: if_splits)

lemma opWeight_ge_3: "list_all (\<lambda>x. 1 \<le> x) ws \<Longrightarrow> 3 \<le> opWeight i ws"
proof (cases "(i, ws)" rule: opWeight.cases)
  case (1 i' l r)
  then show "list_all (\<lambda>x. 1 \<le> x) ws \<Longrightarrow> 3 \<le> opWeight i ws"
    using opWeight_binary_ge [of l r i] by (auto simp del: opWeight.simps)
qed auto

lemma opWeight_mono:
  assumes "list_all2 (\<le>) ws ws'" and "list_all (\<lambda>x. 1 \<le> x) ws"
  shows "opWeight i ws \<le> opWeight i ws'"
proof (cases "\<exists>l r. ws = [l, r]")
  case True
  then obtain l r l' r' where ws: "ws = [l, r]" "ws' = [l', r']" "l \<le> l'" "r \<le> r'" "1 \<le> l" "1 \<le> r"
    using assms by (auto simp: list_all2_Cons1)
  have m: "l * r \<le> l' * r'" using ws by (simp add: mult_le_mono)
  have "4 * (l + r) \<le> 4 * (l' * r')" if "l' \<noteq> 1" "r' \<noteq> 1"
  proof -
    have "2 * l' \<le> l' * r'" and "2 * r' \<le> l' * r'" using ws that by simp_all
    moreover have "l + r \<le> l' + r'" using ws(3,4) by simp
    moreover have "2 * l' \<le> p \<Longrightarrow> 2 * r' \<le> p \<Longrightarrow> l + r \<le> l' + r' \<Longrightarrow> l + r \<le> p" for p
      by linarith
    ultimately have "l + r \<le> l' * r'" by blast
    then show ?thesis by (rule mult_le_mono2)
  qed
  then show ?thesis
    using ws m by (auto simp: mult.assoc)
next
  case False
  have "sum_list ws \<le> sum_list ws'"
    using assms(1) by (induction rule: list_all2_induct) auto
  moreover have "length ws = length ws'" using assms(1) by (rule list_all2_lengthD)
  ultimately show ?thesis
    using False by (cases "(i, ws)" rule: opWeight.cases; cases "(i, ws')" rule: opWeight.cases) auto
qed

lemma opWeight_commute: "opWeight i [l, r] = opWeight i [r, l]"
  by auto

text \<open>Sorting the operands of a commutative operation changes neither value nor weight.\<close>

lemma sort_two: "sort [a, b :: nat] = [a, b] \<or> sort [a, b] = [b, a]"
  by auto

lemma commutative_sort:
  fixes args :: Ids
  assumes "isCommutativeOperation it" and "length args = 2"
  shows "item_sem env it (map v (sort args)) s = item_sem env it (map v args) s"
    and "opWeight (m_instruction it) (map w (sort args)) = opWeight (m_instruction it) (map w args)"
proof -
  obtain a b where args: "args = [a, b]"
    using assms(2) by (auto simp: length_Suc_conv numeral_2_eq_2)
  have c: "m_type it = Operation"
    "m_instruction it \<in> set [i_ADD, i_MUL, i_EQ, i_AND, i_OR, i_XOR]"
    using assms(1) by (simp_all only: isCommutativeOperation_iff)
  have "item_sem env it [y, x] s = item_sem env it [x, y] s" for x y
  proof -
    have "evm_arith (m_instruction it) [x, y] \<noteq> None"
      using c(2) by (intro evm_arith_total) (auto simp: evm_ariths_def op_args)
    then show ?thesis
      using evm_arith2_commutes [OF c(2), of y x] c(1) by (auto simp: item_sem_def evm_arith_def)
  qed
  then show "item_sem env it (map v (sort args)) s = item_sem env it (map v args) s"
    using sort_two [of a b] unfolding args by (elim disjE) (simp_all only: list.map)
  show "opWeight (m_instruction it) (map w (sort args)) = opWeight (m_instruction it) (map w args)"
    using sort_two [of a b] unfolding args
    by (elim disjE) (simp_all only: list.map opWeight_commute [of _ "w b"])
qed

lemma commutative_args:
  assumes "isCommutativeOperation it"
  shows "nat (info_args (instructionInfo (m_instruction it))) = 2"
proof -
  have "m_instruction it \<in> set [i_ADD, i_MUL, i_EQ, i_AND, i_OR, i_XOR]"
    using assms by (simp only: isCommutativeOperation_iff)
  then show ?thesis by (auto simp: op_args)
qed

subsection \<open>Matching respects values and weights\<close>

lemma fits_simps [simp]:
  "fits cs \<sigma> patA e \<longleftrightarrow> m_type (e_item e) = Push \<and> \<sigma> 1 = e_id e"
  "fits cs \<sigma> patB e \<longleftrightarrow> m_type (e_item e) = Push \<and> \<sigma> 2 = e_id e"
  "fits cs \<sigma> patC e \<longleftrightarrow> m_type (e_item e) = Push \<and> \<sigma> 3 = e_id e"
  "fits cs \<sigma> patX e \<longleftrightarrow> \<sigma> 4 = e_id e"
  "fits cs \<sigma> patY e \<longleftrightarrow> \<sigma> 5 = e_id e"
  "fits cs \<sigma> (patValue v) e \<longleftrightarrow> m_type (e_item e) = Push \<and> m_data (e_item e) = v"
  "fits cs \<sigma> (patOp i args) e \<longleftrightarrow>
     m_type (e_item e) = Operation \<and> m_instruction (e_item e) = i \<and>
     (args \<noteq> [] \<longrightarrow> fitsArgs cs \<sigma> args (e_arguments e))"
  by (auto simp: patA_def patB_def patC_def patX_def patY_def patType_def patValue_def patOp_def
      matchesBaseItem_def patData_def dataOf_def)

end
