(* ===== verification/ExpressionSoundness.thy ===== *)
theory ExpressionSoundness
  imports ExpressionMatching
begin

section \<open>Finding a class terminates and is sound\<close>

text \<open>
  The main facts about \<open>ExpressionClasses::find\<close>: with fuel above the weight of the
  expression it returns without an exception, keeps the container well formed, and returns
  a class that has the value of the expression, whatever values the environment gives to
  opcodes and symbols; and what \<open>knownConstant\<close>, \<open>knownNonZero\<close> and
  \<open>knownToBeDifferent\<close> then promise.
\<close>

subsection \<open>A pattern that fits has the value and the weight of the expression\<close>

abbreviation pure_ops :: "environment \<Rightarrow> opaque" where
  "pure_ops env \<equiv> (\<lambda>i as. env_op env i as 0)"

definition itWeight :: "(Id \<Rightarrow> nat) \<Rightarrow> AssemblyItem \<Rightarrow> Ids \<Rightarrow> nat" where
  "itWeight w it args =
     (case m_type it of
        Push \<Rightarrow> 1
      | Operation \<Rightarrow> opWeight (m_instruction it) (map w args)
      | _ \<Rightarrow> 2)"

lemma exprWeight_it: "exprWeight w e = itWeight w (e_item e) (e_arguments e)"
  by (simp add: exprWeight_def itWeight_def)

lemma ruleOps_item:
  assumes "i \<in> set ruleOps" and "length as = nat (info_args (instructionInfo i))" and "env_ok env"
    and "m_type it = Operation" and "m_instruction it = i"
  shows "item_sem env it as s = op_sem (pure_ops env) i as"
proof (cases "i \<in> set evm_ariths")
  case True
  then show ?thesis
    using evm_arith_total [OF True assms(2)] assms(4,5) by (auto simp: item_sem_def op_sem_def)
next
  case False
  then have i: "i \<in> set [i_ADDRESS, i_CALLER, i_ORIGIN, i_COINBASE]"
    using assms(1) by (simp add: ruleOps_def)
  then have "as = []" using assms(2) by (auto simp: op_args)
  moreover have "env_op env i [] s = env_op env i [] 0"
    using assms(3) i by (auto simp: env_ok_def list_all_iff)
  ultimately show ?thesis
    using assms(4,5) by (simp add: item_sem_def op_sem_def evm_arith_def)
qed

lemma ruleOps_not_opaque:
  assumes "i \<in> set ruleOps" and "m_type it = Operation" and "m_instruction it = i"
  shows "\<not> opaque_item it"
proof -
  have "list_all (\<lambda>i. i \<notin> set [i_CALL, i_CALLCODE, i_DELEGATECALL, i_STATICCALL, i_CREATE, i_CREATE2,
      i_GAS, i_PC, i_MSIZE, i_BALANCE, i_EXTCODESIZE, i_EXTCODEHASH, i_RETURNDATACOPY,
      i_RETURNDATASIZE]) ruleOps"
    unfolding ruleOps_def evm_ariths_def append.simps list.pred_inject by simp
  then show ?thesis
    using assms by (auto simp: opaque_item_def isDeterministic_def list_all_iff)
qed

lemma models_rep:
  assumes "models env cs val" and "sane cs" and "i < length (m_representatives cs)"
    and "\<not> opaque_item (e_item (m_representatives cs ! i))"
  shows "val i = expr_sem env val (m_representatives cs ! i)"
  using assms sane_representative(2) [OF assms(2,3)] nth_mem [OF assms(3)]
  by (auto simp: models_def list_all_iff expr_holds_def)

lemma fits_op_args:
  assumes "pat_wf (Pattern Operation r i d args g)" and "expr_wf n e"
    and "m_type (e_item e) = Operation" and "m_instruction (e_item e) = i"
  shows "length (e_arguments e) = length args"
  using assms by (simp add: pat_wf.simps expr_wf_def)

lemma pat_wf_cases:
  assumes "pat_wf (Pattern t r i d args g)"
  obtains (grp) "g \<noteq> 0" | (op) "g = 0" "t = Operation" | (val) "g = 0" "t = Push" "d \<noteq> None" "r"
  using assms unfolding pat_wf.simps by blast

lemma fits_value:
  "sane cs \<Longrightarrow> models env cs val \<Longrightarrow> env_ok env \<Longrightarrow> pat_wf p \<Longrightarrow>
     expr_wf (length (m_representatives cs)) e \<Longrightarrow> fits cs \<sigma> p e \<Longrightarrow>
     \<forall>g \<in> pat_groups p. v g = val (\<sigma> g) \<Longrightarrow>
     pat_sem (pure_ops env) v p = (if p_matchGroup p \<noteq> 0 then val (e_id e) else expr_sem env val e)"
  "sane cs \<Longrightarrow> models env cs val \<Longrightarrow> env_ok env \<Longrightarrow> list_all pat_wf ps \<Longrightarrow> fitsArgs cs \<sigma> ps ids \<Longrightarrow>
     \<forall>g \<in> \<Union> (set (map pat_groups ps)). v g = val (\<sigma> g) \<Longrightarrow>
     map (pat_sem (pure_ops env) v) ps = map val ids"
proof (induction cs \<sigma> p e and cs \<sigma> ps ids rule: fits_fitsArgs.induct)
  case (1 cs \<sigma> t r i d args g e)
  note base = 1(7) [unfolded fits.simps]
  from 1(5) show ?case
  proof (cases rule: pat_wf_cases)
    case grp
    then have "v g = val (\<sigma> g)" "\<sigma> g = e_id e" using 1(8) base by (auto simp: pat_groups.simps)
    then show ?thesis using grp by (simp add: pat_sem.simps)
  next
    case op
    have e: "m_type (e_item e) = Operation" "m_instruction (e_item e) = i"
      using base matchesBaseItem_op op by auto
    have len: "length (e_arguments e) = length args"
      using fits_op_args [OF _ 1(6) e] 1(5) op by blast
    have "map (pat_sem (pure_ops env) v) args = map val (e_arguments e)"
    proof (cases "args = []")
      case False
      then show ?thesis
        using 1(1) [OF False 1(2-4)] 1(5,8) base op by (auto simp: pat_wf.simps pat_groups.simps)
    qed (use len in simp)
    moreover have "i \<in> set ruleOps" "length args = nat (info_args (instructionInfo i))"
      using 1(5) op by (auto simp: pat_wf.simps)
    ultimately show ?thesis
      using ruleOps_item [of i "map val (e_arguments e)" env "e_item e"] 1(4) e op len
      by (simp add: pat_sem.simps expr_sem_def)
  next
    case val
    then obtain x where "d = Some x" by blast
    then have "m_type (e_item e) = Push" "m_data (e_item e) = x"
      using base val by (auto simp: matchesBaseItem_def patData_def dataOf_def split: if_splits)
    then show ?thesis
      using val \<open>d = Some x\<close> by (simp add: pat_sem.simps expr_sem_def item_sem_def)
  qed
next
  case (2 cs \<sigma> ids)
  then show ?case by simp
next
  case (3 cs \<sigma> p ps)
  then show ?case by simp
next
  case (4 cs \<sigma> p ps i ids)
  let ?e = "m_representatives cs ! i"
  have i: "i < length (m_representatives cs)" and f: "fits cs \<sigma> p ?e" "fitsArgs cs \<sigma> ps ids"
    using 4(7) by simp_all
  have p: "pat_wf p" using 4(6) by simp
  have sem: "pat_sem (pure_ops env) v p =
      (if p_matchGroup p \<noteq> 0 then val (e_id ?e) else expr_sem env val ?e)"
    using 4(1) [OF 4(3-5) p sane_representative(3) [OF 4(3) i] f(1)] 4(8) by simp
  have "p_matchGroup p = 0 \<Longrightarrow> val i = expr_sem env val ?e"
  proof (rule models_rep [OF 4(4) 4(3) i])
    assume "p_matchGroup p = 0"
    then show "\<not> opaque_item (e_item ?e)"
      using p f(1) ruleOps_not_opaque [of _ "e_item ?e"]
      by (cases p) (auto simp: pat_wf.simps matchesBaseItem_op matchesBaseItem_def opaque_item_def
          isDeterministic_def split: if_splits)
  qed
  then have "pat_sem (pure_ops env) v p = val i"
    using sem sane_representative(2) [OF 4(3) i] by auto
  then show ?case using 4(2) [OF 4(3-5) _ f(2)] 4(6,8) by simp
qed

lemma weighted_rep:
  assumes "weighted cs w" and "i < length (m_representatives cs)"
  shows "1 \<le> w i" and "w i = exprWeight w (m_representatives cs ! i)"
  using assms by (auto simp: weighted_def)

lemma fits_weight:
  "sane cs \<Longrightarrow> weighted cs w \<Longrightarrow> pat_wf p \<Longrightarrow>
     expr_wf (length (m_representatives cs)) e \<Longrightarrow> fits cs \<sigma> p e \<Longrightarrow>
     \<forall>g \<in> pat_groups p. v g = w (\<sigma> g) \<Longrightarrow>
     patWeight v p = (if p_matchGroup p \<noteq> 0 then w (e_id e) else exprWeight w e)"
  "sane cs \<Longrightarrow> weighted cs w \<Longrightarrow> list_all pat_wf ps \<Longrightarrow> fitsArgs cs \<sigma> ps ids \<Longrightarrow>
     \<forall>g \<in> \<Union> (set (map pat_groups ps)). v g = w (\<sigma> g) \<Longrightarrow>
     map (patWeight v) ps = map w ids"
proof (induction cs \<sigma> p e and cs \<sigma> ps ids rule: fits_fitsArgs.induct)
  case (1 cs \<sigma> t r i d args g e)
  note base = 1(6) [unfolded fits.simps]
  from 1(4) show ?case
  proof (cases rule: pat_wf_cases)
    case grp
    then have "v g = w (\<sigma> g)" "\<sigma> g = e_id e" using 1(7) base by (auto simp: pat_groups.simps)
    then show ?thesis using grp by (simp add: patWeight.simps)
  next
    case op
    have e: "m_type (e_item e) = Operation" "m_instruction (e_item e) = i"
      using base matchesBaseItem_op op by auto
    have len: "length (e_arguments e) = length args"
      using fits_op_args [OF _ 1(5) e] 1(4) op by blast
    have "map (patWeight v) args = map w (e_arguments e)"
    proof (cases "args = []")
      case False
      then show ?thesis
        using 1(1) [OF False 1(2-3)] 1(4,7) base op by (auto simp: pat_wf.simps pat_groups.simps)
    qed (use len in simp)
    then show ?thesis using op e by (simp add: patWeight.simps exprWeight_def)
  next
    case val
    then have "m_type (e_item e) = Push"
      using base by (auto simp: matchesBaseItem_def split: if_splits)
    then show ?thesis using val by (simp add: patWeight.simps exprWeight_def)
  qed
next
  case (2 cs \<sigma> ids)
  then show ?case by simp
next
  case (3 cs \<sigma> p ps)
  then show ?case by simp
next
  case (4 cs \<sigma> p ps i ids)
  let ?e = "m_representatives cs ! i"
  have i: "i < length (m_representatives cs)" and f: "fits cs \<sigma> p ?e" "fitsArgs cs \<sigma> ps ids"
    using 4(6) by simp_all
  have "patWeight v p = (if p_matchGroup p \<noteq> 0 then w (e_id ?e) else exprWeight w ?e)"
    using 4(1) [OF 4(3,4) _ sane_representative(3) [OF 4(3) i] f(1)] 4(5,7) by simp
  then have "patWeight v p = w i"
    using sane_representative(2) [OF 4(3) i] weighted_rep(2) [OF 4(4) i] by auto
  then show ?case using 4(2) [OF 4(3,4) _ f(2)] 4(5,7) by simp
qed

text \<open>A constant in the place of \<open>Y\<close> would have matched \<open>B\<close>.\<close>

lemma fitsArgs_pair:
  "fitsArgs cs \<sigma> [p, q] ids \<longleftrightarrow>
     (\<exists>a b. ids = [a, b] \<and> a < length (m_representatives cs) \<and> b < length (m_representatives cs) \<and>
        fits cs \<sigma> p (m_representatives cs ! a) \<and> fits cs \<sigma> q (m_representatives cs ! b))"
  by (cases ids rule: remdups_adj.cases) auto

lemma fits_constant_first:
  assumes "sane cs" and "xa \<in> set [[patX, patA], [patA, patX]]"
    and "m_type (e_item (m_representatives cs ! \<sigma> 5)) = Push"
  shows "fits cs \<sigma> (patOp i [patOp i xa, patY]) e \<Longrightarrow>
      fits cs (\<sigma>(2 := \<sigma> 5)) (patOp i [patOp i xa, patB]) e"
    and "fits cs \<sigma> (patOp i [patY, patOp i xa]) e \<Longrightarrow>
      fits cs (\<sigma>(2 := \<sigma> 5)) (patOp i [patB, patOp i xa]) e"
  using assms sane_representative(2) [OF assms(1)]
  by (auto simp: fitsArgs_pair)

subsection \<open>The first rule that matches\<close>

lemma matches_root:
  assumes "sane cs" and "rule_wf r" and "expr_wf (length (m_representatives cs)) e"
  shows "match_result cs Map.empty (pat_groups (r_pattern r)) (\<lambda>\<sigma>. fits cs \<sigma> (r_pattern r) e)
    (matches (r_pattern r) e cs Map.empty)"
proof (rule matches_result(1) [OF assms(1) _ assms(3)])
  show "pat_wf (r_pattern r)" using assms(2) by (simp add: rule_wf_def)
  show "p_matchGroup (r_pattern r) \<noteq> 0 \<Longrightarrow> e \<in> set (m_representatives cs)"
    using assms(2) by (auto simp: rule_wf_def patOp_def)
qed

text \<open>What is known of a rule that \<open>firstMatch\<close> returns.\<close>

definition applicable :: "ExpressionClasses \<Rightarrow> Expression \<Rightarrow> SimplificationRule list \<Rightarrow>
    SimplificationRule \<Rightarrow> MatchGroups \<Rightarrow> bool" where
  "applicable cs e pre r mg \<longleftrightarrow>
     rule_wf r \<and> groups_ok cs mg \<and> pat_groups (r_pattern r) \<subseteq> dom mg \<and>
     (\<forall>\<sigma>. agrees \<sigma> mg \<longrightarrow> fits cs \<sigma> (r_pattern r) e) \<and>
     (\<forall>r' \<in> set pre. \<forall>\<sigma>. \<not> fits cs \<sigma> (r_pattern r') e)"

lemma agrees_empty: "agrees \<sigma> Map.empty"
  by (simp add: agrees_def)

lemma groups_ok_empty: "groups_ok cs Map.empty"
  by (simp add: groups_ok_def)

lemma firstMatch_cases:
  assumes "sane cs" and "expr_wf (length (m_representatives cs)) e" and "list_all rule_wf rs"
  shows "firstMatch rs e cs = Inr None \<or>
    (\<exists>pre r post mg. rs = pre @ r # post \<and> firstMatch rs e cs = Inr (Some (r, mg)) \<and>
       applicable cs e pre r mg)"
  using assms(3)
proof (induction rs)
  case (Cons r rs)
  have "match_result cs Map.empty (pat_groups (r_pattern r)) (\<lambda>\<sigma>. fits cs \<sigma> (r_pattern r) e)
      (matches (r_pattern r) e cs Map.empty)"
    using matches_root [OF assms(1) _ assms(2)] Cons.prems by simp
  then obtain ok mg where m: "matches (r_pattern r) e cs Map.empty = Inr (ok, mg)"
    "ok \<Longrightarrow> pat_groups (r_pattern r) \<subseteq> dom mg" "ok \<Longrightarrow> groups_ok cs mg"
    "\<And>\<sigma>. ok \<Longrightarrow> agrees \<sigma> mg \<Longrightarrow> fits cs \<sigma> (r_pattern r) e"
    "\<And>\<sigma>. fits cs \<sigma> (r_pattern r) e \<Longrightarrow> ok"
    using agrees_empty groups_ok_empty by (elim match_resultE) blast
  show ?case
  proof (cases ok)
    case True
    then have "applicable cs e [] r mg" using m Cons.prems by (auto simp: applicable_def)
    moreover have "firstMatch (r # rs) e cs = Inr (Some (r, mg))" using m(1) True by simp
    ultimately show ?thesis by blast
  next
    case False
    then have eq: "firstMatch (r # rs) e cs = firstMatch rs e cs" using m(1) by simp
    have "applicable cs e pre r' mg' \<Longrightarrow> applicable cs e (r # pre) r' mg'" for pre r' mg'
      using m(5) False by (auto simp: applicable_def)
    then have step: "\<exists>pre r' post mg'. r # rs = pre @ r' # post \<and> applicable cs e pre r' mg' \<and>
        firstMatch rs e cs = Inr (Some (r', mg'))"
      if "rs = pre @ r' # post" "applicable cs e pre r' mg'" "firstMatch rs e cs = Inr (Some (r', mg'))"
      for pre r' post mg'
      using that by (intro exI [of _ "r # pre"]) auto
    have "list_all rule_wf rs" using Cons.prems by simp
    from Cons.IH [OF this] show ?thesis unfolding eq using step by metis
  qed
qed simp

abbreviation groupIds :: "MatchGroups \<Rightarrow> nat \<Rightarrow> Id" where
  "groupIds mg \<equiv> \<lambda>g. e_id (the (mg g))"

lemma agrees_groupIds: "agrees (groupIds mg) mg"
  by (simp add: agrees_def)

lemma groups_ok_rep:
  assumes "sane cs" and "groups_ok cs mg" and "mg g = Some e"
  shows "e_id e < length (m_representatives cs)" and "m_representatives cs ! e_id e = e"
proof -
  obtain i where "i < length (m_representatives cs)" "m_representatives cs ! i = e"
    using assms(2,3) by (auto simp: groups_ok_def in_set_conv_nth)
  then show "e_id e < length (m_representatives cs)" "m_representatives cs ! e_id e = e"
    using sane_representative(2) [OF assms(1)] by auto
qed

lemma ruleTable_in:
  assumes "ruleTable i = pre @ r # post"
  shows "r \<in> set allRules"
proof -
  have "r \<in> set (ruleTable i)" using assms by simp
  then show ?thesis by (simp add: ruleTable_def)
qed

text \<open>The right-hand side of an applicable rule has the value of the expression.\<close>

lemma applicable_value:
  assumes "sane cs" and "models env cs val" and "env_ok env"
    and "expr_wf (length (m_representatives cs)) e"
    and "ruleTable i = pre @ r # post" and "applicable cs e pre r mg" and "r_action r mg = Inr q"
  shows "pat_sem (pure_ops env) (\<lambda>g. val (groupIds mg g)) q = expr_sem env val e"
proof -
  let ?v = "\<lambda>g. val (groupIds mg g)"
  note a = assms(6) [unfolded applicable_def]
  have fit: "fits cs (groupIds mg) (r_pattern r) e" using a agrees_groupIds by blast
  obtain j as where p: "r_pattern r = patOp j as" and wf: "pat_wf (r_pattern r)"
    using a by (auto simp: rule_wf_def)
  have "rule_sound r"
  proof (cases "r = unsoundRule")
    case True
    have "r_pattern r \<notin> r_pattern ` set pre" using a fit by auto
    then show ?thesis using ruleTable_unsound assms(5) True by blast
  next
    case False
    then show ?thesis
      using allRules_sound ruleTable_in [OF assms(5)] by (auto simp: list_all_iff)
  qed
  moreover have "binds_constants mg ?v"
    unfolding binds_constants_def list_all_iff
  proof (intro ballI allI impI)
    fix pt d
    assume pt: "pt \<in> set [patA, patB, patC]" and d: "patD pt mg = Inr d"
    let ?g = "p_matchGroup pt"
    have g: "?g \<noteq> 0" "?g \<le> 3" using pt by auto
    obtain e' where "matchGroupValue pt mg = Inr e'" "dataOf (e_item e') = Inr d"
      using d by (auto simp: patD_def bindE_Inr_iff)
    then have e': "mg ?g = Some e'" "dataOf (e_item e') = Inr d"
      by (simp_all add: matchGroupValue_def split: if_splits option.splits)
    have push: "m_type (e_item e') = Push" using a g(2) e'(1) by (auto simp: groups_ok_def)
    note rep = groups_ok_rep [of cs mg "p_matchGroup pt" e', OF assms(1) _ e'(1)]
    have "val (e_id e') = expr_sem env val e'"
      using models_rep [OF assms(2,1), of "e_id e'"] rep a push
      by (simp add: opaque_item_def isDeterministic_def)
    then show "?v ?g = d"
      using e' push by (simp add: expr_sem_def item_sem_def dataOf_def)
  qed
  ultimately have "pat_sem (pure_ops env) ?v q = pat_sem (pure_ops env) ?v (r_pattern r)"
    using assms(3,7) unfolding rule_sound_def env_ok_def by blast
  moreover have "p_matchGroup (r_pattern r) = 0" by (simp add: p patOp_def)
  ultimately show ?thesis
    using fits_value(1) [OF assms(1-3) wf assms(4) fit, of ?v] by simp
qed

text \<open>And it is lighter.\<close>

lemma patWeight_cong:
  "(\<And>g. g \<in> pat_groups p \<Longrightarrow> v g = v' g) \<Longrightarrow> patWeight v p = patWeight v' p"
proof (induction p)
  case (Pattern t r i d args g)
  then have "map (patWeight v) args = map (patWeight v') args"
    by (cases "g = 0") (auto simp: pat_groups.simps)
  then show ?case using Pattern.prems
    by (cases "g = 0") (simp_all only: patWeight.simps, simp_all add: pat_groups.simps)
qed

lemma applicable_lighter:
  assumes "sane cs" and "weighted cs w" and "expr_wf (length (m_representatives cs)) e"
    and "ruleTable i = pre @ r # post" and "applicable cs e pre r mg" and "r_action r mg = Inr q"
    and "pat_groups q \<subseteq> pat_groups (r_pattern r)"
  shows "patWeight (\<lambda>g. w (groupIds mg g)) q < exprWeight w e"
proof -
  let ?v = "\<lambda>g. if g \<in> dom mg then w (groupIds mg g) else 1"
  note a = assms(5) [unfolded applicable_def]
  have fit: "fits cs (groupIds mg) (r_pattern r) e" using a agrees_groupIds by blast
  obtain j as where p: "r_pattern r = patOp j as" and wf: "pat_wf (r_pattern r)"
    using a by (auto simp: rule_wf_def)
  have r: "r \<in> set allRules"
    using ruleTable_in [OF assms(4)] .
  have w1: "1 \<le> w (groupIds mg g)" if "g \<in> dom mg" for g
    using that a groups_ok_rep(1) [OF assms(1)] weighted_rep(1) [OF assms(2)] by auto
  have push: "w (groupIds mg g) = 1" if "g \<in> dom mg" "g \<le> 3" for g
  proof -
    from that(1) obtain e' where e': "mg g = Some e'" by blast
    then have "m_type (e_item e') = Push" using a that(2) by (auto simp: groups_ok_def)
    then show ?thesis
      using groups_ok_rep [of cs mg g e', OF assms(1) _ e'] weighted_rep(2) [OF assms(2), of "e_id e'"] a e'
      by (simp add: exprWeight_def)
  qed
  have "group_weights ?v" using w1 push by (simp add: group_weights_def)
  moreover have "?v 5 \<noteq> 1" if re: "reorders r"
  proof
    assume v5: "?v 5 = 1"
    obtain k xa where k: "k \<in> set (map fst associativeOps)" "xa \<in> set [[patX, patA], [patA, patX]]"
      and pat: "r_pattern r = patOp k [patOp k xa, patY] \<or> r_pattern r = patOp k [patY, patOp k xa]"
      using re by (auto simp: reorders_def)
    have "5 \<in> dom mg" using a reorders_groups [OF re] by auto
    then obtain e' where e': "mg 5 = Some e'" by blast
    note rep = groups_ok_rep [of cs mg 5 e', OF assms(1) _ e']
    have "exprWeight w e' = 1"
      using v5 \<open>5 \<in> dom mg\<close> e' rep weighted_rep(2) [OF assms(2), of "e_id e'"] a by simp
    moreover have "3 \<le> opWeight x (map w (e_arguments e'))" for x
      using sane_representative(3) [OF assms(1), of "e_id e'"] rep a weighted_rep(1) [OF assms(2)]
      by (intro opWeight_ge_3) (auto simp: expr_wf_def list_all_iff)
    then have "m_type (e_item e') = Operation \<Longrightarrow> 3 \<le> exprWeight w e'"
      by (simp add: exprWeight_def)
    ultimately have "m_type (e_item e') = Push"
      by (cases "m_type (e_item e')") (simp_all add: exprWeight_def)
    then have "m_type (e_item (m_representatives cs ! groupIds mg 5)) = Push"
      using rep a e' by simp
    note first = fits_constant_first [of cs xa "groupIds mg" k e, OF assms(1) k(2) this]
    have "preceded r (r_pattern ` set pre)"
      using all_preceded_split [of "{}" pre r post] ruleTable_preceded [of i] assms(4) by simp
    then have pre: "r_pattern r = patOp k [patOp k xa, patY] \<Longrightarrow>
          patOp k [patOp k xa, patB] \<in> r_pattern ` set pre"
      "r_pattern r = patOp k [patY, patOp k xa] \<Longrightarrow> patOp k [patB, patOp k xa] \<in> r_pattern ` set pre"
      unfolding preceded_def using k by blast+
    have none: "\<not> fits cs \<sigma> p e" if "p \<in> r_pattern ` set pre" for \<sigma> p
      using a that by blast
    from pat show False
    proof
      assume p: "r_pattern r = patOp k [patOp k xa, patY]"
      show False using first(1) fit none [OF pre(1) [OF p]] unfolding p by blast
    next
      assume p: "r_pattern r = patOp k [patY, patOp k xa]"
      show False using first(2) fit none [OF pre(2) [OF p]] unfolding p by blast
    qed
  qed
  ultimately have "patWeight ?v q < patWeight ?v (r_pattern r)"
    using allRules_lighter r assms(6) by (auto simp: list_all_iff rule_lighter_def)
  moreover have "patWeight ?v q = patWeight (\<lambda>g. w (groupIds mg g)) q"
    by (rule patWeight_cong) (use assms(7) a in auto)
  moreover have "patWeight ?v (r_pattern r) = exprWeight w e"
  proof -
    have "\<forall>g \<in> pat_groups (r_pattern r). ?v g = w (groupIds mg g)" using a by auto
    moreover have "p_matchGroup (r_pattern r) = 0" by (simp add: p patOp_def)
    ultimately show ?thesis using fits_weight(1) [OF assms(1,2) wf assms(3) fit, of ?v] by simp
  qed
  ultimately show ?thesis by simp
qed

subsection \<open>One step of the container\<close>

text \<open>
  What an operation does to a container: it stays well formed, old classes keep their
  weight, and values of the old classes extend to values of the new ones, with \<open>Q\<close>.
\<close>

definition step_ok :: "ExpressionClasses \<Rightarrow> (Id \<Rightarrow> nat) \<Rightarrow> ExpressionClasses \<Rightarrow> (Id \<Rightarrow> nat) \<Rightarrow>
    (environment \<Rightarrow> (Id \<Rightarrow> u256) \<Rightarrow> bool) \<Rightarrow> bool" where
  "step_ok cs w cs' w' Q \<longleftrightarrow>
     sane cs' \<and> weighted cs' w' \<and>
     length (m_representatives cs) \<le> length (m_representatives cs') \<and>
     (\<forall>i < length (m_representatives cs). w' i = w i) \<and>
     (\<forall>env val. env_ok env \<longrightarrow> models env cs val \<longrightarrow>
        (\<exists>val'. (\<forall>i < length (m_representatives cs). val' i = val i) \<and> models env cs' val' \<and>
           Q env val'))"

lemma step_trans:
  assumes "step_ok cs w cs1 w1 Q1" and "step_ok cs1 w1 cs2 w2 Q2"
    and "\<And>env v v'. (\<forall>i < length (m_representatives cs1). v' i = v i) \<Longrightarrow> Q1 env v \<Longrightarrow> Q2 env v' \<Longrightarrow>
      Q env v'"
  shows "step_ok cs w cs2 w2 Q"
proof -
  note s1 = assms(1) [unfolded step_ok_def] and s2 = assms(2) [unfolded step_ok_def]
  have "\<exists>val'. (\<forall>i < length (m_representatives cs). val' i = val i) \<and> models env cs2 val' \<and> Q env val'"
    if e: "env_ok env" "models env cs val" for env val
  proof -
    obtain v1 where v1: "\<forall>i < length (m_representatives cs). v1 i = val i" "models env cs1 v1"
      "Q1 env v1"
      using s1 e by blast
    obtain v2 where v2: "\<forall>i < length (m_representatives cs1). v2 i = v1 i" "models env cs2 v2"
      "Q2 env v2"
      using s2 e(1) v1(2) by blast
    have "Q env v2" using assms(3) v2 v1(3) by blast
    moreover have "\<forall>i < length (m_representatives cs). v2 i = val i"
      using v1(1) v2(1) s1 by simp
    ultimately show ?thesis using v2(2) by blast
  qed
  then show ?thesis using s1 s2 by (auto simp: step_ok_def)
qed

lemma step_refl:
  assumes "sane cs" and "weighted cs w"
    and "\<And>env v. env_ok env \<Longrightarrow> models env cs v \<Longrightarrow> Q env v"
  shows "step_ok cs w cs w Q"
  using assms by (auto simp: step_ok_def)

lemma step_mono:
  assumes "step_ok cs w cs' w' Q" and "\<And>env v. Q env v \<Longrightarrow> Q' env v"
  shows "step_ok cs w cs' w' Q'"
  using assms unfolding step_ok_def by meson

text \<open>\<open>find\<close> is correct for expressions lighter than the fuel.\<close>

definition args_ok :: "ExpressionClasses \<Rightarrow> AssemblyItem \<Rightarrow> Ids \<Rightarrow> bool" where
  "args_ok cs it args \<longleftrightarrow> expr_wf (length (m_representatives cs)) (mkExpression it args 0)"

definition find_correct :: "nat \<Rightarrow> bool" where
  "find_correct n \<longleftrightarrow>
     (\<forall>cs w it args s. sane cs \<longrightarrow> weighted cs w \<longrightarrow> args_ok cs it args \<longrightarrow> itWeight w it args < n \<longrightarrow>
        (\<exists>i cs' w'. findF n cs it args s = Some (Inr (i, cs')) \<and>
           i < length (m_representatives cs') \<and> w' i \<le> itWeight w it args \<and>
           step_ok cs w cs' w' (\<lambda>env v. opaque_item it \<or> v i = item_sem env it (map v args) s)))"

subsection \<open>Rebuilding a pattern\<close>

definition groups_bound :: "ExpressionClasses \<Rightarrow> MatchGroups \<Rightarrow> nat set \<Rightarrow> bool" where
  "groups_bound cs mg gs \<longleftrightarrow>
     (\<forall>g \<in> gs. \<exists>e. mg g = Some e \<and> e_id e < length (m_representatives cs))"

lemma patWeight_pos:
  assumes "\<And>g. g \<in> pat_groups p \<Longrightarrow> 1 \<le> v g"
  shows "1 \<le> patWeight v p"
  using assms
proof (induction p)
  case (Pattern t r i d args g)
  have "list_all (\<lambda>x. 1 \<le> x) (map (patWeight v) args)" if "g = 0"
    using Pattern that by (auto simp: list_all_iff pat_groups.simps)
  then have "g = 0 \<Longrightarrow> 3 \<le> opWeight i (map (patWeight v) args)" by (intro opWeight_ge_3)
  then show ?case
    using Pattern.prems [of g] by (cases "g = 0") (auto simp: patWeight.simps pat_groups.simps)
qed

lemma opWeight_gt_operand:
  assumes "list_all (\<lambda>x. 1 \<le> x) ws" and "x \<in> set ws"
  shows "x < opWeight i ws"
proof (cases "\<exists>l r. ws = [l, r]")
  case True
  then obtain l r where "ws = [l, r]" by blast
  then show ?thesis using opWeight_binary_ge [of l r i] assms by (auto simp del: opWeight.simps)
next
  case False
  then have "opWeight i ws = sum_list ws + 3" by (cases "(i, ws)" rule: opWeight.cases) auto
  then show ?thesis using member_le_sum_list [OF assms(2)] by simp
qed

lemma itWeight_op: "m_type it = Operation \<Longrightarrow> itWeight w it args = opWeight (m_instruction it) (map w args)"
  by (simp add: itWeight_def)

lemma args_ok_op:
  "m_type it = Operation \<Longrightarrow>
     args_ok cs it args \<longleftrightarrow>
       list_all (\<lambda>a. a < length (m_representatives cs)) args \<and>
       length args = nat (info_args (instructionInfo (m_instruction it)))"
  by (auto simp: args_ok_def expr_wf_def mkExpression_def list_all_iff)

lemma sort_Nil: "sort args = [] \<longleftrightarrow> args = []"
  by (metis length_0_conv length_sort)

lemma args_ok_other:
  "m_type it \<noteq> Operation \<Longrightarrow> args_ok cs it args \<longleftrightarrow> args = []"
  by (auto simp: args_ok_def expr_wf_def mkExpression_def sort_Nil)

text \<open>The result of rebuilding a pattern, and of rebuilding a list.\<close>

definition rebuilt :: "nat \<Rightarrow> ExpressionClasses \<Rightarrow> (Id \<Rightarrow> nat) \<Rightarrow> MatchGroups \<Rightarrow> Pattern \<Rightarrow>
    ExpressionTemplate \<Rightarrow> bool" where
  "rebuilt n cs w mg q t \<longleftrightarrow>
     (\<exists>i cs' w'. rebuildF n cs t = Some (Inr (i, cs')) \<and> i < length (m_representatives cs') \<and>
        w' i \<le> patWeight (\<lambda>g. w (groupIds mg g)) q \<and>
        step_ok cs w cs' w'
          (\<lambda>env v. v i = pat_sem (pure_ops env) (\<lambda>g. v (groupIds mg g)) q))"

definition rebuilts :: "nat \<Rightarrow> ExpressionClasses \<Rightarrow> (Id \<Rightarrow> nat) \<Rightarrow> MatchGroups \<Rightarrow> Pattern list \<Rightarrow>
    ExpressionTemplate list \<Rightarrow> bool" where
  "rebuilts n cs w mg qs ts \<longleftrightarrow>
     (\<exists>ids cs' w'. rebuildsF n cs ts = Some (Inr (ids, cs')) \<and>
        list_all (\<lambda>i. i < length (m_representatives cs')) ids \<and>
        list_all2 (\<le>) (map w' ids) (map (patWeight (\<lambda>g. w (groupIds mg g))) qs) \<and>
        step_ok cs w cs' w'
          (\<lambda>env v. map v ids = map (pat_sem (pure_ops env) (\<lambda>g. v (groupIds mg g))) qs))"

lemma pat_sem_cong:
  "(\<And>g. g \<in> pat_groups p \<Longrightarrow> v g = v' g) \<Longrightarrow> pat_sem \<rho> v p = pat_sem \<rho> v' p"
proof (induction p)
  case (Pattern t r i d args g)
  then have "map (pat_sem \<rho> v) args = map (pat_sem \<rho> v') args"
    by (cases "g = 0") (auto simp: pat_groups.simps)
  then show ?case using Pattern.prems
    by (cases "g = 0") (simp_all only: pat_sem.simps, simp_all add: pat_groups.simps)
qed

lemma groups_bound_mono:
  "groups_bound cs mg gs \<Longrightarrow> length (m_representatives cs) \<le> length (m_representatives cs') \<Longrightarrow>
     gs' \<subseteq> gs \<Longrightarrow> groups_bound cs' mg gs'"
  by (fastforce simp: groups_bound_def)

lemma groups_bound_less:
  "groups_bound cs mg gs \<Longrightarrow> g \<in> gs \<Longrightarrow> groupIds mg g < length (m_representatives cs)"
  by (auto simp: groups_bound_def)

lemma length_mapE: "map f xs = map g ys \<Longrightarrow> length xs = length ys"
  using map_eq_imp_length_eq by blast

lemma op_operands_less:
  assumes "pat_wf (Pattern Operation r i d args 0)" and "\<And>g. g \<in> pat_groups (Pattern Operation r i d args 0) \<Longrightarrow> 1 \<le> v g"
  shows "list_all (\<lambda>q. patWeight v q < patWeight v (Pattern Operation r i d args 0)) args"
proof -
  have "1 \<le> patWeight v q" if "q \<in> set args" for q
    using that assms(2) by (intro patWeight_pos) (auto simp: pat_groups.simps)
  then have "list_all (\<lambda>x. 1 \<le> x) (map (patWeight v) args)" by (simp add: list_all_iff)
  from opWeight_gt_operand [OF this] show ?thesis
    by (simp add: list_all_iff patWeight.simps)
qed

lemma group_weight_pos:
  assumes "weighted cs w" and "groups_bound cs mg gs" and "g \<in> gs"
  shows "1 \<le> w (groupIds mg g)"
  using assms groups_bound_less weighted_rep(1) by blast

lemma toTemplate_simps:
  "g \<noteq> 0 \<Longrightarrow> mg g = Some e \<Longrightarrow> toTemplates args mg l = Inr ts \<Longrightarrow>
     toTemplate (Pattern t r i d args g) mg l =
       Inr (ExpressionTemplate True (e_id e) (itemOfType UndefinedItem 0 noLocation) ts)"
  "toTemplates args mg l = Inr ts \<Longrightarrow>
     toTemplate (Pattern Operation r i d args 0) mg l =
       Inr (ExpressionTemplate False noId (itemOp i l) ts)"
  "toTemplates args mg l = Inr ts \<Longrightarrow>
     toTemplate (Pattern Push r i (Some x) args 0) mg l =
       Inr (ExpressionTemplate False noId (itemOfType Push x l) ts)"
  by (simp_all add: patId_def matchGroupValue_def toAssemblyItem_def patData_def)

lemma rebuilt_value:
  assumes "find_correct n" and "sane cs" and "weighted cs w"
    and "patWeight (\<lambda>g. w (groupIds mg g)) (Pattern Push r i (Some x) args 0) < n"
  shows "rebuilt n cs w mg (Pattern Push r i (Some x) args 0)
    (ExpressionTemplate False noId (itemOfType Push x l) [])"
proof -
  let ?it = "itemOfType Push x l"
  have "args_ok cs ?it []" by (simp add: args_ok_other itemOfType_def)
  moreover have "itWeight w ?it [] < n" using assms(4) by (simp add: itWeight_def patWeight.simps itemOfType_def)
  ultimately obtain j cs' w' where f: "findF n cs ?it [] 0 = Some (Inr (j, cs'))"
    "j < length (m_representatives cs')" "w' j \<le> itWeight w ?it []"
    "step_ok cs w cs' w' (\<lambda>env v. opaque_item ?it \<or> v j = item_sem env ?it (map v []) 0)"
    using assms(1-3) unfolding find_correct_def by blast
  have "step_ok cs w cs' w' (\<lambda>env v. v j = pat_sem (pure_ops env) (\<lambda>g. v (groupIds mg g))
      (Pattern Push r i (Some x) args 0))"
    by (rule step_mono [OF f(4)])
      (auto simp: opaque_item_def isDeterministic_def itemOfType_def item_sem_def pat_sem.simps)
  then show ?thesis
    unfolding rebuilt_def using f(1-3) by (auto simp: itWeight_def itemOfType_def patWeight.simps)
qed

lemma rebuilt_operation:
  assumes "find_correct n" and q: "pat_wf (Pattern Operation r i d args 0)"
    and "sane cs" and "weighted cs w"
    and gb: "groups_bound cs mg (pat_groups (Pattern Operation r i d args 0))"
    and n: "patWeight (\<lambda>g. w (groupIds mg g)) (Pattern Operation r i d args 0) < n"
    and R: "list_all (\<lambda>q. patWeight (\<lambda>g. w (groupIds mg g)) q < n) args \<Longrightarrow> rebuilts n cs w mg args ts"
  shows "rebuilt n cs w mg (Pattern Operation r i d args 0) (ExpressionTemplate False noId (itemOp i l) ts)"
proof -
  let ?q = "Pattern Operation r i d args 0" and ?it = "itemOp i l"
  let ?W = "patWeight (\<lambda>g. w (groupIds mg g))"
  have "list_all (\<lambda>q. ?W q < ?W ?q) args"
    by (rule op_operands_less [OF q, of "\<lambda>g. w (groupIds mg g)"]) (rule group_weight_pos [OF assms(4) gb])
  then have "list_all (\<lambda>q. ?W q < n) args" using n by (auto simp: list_all_iff)
  from R [OF this] obtain ids cs1 w1 where
    1: "rebuildsF n cs ts = Some (Inr (ids, cs1))" "list_all (\<lambda>i. i < length (m_representatives cs1)) ids"
      "list_all2 (\<le>) (map w1 ids) (map ?W args)"
      "step_ok cs w cs1 w1 (\<lambda>env v. map v ids = map (pat_sem (pure_ops env) (\<lambda>g. v (groupIds mg g))) args)"
    unfolding rebuilts_def by blast
  have s1: "sane cs1" "weighted cs1 w1" using 1(4) by (auto simp: step_ok_def)
  have len: "length ids = length args" using list_all2_lengthD [OF 1(3)] by simp
  have wf: "length args = nat (info_args (instructionInfo i))" "i \<in> set ruleOps"
    using q by (auto simp: pat_wf.simps)
  have ok: "args_ok cs1 ?it ids" using 1(2) len wf by (simp add: args_ok_op)
  have "list_all (\<lambda>x. 1 \<le> x) (map w1 ids)"
    using 1(2) weighted_rep(1) [OF s1(2)] by (auto simp: list_all_iff)
  from opWeight_mono [OF 1(3) this, of i] have le: "itWeight w1 ?it ids \<le> ?W ?q"
    by (simp add: itWeight_op patWeight.simps)
  then have "itWeight w1 ?it ids < n" using n by simp
  then obtain j cs2 w2 where 2: "findF n cs1 ?it ids 0 = Some (Inr (j, cs2))"
    "j < length (m_representatives cs2)" "w2 j \<le> itWeight w1 ?it ids"
    "step_ok cs1 w1 cs2 w2 (\<lambda>env v. opaque_item ?it \<or> v j = item_sem env ?it (map v ids) 0)"
    using assms(1) s1 ok unfolding find_correct_def by blast
  have "\<not> opaque_item ?it" using ruleOps_not_opaque [OF wf(2)] by simp
  then have 2: "findF n cs1 ?it ids 0 = Some (Inr (j, cs2))"
    "j < length (m_representatives cs2)" "w2 j \<le> ?W ?q"
    "step_ok cs1 w1 cs2 w2 (\<lambda>env v. v j = item_sem env ?it (map v ids) 0)"
    using 2 le by simp_all
  have "step_ok cs w cs2 w2 (\<lambda>env v. env_ok env \<longrightarrow> v j = pat_sem (pure_ops env) (\<lambda>g. v (groupIds mg g)) ?q)"
  proof (rule step_trans [OF 1(4) 2(4)], intro impI)
    fix env and v v' :: "Id \<Rightarrow> u256"
    assume ag: "\<forall>i < length (m_representatives cs1). v' i = v i"
      and v: "map v ids = map (pat_sem (pure_ops env) (\<lambda>g. v (groupIds mg g))) args"
      and v': "v' j = item_sem env ?it (map v' ids) 0" and env: "env_ok env"
    have "map v' ids = map v ids" using ag 1(2) by (auto simp: list_all_iff)
    also note v
    also have "map (pat_sem (pure_ops env) (\<lambda>g. v (groupIds mg g))) args =
        map (pat_sem (pure_ops env) (\<lambda>g. v' (groupIds mg g))) args"
    proof (rule map_cong [OF refl], rule pat_sem_cong)
      fix a g assume "a \<in> set args" "g \<in> pat_groups a"
      then have "groupIds mg g < length (m_representatives cs)"
        by (intro groups_bound_less [OF gb]) (auto simp: pat_groups.simps)
      then show "v (groupIds mg g) = v' (groupIds mg g)"
        using ag 1(4) by (auto simp: step_ok_def)
    qed
    finally show "v' j = pat_sem (pure_ops env) (\<lambda>g. v' (groupIds mg g)) ?q"
      using v' ruleOps_item [OF wf(2) _ env, of "map v' ids" ?it] len wf(1) by (simp add: pat_sem.simps)
  qed
  then have "step_ok cs w cs2 w2 (\<lambda>env v. v j = pat_sem (pure_ops env) (\<lambda>g. v (groupIds mg g)) ?q)"
    unfolding step_ok_def by blast
  moreover have "rebuildF n cs (ExpressionTemplate False noId ?it ts) = Some (Inr (j, cs2))"
    using 1(1) 2(1) by simp
  ultimately show ?thesis unfolding rebuilt_def using 2(2,3) by blast
qed

lemma patWeight_step:
  assumes "step_ok cs w cs1 w1 Q" and "groups_bound cs mg gs" and "pat_groups q \<subseteq> gs"
  shows "patWeight (\<lambda>g. w1 (groupIds mg g)) q = patWeight (\<lambda>g. w (groupIds mg g)) q"
proof (rule patWeight_cong)
  fix g assume "g \<in> pat_groups q"
  then have "groupIds mg g < length (m_representatives cs)"
    using groups_bound_less [OF assms(2)] assms(3) by blast
  then show "w1 (groupIds mg g) = w (groupIds mg g)"
    using assms(1) by (simp add: step_ok_def)
qed

lemma pat_sem_step:
  assumes "\<forall>i < length (m_representatives cs). v' i = v i" and "groups_bound cs mg gs"
    and "pat_groups q \<subseteq> gs"
  shows "pat_sem \<rho> (\<lambda>g. v' (groupIds mg g)) q = pat_sem \<rho> (\<lambda>g. v (groupIds mg g)) q"
  by (rule pat_sem_cong) (use assms groups_bound_less in blast)

lemma rebuilts_Cons:
  assumes "sane cs" and "weighted cs w" and gb: "groups_bound cs mg (\<Union> (set (map pat_groups (p # ps))))"
    and n: "list_all (\<lambda>q. patWeight (\<lambda>g. w (groupIds mg g)) q < n) (p # ps)"
    and R1: "\<And>cs w. sane cs \<Longrightarrow> weighted cs w \<Longrightarrow> groups_bound cs mg (pat_groups p) \<Longrightarrow>
        patWeight (\<lambda>g. w (groupIds mg g)) p < n \<Longrightarrow> rebuilt n cs w mg p t"
    and R2: "\<And>cs w. sane cs \<Longrightarrow> weighted cs w \<Longrightarrow> groups_bound cs mg (\<Union> (set (map pat_groups ps))) \<Longrightarrow>
        list_all (\<lambda>q. patWeight (\<lambda>g. w (groupIds mg g)) q < n) ps \<Longrightarrow> rebuilts n cs w mg ps ts"
  shows "rebuilts n cs w mg (p # ps) (t # ts)"
proof -
  have gbs: "groups_bound cs mg (pat_groups p)" "groups_bound cs mg (\<Union> (set (map pat_groups ps)))"
    using groups_bound_mono [OF gb order_refl] by auto
  have "rebuilt n cs w mg p t" using R1 [OF assms(1,2) gbs(1)] n by simp
  then obtain i cs1 w1 where 1: "rebuildF n cs t = Some (Inr (i, cs1))" "i < length (m_representatives cs1)"
      "w1 i \<le> patWeight (\<lambda>g. w (groupIds mg g)) p"
      "step_ok cs w cs1 w1 (\<lambda>env v. v i = pat_sem (pure_ops env) (\<lambda>g. v (groupIds mg g)) p)"
    unfolding rebuilt_def by blast
  have s1: "sane cs1" "weighted cs1 w1" "length (m_representatives cs) \<le> length (m_representatives cs1)"
    using 1(4) by (auto simp: step_ok_def)
  have pw: "patWeight (\<lambda>g. w1 (groupIds mg g)) q = patWeight (\<lambda>g. w (groupIds mg g)) q"
    if "q \<in> set ps" for q
    by (rule patWeight_step [OF 1(4) gbs(2)]) (use that in auto)
  have "rebuilts n cs1 w1 mg ps ts"
    using R2 [OF s1(1,2) groups_bound_mono [OF gbs(2) s1(3) order_refl]] n pw by (simp add: list_all_iff)
  then obtain ids cs2 w2 where 2: "rebuildsF n cs1 ts = Some (Inr (ids, cs2))"
      "list_all (\<lambda>i. i < length (m_representatives cs2)) ids"
      "list_all2 (\<le>) (map w2 ids) (map (patWeight (\<lambda>g. w1 (groupIds mg g))) ps)"
      "step_ok cs1 w1 cs2 w2 (\<lambda>env v. map v ids = map (pat_sem (pure_ops env) (\<lambda>g. v (groupIds mg g))) ps)"
    unfolding rebuilts_def by blast
  have s2: "length (m_representatives cs1) \<le> length (m_representatives cs2)" "w2 i = w1 i"
    using 2(4) 1(2) by (auto simp: step_ok_def)
  have "step_ok cs w cs2 w2
      (\<lambda>env v. map v (i # ids) = map (pat_sem (pure_ops env) (\<lambda>g. v (groupIds mg g))) (p # ps))"
  proof (rule step_trans [OF 1(4) 2(4)])
    fix env and v v' :: "Id \<Rightarrow> u256"
    assume ag: "\<forall>i < length (m_representatives cs1). v' i = v i"
      and "v i = pat_sem (pure_ops env) (\<lambda>g. v (groupIds mg g)) p"
      and "map v' ids = map (pat_sem (pure_ops env) (\<lambda>g. v' (groupIds mg g))) ps"
    then show "map v' (i # ids) = map (pat_sem (pure_ops env) (\<lambda>g. v' (groupIds mg g))) (p # ps)"
      using pat_sem_step [OF ag groups_bound_mono [OF gbs(1) s1(3) order_refl] order_refl] 1(2) by simp
  qed
  moreover have "map (patWeight (\<lambda>g. w1 (groupIds mg g))) ps = map (patWeight (\<lambda>g. w (groupIds mg g))) ps"
    using pw by simp
  with 2(3) 1(3) s2(2)
  have "list_all2 (\<le>) (map w2 (i # ids)) (map (patWeight (\<lambda>g. w (groupIds mg g))) (p # ps))"
    by (simp only: list.map list_all2_Cons)
  moreover have "list_all (\<lambda>i. i < length (m_representatives cs2)) (i # ids)"
    using 1(2) 2(2) s2(1) by simp
  moreover have "rebuildsF n cs (t # ts) = Some (Inr (i # ids, cs2))"
    using 1(1) 2(1) by simp
  ultimately show ?thesis unfolding rebuilts_def by blast
qed

lemma rebuild_pattern:
  "find_correct n \<Longrightarrow> pat_wf q \<Longrightarrow> pat_groups q \<subseteq> dom mg \<Longrightarrow>
     \<exists>t. toTemplate q mg l = Inr t \<and>
       (\<forall>cs w. sane cs \<longrightarrow> weighted cs w \<longrightarrow> groups_bound cs mg (pat_groups q) \<longrightarrow>
          patWeight (\<lambda>g. w (groupIds mg g)) q < n \<longrightarrow> rebuilt n cs w mg q t)"
  "find_correct n \<Longrightarrow> list_all pat_wf qs \<Longrightarrow> \<Union> (set (map pat_groups qs)) \<subseteq> dom mg \<Longrightarrow>
     \<exists>ts. toTemplates qs mg l = Inr ts \<and>
       (\<forall>cs w. sane cs \<longrightarrow> weighted cs w \<longrightarrow> groups_bound cs mg (\<Union> (set (map pat_groups qs))) \<longrightarrow>
          list_all (\<lambda>q. patWeight (\<lambda>g. w (groupIds mg g)) q < n) qs \<longrightarrow> rebuilts n cs w mg qs ts)"
proof (induction q mg l and qs mg l rule: toTemplate_toTemplates.induct)
  case (1 t r i d args g mg l)
  from 1(3) show ?case
  proof (cases rule: pat_wf_cases)
    case grp
    then have args: "args = []" "g \<in> dom mg" using 1(3,4) by (auto simp: pat_wf.simps pat_groups.simps)
    then obtain e where e: "mg g = Some e" by blast
    have t: "toTemplate (Pattern t r i d args g) mg l =
        Inr (ExpressionTemplate True (e_id e) (itemOfType UndefinedItem 0 noLocation) [])"
      using toTemplate_simps(1) [of g mg e args l "[]" t r i d, OF grp e] args by simp
    have "rebuilt n cs w mg (Pattern t r i d args g)
        (ExpressionTemplate True (e_id e) (itemOfType UndefinedItem 0 noLocation) [])"
      if "sane cs" "weighted cs w" "groups_bound cs mg (pat_groups (Pattern t r i d args g))" for cs w
      unfolding rebuilt_def
      using that grp e step_refl [OF that(1,2)] by (auto simp: groups_bound_def pat_groups.simps
          patWeight.simps pat_sem.simps intro!: exI [of _ w])
    then show ?thesis using t by blast
  next
    case op
    let ?q = "Pattern Operation r i d args 0"
    have q: "pat_wf ?q" and dom: "pat_groups ?q \<subseteq> dom mg" using 1(3,4) op by simp_all
    have args: "list_all pat_wf args" "\<Union> (set (map pat_groups args)) \<subseteq> dom mg"
      "pat_groups ?q = \<Union> (set (map pat_groups args))"
      "length args = nat (info_args (instructionInfo i))" "i \<in> set ruleOps"
      using q dom by (auto simp: pat_wf.simps pat_groups.simps)
    have item: "(if g \<noteq> 0
         then bindE (patId (Pattern t r i d args g) mg)
                (\<lambda>n. Inr (True, n, itemOfType UndefinedItem 0 noLocation))
         else bindE (toAssemblyItem (Pattern t r i d args g) l) (\<lambda>it. Inr (False, noId, it))) =
        Inr (False, noId, itemOp i l)"
      using op by (simp add: toAssemblyItem_def)
    obtain ts where ts: "toTemplates args mg l = Inr ts"
      and R: "\<And>cs w. sane cs \<Longrightarrow> weighted cs w \<Longrightarrow> groups_bound cs mg (\<Union> (set (map pat_groups args))) \<Longrightarrow>
          list_all (\<lambda>q. patWeight (\<lambda>g. w (groupIds mg g)) q < n) args \<Longrightarrow> rebuilts n cs w mg args ts"
      using 1(1) [OF item refl refl 1(2) args(1,2)] by blast
    have "rebuilt n cs w mg ?q (ExpressionTemplate False noId (itemOp i l) ts)"
      if "sane cs" "weighted cs w" "groups_bound cs mg (pat_groups ?q)"
        "patWeight (\<lambda>g. w (groupIds mg g)) ?q < n" for cs w
      by (rule rebuilt_operation [OF 1(2) q that]) (use R that args(3) in simp)
    then show ?thesis using toTemplate_simps(2) [OF ts, of r i d] op by blast
  next
    case val
    then obtain x where x: "d = Some x" by blast
    have "args = []" using 1(3) val by (auto simp: pat_wf.simps)
    then have "toTemplate (Pattern t r i d args g) mg l =
        Inr (ExpressionTemplate False noId (itemOfType Push x l) [])"
      using toTemplate_simps(3) [of args mg l "[]" r i x] val x by simp
    then show ?thesis
      using rebuilt_value [OF 1(2)] val(1,2) x by blast
  qed
next
  case (2 mg l)
  have "rebuilts n cs w mg [] []" if "sane cs" "weighted cs w" for cs w
    unfolding rebuilts_def using step_refl [OF that] by fastforce
  then show ?case by simp
next
  case (3 p ps mg l)
  have wf: "pat_wf p" "list_all pat_wf ps" "pat_groups p \<subseteq> dom mg" "\<Union> (set (map pat_groups ps)) \<subseteq> dom mg"
    using 3(4,5) by simp_all
  obtain t where t: "toTemplate p mg l = Inr t"
    and R1: "\<And>cs w. sane cs \<Longrightarrow> weighted cs w \<Longrightarrow> groups_bound cs mg (pat_groups p) \<Longrightarrow>
        patWeight (\<lambda>g. w (groupIds mg g)) p < n \<Longrightarrow> rebuilt n cs w mg p t"
    using 3(1) [OF 3(3) wf(1,3)] by blast
  obtain ts where ts: "toTemplates ps mg l = Inr ts"
    and R2: "\<And>cs w. sane cs \<Longrightarrow> weighted cs w \<Longrightarrow> groups_bound cs mg (\<Union> (set (map pat_groups ps))) \<Longrightarrow>
        list_all (\<lambda>q. patWeight (\<lambda>g. w (groupIds mg g)) q < n) ps \<Longrightarrow> rebuilts n cs w mg ps ts"
    using 3(2) [OF t 3(3) wf(2,4)] by blast
  have "rebuilts n cs w mg (p # ps) (t # ts)"
    if "sane cs" "weighted cs w" "groups_bound cs mg (\<Union> (set (map pat_groups (p # ps))))"
      "list_all (\<lambda>q. patWeight (\<lambda>g. w (groupIds mg g)) q < n) (p # ps)" for cs w
    by (rule rebuilts_Cons [OF that R1 R2])
  then show ?case using t ts by simp
qed

subsection \<open>Entering an expression\<close>

lemma mkExpression_sel [simp]:
  "e_item (mkExpression it args s) = it" "e_sequenceNumber (mkExpression it args s) = s"
  "e_arguments (mkExpression it args s) = (if isCommutativeOperation it then sort args else args)"
  by (simp_all add: mkExpression_def)

lemma commutative_operation: "isCommutativeOperation it \<Longrightarrow> m_type it = Operation"
  by (simp only: isCommutativeOperation_iff)

lemma mkExpression_facts:
  assumes "args_ok cs it args"
  shows "expr_wf (length (m_representatives cs)) (mkExpression it args s)"
    and "exprWeight w (mkExpression it args s) = itWeight w it args"
    and "expr_sem env v (mkExpression it args s) = item_sem env it (map v args) s"
    and "list_all (\<lambda>a. a < length (m_representatives cs)) args"
proof -
  show "expr_wf (length (m_representatives cs)) (mkExpression it args s)"
    using assms by (simp add: args_ok_def expr_wf_def)
  have len: "length args = 2" if "isCommutativeOperation it"
    using assms commutative_args [OF that] commutative_operation [OF that] by (simp add: args_ok_op)
  show "exprWeight w (mkExpression it args s) = itWeight w it args"
    using commutative_sort(2) [OF _ len] commutative_operation
    by (auto simp: exprWeight_it itWeight_op)
  show "expr_sem env v (mkExpression it args s) = item_sem env it (map v args) s"
    using commutative_sort(1) [OF _ len] by (simp add: expr_sem_def)
  show "list_all (\<lambda>a. a < length (m_representatives cs)) args"
    using assms by (cases "m_type it = Operation") (simp_all add: args_ok_op args_ok_other)
qed

lemma setInsert_all: "list_all P es \<Longrightarrow> P e \<Longrightarrow> list_all P (setInsert es e)"
  by (simp add: setInsert_def)

lemma map_cong_bound:
  "list_all (\<lambda>a. a < n) args \<Longrightarrow> (\<And>i. i < n \<Longrightarrow> f i = g i) \<Longrightarrow> map f args = map g args"
  by (induction args) auto

lemma expr_cong:
  assumes "expr_wf n e" and "\<And>i. i < n \<Longrightarrow> f i = g i"
  shows "exprWeight f e = exprWeight g e"
proof -
  have "map f (e_arguments e) = map g (e_arguments e)"
    using map_cong_bound assms unfolding expr_wf_def by blast
  then show ?thesis unfolding exprWeight_def by (simp only:)
qed

lemma expr_sem_cong:
  assumes "expr_wf n e" and "\<And>i. i < n \<Longrightarrow> f i = g i"
  shows "expr_sem env f e = expr_sem env g e"
proof -
  have "map f (e_arguments e) = map g (e_arguments e)"
    using map_cong_bound assms unfolding expr_wf_def by blast
  then show ?thesis unfolding expr_sem_def by (simp only:)
qed

lemma expr_holds_cong:
  assumes "expr_wf n e" and "e_id e < n" and "\<And>i. i < n \<Longrightarrow> f i = g i"
  shows "expr_holds env f e = expr_holds env g e"
  using expr_sem_cong [OF assms(1,3)] assms(2,3) by (simp add: expr_holds_def)

lemma expr_id_irrelevant [simp]:
  "expr_wf n (e\<lparr>e_id := i\<rparr>) = expr_wf n e" "exprWeight w (e\<lparr>e_id := i\<rparr>) = exprWeight w e"
  "expr_sem env v (e\<lparr>e_id := i\<rparr>) = expr_sem env v e"
  by (simp_all add: expr_wf_def exprWeight_def expr_sem_def cong: AssemblyItemType.case_cong)

lemma exprWeight_pos:
  assumes "weighted cs w" and "expr_wf (length (m_representatives cs)) e"
  shows "1 \<le> exprWeight w e"
proof -
  have "list_all (\<lambda>x. 1 \<le> x) (map w (e_arguments e))"
    using assms weighted_rep(1) [OF assms(1)] by (auto simp: expr_wf_def list_all_iff)
  from opWeight_ge_3 [OF this, of "m_instruction (e_item e)"] show ?thesis
    by (simp add: exprWeight_def split: AssemblyItemType.splits)
qed

abbreviation has_value :: "Expression \<Rightarrow> Id \<Rightarrow> environment \<Rightarrow> (Id \<Rightarrow> u256) \<Rightarrow> bool" where
  "has_value e i \<equiv> (\<lambda>env v. opaque_item (e_item e) \<or> v i = expr_sem env v e)"

lemma step_state:
  assumes "step_ok cs0 w0 cs w Q" and "sane cs'" and "weighted cs' w"
    and "m_representatives cs' = m_representatives cs"
    and "\<And>env v. models env cs v \<Longrightarrow> Q env v \<Longrightarrow> models env cs' v"
  shows "step_ok cs0 w0 cs' w Q"
proof -
  have "\<exists>val'. (\<forall>i < length (m_representatives cs0). val' i = val i) \<and> models env cs' val' \<and> Q env val'"
    if e: "env_ok env" "models env cs0 val" for env val
  proof -
    obtain v1 where "\<forall>i < length (m_representatives cs0). v1 i = val i" "models env cs v1" "Q env v1"
      using assms(1) e unfolding step_ok_def by blast
    then show ?thesis using assms(5) by blast
  qed
  then show ?thesis using assms(1-4) by (simp add: step_ok_def)
qed

lemma expr_wf_Suc: "expr_wf n e \<Longrightarrow> expr_wf (Suc n) e"
  using expr_wf_mono [of n e "Suc n"] by simp

lemma enter_found:
  assumes "sane cs" and "weighted cs w" and "expr_wf (length (m_representatives cs)) e"
    and "i < length (m_representatives cs)" and "w i \<le> exprWeight w e"
    and "step_ok cs0 w0 cs w (has_value e i)"
  shows "step_ok cs0 w0 (cs\<lparr>m_expressions := setInsert (m_expressions cs) (e\<lparr>e_id := i\<rparr>)\<rparr>) w (has_value e i)"
proof -
  let ?cs = "cs\<lparr>m_expressions := setInsert (m_expressions cs) (e\<lparr>e_id := i\<rparr>)\<rparr>"
  have "sane ?cs"
    using assms(1,3,4) by (auto simp: sane_def Let_def intro!: setInsert_all)
  moreover have "weighted ?cs w"
    using assms(2,5) by (auto simp: weighted_def intro!: setInsert_all)
  moreover have "models env ?cs v" if "models env cs v" "has_value e i env v" for env v
    using that by (auto simp: models_def expr_holds_def intro!: setInsert_all)
  ultimately show ?thesis using step_state [OF assms(6), of ?cs] by simp
qed

lemma enter_new:
  assumes "sane cs" and "weighted cs w" and wf: "expr_wf (length (m_representatives cs)) e"
    and cs': "cs' = cs\<lparr>m_representatives := m_representatives cs @ [e\<lparr>e_id := length (m_representatives cs)\<rparr>],
        m_expressions := setInsert (m_expressions cs) (e\<lparr>e_id := length (m_representatives cs)\<rparr>)\<rparr>"
    and w': "w' = w(length (m_representatives cs) := exprWeight w e)"
  shows "step_ok cs w cs' w' (has_value e (length (m_representatives cs)))"
proof -
  let ?n = "length (m_representatives cs)" let ?e = "e\<lparr>e_id := ?n\<rparr>"
  have wcong: "exprWeight w' x = exprWeight w x" if "expr_wf ?n x" for x
    by (rule expr_cong [OF that]) (simp add: w')
  have sane: "sane cs'"
    unfolding sane_def Let_def
  proof (intro conjI allI impI)
    fix i assume "i < length (m_representatives cs')"
    then show "e_id (m_representatives cs' ! i) = i"
      and "expr_wf (length (m_representatives cs')) (m_representatives cs' ! i)"
      using sane_representative(2,3) [OF assms(1)] wf
      by (auto simp: cs' nth_append less_Suc_eq intro: expr_wf_Suc)
  next
    have "list_all (\<lambda>e. e_id e < Suc ?n \<and> expr_wf (Suc ?n) e) (m_expressions cs)"
      using assms(1) unfolding sane_def Let_def by (auto simp: list_all_iff intro: expr_wf_Suc)
    then show "list_all (\<lambda>e. e_id e < length (m_representatives cs') \<and> expr_wf (length (m_representatives cs')) e)
        (m_expressions cs')"
      using setInsert_all expr_wf_Suc [OF wf] by (simp add: cs')
  qed
  have rep: "1 \<le> w' i \<and> w' i = exprWeight w' (m_representatives cs' ! i)"
    if "i < length (m_representatives cs')" for i
  proof (cases "i = ?n")
    case True
    then show ?thesis using wcong [OF wf] exprWeight_pos [OF assms(2) wf] by (simp add: cs' w')
  next
    case False
    then have "i < ?n" using that by (simp add: cs')
    then show ?thesis
      using wcong [OF sane_representative(3) [OF assms(1)]] weighted_rep [OF assms(2)]
      by (simp add: cs' w' nth_append)
  qed
  have "w' (e_id x) \<le> exprWeight w' x" if "x \<in> set (m_expressions cs)" for x
  proof -
    have "e_id x < ?n" "expr_wf ?n x" using assms(1) that by (auto simp: sane_def Let_def list_all_iff)
    then show ?thesis using assms(2) that wcong by (auto simp: weighted_def list_all_iff w')
  qed
  then have "list_all (\<lambda>x. w' (e_id x) \<le> exprWeight w' x) (m_expressions cs)"
    by (simp add: list_all_iff)
  moreover have "w' (e_id ?e) \<le> exprWeight w' ?e" using wcong [OF wf] by (simp add: w')
  ultimately have "list_all (\<lambda>x. w' (e_id x) \<le> exprWeight w' x) (m_expressions cs')"
    using setInsert_all by (simp add: cs')
  then have weighted: "weighted cs' w'" using rep unfolding weighted_def by blast
  have "\<exists>val'. (\<forall>i < ?n. val' i = val i) \<and> models env cs' val' \<and> has_value e ?n env val'"
    if m: "models env cs val" for env val
  proof (intro exI conjI)
    let ?v = "val(?n := expr_sem env val e)"
    show "\<forall>i < ?n. ?v i = val i" by simp
    show has: "has_value e ?n env ?v"
      using expr_sem_cong [OF wf, of ?v val env] by simp
    have old: "expr_holds env ?v x" if "expr_wf ?n x" "e_id x < ?n" "expr_holds env val x" for x
      using expr_holds_cong [OF that(1,2), of ?v val env] that(3) by simp
    have "list_all (expr_holds env ?v) (m_representatives cs)"
      unfolding list_all_length
    proof (intro allI impI old)
      fix i assume i: "i < ?n"
      note r = sane_representative(2,3) [OF assms(1) i]
      show "expr_wf ?n (m_representatives cs ! i)" "e_id (m_representatives cs ! i) < ?n" using r i by simp_all
      show "expr_holds env val (m_representatives cs ! i)" using m i by (simp add: models_def list_all_length)
    qed
    moreover have "list_all (expr_holds env ?v) (m_expressions cs)"
      using m old assms(1) by (auto simp: models_def list_all_iff sane_def Let_def)
    moreover have "expr_holds env ?v ?e" using has by (simp add: expr_holds_def)
    ultimately show "models env cs' ?v" by (simp add: models_def cs' setInsert_all)
  qed
  then show ?thesis
    unfolding step_ok_def using sane weighted by (auto simp: cs' w')
qed

subsection \<open>Finding is correct\<close>

lemma firstMatch_table:
  assumes "sane cs" and "expr_wf (length (m_representatives cs)) e"
  shows "firstMatch (ruleTable i) e cs = Inr None \<or>
    (\<exists>pre r post mg. ruleTable i = pre @ r # post \<and> firstMatch (ruleTable i) e cs = Inr (Some (r, mg)) \<and>
       applicable cs e pre r mg)"
proof -
  have "list_all rule_wf (ruleTable i)"
    using allRules_wf by (auto simp: ruleTable_def list_all_iff)
  from firstMatch_cases [OF assms this] show ?thesis .
qed

text \<open>Either no rule applies, or the template of one that does is rebuilt into a lighter class.\<close>

lemma tryToSimplify_cases:
  assumes "find_correct n" and "sane cs" and "weighted cs w"
    and wf: "expr_wf (length (m_representatives cs)) e" and le: "exprWeight w e \<le> n"
  obtains "tryToSimplifyF n cs e = Some (Inr (None, cs))"
  | i cs' w' where "tryToSimplifyF n cs e = Some (Inr (Some i, cs'))"
      "i < length (m_representatives cs')" "w' i \<le> exprWeight w e"
      "step_ok cs w cs' w' (has_value e i)"
proof (cases "m_type (e_item e) = Operation \<and> isDeterministic (e_item e)")
  case False
  then have "simplifiedTemplate cs e = Inr None"
    by (auto simp: simplifiedTemplate_def makeRules_table)
  then show thesis using that(1) by simp
next
  case True
  let ?i = "m_instruction (e_item e)"
  have st: "simplifiedTemplate cs e = bindE (firstMatch (ruleTable ?i) e cs) (\<lambda>m. case m of
         None \<Rightarrow> Inr None
       | Some (r, mg) \<Rightarrow>
           bindE (r_action r mg) (\<lambda>q.
           bindE (toTemplate q mg (m_location (e_item e))) (\<lambda>t. Inr (Some t))))"
    using True by (simp add: simplifiedTemplate_def makeRules_table findFirstMatch_def instructionOf_def)
  from firstMatch_table [OF assms(2) wf, of ?i] show thesis
  proof (elim disjE exE conjE)
    assume "firstMatch (ruleTable ?i) e cs = Inr None"
    then show thesis using that(1) st by simp
  next
    fix pre r post mg
    assume r: "ruleTable ?i = pre @ r # post" "firstMatch (ruleTable ?i) e cs = Inr (Some (r, mg))"
      and a: "applicable cs e pre r mg"
    obtain q where q: "r_action r mg = Inr q" "pat_wf q" "pat_groups q \<subseteq> pat_groups (r_pattern r)"
      using a unfolding applicable_def rule_wf_def by blast
    have dom: "pat_groups q \<subseteq> dom mg" using a q(3) by (auto simp: applicable_def)
    obtain t where t: "toTemplate q mg (m_location (e_item e)) = Inr t"
      and R: "groups_bound cs mg (pat_groups q) \<Longrightarrow> patWeight (\<lambda>g. w (groupIds mg g)) q < n \<Longrightarrow>
        rebuilt n cs w mg q t"
      using rebuild_pattern(1) [OF assms(1) q(2) dom] assms(2,3) by blast
    have light: "patWeight (\<lambda>g. w (groupIds mg g)) q < exprWeight w e"
      by (rule applicable_lighter [OF assms(2,3) wf r(1) a q(1,3)])
    have gb: "groups_bound cs mg (pat_groups q)"
      using dom a groups_ok_rep(1) [OF assms(2)] unfolding groups_bound_def applicable_def by blast
    have "rebuilt n cs w mg q t" using R gb light le by simp
    then obtain i cs' w' where 1: "rebuildF n cs t = Some (Inr (i, cs'))"
      "i < length (m_representatives cs')" "w' i \<le> patWeight (\<lambda>g. w (groupIds mg g)) q"
      "step_ok cs w cs' w' (\<lambda>env v. v i = pat_sem (pure_ops env) (\<lambda>g. v (groupIds mg g)) q)"
      unfolding rebuilt_def by blast
    have sem: "step_ok cs w cs w
        (\<lambda>env v. pat_sem (pure_ops env) (\<lambda>g. v (groupIds mg g)) q = expr_sem env v e)"
      using applicable_value [OF assms(2) _ _ wf r(1) a q(1)] by (rule step_refl [OF assms(2,3)])
    have "step_ok cs w cs' w' (has_value e i)"
    proof (rule step_trans [OF sem 1(4)])
      fix env and v v' :: "Id \<Rightarrow> u256"
      assume ag: "\<forall>i < length (m_representatives cs). v' i = v i"
        and s: "pat_sem (pure_ops env) (\<lambda>g. v (groupIds mg g)) q = expr_sem env v e"
        and i: "v' i = pat_sem (pure_ops env) (\<lambda>g. v' (groupIds mg g)) q"
      have "pat_sem (pure_ops env) (\<lambda>g. v' (groupIds mg g)) q =
          pat_sem (pure_ops env) (\<lambda>g. v (groupIds mg g)) q"
        by (rule pat_sem_step [OF ag gb order_refl])
      moreover have "expr_sem env v' e = expr_sem env v e"
        using ag by (intro expr_sem_cong [OF wf]) blast
      ultimately show "has_value e i env v'" using s i by simp
    qed
    moreover have "tryToSimplifyF n cs e = Some (Inr (Some i, cs'))"
      using st r(2) q(1) t 1(1) by simp
    moreover have "w' i \<le> exprWeight w e" using 1(3) light by linarith
    ultimately show thesis using that(2) 1(2) by blast
  qed
qed

lemma find_correct_Suc:
  assumes "find_correct n"
  shows "find_correct (Suc n)"
  unfolding find_correct_def
proof (intro allI impI)
  fix cs w it args s
  assume "sane cs" and "weighted cs w" and args: "args_ok cs it args"
    and less: "itWeight w it args < Suc n"
  let ?e = "mkExpression it args s" let ?N = "length (m_representatives cs)"
  note e = mkExpression_facts [OF args]
  have wf: "expr_wf ?N ?e" by (rule e(1))
  have le: "exprWeight w ?e \<le> n" using less by (simp add: e(2))
  let ?Q = "\<lambda>i env v. opaque_item it \<or> v i = item_sem env it (map v args) s"
  have Q: "has_value ?e i = ?Q i" for i by (simp add: e(3) [of _ _ s])
  let ?goal = "\<exists>i cs' w'. findF (Suc n) cs it args s = Some (Inr (i, cs')) \<and>
      i < length (m_representatives cs') \<and> w' i \<le> itWeight w it args \<and> step_ok cs w cs' w' (?Q i)"
  show ?goal
  proof (cases "if isDeterministic it then setFind (m_expressions cs) ?e else None")
    case (Some f)
    then have f: "f \<in> set (m_expressions cs)" "expression_equiv ?e f" "isDeterministic it"
      by (auto simp: setFind_def find_Some_iff split: if_splits)
    then have eq: "item_eq it (e_item f)" "e_arguments ?e = e_arguments f" "e_sequenceNumber f = s"
      by (auto simp: expression_equiv_iff)
    have "findF (Suc n) cs it args s = Some (Inr (e_id f, cs))" using Some by simp
    moreover have "e_id f < ?N" using \<open>sane cs\<close> f(1) by (auto simp: sane_def Let_def list_all_iff)
    moreover have "exprWeight w f = exprWeight w ?e"
      using eq by (auto simp: exprWeight_def item_eq_def split: AssemblyItemType.splits if_splits)
    then have "w (e_id f) \<le> itWeight w it args"
      using \<open>weighted cs w\<close> f(1) by (auto simp: weighted_def list_all_iff e(2))
    moreover have "step_ok cs w cs w (?Q (e_id f))"
    proof (rule step_refl [OF \<open>sane cs\<close> \<open>weighted cs w\<close>])
      fix env v assume "models env cs v"
      then have "expr_holds env v f" using f(1) by (simp add: models_def list_all_iff)
      moreover have "expr_sem env v f = expr_sem env v ?e"
        using eq item_sem_cong [OF eq(1)] by (simp add: expr_sem_def)
      ultimately show "?Q (e_id f) env v"
        using opaque_item_cong [OF eq(1)] e(3) [of env v s] by (simp add: expr_holds_def)
    qed
    ultimately show ?goal by blast
  next
    case None
    then have find: "findF (Suc n) cs it args s =
        (case tryToSimplifyF n cs ?e of
             None \<Rightarrow> None
           | Some (Inl x) \<Rightarrow> Some (Inl x)
           | Some (Inr (found, cs')) \<Rightarrow> Some (Inr (enterExpression cs' ?e found)))"
      by (simp only: findF.simps Let_def option.case)
    from tryToSimplify_cases [OF assms \<open>sane cs\<close> \<open>weighted cs w\<close> wf le] show ?goal
    proof cases
      case 1
      define cs' where "cs' = cs\<lparr>m_representatives := m_representatives cs @ [?e\<lparr>e_id := ?N\<rparr>],
          m_expressions := setInsert (m_expressions cs) (?e\<lparr>e_id := ?N\<rparr>)\<rparr>"
      define w' where "w' = w(?N := exprWeight w ?e)"
      have "findF (Suc n) cs it args s = Some (Inr (?N, cs'))"
        unfolding find 1 by (simp add: enterExpression_def cs'_def Let_def)
      moreover have "step_ok cs w cs' w' (?Q ?N)"
        using enter_new [OF \<open>sane cs\<close> \<open>weighted cs w\<close> wf cs'_def w'_def] unfolding Q .
      moreover have "?N < length (m_representatives cs')" by (simp add: cs'_def)
      moreover have "w' ?N \<le> itWeight w it args" by (simp add: w'_def e(2))
      ultimately show ?goal by blast
    next
      case (2 i cs1 w1)
      define cs' where "cs' = cs1\<lparr>m_expressions := setInsert (m_expressions cs1) (?e\<lparr>e_id := i\<rparr>)\<rparr>"
      have c: "sane cs1" "weighted cs1 w1" "?N \<le> length (m_representatives cs1)"
        "\<forall>i < ?N. w1 i = w i"
        using 2(4) by (auto simp: step_ok_def)
      have wf1: "expr_wf (length (m_representatives cs1)) ?e" by (rule expr_wf_mono [OF wf c(3)])
      have "w1 i \<le> exprWeight w1 ?e" using 2(3) expr_cong [OF wf, of w1 w] c(4) by simp
      from enter_found [OF c(1,2) wf1 2(2) this 2(4)]
      have "step_ok cs w cs' w1 (?Q i)" unfolding Q cs'_def .
      moreover have "findF (Suc n) cs it args s = Some (Inr (i, cs'))"
        unfolding find 2(1) using 2(2) by (simp add: enterExpression_def cs'_def Let_def)
      moreover have "i < length (m_representatives cs')" using 2(2) by (simp add: cs'_def)
      moreover have "w1 i \<le> itWeight w it args" using 2(3) by (simp add: e(2))
      ultimately show ?goal by blast
    qed
  qed
qed

lemma find_correct: "find_correct n"
proof (induction n)
  case 0
  then show ?case by (simp add: find_correct_def)
next
  case (Suc n)
  then show ?case by (rule find_correct_Suc)
qed

subsection \<open>More fuel changes nothing\<close>

lemma rebuilds_Some_cases:
  assumes "rebuildsF n cs (t # ts) = Some r"
  obtains x where "rebuildF n cs t = Some (Inl x)" "r = Inl x"
  | i cs' x where "rebuildF n cs t = Some (Inr (i, cs'))" "rebuildsF n cs' ts = Some (Inl x)" "r = Inl x"
  | i cs' ids cs'' where "rebuildF n cs t = Some (Inr (i, cs'))"
      "rebuildsF n cs' ts = Some (Inr (ids, cs''))" "r = Inr (i # ids, cs'')"
  using assms by (auto split: option.splits sum.splits)

lemma find_fuel_mono:
  "findF n cs it args s = Some r \<Longrightarrow> n \<le> m \<Longrightarrow> findF m cs it args s = Some r"
  "tryToSimplifyF n cs e = Some r' \<Longrightarrow> n \<le> m \<Longrightarrow> tryToSimplifyF m cs e = Some r'"
  "rebuildF n cs t = Some r \<Longrightarrow> n \<le> m \<Longrightarrow> rebuildF m cs t = Some r"
  "rebuildsF n cs ts = Some rs \<Longrightarrow> n \<le> m \<Longrightarrow> rebuildsF m cs ts = Some rs"
proof (induction n cs it args s and n cs e and n cs t and n cs ts arbitrary: m r and m r' and m r and m rs
    rule: findF_tryToSimplifyF_rebuildF_rebuildsF.induct)
  case (2 n cs it args s)
  let ?e = "mkExpression it args s"
  obtain k where k: "m = Suc k" "n \<le> k" using 2(3) by (cases m) auto
  show ?case
  proof (cases "if isDeterministic it then setFind (m_expressions cs) ?e else None")
    case None
    then obtain x where x: "tryToSimplifyF n cs ?e = Some x"
      using 2(2) by (cases "tryToSimplifyF n cs ?e") (simp_all add: Let_def del: tryToSimplifyF.simps)
    have "tryToSimplifyF k cs ?e = Some x" by (rule 2(1) [OF refl None x k(2)])
    then show ?thesis using 2(2) x None
      unfolding k(1) findF.simps Let_def by (simp del: tryToSimplifyF.simps)
  next
    case (Some f)
    then show ?thesis using 2(2) unfolding k(1) findF.simps Let_def by simp
  qed
next
  case (3 n cs e)
  show ?case
  proof (cases "\<exists>t. simplifiedTemplate cs e = Inr (Some t)")
    case True
    then obtain t where t: "simplifiedTemplate cs e = Inr (Some t)" by blast
    then obtain x where x: "rebuildF n cs t = Some x"
      using 3(2) by (cases "rebuildF n cs t") simp_all
    then show ?thesis using 3(1) [OF t refl x 3(3)] 3(2) t by simp
  next
    case False
    then show ?thesis using 3(2) by (simp split: sum.splits option.splits)
  qed
next
  case (4 n cs h i it args)
  show ?case
  proof (cases h)
    case False
    then obtain x where x: "rebuildsF n cs args = Some x"
      using 4(3) by (cases "rebuildsF n cs args") simp_all
    note args = 4(1) [OF False x 4(4)]
    show ?thesis
    proof (cases x)
      case (Inl y)
      then show ?thesis using 4(3) x args False by simp
    next
      case (Inr p)
      then obtain ids cs' where xeq: "x = Inr (ids, cs')" by (cases p) simp
      then have f: "findF n cs' it ids 0 = Some r" using 4(3) x False by simp
      have "findF m cs' it ids 0 = Some r" by (rule 4(2) [OF False x xeq refl f 4(4)])
      then show ?thesis using args xeq False by simp
    qed
  qed (use 4(3) in simp)
next
  case (6 n cs t ts)
  from 6(3) show ?case
  proof (cases rule: rebuilds_Some_cases)
    case (1 x)
    then show ?thesis using 6(1) [OF 1(1) 6(4)] by simp
  next
    case (2 i cs' x)
    then show ?thesis using 6(1) [OF 2(1) 6(4)] 6(2) [OF 2(1) refl refl 2(2) 6(4)] by simp
  next
    case (3 i cs' ids cs'')
    then show ?thesis using 6(1) [OF 3(1) 6(4)] 6(2) [OF 3(1) refl refl 3(2) 6(4)] by simp
  qed
qed simp_all

end
