(* ===== verification/ExpressionQueries.thy ===== *)
theory ExpressionQueries
  imports ExpressionSoundness
begin

section \<open>The containers that arise, and what the queries promise\<close>

text \<open>
  The containers built from the empty one by \<open>find\<close> and \<open>newClass\<close>, and the properties of
  the operations on them: \<open>find\<close> returns, without an exception, a class that has the value of
  the expression, and the answers of \<open>knownConstant\<close>, \<open>knownZero\<close>, \<open>knownNonZero\<close>,
  \<open>knownToBeDifferent\<close> and \<open>knownToBeDifferentBy32\<close> are true of all values the classes can have.
  \<open>forceEqual\<close>, which merges classes at the word of its caller, is not among the steps.
\<close>

definition emptyClasses :: ExpressionClasses where
  "emptyClasses = \<lparr>m_representatives = [], m_expressions = []\<rparr>"

inductive reachable :: "ExpressionClasses \<Rightarrow> bool" where
  empty: "reachable emptyClasses"
| found: "reachable cs \<Longrightarrow> args_ok cs it args \<Longrightarrow> findF n cs it args s = Some (Inr (i, cs')) \<Longrightarrow>
    reachable cs'"
| newClass: "reachable cs \<Longrightarrow> newClass cs l = (i, cs') \<Longrightarrow> reachable cs'"

lemma find_step:
  assumes "sane cs" and "weighted cs w" and "args_ok cs it args"
  obtains i cs' w' where "\<And>n. itWeight w it args < n \<Longrightarrow> findF n cs it args s = Some (Inr (i, cs'))"
    "i < length (m_representatives cs')"
    "step_ok cs w cs' w' (\<lambda>env v. opaque_item it \<or> v i = item_sem env it (map v args) s)"
proof -
  let ?n = "Suc (itWeight w it args)"
  obtain i cs' w' where f: "findF ?n cs it args s = Some (Inr (i, cs'))"
    "i < length (m_representatives cs')"
    "step_ok cs w cs' w' (\<lambda>env v. opaque_item it \<or> v i = item_sem env it (map v args) s)"
    using find_correct [of ?n] assms unfolding find_correct_def by blast
  show thesis
    by (rule that [OF _ f(2,3)], rule find_fuel_mono(1) [OF f(1)]) simp
qed

lemma find_unique:
  assumes "findF n cs it args s = Some r" and "findF m cs it args s = Some r'"
  shows "r = r'"
  using find_fuel_mono(1) [OF assms(1), of "max n m"] find_fuel_mono(1) [OF assms(2), of "max n m"] by simp

lemma find_step_result:
  assumes "sane cs" and "weighted cs w" and "args_ok cs it args"
    and "findF n cs it args s = Some (Inr (i, cs'))"
  obtains w' where "i < length (m_representatives cs')"
    "step_ok cs w cs' w' (\<lambda>env v. opaque_item it \<or> v i = item_sem env it (map v args) s)"
proof -
  obtain i0 cs0 w0 where f: "\<And>n. itWeight w it args < n \<Longrightarrow> findF n cs it args s = Some (Inr (i0, cs0))"
    "i0 < length (m_representatives cs0)"
    "step_ok cs w cs0 w0 (\<lambda>env v. opaque_item it \<or> v i0 = item_sem env it (map v args) s)"
    using find_step [OF assms(1-3), of s] by blast
  have "Inr (i0, cs0) = (Inr (i, cs') :: (Id \<times> ExpressionClasses) result)"
    by (rule find_unique [OF f(1) [OF lessI] assms(4)])
  then show thesis using that f(2,3) by simp
qed

lemma newClass_step:
  assumes "sane cs" and "weighted cs w" and "newClass cs l = (i, cs')"
  obtains w' where "i < length (m_representatives cs')" "step_ok cs w cs' w' (\<lambda>env v. True)"
proof -
  define e where "e = \<lparr>e_id = length (m_representatives cs),
               e_item = itemOfType UndefinedItem (push_bit 255 1 + of_nat (length (m_representatives cs))) l,
               e_arguments = [], e_sequenceNumber = 0\<rparr>"
  have n: "i = length (m_representatives cs)" "cs' = cs\<lparr>m_representatives := m_representatives cs @ [e],
                m_expressions := setInsert (m_expressions cs) e\<rparr>"
    using assms(3) by (auto simp: newClass_def Let_def e_def)
  have e: "e\<lparr>e_id := length (m_representatives cs)\<rparr> = e" by (simp add: e_def)
  have wf: "expr_wf (length (m_representatives cs)) e"
    by (simp add: e_def expr_wf_def itemOfType_def)
  have "step_ok cs w cs' (w(length (m_representatives cs) := exprWeight w e))
      (has_value e (length (m_representatives cs)))"
    by (rule enter_new [OF assms(1,2) wf _ refl]) (simp only: e n(2))
  then show thesis
    using that n step_mono [where Q' = "\<lambda>env v. True"] by fastforce
qed

lemma reachable_ok: "reachable cs \<Longrightarrow> sane cs \<and> (\<exists>w. weighted cs w)"
proof (induction rule: reachable.induct)
  case empty
  show ?case by (simp add: sane_def weighted_def emptyClasses_def)
next
  case (found cs it args n s i cs')
  then obtain w where "sane cs" "weighted cs w" by blast
  then obtain w' where "step_ok cs w cs' w'
      (\<lambda>env v. opaque_item it \<or> v i = item_sem env it (map v args) s)"
    using find_step_result [OF _ _ found(2,3)] by blast
  then show ?case unfolding step_ok_def by blast
next
  case (newClass cs l i cs')
  then obtain w where "sane cs" "weighted cs w" by blast
  then obtain w' where "step_ok cs w cs' w' (\<lambda>env v. True)"
    using newClass_step [OF _ _ newClass(2)] by blast
  then show ?case unfolding step_ok_def by blast
qed

lemmas reachable_sane = reachable_ok [THEN conjunct1]

text \<open>C5: On every container that arises, \<open>find\<close> terminates: with enough fuel it returns a class
  of the resulting container and raises no exception.\<close>

theorem find_returns:
  assumes "reachable cs" and "args_ok cs it args"
  shows "\<exists>n\<^sub>0 i cs'. (\<forall>n > n\<^sub>0. findF n cs it args s = Some (Inr (i, cs'))) \<and>
    i < length (m_representatives cs')"
proof -
  obtain w where w: "sane cs" "weighted cs w" using reachable_ok [OF assms(1)] by blast
  from find_step [OF w assms(2)] show ?thesis by metis
qed

lemma find_value:
  assumes "reachable cs" and "args_ok cs it args" and "findF n cs it args s = Some (Inr (i, cs'))"
    and "env_ok env" and "models env cs val"
  obtains val' where "\<forall>j < length (m_representatives cs). val' j = val j" "models env cs' val'"
    "opaque_item it \<or> val' i = item_sem env it (map val args) s" "i < length (m_representatives cs')"
proof -
  obtain w where w: "sane cs" "weighted cs w" using reachable_ok [OF assms(1)] by blast
  obtain w' where s: "i < length (m_representatives cs')"
    "step_ok cs w cs' w' (\<lambda>env v. opaque_item it \<or> v i = item_sem env it (map v args) s)"
    using find_step_result [OF w assms(2,3)] .
  obtain val' where val': "\<forall>j < length (m_representatives cs). val' j = val j" "models env cs' val'"
    "opaque_item it \<or> val' i = item_sem env it (map val' args) s"
    using s(2) assms(4,5) unfolding step_ok_def by blast
  have "map val' args = map val args"
    using map_cong_bound [OF mkExpression_facts(4) [OF assms(2)]] val'(1) by blast
  with val'(3) have "opaque_item it \<or> val' i = item_sem env it (map val args) s" by simp
  then show thesis using that val'(1,2) s(1) by blast
qed

text \<open>C4: \<open>find\<close> is sound: values of the old classes extend to values of all classes of the
  result under which the class returned has the value of the expression.\<close>

theorem find_sound:
  assumes "reachable cs" and "args_ok cs it args" and "findF n cs it args s = Some (Inr (i, cs'))"
    and "env_ok env" and "models env cs val"
  shows "\<exists>val'. (\<forall>j < length (m_representatives cs). val' j = val j) \<and> models env cs' val' \<and>
    (opaque_item it \<or> val' i = item_sem env it (map val args) s)"
  using find_value [OF assms] by metis

subsection \<open>Queries\<close>

lemma matches_patA:
  "matches patA e cs Map.empty =
     (if m_type (e_item e) = Push then Inr (True, [1 \<mapsto> e]) else Inr (False, Map.empty))"
  by (simp add: patA_def patType_def matchesBaseItem_def matchGroupStep_def)

lemma matches_patValue:
  "matches (patValue x) e cs Map.empty = Inr (m_type (e_item e) = Push \<and> m_data (e_item e) = x, Map.empty)"
  by (auto simp: patValue_def matchesBaseItem_def matchGroupStep_def patData_def dataOf_def)

lemma push_value:
  assumes "sane cs" and "models env cs val" and "i < length (m_representatives cs)"
    and "m_type (e_item (m_representatives cs ! i)) = Push"
  shows "val i = m_data (e_item (m_representatives cs ! i))"
  using models_rep [OF assms(2,1,3)] assms(4)
  by (simp add: opaque_item_def isDeterministic_def expr_sem_def item_sem_def)

lemma knownConstant_eq:
  assumes "sane cs" and "i < length (m_representatives cs)"
  shows "knownConstant cs i = Inr
    (if m_type (e_item (m_representatives cs ! i)) = Push
     then Some (m_data (e_item (m_representatives cs ! i))) else None)"
proof -
  have p: "setMatchGroup (patType Push) 1 = patA" by (simp add: patA_def)
  show ?thesis
    using sane_representative(1) [OF assms]
    unfolding knownConstant_def Let_def p
    by (simp add: matches_patA patD_def matchGroupValue_def dataOf_def)
qed

text \<open>C12: A constant that \<open>knownConstant\<close> reports is the value of the class, and asking raises
  no exception.\<close>

theorem knownConstant_sound:
  assumes "reachable cs" and "i < length (m_representatives cs)" and "models env cs val"
  shows "\<exists>v. knownConstant cs i = Inr v \<and> (v = None \<or> v = Some (val i))"
  using knownConstant_eq [OF reachable_sane [OF assms(1)] assms(2)]
    push_value [OF reachable_sane [OF assms(1)] assms(3,2)] by auto

text \<open>\<open>knownZero\<close> is only true of classes whose value is zero.\<close>

theorem knownZero_sound:
  assumes "reachable cs" and "knownZero cs i = Inr True" and "models env cs val"
  shows "val i = 0"
proof -
  have i: "i < length (m_representatives cs)"
    using assms(2) by (auto simp: knownZero_def representative_def split: if_splits)
  show ?thesis
    using assms(2) sane_representative(1) [OF reachable_sane [OF assms(1)] i] matches_patValue
      push_value [OF reachable_sane [OF assms(1)] assms(3) i]
    by (simp add: knownZero_def)
qed

lemma args_ok_arith:
  "args_ok cs (opItem i_ISZERO) [a] \<longleftrightarrow> a < length (m_representatives cs)"
  "args_ok cs (opItem i_SUB) [a, b] \<longleftrightarrow>
     a < length (m_representatives cs) \<and> b < length (m_representatives cs)"
  by (simp_all add: args_ok_op op_args)

lemma arith_items:
  "item_sem env (opItem i_ISZERO) [x] s = (if x = 0 then 1 else 0)"
  "item_sem env (opItem i_SUB) [x, y] s = x - y"
  "\<not> opaque_item (opItem i_ISZERO)" "\<not> opaque_item (opItem i_SUB)"
  using ruleOps_not_opaque ruleOps_ops
  by (simp_all add: item_sem_def evm_arith_def evm_bool_def)

lemma constant_class:
  assumes "reachable cs" and "models env cs val" and "i < length (m_representatives cs)"
    and "representative cs i = Inr e" and "m_type (e_item e) = Push"
  shows "val i = m_data (e_item e)"
  using push_value [OF reachable_sane [OF assms(1)] assms(2,3)] assms(3-5)
  by (simp add: representative_def)

text \<open>The step that the queries share: the value of the class of \<open>ISZERO\<close> and \<open>SUB\<close>.\<close>

lemma knownNonZero_value:
  assumes "reachable cs" and "c < length (m_representatives cs)" and "env_ok env" and "models env cs val"
    and "knownNonZeroF n cs c = Some (Inr (True, cs'))"
  shows "val c \<noteq> 0"
proof
  assume c: "val c = 0"
  obtain i cs1 where f: "findF n cs (opItem i_ISZERO) [c] 0 = Some (Inr (i, cs1))"
    using assms(5) by (auto simp: knownNonZeroF_def bindE_Inr_iff)
  have ok: "args_ok cs (opItem i_ISZERO) [c]" using assms(2) by (simp add: args_ok_arith)
  obtain val' where v: "models env cs1 val'" "i < length (m_representatives cs1)"
    "opaque_item (opItem i_ISZERO) \<or> val' i = item_sem env (opItem i_ISZERO) (map val [c]) 0"
    using find_value [OF assms(1) ok f assms(3,4)] by metis
  then have "val' i = 1" using arith_items c by simp
  note v = v(1) this v(2)
  have r: "reachable cs1" by (rule reachable.found [OF assms(1) ok f])
  obtain e where e: "representative cs1 i = Inr e" "m_type (e_item e) = Push" "m_data (e_item e) = 0"
    using assms(5) f v(3)
    by (auto simp: knownNonZeroF_def representative_def matches_patValue bindE_Inr_iff)
  show False using constant_class [OF r v(1,3) e(1,2)] e(3) v(2) by simp
qed

text \<open>C11: When \<open>knownNonZero\<close> is true the class is not zero, whatever the values.\<close>

theorem knownNonZero_sound:
  assumes "reachable cs" and "c < length (m_representatives cs)" and "env_ok env" and "models env cs val"
    and "knownNonZeroF n cs c = Some (Inr (True, cs'))"
  shows "val c \<noteq> 0"
  by (rule knownNonZero_value [OF assms])

lemma sub_class:
  assumes "reachable cs" and "a < length (m_representatives cs)" and "b < length (m_representatives cs)"
    and "env_ok env" and "models env cs val"
    and f: "findF n cs (opItem i_SUB) [a, b] 0 = Some (Inr (i, cs1))"
  obtains val' where "reachable cs1" "models env cs1 val'" "val' i = val a - val b"
    "i < length (m_representatives cs1)"
proof -
  have ok: "args_ok cs (opItem i_SUB) [a, b]" using assms(2,3) by (simp add: args_ok_arith)
  obtain val' where v: "models env cs1 val'" "i < length (m_representatives cs1)"
    "opaque_item (opItem i_SUB) \<or> val' i = item_sem env (opItem i_SUB) (map val [a, b]) 0"
    using find_value [OF assms(1) ok f assms(4,5)] by metis
  then have "val' i = val a - val b" using arith_items by simp
  then show thesis using that v(1,2) reachable.found [OF assms(1) ok f] by blast
qed

text \<open>C10: When \<open>knownToBeDifferent\<close> is true the two classes have different values.\<close>

theorem knownToBeDifferent_sound:
  assumes "reachable cs" and "a < length (m_representatives cs)" and "b < length (m_representatives cs)"
    and "env_ok env" and "models env cs val"
    and "knownToBeDifferentF n cs a b = Some (Inr (True, cs'))"
  shows "val a \<noteq> val b"
proof -
  obtain i cs1 where f: "findF n cs (opItem i_SUB) [a, b] 0 = Some (Inr (i, cs1))"
    and nz: "knownNonZeroF n cs1 i = Some (Inr (True, cs'))"
    using assms(6) by (auto simp: knownToBeDifferentF_def split: option.splits sum.splits)
  obtain val' where v: "reachable cs1" "models env cs1 val'" "val' i = val a - val b"
    "i < length (m_representatives cs1)"
    using sub_class [OF assms(1-5) f] .
  show ?thesis using knownNonZero_value [OF v(1,4) assms(4) v(2) nz] v(3) by simp
qed

lemma word_window:
  fixes x y j k :: u256
  assumes "x + j = y + k" and "j < 32" and "k < 32"
  shows "\<not> x - y + 31 > 62"
proof -
  have "x - y = k - j" using assms(1) by (simp add: algebra_simps)
  then have eq: "x - y + 31 = k + (31 - j)" by (simp add: algebra_simps)
  have jk: "unat j < 32" "unat k < 32" using assms(2,3) by (simp_all add: word_less_nat_alt)
  have "j \<le> 31" using jk by (simp add: word_le_nat_alt)
  then have "unat (31 - j) = 31 - unat j" by (simp add: unat_sub)
  then have "unat (k + (31 - j)) \<le> unat k + (31 - unat j)"
    by (simp add: unat_word_ariths(1))
  also have "\<dots> \<le> 62" using jk by simp
  finally show ?thesis unfolding eq by (simp add: word_less_nat_alt)
qed

text \<open>C9: When \<open>knownToBeDifferentBy32\<close> is true, the 32 bytes from the one value on and the 32
  bytes from the other do not overlap, with addresses that wrap.\<close>

theorem knownToBeDifferentBy32_sound:
  assumes "reachable cs" and "a < length (m_representatives cs)" and "b < length (m_representatives cs)"
    and "env_ok env" and "models env cs val"
    and "knownToBeDifferentBy32F n cs a b = Some (Inr (True, cs'))"
    and "j < 32" and "k < 32"
  shows "val a + j \<noteq> val b + k"
proof -
  obtain i cs1 where f: "findF n cs (opItem i_SUB) [a, b] 0 = Some (Inr (i, cs1))"
    using assms(6) by (auto simp: knownToBeDifferentBy32F_def bindE_Inr_iff)
  obtain val' where v: "reachable cs1" "models env cs1 val'" "val' i = val a - val b"
    "i < length (m_representatives cs1)"
    using sub_class [OF assms(1-5) f] .
  have "knownConstant cs1 i = Inr (Some (val' i)) \<and> val' i + 31 > 62"
    using assms(6) f knownConstant_eq [OF reachable_sane [OF v(1)] v(4)]
      push_value [OF reachable_sane [OF v(1)] v(2,4)]
    by (auto simp: knownToBeDifferentBy32F_def split: if_splits)
  then show ?thesis using word_window [OF _ assms(7,8)] v(3) by auto
qed

subsection \<open>The rules\<close>

text \<open>C6: Every rule of the list keeps the value of its pattern, for all values of the constants
  it matches and of the operands, except one (a second rule for constants under MULMOD).\<close>

theorem simplificationRuleList_sound:
  "list_all (\<lambda>r. rule_sound r \<or> r = unsoundRule) (simplificationRuleList patA patB patC patX patY)"
  using allRules_sound by (simp add: allRules_def)


text \<open>C7: The rule that \<open>findFirstMatch\<close> chooses always is one that keeps the value: the order of
  the table hides the rule that does not.\<close>

theorem findFirstMatch_sound:
  assumes "reachable cs" and "expr_wf (length (m_representatives cs)) e"
    and "bindE makeRules (\<lambda>rules. findFirstMatch rules e cs) = Inr (Some (r, mg))"
  shows "rule_sound r"
proof -
  note sane = reachable_sane [OF assms(1)]
  obtain i where "firstMatch (ruleTable i) e cs = Inr (Some (r, mg))"
    using assms(3) by (auto simp: makeRules_table findFirstMatch_def bindE_Inr_iff)
  then obtain pre post where r: "ruleTable i = pre @ r # post" "applicable cs e pre r mg"
    using firstMatch_table [OF sane assms(2), of i] by auto
  show ?thesis
  proof (cases "r = unsoundRule")
    case True
    have "fits cs (groupIds mg) (r_pattern r) e" using r(2) agrees_groupIds by (auto simp: applicable_def)
    then have "r_pattern r \<notin> r_pattern ` set pre" using r(2) by (auto simp: applicable_def)
    then show ?thesis using ruleTable_unsound r(1) True by blast
  next
    case False
    then show ?thesis using allRules_sound ruleTable_in [OF r(1)] by (auto simp: list_all_iff)
  qed
qed

subsection \<open>Instances\<close>

text \<open>A container with the classes of the constants 2 and 100.\<close>

definition exampleClasses :: ExpressionClasses where
  "exampleClasses =
     (let e = \<lparr>e_id = 0, e_item = pushItem 2, e_arguments = [], e_sequenceNumber = 0\<rparr>;
          f = \<lparr>e_id = 1, e_item = pushItem 100, e_arguments = [], e_sequenceNumber = 0\<rparr>
      in \<lparr>m_representatives = [e, f], m_expressions = [e, f]\<rparr>)"

definition exampleEnv :: environment where
  "exampleEnv = \<lparr>env_op = (\<lambda>i as s. 0), env_push = (\<lambda>t v. 0)\<rparr>"

abbreviation exampleValues :: "Id \<Rightarrow> u256" where
  "exampleValues \<equiv> (\<lambda>i. if i = 0 then 2 else 100)"

lemma args_ok_push: "args_ok cs (pushItem v) []"
  by (simp add: args_ok_other itemPush_def itemOfType_def)

lemma item_eq_push: "item_eq (pushItem a) (pushItem b) \<longleftrightarrow> a = b"
  by (simp add: item_eq_def itemPush_def itemOfType_def)

lemma findF_push:
  "findF (Suc n) cs (pushItem v) [] s =
     (let e = \<lparr>e_id = noId, e_item = pushItem v, e_arguments = [], e_sequenceNumber = s\<rparr> in
      case setFind (m_expressions cs) e of
        Some f \<Rightarrow> Some (Inr (e_id f, cs))
      | None \<Rightarrow> Some (Inr (enterExpression cs e None)))"
  by (simp add: simplifiedTemplate_def makeRules_table mkExpression_def isDeterministic_def
      isCommutativeOperation_def itemPush_def itemOfType_def Let_def split: option.splits)

lemma example_reachable: "reachable exampleClasses"
proof (rule reachable.found [where n = 1 and s = 0 and i = 1])
  show "reachable \<lparr>m_representatives = [\<lparr>e_id = 0, e_item = pushItem 2, e_arguments = [], e_sequenceNumber = 0\<rparr>],
      m_expressions = [\<lparr>e_id = 0, e_item = pushItem 2, e_arguments = [], e_sequenceNumber = 0\<rparr>]\<rparr>"
  proof (rule reachable.found [where n = 1 and s = 0 and i = 0])
    show "reachable emptyClasses" by (rule reachable.empty)
    show "args_ok emptyClasses (pushItem 2) []" by (simp add: args_ok_push)
    show "findF 1 emptyClasses (pushItem 2) [] 0 = Some (Inr (0,
        \<lparr>m_representatives = [\<lparr>e_id = 0, e_item = pushItem 2, e_arguments = [], e_sequenceNumber = 0\<rparr>],
         m_expressions = [\<lparr>e_id = 0, e_item = pushItem 2, e_arguments = [], e_sequenceNumber = 0\<rparr>]\<rparr>))"
      by (simp add: findF_push enterExpression_def Let_def emptyClasses_def setFind_def setInsert_def del: findF.simps)
  qed
next
  show "args_ok \<lparr>m_representatives = [\<lparr>e_id = 0, e_item = pushItem 2, e_arguments = [], e_sequenceNumber = 0\<rparr>],
      m_expressions = [\<lparr>e_id = 0, e_item = pushItem 2, e_arguments = [], e_sequenceNumber = 0\<rparr>]\<rparr> (pushItem 100) []"
    by (simp add: args_ok_push)
qed (simp add: findF_push enterExpression_def Let_def exampleClasses_def setFind_def setInsert_def expression_equiv_iff
  item_eq_push del: findF.simps)

lemma example_models: "models exampleEnv exampleClasses exampleValues"
  by (simp add: models_def exampleClasses_def exampleEnv_def expr_holds_def expr_sem_def
      opaque_item_def item_sem_def isDeterministic_def Let_def itemPush_def itemOfType_def)

lemma example_env: "env_ok exampleEnv"
  by (simp add: env_ok_def exampleEnv_def addresses_fit_def)

text \<open>The first rule of an opcode for constants is applied to constants.\<close>

lemma ruleTable_SUB:
  obtains rest where "ruleTable i_SUB =
    mkRule (patOp i_SUB [patA, patB]) (withD2 patA patB (\<lambda>a b. patValue (a - b))) False # rest"
  by (simp add: ruleTable_def allRules_def simplificationRuleList_def simplificationRuleListPart1_def
      constantRules_def mkRule_def patOp_def)

lemma ruleTable_ISZERO:
  obtains rest where "ruleTable i_ISZERO =
    mkRule (patOp i_ISZERO [patA]) (withD patA (\<lambda>a. patValue (if a = 0 then 1 else 0))) False # rest"
  by (simp add: ruleTable_def allRules_def simplificationRuleList_def simplificationRuleListPart1_def
      constantRules_def mkRule_def patOp_def)

lemma simplified_first:
  assumes "ruleTable (m_instruction (e_item e)) = r # rest" and "m_type (e_item e) = Operation"
    and "isDeterministic (e_item e)" and "matches (r_pattern r) e cs Map.empty = Inr (True, mg)"
  shows "simplifiedTemplate cs e =
    bindE (r_action r mg) (\<lambda>q. bindE (toTemplate q mg (m_location (e_item e))) (\<lambda>t. Inr (Some t)))"
  using assms by (simp add: simplifiedTemplate_def makeRules_table findFirstMatch_def instructionOf_def)

lemma item_facts:
  "m_type (pushItem v) = Push" "m_data (pushItem v) = v" "m_location (pushItem v) = noLocation"
  "\<not> isCommutativeOperation (opItem i_SUB)" "\<not> isCommutativeOperation (opItem i_ISZERO)"
  "\<not> item_eq (opItem i) (pushItem v)" "\<not> item_eq (pushItem v) (opItem i)"
  "item_eq (opItem i) (opItem j) \<longleftrightarrow> i = j"
  "dataOf (pushItem v) = Inr v" "itemOfType Push v noLocation = pushItem v"
  "isDeterministic (opItem i_SUB)" "isDeterministic (opItem i_ISZERO)"
  by (auto simp: isCommutativeOperation_iff item_eq_def itemPush_def itemOfType_def itemOp_def isDeterministic_def
      dataOf_def)

lemma simplified_SUB:
  assumes "a < length (m_representatives cs)" and "b < length (m_representatives cs)"
    and "e_item (m_representatives cs ! a) = pushItem x" and "e_item (m_representatives cs ! b) = pushItem y"
  shows "simplifiedTemplate cs (mkExpression (opItem i_SUB) [a, b] s) =
    Inr (Some (ExpressionTemplate False noId (pushItem (x - y)) []))"
proof -
  obtain rest where rules: "ruleTable i_SUB =
      mkRule (patOp i_SUB [patA, patB]) (withD2 patA patB (\<lambda>a b. patValue (a - b))) False # rest"
    by (rule ruleTable_SUB)
  have m: "matches (r_pattern (mkRule (patOp i_SUB [patA, patB]) f g)) (mkExpression (opItem i_SUB) [a, b] s) cs
      Map.empty = Inr (True, [1 \<mapsto> m_representatives cs ! a, 2 \<mapsto> m_representatives cs ! b])" for f g
    using assms
    by (simp add: mkRule_def mkExpression_def patOp_def patA_def patB_def patType_def matchesBaseItem_def
        matchGroupStep_def representative_def item_facts Let_def)
  show ?thesis
    by (subst simplified_first [OF _ _ _ m, of _ _ rest])
      (simp_all add: rules item_facts, simp add: assms mkRule_def withD2_def patD_def matchGroupValue_def
        Let_def patValue_def toAssemblyItem_def patData_def item_facts)
qed

lemma simplified_ISZERO:
  assumes "a < length (m_representatives cs)" and "e_item (m_representatives cs ! a) = pushItem x"
  shows "simplifiedTemplate cs (mkExpression (opItem i_ISZERO) [a] s) =
    Inr (Some (ExpressionTemplate False noId (pushItem (if x = 0 then 1 else 0)) []))"
proof -
  obtain rest where rules: "ruleTable i_ISZERO =
      mkRule (patOp i_ISZERO [patA]) (withD patA (\<lambda>a. patValue (if a = 0 then 1 else 0))) False # rest"
    by (rule ruleTable_ISZERO)
  have m: "matches (r_pattern (mkRule (patOp i_ISZERO [patA]) f g)) (mkExpression (opItem i_ISZERO) [a] s) cs
      Map.empty = Inr (True, [1 \<mapsto> m_representatives cs ! a])" for f g
    using assms
    by (simp add: mkRule_def mkExpression_def patOp_def patA_def patType_def matchesBaseItem_def
        matchGroupStep_def representative_def item_facts Let_def)
  show ?thesis
    by (subst simplified_first [OF _ _ _ m, of _ _ rest])
      (simp_all add: rules item_facts, simp add: assms mkRule_def withD_def patD_def matchGroupValue_def
        Let_def patValue_def toAssemblyItem_def patData_def item_facts)
qed

lemma find_append: "find P (xs @ ys) = (case find P xs of None \<Rightarrow> find P ys | Some x \<Rightarrow> Some x)"
  by (induction xs) auto

text \<open>An operation that simplifies to a constant that has no class yet.\<close>

lemma find_new_constant:
  assumes "simplifiedTemplate cs (mkExpression (opItem i) args 0) =
      Inr (Some (ExpressionTemplate False noId (pushItem v) []))"
    and "isDeterministic (opItem i)" and "\<not> isCommutativeOperation (opItem i)"
    and "list_all (\<lambda>e. \<not> item_eq (pushItem v) (e_item e) \<and> \<not> item_eq (opItem i) (e_item e)) (m_expressions cs)"
  shows "findF 2 cs (opItem i) args 0 = Some (Inr (length (m_representatives cs),
     \<lparr>m_representatives = m_representatives cs @
        [\<lparr>e_id = length (m_representatives cs), e_item = pushItem v, e_arguments = [], e_sequenceNumber = 0\<rparr>],
      m_expressions = m_expressions cs @
        [\<lparr>e_id = length (m_representatives cs), e_item = pushItem v, e_arguments = [], e_sequenceNumber = 0\<rparr>,
         \<lparr>e_id = length (m_representatives cs), e_item = opItem i, e_arguments = args, e_sequenceNumber = 0\<rparr>]\<rparr>))"
proof -
  have n: "setFind (m_expressions cs) e = None"
    if "e_item e = pushItem v \<or> e_item e = opItem i" for e
    using assms(4) that by (auto simp: setFind_def find_None_iff list_all_iff expression_equiv_iff)
  have f: "find (expression_equiv e) (m_expressions cs) = None" if "e_item e = pushItem v \<or> e_item e = opItem i" for e
    using n [OF that] by (simp add: setFind_def)
  have a: "findF (Suc 0) cs (pushItem v) [] 0 =
      Some (Inr (enterExpression cs (mkExpression (pushItem v) [] 0) None))"
    using n by (simp add: findF_push Let_def del: findF.simps)
      (simp add: mkExpression_def isCommutativeOperation_def itemPush_def itemOfType_def)
  show ?thesis
    unfolding numeral_2_eq_2 findF.simps(2)
    using assms(1-3) n a f
    by (simp add: Let_def enterExpression_def del: findF.simps)
      (simp add: setInsert_def setFind_def mkExpression_def item_facts find_append expression_equiv_iff)
qed

definition exampleDifference :: ExpressionClasses where
  "exampleDifference =
     (let e = \<lparr>e_id = 2, e_item = pushItem 98, e_arguments = [], e_sequenceNumber = 0\<rparr>;
          f = \<lparr>e_id = 2, e_item = opItem i_SUB, e_arguments = [1, 0], e_sequenceNumber = 0\<rparr>
      in \<lparr>m_representatives = m_representatives exampleClasses @ [e],
          m_expressions = m_expressions exampleClasses @ [e, f]\<rparr>)"

lemma example_SUB:
  "findF 2 exampleClasses (opItem i_SUB) [1, 0] 0 = Some (Inr (2, exampleDifference))"
  using find_new_constant [OF simplified_SUB [where cs = exampleClasses and a = 1 and b = 0 and x = 100 and y = 2]]
  by (simp add: exampleDifference_def exampleClasses_def Let_def item_facts item_eq_push)

definition exampleNonZero :: ExpressionClasses where
  "exampleNonZero =
     (let e = \<lparr>e_id = 2, e_item = pushItem 0, e_arguments = [], e_sequenceNumber = 0\<rparr>;
          f = \<lparr>e_id = 2, e_item = opItem i_ISZERO, e_arguments = [0], e_sequenceNumber = 0\<rparr>
      in \<lparr>m_representatives = m_representatives exampleClasses @ [e],
          m_expressions = m_expressions exampleClasses @ [e, f]\<rparr>)"

lemma example_ISZERO:
  "findF 2 exampleClasses (opItem i_ISZERO) [0] 0 = Some (Inr (2, exampleNonZero))"
  using find_new_constant [OF simplified_ISZERO [where cs = exampleClasses and a = 0 and x = 2]]
  by (simp add: exampleNonZero_def exampleClasses_def Let_def item_facts item_eq_push)

lemma find_returns_witness:
  "\<exists>n\<^sub>0 i cs'. (\<forall>n > n\<^sub>0. findF n exampleClasses (opItem i_SUB) [1, 0] 0 = Some (Inr (i, cs'))) \<and>
    i < length (m_representatives cs')"
  by (rule find_returns [OF example_reachable]) (simp add: args_ok_arith exampleClasses_def Let_def)

lemma find_sound_witness:
  "\<exists>val'. (\<forall>j < length (m_representatives exampleClasses). val' j = exampleValues j) \<and>
    models exampleEnv exampleDifference val' \<and>
    (opaque_item (opItem i_SUB) \<or>
     val' 2 = item_sem exampleEnv (opItem i_SUB) (map exampleValues [1, 0]) 0)"
  by (rule find_sound [OF example_reachable _ example_SUB example_env example_models])
    (simp add: args_ok_arith exampleClasses_def Let_def)

lemma example_length: "length (m_representatives exampleClasses) = 2"
  by (simp add: exampleClasses_def Let_def)

lemma knownConstant_sound_witness:
  "\<exists>v. knownConstant exampleClasses 0 = Inr v \<and> (v = None \<or> v = Some (exampleValues 0))"
  by (rule knownConstant_sound [OF example_reachable _ example_models]) (simp add: example_length)

definition zeroClass :: ExpressionClasses where
  "zeroClass =
     (let e = \<lparr>e_id = 0, e_item = pushItem 0, e_arguments = [], e_sequenceNumber = 0\<rparr>
      in \<lparr>m_representatives = [e], m_expressions = [e]\<rparr>)"

lemma knownZero_sound_witness: "(\<lambda>i. 0 :: u256) (0 :: Id) = 0"
proof (rule knownZero_sound)
  show "reachable zeroClass"
  proof (rule reachable.found [where n = 1 and s = 0 and i = 0])
    show "reachable emptyClasses" by (rule reachable.empty)
    show "args_ok emptyClasses (pushItem 0) []" by (simp add: args_ok_push)
    show "findF 1 emptyClasses (pushItem 0) [] 0 = Some (Inr (0, zeroClass))"
      by (simp add: findF_push enterExpression_def zeroClass_def Let_def emptyClasses_def setFind_def
          setInsert_def del: findF.simps)
  qed
  show "knownZero zeroClass 0 = Inr True"
    by (simp add: knownZero_def representative_def zeroClass_def Let_def matches_patValue item_facts)
  show "models exampleEnv zeroClass (\<lambda>i. 0)"
    by (simp add: models_def zeroClass_def exampleEnv_def expr_holds_def expr_sem_def
      opaque_item_def item_sem_def isDeterministic_def Let_def itemPush_def itemOfType_def)
qed

lemma knownNonZero_sound_witness: "exampleValues 0 \<noteq> 0"
proof (rule knownNonZero_sound [OF example_reachable _ example_env example_models])
  show "0 < length (m_representatives exampleClasses)" by (simp add: example_length)
  show "knownNonZeroF 2 exampleClasses 0 = Some (Inr (True, exampleNonZero))"
    by (simp add: knownNonZeroF_def example_ISZERO representative_def exampleNonZero_def Let_def
        example_length nth_append matches_patValue item_facts)
qed

lemma exampleDifference_reachable: "reachable exampleDifference"
  by (rule reachable.found [OF example_reachable _ example_SUB])
    (simp add: args_ok_arith exampleClasses_def Let_def)

text \<open>The difference of the two constants, 98, is not zero.\<close>

definition exampleDifferent :: ExpressionClasses where
  "exampleDifferent =
     (let e = \<lparr>e_id = 3, e_item = pushItem 0, e_arguments = [], e_sequenceNumber = 0\<rparr>;
          f = \<lparr>e_id = 3, e_item = opItem i_ISZERO, e_arguments = [2], e_sequenceNumber = 0\<rparr>
      in \<lparr>m_representatives = m_representatives exampleDifference @ [e],
          m_expressions = m_expressions exampleDifference @ [e, f]\<rparr>)"

lemma exampleDifference_ISZERO:
  "findF 2 exampleDifference (opItem i_ISZERO) [2] 0 = Some (Inr (3, exampleDifferent))"
  using find_new_constant [OF simplified_ISZERO [where cs = exampleDifference and a = 2 and x = 98]]
  by (simp add: exampleDifferent_def exampleDifference_def exampleClasses_def Let_def item_facts item_eq_push)

lemma knownToBeDifferent_sound_witness: "exampleValues 1 \<noteq> exampleValues 0"
proof (rule knownToBeDifferent_sound [OF example_reachable _ _ example_env example_models])
  show "knownToBeDifferentF 2 exampleClasses 1 0 = Some (Inr (True, exampleDifferent))"
    unfolding knownToBeDifferentF_def example_SUB knownNonZeroF_def
    by (simp add: exampleDifference_ISZERO,
        simp add: representative_def exampleDifferent_def exampleDifference_def Let_def
        example_length nth_append matches_patValue item_facts)
qed (simp_all add: example_length)

lemma knownToBeDifferentBy32_sound_witness: "exampleValues 1 + 31 \<noteq> exampleValues 0 + 31"
proof (rule knownToBeDifferentBy32_sound [OF example_reachable _ _ example_env example_models])
  show "knownToBeDifferentBy32F 2 exampleClasses 1 0 = Some (Inr (True, exampleDifference))"
    using knownConstant_eq [OF reachable_sane [OF exampleDifference_reachable], of 2]
    unfolding knownToBeDifferentBy32F_def example_SUB
    by (simp, simp add: exampleDifference_def Let_def example_length nth_append item_facts)
qed (simp_all add: example_length)

lemma findFirstMatch_sound_witness:
  "rule_sound (mkRule (patOp i_SUB [patA, patB]) (withD2 patA patB (\<lambda>a b. patValue (a - b))) False)"
proof (rule findFirstMatch_sound [OF example_reachable])
  let ?e = "mkExpression (opItem i_SUB) [1, 0] 0"
  show "expr_wf (length (m_representatives exampleClasses)) ?e"
    by (rule mkExpression_facts) (simp add: args_ok_arith example_length)
  obtain rest where rules: "ruleTable i_SUB =
      mkRule (patOp i_SUB [patA, patB]) (withD2 patA patB (\<lambda>a b. patValue (a - b))) False # rest"
    by (rule ruleTable_SUB)
  show "bindE makeRules (\<lambda>rules. findFirstMatch rules ?e exampleClasses) =
      Inr (Some (mkRule (patOp i_SUB [patA, patB]) (withD2 patA patB (\<lambda>a b. patValue (a - b))) False,
        [1 \<mapsto> m_representatives exampleClasses ! 1, 2 \<mapsto> m_representatives exampleClasses ! 0]))"
    by (simp add: makeRules_table findFirstMatch_def instructionOf_def rules, 
        simp add: mkRule_def mkExpression_def patOp_def patA_def patB_def patType_def matchesBaseItem_def
        matchGroupStep_def representative_def exampleClasses_def item_facts Let_def)
qed

end
