(* ===== verification/OrderedMap.thy ===== *)
theory OrderedMap
  imports Prelude
begin

section \<open>\<open>std::map\<close> as a list sorted by its keys\<close>

text \<open>
  Where the code iterates over a map, the order of the keys is part of what it computes; such
  maps are lists of pairs with strictly increasing keys. \<open>map_of\<close> is the lookup; the two
  updates are \<open>m[k] = v\<close> and \<open>insert\<close>, which keeps an entry that is there.
\<close>

fun omap_put :: "'k::linorder \<Rightarrow> 'v \<Rightarrow> ('k \<times> 'v) list \<Rightarrow> ('k \<times> 'v) list" where
  "omap_put k v [] = [(k, v)]"
| "omap_put k v ((k', v') # m) =
     (if k < k' then (k, v) # (k', v') # m
      else if k = k' then (k, v) # m
      else (k', v') # omap_put k v m)"

definition omap_insert :: "'k::linorder \<Rightarrow> 'v \<Rightarrow> ('k \<times> 'v) list \<Rightarrow> ('k \<times> 'v) list" where
  "omap_insert k v m = (if map_of m k = None then omap_put k v m else m)"

definition omap_ok :: "('k::linorder \<times> 'v) list \<Rightarrow> bool" where
  "omap_ok m \<longleftrightarrow> sorted_wrt (<) (map fst m)"

lemma omap_ok_simps [simp]:
  "omap_ok []"
  "omap_ok (p # m) \<longleftrightarrow> (\<forall>q \<in> set m. fst p < fst q) \<and> omap_ok m"
  by (simp_all add: omap_ok_def)

lemma omap_ok_append:
  "omap_ok (m @ m') \<longleftrightarrow> omap_ok m \<and> omap_ok m' \<and> (\<forall>p \<in> set m. \<forall>q \<in> set m'. fst p < fst q)"
  by (auto simp: omap_ok_def sorted_wrt_append)

lemma omap_ok_distinct: "omap_ok m \<Longrightarrow> distinct (map fst m)"
  by (simp add: omap_ok_def strict_sorted_iff)

lemma set_omap_put: "set (omap_put k v m) \<subseteq> insert (k, v) (set m)"
  by (induction k v m rule: omap_put.induct) auto

lemma keys_omap_put [simp]: "fst ` set (omap_put k v m) = insert k (fst ` set m)"
  by (induction k v m rule: omap_put.induct) auto

lemma omap_ok_put: "omap_ok m \<Longrightarrow> omap_ok (omap_put k v m)"
  by (induction k v m rule: omap_put.induct) (use set_omap_put in fastforce)+

lemma map_of_omap_put [simp]: "omap_ok m \<Longrightarrow> map_of (omap_put k v m) = (map_of m)(k \<mapsto> v)"
proof (induction k v m rule: omap_put.induct)
  case (2 k v k' v' m)
  then show ?case
    by (auto simp: fun_eq_iff)
qed auto

lemma omap_ok_insert: "omap_ok m \<Longrightarrow> omap_ok (omap_insert k v m)"
  by (simp add: omap_insert_def omap_ok_put)

lemma map_of_omap_insert:
  "omap_ok m \<Longrightarrow> map_of (omap_insert k v m) = (if map_of m k = None then (map_of m)(k \<mapsto> v) else map_of m)"
  by (simp add: omap_insert_def)

lemma omap_put_last: "(\<And>p. p \<in> set m \<Longrightarrow> fst p < k) \<Longrightarrow> omap_put k v m = m @ [(k, v)]"
  by (induction k v m rule: omap_put.induct) fastforce+

text \<open>Entries put in increasing order after all others are appended.\<close>

lemma omap_put_fold:
  "omap_ok (m @ ps) \<Longrightarrow> fold (\<lambda>p. omap_put (fst p) (snd p)) ps m = m @ ps"
proof (induction ps arbitrary: m)
  case (Cons p ps)
  have "omap_put (fst p) (snd p) m = m @ [p]"
    using Cons.prems by (subst omap_put_last) (auto simp: omap_ok_append)
  then show ?case using Cons.IH [of "m @ [p]"] Cons.prems by simp
qed simp

end
