(* ===== verification/Keccak256.thy ===== *)
theory Keccak256
  imports CommonData
begin

section \<open>Keccak-256 (libdevcore/Keccak256)\<close>

text \<open>
  The permutation as the loops over the 25 lanes, with the tables of the file, and the sponge
  over the 200 bytes of the state. The cast of the byte array to lanes is that of a
  little-endian machine. The lemmas show that the loops are the step mappings of FIPS 202,
  and that the sponge absorbs the message with the padding of Keccak.
\<close>

type_synonym lanes = "u64 list"

subsection \<open>Tables\<close>

definition rho :: "nat list" where
  "rho = [1, 3, 6, 10, 15, 21, 28, 36, 45, 55, 2, 14, 27, 41, 56, 8, 25, 43, 62, 18, 39, 61, 20, 44]"

definition piLane :: "nat list" where
  "piLane = [10, 7, 11, 17, 18, 3, 5, 16, 8, 21, 24, 4, 15, 23, 19, 13, 12, 2, 20, 14, 22, 9, 6, 1]"

definition RC :: lanes where
  "RC = [1, 0x8082, 0x800000000000808a, 0x8000000080008000,
     0x808b, 0x80000001, 0x8000000080008081, 0x8000000000008009,
     0x8a, 0x88, 0x80008009, 0x8000000a,
     0x8000808b, 0x800000000000008b, 0x8000000000008089, 0x8000000000008003,
     0x8000000000008002, 0x8000000000000080, 0x800a, 0x800000008000000a,
     0x8000000080008081, 0x8000000000008080, 0x80000001, 0x8000000080008008]"

definition rol :: "u64 \<Rightarrow> nat \<Rightarrow> u64" where
  "rol x s = push_bit s x OR drop_bit (64 - s) x"

subsection \<open>The permutation\<close>

abbreviation for5 :: "nat list" where "for5 \<equiv> [0, 1, 2, 3, 4]"
abbreviation for5by5 :: "nat list" where "for5by5 \<equiv> [0, 5, 10, 15, 20]"

definition theta :: "lanes \<Rightarrow> lanes" where
  "theta a =
     (let b = map (\<lambda>x. fold (\<lambda>y s. s XOR a ! (x + y)) for5by5 0) for5
      in fold (\<lambda>x. fold (\<lambda>y a. a[y + x := a ! (y + x) XOR (b ! ((x + 4) mod 5) XOR rol (b ! ((x + 1) mod 5)) 1)])
           for5by5) for5 a)"

definition rhoPi :: "lanes \<Rightarrow> lanes" where
  "rhoPi a =
     snd (fold (\<lambda>x (t, a). (a ! (piLane ! x), a[piLane ! x := rol t (rho ! x)])) [0..<24] (a ! 1, a))"

definition chi :: "lanes \<Rightarrow> lanes" where
  "chi a =
     fold (\<lambda>y a. let b = map (\<lambda>x. a ! (y + x)) for5
                 in fold (\<lambda>x a. a[y + x := b ! x XOR (NOT (b ! ((x + 1) mod 5)) AND b ! ((x + 2) mod 5))]) for5 a)
       for5by5 a"

definition iota :: "nat \<Rightarrow> lanes \<Rightarrow> lanes" where
  "iota i a = a[0 := a ! 0 XOR RC ! i]"

definition keccakf :: "lanes \<Rightarrow> lanes" where
  "keccakf a = fold (\<lambda>i a. iota i (chi (rhoPi (theta a)))) [0..<24] a"

subsection \<open>The sponge\<close>

text \<open>The lanes of the bytes of the state, and back.\<close>

definition toLanes :: "bytes \<Rightarrow> lanes" where
  "toLanes a = map (\<lambda>i. fromBigEndian (rev (take 8 (drop (8 * i) a)))) [0..<25]"

definition fromLanes :: "lanes \<Rightarrow> bytes" where
  "fromLanes l = concat (map (\<lambda>w. rev (toBigEndian 8 w)) l)"

definition permute :: "bytes \<Rightarrow> bytes" where
  "permute a = fromLanes (keccakf (toLanes a))"

definition xorin :: "bytes \<Rightarrow> bytes \<Rightarrow> nat \<Rightarrow> bytes" where
  "xorin dst src len = fold (\<lambda>i dst. dst[i := dst ! i XOR src ! i]) [0..<len] dst"

function absorb :: "bytes \<Rightarrow> bytes \<Rightarrow> nat \<Rightarrow> bytes \<times> bytes" where
  "absorb a input rate =
     (if length input < rate \<or> rate = 0 then (a, input)
      else absorb (permute (xorin a input rate)) (drop rate input) rate)"
  by pat_completeness auto
termination by (relation "measure (\<lambda>(a, input, rate). length input)") auto

declare absorb.simps [simp del]

function squeeze :: "bytes \<Rightarrow> nat \<Rightarrow> nat \<Rightarrow> bytes" where
  "squeeze a outlen rate =
     (if outlen < rate \<or> rate = 0 then take outlen a
      else take rate a @ squeeze (permute a) (outlen - rate) rate)"
  by pat_completeness auto
termination by (relation "measure (\<lambda>(a, outlen, rate). outlen)") auto

declare squeeze.simps [simp del]

definition hash :: "nat \<Rightarrow> bytes \<Rightarrow> nat \<Rightarrow> u8 \<Rightarrow> bytes" where
  "hash outlen input rate delim =
     (case absorb (replicate 200 0) input rate of (a, rest) \<Rightarrow>
        let a = a[length rest := a ! length rest XOR delim];
            a = a[rate - 1 := a ! (rate - 1) XOR 0x80];
            a = permute (xorin a rest (length rest))
        in squeeze a outlen rate)"

definition keccak256_bytes :: "bytes \<Rightarrow> bytes" where
  "keccak256_bytes input = hash 32 input (200 - 256 div 4) 1"

definition keccak256 :: "bytes \<Rightarrow> u256" where
  "keccak256 input = fromBigEndian (keccak256_bytes input)"

subsection \<open>The step mappings of FIPS 202\<close>

text \<open>Lane \<open>(x, y)\<close> of a state is at index \<open>x + 5 y\<close>.\<close>

definition lane :: "lanes \<Rightarrow> nat \<Rightarrow> nat \<Rightarrow> u64" where
  "lane a x y = a ! (x mod 5 + 5 * (y mod 5))"

definition mkLanes :: "(nat \<Rightarrow> nat \<Rightarrow> u64) \<Rightarrow> lanes" where
  "mkLanes f = map (\<lambda>k. f (k mod 5) (k div 5)) [0..<25]"

definition column :: "lanes \<Rightarrow> nat \<Rightarrow> u64" where
  "column a x = lane a x 0 XOR lane a x 1 XOR lane a x 2 XOR lane a x 3 XOR lane a x 4"

definition fipsTheta :: "lanes \<Rightarrow> lanes" where
  "fipsTheta a = mkLanes (\<lambda>x y. lane a x y XOR column a (x + 4) XOR word_rotl 1 (column a (x + 1)))"

definition fipsRho :: "lanes \<Rightarrow> lanes" where
  "fipsRho a =
     snd (fold (\<lambda>t ((x, y), b). ((y, (2 * x + 3 * y) mod 5),
            b[x + 5 * y := word_rotl ((t + 1) * (t + 2) div 2 mod 64) (lane a x y)])) [0..<24] ((1, 0), a))"

definition fipsPi :: "lanes \<Rightarrow> lanes" where
  "fipsPi a = mkLanes (\<lambda>x y. lane a (x + 3 * y) x)"

definition fipsChi :: "lanes \<Rightarrow> lanes" where
  "fipsChi a = mkLanes (\<lambda>x y. lane a x y XOR (NOT (lane a (x + 1) y) AND lane a (x + 2) y))"

text \<open>The round constants, from the shift register of FIPS 202.\<close>

fun lfsr :: "nat \<Rightarrow> bool list" where
  "lfsr 0 = [True, False, False, False, False, False, False, False]"
| "lfsr (Suc t) =
     (let r = False # lfsr t; z = r ! 8
      in take 8 (r[0 := r ! 0 \<noteq> z, 4 := r ! 4 \<noteq> z, 5 := r ! 5 \<noteq> z, 6 := r ! 6 \<noteq> z]))"

definition fipsRC :: "nat \<Rightarrow> u64" where
  "fipsRC i = fold (\<lambda>j c. if lfsr ((j + 7 * i) mod 255) ! 0 then set_bit (2 ^ j - 1) c else c) [0..<7] 0"

definition fipsIota :: "nat \<Rightarrow> lanes \<Rightarrow> lanes" where
  "fipsIota i a = mkLanes (\<lambda>x y. if x = 0 \<and> y = 0 then lane a 0 0 XOR fipsRC i else lane a x y)"

definition fipsPermutation :: "lanes \<Rightarrow> lanes" where
  "fipsPermutation a = fold (\<lambda>i a. fipsIota i (fipsChi (fipsPi (fipsRho (fipsTheta a))))) [0..<24] a"

text \<open>The sponge on a padded message, block by block.\<close>

definition xorBlock :: "bytes \<Rightarrow> bytes \<Rightarrow> bytes" where
  "xorBlock a b = map2 (XOR) a b @ drop (length b) a"

definition fipsBlock :: "bytes \<Rightarrow> bytes \<Rightarrow> bytes" where
  "fipsBlock a b = fromLanes (fipsPermutation (toLanes (xorBlock a b)))"

function fipsAbsorb :: "bytes \<Rightarrow> bytes \<Rightarrow> nat \<Rightarrow> bytes" where
  "fipsAbsorb a m rate =
     (if m = [] \<or> rate = 0 then a else fipsAbsorb (fipsBlock a (take rate m)) (drop rate m) rate)"
  by pat_completeness auto
termination by (relation "measure (\<lambda>(a, m, rate). length m)") auto

declare fipsAbsorb.simps [simp del]

definition keccakPad :: "nat \<Rightarrow> u8 \<Rightarrow> bytes \<Rightarrow> bytes" where
  "keccakPad rate delim m =
     (let q = rate - length m mod rate
      in m @ (if q = 1 then [delim XOR 0x80] else delim # replicate (q - 2) 0 @ [0x80]))"

subsection \<open>The loops are the step mappings\<close>

lemma rol_word_rotl:
  assumes "s < 64"
  shows "rol x s = word_rotl s x"
proof (rule bit_word_eqI)
  fix n assume n: "n < LENGTH(64)"
  have "n + 64 - s = 64 + n - s" by simp
  then show "bit (rol x s) n \<longleftrightarrow> bit (word_rotl s x) n"
    using assms n
    by (cases "s \<le> n")
      (auto simp: rol_def bit_simps mod_if le_mod_geq dest: bit_imp_le_length)
qed

lemma upt25: "[0..<25] = [0, 1, 2, 3, 4, 5, 6, 7, 8, 9, 10, 11, 12, 13, 14, 15, 16, 17, 18, 19, 20, 21, 22, 23, 24]"
  by code_simp

lemma upt24: "[0..<24] = [0, 1, 2, 3, 4, 5, 6, 7, 8, 9, 10, 11, 12, 13, 14, 15, 16, 17, 18, 19, 20, 21, 22, 23]"
  by code_simp

lemma lanes25:
  assumes "length (a :: lanes) = 25"
  shows "\<exists>a0 a1 a2 a3 a4 a5 a6 a7 a8 a9 a10 a11 a12 a13 a14 a15 a16 a17 a18 a19 a20 a21 a22 a23 a24.
    a = [a0, a1, a2, a3, a4, a5, a6, a7, a8, a9, a10, a11, a12, a13, a14, a15, a16, a17, a18, a19, a20,
         a21, a22, a23, a24]"
proof -
  have "a = map ((!) a) [0..<25]" using assms map_nth [of a] by simp
  then show ?thesis unfolding upt25 list.map by - (intro exI, assumption)
qed

lemma theta_fips:
  assumes "length a = 25"
  shows "theta a = fipsTheta a"
proof -
  from lanes25 [OF assms] show ?thesis
    by (elim exE)
      (simp add: theta_def fipsTheta_def mkLanes_def column_def lane_def Let_def upt25 rol_word_rotl ac_simps)
qed

lemma rhoPi_fips:
  assumes "length a = 25"
  shows "rhoPi a = fipsPi (fipsRho a)"
proof -
  from lanes25 [OF assms] show ?thesis
    by (elim exE)
      (simp add: rhoPi_def rho_def piLane_def fipsRho_def fipsPi_def mkLanes_def lane_def upt25 upt24 rol_word_rotl)
qed

lemma chi_fips:
  assumes "length a = 25"
  shows "chi a = fipsChi a"
proof -
  from lanes25 [OF assms] show ?thesis
    by (elim exE) (simp add: chi_def fipsChi_def mkLanes_def lane_def Let_def upt25)
qed

lemma RC_fips: "map fipsRC [0..<24] = RC"
  by code_simp

lemma iota_fips:
  assumes "length a = 25" and "i < 24"
  shows "iota i a = fipsIota i a"
proof -
  have "RC ! i = fipsRC i" using assms(2) by (simp flip: RC_fips)
  with lanes25 [OF assms(1)] show ?thesis
    by (elim exE) (simp add: iota_def fipsIota_def mkLanes_def lane_def upt25)
qed

lemma length_steps [simp]:
  "length (mkLanes f) = 25"
  "length (fipsTheta a) = 25" "length (fipsPi a) = 25" "length (fipsChi a) = 25" "length (fipsIota i a) = 25"
  by (simp_all add: mkLanes_def fipsTheta_def fipsPi_def fipsChi_def fipsIota_def)

lemma keccakf_fips:
  assumes "length a = 25"
  shows "keccakf a = fipsPermutation a"
proof -
  have "length a = 25 \<Longrightarrow> \<forall>i \<in> set is. i < 24 \<Longrightarrow>
      fold (\<lambda>i a. iota i (chi (rhoPi (theta a)))) is a =
      fold (\<lambda>i a. fipsIota i (fipsChi (fipsPi (fipsRho (fipsTheta a))))) is a" for a "is"
    by (induction "is" arbitrary: a) (simp_all add: theta_fips rhoPi_fips chi_fips iota_fips)
  then show ?thesis using assms by (simp add: keccakf_def fipsPermutation_def)
qed

subsection \<open>The sponge absorbs the padded message\<close>

lemma length_rounds:
  "length a = 25 \<Longrightarrow> length (fipsPermutation a) = 25"
proof -
  have "length a = 25 \<Longrightarrow>
      length (fold (\<lambda>i a. fipsIota i (fipsChi (fipsPi (fipsRho (fipsTheta a))))) is a) = 25" for a "is"
    by (induction "is" arbitrary: a) simp_all
  then show "length a = 25 \<Longrightarrow> length (fipsPermutation a) = 25" by (simp add: fipsPermutation_def)
qed

lemma length_toLanes [simp]: "length (toLanes a) = 25"
  by (simp add: toLanes_def)

lemma length_fromLanes: "length (fromLanes l) = 8 * length l"
  by (induction l) (simp_all add: fromLanes_def)

lemma length_permute [simp]: "length (permute a) = 200"
  by (simp add: permute_def length_fromLanes keccakf_fips length_rounds)

lemma xorin_props:
  "length (xorin dst src len) = length dst \<and>
   (k < length dst \<longrightarrow> xorin dst src len ! k = (if k < len then dst ! k XOR src ! k else dst ! k))"
  by (induction len) (auto simp: xorin_def nth_list_update less_Suc_eq)

lemma xorBlock_nth:
  assumes "length b \<le> length a"
  shows "length (xorBlock a b) = length a"
    and "k < length a \<Longrightarrow> xorBlock a b ! k = (if k < length b then a ! k XOR b ! k else a ! k)"
  using assms by (auto simp: xorBlock_def nth_append)

lemma xorin_xorBlock:
  "n \<le> length src \<Longrightarrow> n \<le> length dst \<Longrightarrow> xorin dst src n = xorBlock dst (take n src)"
  by (rule nth_equalityI) (simp_all add: xorin_props xorBlock_nth)

lemma fipsBlock_permute: "fipsBlock a b = permute (xorBlock a b)"
  by (simp add: fipsBlock_def permute_def keccakf_fips)

lemma length_keccakPad:
  "length m < rate \<Longrightarrow> length (keccakPad rate delim m) = rate"
  by (auto simp: keccakPad_def Let_def)

lemma keccakPad_step:
  assumes "rate \<le> length m"
  shows "keccakPad rate delim m = take rate m @ keccakPad rate delim (drop rate m)"
proof -
  have "length m mod rate = length (drop rate m) mod rate"
    using assms by (simp add: le_mod_geq)
  then show ?thesis unfolding keccakPad_def by (simp add: Let_def flip: append_assoc)
qed

lemma fipsAbsorb_Nil [simp]: "fipsAbsorb a [] rate = a"
  by (subst fipsAbsorb.simps) simp

lemma absorb_fips:
  "0 < rate \<Longrightarrow> rate \<le> 200 \<Longrightarrow> length a = 200 \<Longrightarrow>
   (case absorb a input rate of (a', rest) \<Rightarrow> length rest < rate \<and> length a' = 200 \<and>
      fipsAbsorb a (keccakPad rate delim input) rate = permute (xorBlock a' (keccakPad rate delim rest)))"
proof (induction a input rate rule: absorb.induct)
  case (1 a input rate)
  show ?case
  proof (cases "length input < rate")
    case True
    then have "absorb a input rate = (a, input)" by (subst absorb.simps) simp
    moreover have "keccakPad rate delim input \<noteq> []" by (simp add: keccakPad_def Let_def)
    ultimately show ?thesis
      using True 1(2-4) by (subst fipsAbsorb.simps) (simp add: length_keccakPad fipsBlock_permute)
  next
    case False
    have step: "absorb a input rate = absorb (permute (xorin a input rate)) (drop rate input) rate"
      using False 1(2) by (subst absorb.simps) simp
    have "fipsAbsorb a (keccakPad rate delim input) rate =
        fipsAbsorb (permute (xorin a input rate)) (keccakPad rate delim (drop rate input)) rate"
    proof -
      have "keccakPad rate delim input = take rate input @ keccakPad rate delim (drop rate input)"
        by (rule keccakPad_step) (use False in simp)
      then show ?thesis
        using False 1(2-4)
        by (simp, subst fipsAbsorb.simps, auto simp: fipsBlock_permute xorin_xorBlock)
    qed
    moreover have "\<not> (length input < rate \<or> rate = 0)" using False 1(2) by simp
    note 1(1) [OF this 1(2,3) length_permute]
    ultimately show ?thesis unfolding step by simp
  qed
qed

lemma last_block:
  assumes "length rest < rate" "rate \<le> 200" "length a = 200"
    and b: "b = a[length rest := a ! length rest XOR delim]"
  shows "xorin (b[rate - 1 := b ! (rate - 1) XOR 0x80]) rest (length rest) =
    xorBlock a (keccakPad rate delim rest)"
proof (rule nth_equalityI)
  have len: "length (keccakPad rate delim rest) = rate" by (rule length_keccakPad [OF assms(1)])
  show "length (xorin (b[rate - 1 := b ! (rate - 1) XOR 0x80]) rest (length rest)) =
    length (xorBlock a (keccakPad rate delim rest))"
    using assms len by (simp add: xorin_props xorBlock_nth)
  fix k
  assume "k < length (xorin (b[rate - 1 := b ! (rate - 1) XOR 0x80]) rest (length rest))"
  then have k: "k < 200" using assms by (simp add: xorin_props)
  have pad: "k < rate \<Longrightarrow> keccakPad rate delim rest ! k =
      (if k < length rest then rest ! k
       else (if k = length rest then delim else 0) XOR (if k = rate - 1 then 0x80 else 0))"
    using assms(1) by (auto simp: keccakPad_def Let_def nth_append nth_Cons')
  show "xorin (b[rate - 1 := b ! (rate - 1) XOR 0x80]) rest (length rest) ! k =
    xorBlock a (keccakPad rate delim rest) ! k"
    using assms k len pad
    by (auto simp: xorin_props xorBlock_nth nth_list_update ac_simps)
qed

text \<open>C27: \<open>keccak256\<close> is the sponge of FIPS 202 with the permutation Keccak-f[1600], rate 1088 and
  the padding byte of Keccak: the unrolled loops, tables and pointer arithmetic of the file
  compute the step mappings on lane coordinates.\<close>

theorem keccak256_sponge:
  "keccak256_bytes input = take 32 (fipsAbsorb (replicate 200 0) (keccakPad 136 1 input) 136)"
proof -
  obtain a rest where ab: "absorb (replicate 200 0) input 136 = (a, rest)" by force
  from absorb_fips [where rate = 136 and a = "replicate 200 0" and input = input and delim = 1]
  have r: "length rest < 136" "length a = 200"
    "fipsAbsorb (replicate 200 0) (keccakPad 136 1 input) 136 = permute (xorBlock a (keccakPad 136 1 rest))"
    by (simp_all add: ab)
  show ?thesis
    unfolding r(3) last_block [OF r(1) _ r(2) refl, symmetric, simplified] keccak256_bytes_def hash_def
    by (simp add: ab Let_def, subst squeeze.simps, simp)
qed

lemma length_keccak256_bytes [simp]: "length (keccak256_bytes input) = 32"
  unfolding keccak256_bytes_def hash_def
  by (simp add: Let_def split: prod.split, subst squeeze.simps, simp)

end
