(* ===== verification/KnownState.thy ===== *)
theory KnownState
  imports ExpressionQueries OrderedMap Keccak256
begin

section \<open>Knowledge about the machine state (libevmasm/KnownState)\<close>

text \<open>
  \<open>KnownState\<close>: the symbolic execution of items that the common subexpression eliminator,
  the control flow graph and the gas estimation share. It keeps, as expression classes, what
  is known of the stack, the storage and the memory. The container of expression classes is
  shared by pointer in the code; here it is threaded through every operation by the monad
  \<open>'a CM\<close>, in which \<open>None\<close> is fuel used up and \<open>Inl\<close> an exception.
\<close>

subsection \<open>Operations that use the expression classes\<close>

type_synonym 'a CM = "ExpressionClasses \<Rightarrow> ('a \<times> ExpressionClasses) result option"

definition cmReturn :: "'a \<Rightarrow> 'a CM" where
  "cmReturn a cs = Some (Inr (a, cs))"

definition cmThrow :: "exn \<Rightarrow> 'a CM" where
  "cmThrow e cs = Some (Inl e)"

definition cmBind :: "'a CM \<Rightarrow> ('a \<Rightarrow> 'b CM) \<Rightarrow> 'b CM" where
  "cmBind m f cs =
     (case m cs of
        None \<Rightarrow> None
      | Some (Inl e) \<Rightarrow> Some (Inl e)
      | Some (Inr (a, cs')) \<Rightarrow> f a cs')"

text \<open>A query that leaves the classes as they are.\<close>

definition cmQuery :: "(ExpressionClasses \<Rightarrow> 'a result) \<Rightarrow> 'a CM" where
  "cmQuery q cs = (case q cs of Inl e \<Rightarrow> Some (Inl e) | Inr a \<Rightarrow> Some (Inr (a, cs)))"

definition cmFind :: "nat \<Rightarrow> AssemblyItem \<Rightarrow> Ids \<Rightarrow> nat \<Rightarrow> Id CM" where
  "cmFind n it args s cs = findF n cs it args s"

definition cmDifferent :: "nat \<Rightarrow> Id \<Rightarrow> Id \<Rightarrow> bool CM" where
  "cmDifferent n a b cs = knownToBeDifferentF n cs a b"

definition cmDifferentBy32 :: "nat \<Rightarrow> Id \<Rightarrow> Id \<Rightarrow> bool CM" where
  "cmDifferentBy32 n a b cs = knownToBeDifferentBy32F n cs a b"

definition cmNewClass :: "SourceLocation \<Rightarrow> Id CM" where
  "cmNewClass l cs = Some (Inr (newClass cs l))"

subsection \<open>State\<close>

datatype Target = Invalid | Memory | Storage

text \<open>The default constructor leaves \<open>slot\<close> and \<open>expression\<close> uninitialised; here they are 0.\<close>

record StoreOperation =
  so_target :: Target
  so_slot :: Id
  so_sequenceNumber :: nat
  so_expression :: Id

definition invalidOperation :: StoreOperation where
  "invalidOperation =
     \<lparr>so_target = Invalid, so_slot = 0, so_sequenceNumber = 2 ^ 32 - 1, so_expression = 0\<rparr>"

definition isValidOperation :: "StoreOperation \<Rightarrow> bool" where
  "isValidOperation op \<longleftrightarrow> so_target op \<noteq> Invalid"

text \<open>
  Stack elements are numbered from the bottom; heights are relative to the start and can be
  negative. The maps the code iterates over are ordered maps. \<open>ks_tagUnions\<close> is the bimap.
\<close>

record KnownState =
  ks_stackHeight :: int
  ks_stackElements :: "(int \<times> Id) list"
  ks_sequenceNumber :: nat
  ks_storageContent :: "(Id \<times> Id) list"
  ks_memoryContent :: "(Id \<times> Id) list"
  ks_knownKeccak256Hashes :: "Ids \<rightharpoonup> Id"
  ks_tagUnions :: "(Id \<times> u256 set) list"

definition freshState :: KnownState where
  "freshState =
     \<lparr>ks_stackHeight = 0, ks_stackElements = [], ks_sequenceNumber = 1, ks_storageContent = [],
      ks_memoryContent = [], ks_knownKeccak256Hashes = Map.empty, ks_tagUnions = []\<rparr>"

definition resetStorage :: "KnownState \<Rightarrow> KnownState" where
  "resetStorage ks = ks\<lparr>ks_storageContent := []\<rparr>"

definition resetMemory :: "KnownState \<Rightarrow> KnownState" where
  "resetMemory ks = ks\<lparr>ks_memoryContent := []\<rparr>"

definition resetStack :: "KnownState \<Rightarrow> KnownState" where
  "resetStack ks = ks\<lparr>ks_stackElements := [], ks_stackHeight := 0\<rparr>"

definition resetState :: "KnownState \<Rightarrow> KnownState" where
  "resetState ks = resetStack (resetMemory (resetStorage ks))"

subsection \<open>The stack\<close>

definition stackElement :: "nat \<Rightarrow> int \<Rightarrow> SourceLocation \<Rightarrow> KnownState \<Rightarrow> (Id \<times> KnownState) CM" where
  "stackElement n h l ks =
     (case map_of (ks_stackElements ks) h of
        Some c \<Rightarrow> cmReturn (c, ks)
      | None \<Rightarrow>
          cmBind (cmFind n (itemOfType UndefinedItem (word_of_int h) l) [] 0) (\<lambda>c.
          cmReturn (c, ks\<lparr>ks_stackElements := omap_put h c (ks_stackElements ks)\<rparr>)))"

definition relativeStackElement :: "nat \<Rightarrow> int \<Rightarrow> SourceLocation \<Rightarrow> KnownState \<Rightarrow> (Id \<times> KnownState) CM"
  where
  "relativeStackElement n offset l ks = stackElement n (ks_stackHeight ks + offset) l ks"

definition setStackElement :: "int \<Rightarrow> Id \<Rightarrow> KnownState \<Rightarrow> KnownState" where
  "setStackElement h c ks = ks\<lparr>ks_stackElements := omap_put h c (ks_stackElements ks)\<rparr>"

definition swapStackElements :: "nat \<Rightarrow> int \<Rightarrow> int \<Rightarrow> SourceLocation \<Rightarrow> KnownState \<Rightarrow> KnownState CM"
  where
  "swapStackElements n a b l ks =
     (if a = b then cmThrow (OptimizerException ''Swap on same stack elements.'')
      else cmBind (stackElement n a l ks) (\<lambda>(ca, ks).
           cmBind (stackElement n b l ks) (\<lambda>(cb, ks).
           cmReturn (setStackElement b ca (setStackElement a cb ks)))))"

text \<open>The arguments of an instruction, from the top of the stack downwards.\<close>

fun stackArguments :: "nat \<Rightarrow> nat \<Rightarrow> int \<Rightarrow> SourceLocation \<Rightarrow> KnownState \<Rightarrow> (Ids \<times> KnownState) CM" where
  "stackArguments n 0 h l ks = cmReturn ([], ks)"
| "stackArguments n (Suc k) h l ks =
     cmBind (stackElement n h l ks) (\<lambda>(a, ks).
     cmBind (stackArguments n k (h - 1) l ks) (\<lambda>(as, ks).
     cmReturn (a # as, ks)))"

subsection \<open>Storage and memory\<close>

text \<open>The entries that survive a store.\<close>

fun retainStorage :: "nat \<Rightarrow> Id \<Rightarrow> Id \<Rightarrow> (Id \<times> Id) list \<Rightarrow> (Id \<times> Id) list CM" where
  "retainStorage n slot v [] = cmReturn []"
| "retainStorage n slot v (p # ps) =
     cmBind (cmDifferent n (fst p) slot) (\<lambda>d.
     cmBind (retainStorage n slot v ps) (\<lambda>qs.
     cmReturn (if d \<or> snd p = v then p # qs else qs)))"

definition storeInStorage :: "nat \<Rightarrow> Id \<Rightarrow> Id \<Rightarrow> SourceLocation \<Rightarrow> KnownState \<Rightarrow>
    (StoreOperation \<times> KnownState) CM" where
  "storeInStorage n slot v l ks =
     (if map_of (ks_storageContent ks) slot = Some v then cmReturn (invalidOperation, ks)
      else
        let s = ks_sequenceNumber ks + 1 in
        cmBind (retainStorage n slot v (ks_storageContent ks)) (\<lambda>contents.
        cmBind (cmFind n (itemOp i_SSTORE l) [slot, v] s) (\<lambda>i.
        cmReturn
          (\<lparr>so_target = Storage, so_slot = slot, so_sequenceNumber = s, so_expression = i\<rparr>,
           ks\<lparr>ks_storageContent := omap_put slot v contents, ks_sequenceNumber := s + 1\<rparr>))))"

definition loadFromStorage :: "nat \<Rightarrow> Id \<Rightarrow> SourceLocation \<Rightarrow> KnownState \<Rightarrow> (Id \<times> KnownState) CM" where
  "loadFromStorage n slot l ks =
     (case map_of (ks_storageContent ks) slot of
        Some v \<Rightarrow> cmReturn (v, ks)
      | None \<Rightarrow>
          cmBind (cmFind n (itemOp i_SLOAD l) [slot] (ks_sequenceNumber ks)) (\<lambda>v.
          cmReturn (v, ks\<lparr>ks_storageContent := omap_put slot v (ks_storageContent ks)\<rparr>)))"

fun retainMemory :: "nat \<Rightarrow> Id \<Rightarrow> (Id \<times> Id) list \<Rightarrow> (Id \<times> Id) list CM" where
  "retainMemory n slot [] = cmReturn []"
| "retainMemory n slot (p # ps) =
     cmBind (cmDifferentBy32 n (fst p) slot) (\<lambda>d.
     cmBind (retainMemory n slot ps) (\<lambda>qs.
     cmReturn (if d then p # qs else qs)))"

definition storeInMemory :: "nat \<Rightarrow> Id \<Rightarrow> Id \<Rightarrow> SourceLocation \<Rightarrow> KnownState \<Rightarrow>
    (StoreOperation \<times> KnownState) CM" where
  "storeInMemory n slot v l ks =
     (if map_of (ks_memoryContent ks) slot = Some v then cmReturn (invalidOperation, ks)
      else
        let s = ks_sequenceNumber ks + 1 in
        cmBind (retainMemory n slot (ks_memoryContent ks)) (\<lambda>contents.
        cmBind (cmFind n (itemOp i_MSTORE l) [slot, v] s) (\<lambda>i.
        cmReturn
          (\<lparr>so_target = Memory, so_slot = slot, so_sequenceNumber = s, so_expression = i\<rparr>,
           ks\<lparr>ks_memoryContent := omap_put slot v contents, ks_sequenceNumber := s + 1\<rparr>))))"

definition loadFromMemory :: "nat \<Rightarrow> Id \<Rightarrow> SourceLocation \<Rightarrow> KnownState \<Rightarrow> (Id \<times> KnownState) CM" where
  "loadFromMemory n slot l ks =
     (case map_of (ks_memoryContent ks) slot of
        Some v \<Rightarrow> cmReturn (v, ks)
      | None \<Rightarrow>
          cmBind (cmFind n (itemOp i_MLOAD l) [slot] (ks_sequenceNumber ks)) (\<lambda>v.
          cmReturn (v, ks\<lparr>ks_memoryContent := omap_put slot v (ks_memoryContent ks)\<rparr>)))"

text \<open>The words of the hashed memory, at the given offsets from its start.\<close>

fun keccakArguments :: "nat \<Rightarrow> Id \<Rightarrow> u256 list \<Rightarrow> SourceLocation \<Rightarrow> KnownState \<Rightarrow>
    (Ids \<times> KnownState) CM" where
  "keccakArguments n start [] l ks = cmReturn ([], ks)"
| "keccakArguments n start (i # is) l ks =
     cmBind (cmFind n (pushItem i) [] 0) (\<lambda>offset.
     cmBind (cmFind n (itemOp i_ADD l) [start, offset] 0) (\<lambda>slot.
     cmBind (loadFromMemory n slot l ks) (\<lambda>(a, ks).
     cmBind (keccakArguments n start is l ks) (\<lambda>(as, ks).
     cmReturn (a # as, ks)))))"

definition wordOffsets :: "u256 \<Rightarrow> u256 list" where
  "wordOffsets len = map (\<lambda>k. of_nat (32 * k)) [0 ..< (unat len + 31) div 32]"

text \<open>The constants of all classes, if all are known.\<close>

fun knownConstants :: "ExpressionClasses \<Rightarrow> Ids \<Rightarrow> u256 list option result" where
  "knownConstants cs [] = Inr (Some [])"
| "knownConstants cs (a # as) =
     bindE (knownConstant cs a) (\<lambda>v.
     case v of
       None \<Rightarrow> Inr None
     | Some d \<Rightarrow> bindE (knownConstants cs as) (\<lambda>ds. Inr (map_option (\<lambda>xs. d # xs) ds)))"

text \<open>\<open>data.resize\<close>: shorter, or filled up with zeros.\<close>

definition resizeBytes :: "nat \<Rightarrow> bytes \<Rightarrow> bytes" where
  "resizeBytes k data = take k data @ replicate (k - length data) 0"

definition applyKeccak256 :: "nat \<Rightarrow> Id \<Rightarrow> Id \<Rightarrow> SourceLocation \<Rightarrow> KnownState \<Rightarrow>
    (Id \<times> KnownState) CM" where
  "applyKeccak256 n start len l ks =
     cmBind (cmQuery (\<lambda>cs. knownConstant cs len)) (\<lambda>v.
     case v of
       None \<Rightarrow>
         cmBind (cmFind n (itemOp i_KECCAK256 l) [start, len] (ks_sequenceNumber ks)) (\<lambda>c.
         cmReturn (c, ks))
     | Some d \<Rightarrow>
         if d > 128
         then cmBind (cmFind n (itemOp i_KECCAK256 l) [start, len] (ks_sequenceNumber ks)) (\<lambda>c.
              cmReturn (c, ks))
         else
           cmBind (keccakArguments n start (wordOffsets d) l ks) (\<lambda>(args, ks).
           case ks_knownKeccak256Hashes ks args of
             Some c \<Rightarrow> cmReturn (c, ks)
           | None \<Rightarrow>
               cmBind (cmQuery (\<lambda>cs. knownConstants cs args)) (\<lambda>ws.
               cmBind
                 (case ws of
                    Some xs \<Rightarrow>
                      cmFind n (itemPush (keccak256 (resizeBytes (unat d)
                        (concat (map toBigEndian256 xs)))) l) [] 0
                  | None \<Rightarrow>
                      cmFind n (itemOp i_KECCAK256 l) [start, len] (ks_sequenceNumber ks)) (\<lambda>c.
               cmReturn (c, ks\<lparr>ks_knownKeccak256Hashes :=
                 (ks_knownKeccak256Hashes ks)(args \<mapsto> c)\<rparr>)))))"

subsection \<open>Tags on the stack\<close>

definition tagsInExpression :: "KnownState \<Rightarrow> Id \<Rightarrow> ExpressionClasses \<Rightarrow> u256 set result" where
  "tagsInExpression ks c cs =
     (case map_of (ks_tagUnions ks) c of
        Some tags \<Rightarrow> Inr tags
      | None \<Rightarrow>
          bindE (representative cs c) (\<lambda>e.
          Inr (if m_type (e_item e) = PushTag then {m_data (e_item e)} else {})))"

definition tagUnion :: "u256 set \<Rightarrow> KnownState \<Rightarrow> (Id \<times> KnownState) CM" where
  "tagUnion tags ks =
     (case find (\<lambda>p. snd p = tags) (ks_tagUnions ks) of
        Some p \<Rightarrow> cmReturn (fst p, ks)
      | None \<Rightarrow>
          cmBind (cmNewClass noLocation) (\<lambda>c.
          cmReturn (c, ks\<lparr>ks_tagUnions := (c, tags) # ks_tagUnions ks\<rparr>)))"

definition clearTagUnions :: "KnownState \<Rightarrow> KnownState" where
  "clearTagUnions ks =
     ks\<lparr>ks_stackElements :=
       filter (\<lambda>p. map_of (ks_tagUnions ks) (snd p) = None) (ks_stackElements ks)\<rparr>"

subsection \<open>Feeding an item\<close>

text \<open>The last case of the switch: every operation without a rule of its own.\<close>

definition feedOther :: "nat \<Rightarrow> AssemblyItem \<Rightarrow> Ids \<Rightarrow> KnownState \<Rightarrow> KnownState CM" where
  "feedOther n it args ks =
     (let i = m_instruction it;
          ks = (if invalidatesMemory i then resetMemory ks else ks);
          ks = (if invalidatesStorage i then resetStorage ks else ks);
          ks = (if invalidatesMemory i \<or> invalidatesStorage i
                then ks\<lparr>ks_sequenceNumber := ks_sequenceNumber ks + 2\<rparr> else ks)
      in if \<not> info_ret (instructionInfo i) \<le> 1 then cmThrow InvalidDeposit
         else if info_ret (instructionInfo i) = 1
         then cmBind (cmFind n it args 0) (\<lambda>c.
              cmReturn (setStackElement (ks_stackHeight ks + item_deposit it) c ks))
         else cmReturn ks)"

text \<open>The switch, with the arguments fetched; \<open>height\<close> is where a result goes.\<close>

definition feedSwitch :: "nat \<Rightarrow> AssemblyItem \<Rightarrow> int \<Rightarrow> Ids \<Rightarrow> KnownState \<Rightarrow> (StoreOperation \<times> KnownState) CM"
  where
  "feedSwitch n it height args ks =
     (let i = m_instruction it; l = m_location it in
      if i = i_SSTORE then storeInStorage n (args ! 0) (args ! 1) l ks
      else if i = i_SLOAD
      then cmBind (loadFromStorage n (args ! 0) l ks) (\<lambda>(c, ks).
           cmReturn (invalidOperation, setStackElement height c ks))
      else if i = i_MSTORE then storeInMemory n (args ! 0) (args ! 1) l ks
      else if i = i_MLOAD
      then cmBind (loadFromMemory n (args ! 0) l ks) (\<lambda>(c, ks).
           cmReturn (invalidOperation, setStackElement height c ks))
      else if i = i_KECCAK256
      then cmBind (applyKeccak256 n (args ! 0) (args ! 1) l ks) (\<lambda>(c, ks).
           cmReturn (invalidOperation, setStackElement height c ks))
      else cmBind (feedOther n it args ks) (\<lambda>ks. cmReturn (invalidOperation, ks)))"

definition feedOperation :: "nat \<Rightarrow> AssemblyItem \<Rightarrow> KnownState \<Rightarrow> (StoreOperation \<times> KnownState) CM"
  where
  "feedOperation n it ks =
     (let i = m_instruction it; h = ks_stackHeight ks; l = m_location it in
      if itemIsDup it
      then cmBind (stackElement n (h - uint i + uint i_DUP1) l ks) (\<lambda>(c, ks).
           cmReturn (invalidOperation, setStackElement (h + 1) c ks))
      else if itemIsSwap it
      then cmBind (swapStackElements n h (h - 1 - uint i + uint i_SWAP1) l ks) (\<lambda>ks.
           cmReturn (invalidOperation, ks))
      else if i = i_POP then cmReturn (invalidOperation, ks)
      else
        cmBind (stackArguments n (nat (info_args (instructionInfo i))) h l ks) (\<lambda>(args, ks).
        feedSwitch n it (h + item_deposit it) args ks))"

text \<open>The end of the operation: forget what is above the new height.\<close>

definition adjustHeight :: "int \<Rightarrow> KnownState \<Rightarrow> KnownState" where
  "adjustHeight deposit ks =
     (let h = ks_stackHeight ks + deposit in
      ks\<lparr>ks_stackElements := filter (\<lambda>p. fst p \<le> h) (ks_stackElements ks), ks_stackHeight := h\<rparr>)"

definition feedItem :: "nat \<Rightarrow> AssemblyItem \<Rightarrow> KnownState \<Rightarrow> (StoreOperation \<times> KnownState) CM" where
  "feedItem n it ks =
     (if m_type it = Tag then cmReturn (invalidOperation, ks)
      else if m_type it \<noteq> Operation then
        if item_deposit it \<noteq> 1 then cmThrow InvalidDeposit
        else
          cmBind
            (case m_pushedValue it of
               Some v \<Rightarrow> cmFind n (pushItem v) [] 0
             | None \<Rightarrow> cmFind n it [] 0) (\<lambda>c.
          let h = ks_stackHeight ks + 1 in
          cmReturn (invalidOperation, setStackElement h c (ks\<lparr>ks_stackHeight := h\<rparr>)))
      else
        cmBind (feedOperation n it ks) (\<lambda>(op, ks).
        cmReturn (op, adjustHeight (item_deposit it) ks)))"

subsection \<open>Comparing and combining states\<close>

definition intersectMaps :: "(Id \<times> Id) list \<Rightarrow> (Id \<times> Id) list \<Rightarrow> (Id \<times> Id) list" where
  "intersectMaps m m' = filter (\<lambda>p. map_of m' (fst p) = Some (snd p)) m"

text \<open>The loop over the stack: equal elements stay, tags are united, all others are dropped.\<close>

fun reduceStack :: "(int \<times> Id) list \<Rightarrow> int \<Rightarrow> (int \<times> Id) list \<Rightarrow> KnownState \<Rightarrow>
    ((int \<times> Id) list \<times> KnownState) CM" where
  "reduceStack [] diff others ks = cmReturn ([], ks)"
| "reduceStack ((h, c) # ps) diff others ks =
     (case map_of others (h - diff) of
        None \<Rightarrow> reduceStack ps diff others ks
      | Some c' \<Rightarrow>
          if c = c'
          then cmBind (reduceStack ps diff others ks) (\<lambda>(qs, ks). cmReturn ((h, c) # qs, ks))
          else
            cmBind (cmQuery (tagsInExpression ks c)) (\<lambda>these.
            cmBind (cmQuery (tagsInExpression ks c')) (\<lambda>those.
            if these \<noteq> {} \<and> those \<noteq> {}
            then cmBind (tagUnion (these \<union> those) ks) (\<lambda>(u, ks).
                 cmBind (reduceStack ps diff others ks) (\<lambda>(qs, ks). cmReturn ((h, u) # qs, ks)))
            else reduceStack ps diff others ks)))"

definition reduceToCommonKnowledge :: "KnownState \<Rightarrow> KnownState \<Rightarrow> bool \<Rightarrow> KnownState CM" where
  "reduceToCommonKnowledge ks other combineSequenceNumbers =
     (let diff = ks_stackHeight ks - ks_stackHeight other in
      cmBind (reduceStack (ks_stackElements ks) diff (ks_stackElements other) ks) (\<lambda>(els, ks).
      let ks = (if ks_stackHeight ks > ks_stackHeight other
                then ks\<lparr>ks_stackElements := map (\<lambda>(h, c). (h - diff, c)) els,
                        ks_stackHeight := ks_stackHeight other\<rparr>
                else ks\<lparr>ks_stackElements := els\<rparr>)
      in cmReturn
        (ks\<lparr>ks_storageContent := intersectMaps (ks_storageContent ks) (ks_storageContent other),
            ks_memoryContent := intersectMaps (ks_memoryContent ks) (ks_memoryContent other),
            ks_sequenceNumber :=
              (if combineSequenceNumbers
               then max (ks_sequenceNumber ks) (ks_sequenceNumber other)
               else ks_sequenceNumber ks)\<rparr>)))"

definition knownState_eq :: "KnownState \<Rightarrow> KnownState \<Rightarrow> bool" where
  "knownState_eq ks other =
     (if ks_storageContent ks \<noteq> ks_storageContent other \<or> ks_memoryContent ks \<noteq> ks_memoryContent other
      then False
      else let diff = ks_stackHeight ks - ks_stackHeight other in
        map (\<lambda>(h, c). (h - diff, c)) (ks_stackElements ks) = ks_stackElements other)"

subsection \<open>Printing\<close>

text \<open>
  \<open>stream\<close>. The conversion \<open>int(u256)\<close> of the multiprecision library is the argument
  \<open>toInt\<close>; heights are printed in decimal with a sign.
\<close>

definition showInt :: "int \<Rightarrow> string" where
  "showInt k = (if k < 0 then ''-'' @ toDec (nat (- k)) else toDec (nat k))"

definition streamExpressionClass :: "(u256 \<Rightarrow> int) \<Rightarrow> ExpressionClasses \<Rightarrow> Id \<Rightarrow> string result" where
  "streamExpressionClass toInt cs i =
     bindE (representative cs i) (\<lambda>e.
     bindE (if m_type (e_item e) = UndefinedItem
            then bindE (dataOf (e_item e)) (\<lambda>d. Inr ('' unknown '' @ showInt (toInt d)))
            else showItem (e_item e)) (\<lambda>item.
     Inr (''  '' @ toDec i @ '': '' @ item @
       (if e_sequenceNumber e \<noteq> 0 then ''@'' @ toDec (e_sequenceNumber e) else []) @
       ''('' @ concat (map (\<lambda>a. toDec a @ '','') (e_arguments e)) @ '')'' @ [CHR 0x0a])))"

fun streamClasses :: "(u256 \<Rightarrow> int) \<Rightarrow> ExpressionClasses \<Rightarrow> (string \<times> Id) list \<Rightarrow> string result" where
  "streamClasses toInt cs [] = Inr []"
| "streamClasses toInt cs ((pre, i) # is) =
     bindE (streamExpressionClass toInt cs i) (\<lambda>s.
     bindE (streamClasses toInt cs is) (\<lambda>r. Inr (pre @ s @ r)))"

definition streamState :: "(u256 \<Rightarrow> int) \<Rightarrow> ExpressionClasses \<Rightarrow> KnownState \<Rightarrow> string result" where
  "streamState toInt cs ks =
     (let nl = [CHR 0x0a];
          content = concat \<circ> map (\<lambda>p. [(''  '', fst p), ('': '', snd p)]) in
      bindE (streamClasses toInt cs (map (Pair []) [0 ..< length (m_representatives cs)])) (\<lambda>classes.
      bindE (streamClasses toInt cs
        (map (\<lambda>p. (''  '' @ showInt (fst p) @ '': '', snd p)) (ks_stackElements ks))) (\<lambda>stack.
      bindE (streamClasses toInt cs (content (ks_storageContent ks))) (\<lambda>storage.
      bindE (streamClasses toInt cs (content (ks_memoryContent ks))) (\<lambda>mem.
      Inr (''=== State ==='' @ nl @ ''Stack height: '' @ showInt (ks_stackHeight ks) @ nl @
        ''Equivalence classes: '' @ nl @ classes @ ''Stack: '' @ nl @ stack @
        ''Storage: '' @ nl @ storage @ ''Memory: '' @ nl @ mem))))))"

end
