(* ===== verification/SymbolicClasses.thy ===== *)
theory SymbolicClasses
  imports KnownState
begin

section \<open>Total correctness of operations on the expression classes\<close>

text \<open>
  A Hoare-style calculus for the monad of \<open>KnownState\<close>: \<open>cm_total F env q cs val Q\<close> says that
  with enough fuel the operation \<open>F\<close> returns, without an exception, a container again
  reachable, whose expressions carry sequence numbers up to \<open>q\<close>, and that the values \<open>val\<close> of
  the old classes extend to values of the new ones for which \<open>Q\<close> holds.
\<close>

subsection \<open>Sequence numbers\<close>

definition seqs_le :: "nat \<Rightarrow> ExpressionClasses \<Rightarrow> bool" where
  "seqs_le q cs \<longleftrightarrow>
     list_all (\<lambda>e. e_sequenceNumber e \<le> q) (m_representatives cs) \<and>
     list_all (\<lambda>e. e_sequenceNumber e \<le> q) (m_expressions cs)"

lemma seqs_le_mono: "seqs_le q cs \<Longrightarrow> q \<le> r \<Longrightarrow> seqs_le r cs"
  by (auto simp: seqs_le_def list_all_iff)

lemma seqs_le_enter:
  assumes "seqs_le q cs" and "e_sequenceNumber e \<le> q" and "enterExpression cs e f = (i, cs')"
  shows "seqs_le q cs'"
  using assms
  by (auto simp: enterExpression_def seqs_le_def Let_def setInsert_all split: option.splits if_splits)

lemma find_seqs:
  "findF n cs it args s = Some (Inr (i, cs')) \<Longrightarrow> seqs_le q cs \<Longrightarrow> s \<le> q \<Longrightarrow> seqs_le q cs'"
  "tryToSimplifyF n cs e = Some (Inr (r, cs')) \<Longrightarrow> seqs_le q cs \<Longrightarrow> seqs_le q cs'"
  "rebuildF n cs t = Some (Inr (i, cs')) \<Longrightarrow> seqs_le q cs \<Longrightarrow> seqs_le q cs'"
  "rebuildsF n cs ts = Some (Inr (ids, cs')) \<Longrightarrow> seqs_le q cs \<Longrightarrow> seqs_le q cs'"
proof (induction n cs it args s and n cs e and n cs t and n cs ts
    arbitrary: i cs' and r cs' and i cs' and ids cs'
    rule: findF_tryToSimplifyF_rebuildF_rebuildsF.induct)
  case (2 n cs it args s)
  have e: "e_sequenceNumber (mkExpression it args s) = s" by (simp add: mkExpression_def)
  from 2 show ?case
    by (force simp: Let_def e split: option.splits sum.splits if_splits intro: seqs_le_enter)
next
  case (3 n cs e)
  then show ?case by (auto split: option.splits sum.splits)
next
  case (4 n cs h i it args)
  then show ?case by (force split: option.splits sum.splits if_splits)
next
  case (6 n cs t ts)
  then show ?case by (force split: option.splits sum.splits)
qed (auto)

lemma newClass_seqs: "newClass cs l = (i, cs') \<Longrightarrow> seqs_le q cs \<Longrightarrow> seqs_le q cs'"
  by (auto simp: newClass_def Let_def seqs_le_def setInsert_all)

text \<open>The values of expressions do not depend on what is at later sequence numbers.\<close>

definition env_agree :: "nat \<Rightarrow> environment \<Rightarrow> environment \<Rightarrow> bool" where
  "env_agree q env env' \<longleftrightarrow>
     env_push env = env_push env' \<and> (\<forall>i as s. s \<le> q \<longrightarrow> env_op env i as s = env_op env' i as s)"

lemma expr_holds_agree:
  assumes "env_agree q env env'" and "e_sequenceNumber e \<le> q" and "expr_holds env val e"
  shows "expr_holds env' val e"
  using assms by (auto simp: expr_holds_def expr_sem_def item_sem_def env_agree_def
      split: AssemblyItemType.splits option.splits)

lemma models_agree:
  assumes "env_agree q env env'" and "seqs_le q cs" and "models env cs val"
  shows "models env' cs val"
  using assms expr_holds_agree [OF assms(1)] by (auto simp: models_def seqs_le_def list_all_iff)

subsection \<open>Total correctness\<close>

abbreviation classCount :: "ExpressionClasses \<Rightarrow> nat" where
  "classCount cs \<equiv> length (m_representatives cs)"

definition classes_ok :: "environment \<Rightarrow> nat \<Rightarrow> ExpressionClasses \<Rightarrow> (Id \<Rightarrow> u256) \<Rightarrow> bool" where
  "classes_ok env q cs val \<longleftrightarrow> reachable cs \<and> seqs_le q cs \<and> models env cs val"

definition extends :: "ExpressionClasses \<Rightarrow> (Id \<Rightarrow> u256) \<Rightarrow> ExpressionClasses \<Rightarrow> (Id \<Rightarrow> u256) \<Rightarrow> bool" where
  "extends cs val cs' val' \<longleftrightarrow>
     classCount cs \<le> classCount cs' \<and> (\<forall>i < classCount cs. val' i = val i)"

definition cm_total :: "(nat \<Rightarrow> 'a CM) \<Rightarrow> environment \<Rightarrow> nat \<Rightarrow> ExpressionClasses \<Rightarrow> (Id \<Rightarrow> u256) \<Rightarrow>
    ('a \<Rightarrow> ExpressionClasses \<Rightarrow> (Id \<Rightarrow> u256) \<Rightarrow> bool) \<Rightarrow> bool" where
  "cm_total F env q cs val Q \<longleftrightarrow>
     (\<exists>n\<^sub>0 a cs' val'. (\<forall>n > n\<^sub>0. F n cs = Some (Inr (a, cs'))) \<and> classes_ok env q cs' val' \<and>
        extends cs val cs' val' \<and> Q a cs' val')"

lemma extends_refl [simp]: "extends cs val cs val"
  by (simp add: extends_def)

lemma extends_trans: "extends cs val cs' val' \<Longrightarrow> extends cs' val' cs'' val'' \<Longrightarrow> extends cs val cs'' val''"
  by (simp add: extends_def)

lemma cm_return:
  assumes "classes_ok env q cs val" and "Q a cs val"
  shows "cm_total (\<lambda>n. cmReturn a) env q cs val Q"
  unfolding cm_total_def cmReturn_def using assms extends_refl by blast

lemma cm_bind:
  assumes "cm_total F env p cs val P"
    and "\<And>a cs' val'. classes_ok env p cs' val' \<Longrightarrow> extends cs val cs' val' \<Longrightarrow> P a cs' val' \<Longrightarrow>
      cm_total (\<lambda>n. G n a) env q cs' val' Q"
  shows "cm_total (\<lambda>n. cmBind (F n) (G n)) env q cs val Q"
proof -
  obtain n1 a cs1 v1 where 1: "\<forall>n > n1. F n cs = Some (Inr (a, cs1))" "classes_ok env p cs1 v1"
    "extends cs val cs1 v1" "P a cs1 v1"
    using assms(1) unfolding cm_total_def by blast
  obtain n2 b cs2 v2 where 2: "\<forall>n > n2. G n a cs1 = Some (Inr (b, cs2))" "classes_ok env q cs2 v2"
    "extends cs1 v1 cs2 v2" "Q b cs2 v2"
    using assms(2) [OF 1(2-4)] unfolding cm_total_def by blast
  have "\<forall>n > max n1 n2. cmBind (F n) (G n) cs = Some (Inr (b, cs2))"
    by (simp add: cmBind_def 1(1) 2(1))
  then show ?thesis
    unfolding cm_total_def using 2(2,4) extends_trans [OF 1(3) 2(3)] by blast
qed

lemma cm_bind_pair:
  assumes "cm_total F env p cs val (\<lambda>(a, b). P a b)"
    and "\<And>a b cs' val'. classes_ok env p cs' val' \<Longrightarrow> extends cs val cs' val' \<Longrightarrow> P a b cs' val' \<Longrightarrow>
      cm_total (\<lambda>n. G n a b) env q cs' val' Q"
  shows "cm_total (\<lambda>n. cmBind (F n) (\<lambda>(a, b). G n a b)) env q cs val Q"
  by (rule cm_bind [OF assms(1)]) (auto simp: split_beta intro: assms(2))

lemma cm_weaken:
  assumes "cm_total F env q cs val P" and "\<And>a cs' val'. extends cs val cs' val' \<Longrightarrow> P a cs' val' \<Longrightarrow> Q a cs' val'"
  shows "cm_total F env q cs val Q"
  using assms unfolding cm_total_def by blast

text \<open>A larger bound on the sequence numbers, and an environment that differs beyond it.\<close>

lemma classes_ok_later:
  assumes "classes_ok env q cs val" and "q \<le> r" and "env_agree q env env'"
  shows "classes_ok env' r cs val"
  using assms seqs_le_mono models_agree unfolding classes_ok_def by blast

lemma find_fuel:
  assumes "sane cs" and "weighted cs w" and "args_ok cs it args"
  shows "\<exists>i cs' w'. (\<forall>n. itWeight w it args < n \<longrightarrow> findF n cs it args s = Some (Inr (i, cs'))) \<and>
    classCount cs \<le> classCount cs'"
proof (rule find_step [OF assms, of s])
  fix i cs' w'
  assume f: "\<And>n. itWeight w it args < n \<Longrightarrow> findF n cs it args s = Some (Inr (i, cs'))"
    and "step_ok cs w cs' w' (\<lambda>env v. opaque_item it \<or> v i = item_sem env it (map v args) s)"
  then have "classCount cs \<le> classCount cs'" by (simp add: step_ok_def)
  with f show ?thesis by blast
qed

lemma cm_find:
  assumes "env_ok env" and "classes_ok env q cs val" and "args_ok cs it args" and "s \<le> q"
  shows "cm_total (\<lambda>n. cmFind n it args s) env q cs val
    (\<lambda>i cs' val'. i < classCount cs' \<and>
       (isDeterministic it \<longrightarrow> val' i = item_sem env it (map val args) s))"
proof -
  have r: "reachable cs" "models env cs val" "seqs_le q cs" using assms(2) by (simp_all add: classes_ok_def)
  obtain w where w: "sane cs" "weighted cs w" using reachable_ok [OF r(1)] by blast
  obtain i cs' where f: "\<forall>n. itWeight w it args < n \<longrightarrow> findF n cs it args s = Some (Inr (i, cs'))"
    and len: "classCount cs \<le> classCount cs'"
    using find_fuel [OF w assms(3), of s] by metis
  have fI: "findF (Suc (itWeight w it args)) cs it args s = Some (Inr (i, cs'))" using f lessI by blast
  obtain val' where v: "\<forall>j < classCount cs. val' j = val j" "models env cs' val'"
    "opaque_item it \<or> val' i = item_sem env it (map val args) s" "i < classCount cs'"
    using find_value [OF r(1) assms(3) fI assms(1) r(2)] .
  have ok: "classes_ok env q cs' val'"
    unfolding classes_ok_def
    using reachable.found [OF r(1) assms(3) fI]
      find_seqs(1) [OF fI r(3) assms(4)] v(2) by blast
  have ext: "extends cs val cs' val'" using len v(1) by (simp add: extends_def)
  have fuel: "\<forall>n > itWeight w it args. cmFind n it args s cs = Some (Inr (i, cs'))"
    using f by (simp add: cmFind_def)
  have res: "i < classCount cs' \<and> (isDeterministic it \<longrightarrow> val' i = item_sem env it (map val args) s)"
    using v(3,4) by (simp add: opaque_item_def)
  show ?thesis
    unfolding cm_total_def
    by (intro exI [of _ "itWeight w it args"] exI [of _ i] exI [of _ cs'] exI [of _ val'] conjI
        fuel ok ext res [THEN conjunct1] res [THEN conjunct2])
qed

text \<open>
  An operation whose value is not a function of its operands gets a class of its own, which
  may have any value.
\<close>

lemma models_other_values:
  assumes "sane cs" and "models env cs val" and "\<And>i. i < classCount cs \<Longrightarrow> val' i = val i"
  shows "models env cs val'"
proof -
  have e: "expr_holds env val' e"
    if "expr_holds env val e" "expr_wf (classCount cs) e" "e_id e < classCount cs" for e
    using that expr_holds_cong [OF that(2,3), of val' val env] assms(3) by blast
  have "list_all (\<lambda>e. expr_wf (classCount cs) e \<and> e_id e < classCount cs) (m_representatives cs)"
    using assms(1) by (simp add: sane_def Let_def list_all_length)
  then show ?thesis
    using assms(1,2) e by (auto simp: models_def sane_def Let_def list_all_iff)
qed

lemma cm_find_opaque:
  assumes "classes_ok env q cs val" and "args_ok cs it args" and "s \<le> q" and "\<not> isDeterministic it"
  shows "cm_total (\<lambda>n. cmFind n it args s) env q cs val
    (\<lambda>i cs' val'. i < classCount cs' \<and> val' i = x)"
proof -
  let ?n = "classCount cs" and ?e = "mkExpression it args s"
  have r: "reachable cs" "models env cs val" "seqs_le q cs" using assms(1) by (simp_all add: classes_ok_def)
  note sane = reachable_sane [OF r(1)]
  obtain cs' where cs': "enterExpression cs ?e None = (?n, cs')"
    by (simp add: enterExpression_def Let_def)
  have item: "e_item ?e = it" by (simp add: mkExpression_def)
  have f: "findF (Suc n) cs it args s = Some (Inr (?n, cs'))" for n
    using assms(4) by (simp add: item simplifiedTemplate_def makeRules_table cs' Let_def)
  define val' where "val' = val(?n := x)"
  have old: "models env cs val'"
    by (rule models_other_values [OF sane r(2)]) (simp add: val'_def)
  have new: "models env cs' val'"
    using old cs' assms(4)
    by (auto simp: enterExpression_def Let_def models_def setInsert_all expr_holds_def opaque_item_def item)
  have ok: "classes_ok env q cs' val'"
    unfolding classes_ok_def
    using reachable.found [OF r(1) assms(2) f] find_seqs(1) [OF f r(3) assms(3)] new by blast
  have ext: "extends cs val cs' val'" and len: "?n < classCount cs'"
    using cs' by (auto simp: extends_def enterExpression_def Let_def val'_def)
  have fuel: "\<forall>n > 0. cmFind n it args s cs = Some (Inr (?n, cs'))"
    using f by (auto simp: cmFind_def gr0_conv_Suc simp del: findF.simps)
  show ?thesis
    unfolding cm_total_def
    by (intro exI [of _ "0::nat"] exI [of _ ?n] exI [of _ cs'] exI [of _ val'] conjI fuel ok ext len)
      (simp add: val'_def)
qed

subsection \<open>Queries\<close>

lemma cm_sub:
  assumes "env_ok env" and "classes_ok env q cs val" and "a < classCount cs" and "b < classCount cs"
  shows "cm_total (\<lambda>n. cmFind n (opItem i_SUB) [a, b] 0) env q cs val
    (\<lambda>i cs' val'. i < classCount cs' \<and> val' i = val a - val b)"
proof (rule cm_weaken [OF cm_find [OF assms(1,2), where s = 0]])
  show "args_ok cs (opItem i_SUB) [a, b]" using assms(3,4) by (simp add: args_ok_arith)
  have "isDeterministic (opItem i_SUB)" using arith_items(4) by (simp add: opaque_item_def)
  then show "i < classCount cs' \<and>
      (isDeterministic (opItem i_SUB) \<longrightarrow> val' i = item_sem env (opItem i_SUB) (map val [a, b]) 0) \<Longrightarrow>
    i < classCount cs' \<and> val' i = val a - val b" for i cs' val'
    by (simp add: arith_items)
qed simp

text \<open>A query of the result of a \<open>find\<close> that changes no class.\<close>

lemma cm_total_query:
  assumes "cm_total (\<lambda>n. cmFind n it args s) env q cs val P"
    and "\<And>i cs' val'. classes_ok env q cs' val' \<Longrightarrow> P i cs' val' \<Longrightarrow>
      \<exists>a. g i cs' = Inr (a, cs') \<and> Q a cs' val'"
  shows "cm_total (\<lambda>n cs. map_option (\<lambda>r. bindE r (\<lambda>(i, cs'). g i cs')) (findF n cs it args s))
    env q cs val Q"
proof -
  obtain n\<^sub>0 i cs' val' where 1: "\<forall>n > n\<^sub>0. findF n cs it args s = Some (Inr (i, cs'))"
    "classes_ok env q cs' val'" "extends cs val cs' val'" "P i cs' val'"
    using assms(1) unfolding cm_total_def cmFind_def by blast
  obtain a where "g i cs' = Inr (a, cs')" "Q a cs' val'" using assms(2) [OF 1(2,4)] by blast
  with 1 show ?thesis unfolding cm_total_def by (intro exI conjI) auto
qed

lemma cm_differentBy32:
  assumes "env_ok env" and "classes_ok env q cs val" and "a < classCount cs" and "b < classCount cs"
  shows "cm_total (\<lambda>n. cmDifferentBy32 n a b) env q cs val
    (\<lambda>d cs' val'. d \<longrightarrow> (\<forall>j < 32. \<forall>k < 32. val a + j \<noteq> val b + k))"
  unfolding cmDifferentBy32_def [abs_def] knownToBeDifferentBy32F_def
proof (rule cm_total_query [OF cm_sub [OF assms]])
  fix i cs' val'
  assume ok: "classes_ok env q cs' val'" and i: "i < classCount cs' \<and> val' i = val a - val b"
  have r: "reachable cs'" "models env cs' val'" using ok by (simp_all add: classes_ok_def)
  have window: "val a + j \<noteq> val b + k" if "62 < val a - val b + 31" "j < 32" "k < 32" for j k
    using word_window [OF _ that(2,3)] that(1) by blast
  show "\<exists>d. bindE (knownConstant cs' i)
      (\<lambda>v. Inr (case v of Some d \<Rightarrow> d + 31 > 62 | None \<Rightarrow> False, cs')) = Inr (d, cs') \<and>
      (d \<longrightarrow> (\<forall>j < 32. \<forall>k < 32. val a + j \<noteq> val b + k))"
    using knownConstant_eq [OF reachable_sane [OF r(1)], of i] i
      push_value [OF reachable_sane [OF r(1)] r(2), of i] window
    by (cases "m_type (e_item (m_representatives cs' ! i)) = Push") auto
qed

lemma cm_nonZero:
  assumes "env_ok env" and "classes_ok env q cs val" and "c < classCount cs"
  shows "cm_total (\<lambda>n cs. knownNonZeroF n cs c) env q cs val (\<lambda>d cs' val'. d \<longrightarrow> val c \<noteq> 0)"
  unfolding knownNonZeroF_def
proof (rule cm_total_query [OF cm_find [OF assms(1,2)]])
  show "args_ok cs (opItem i_ISZERO) [c]" using assms(3) by (simp add: args_ok_arith)
  have det: "isDeterministic (opItem i_ISZERO)" using arith_items(3) by (simp add: opaque_item_def)
  fix i cs1 v1
  assume ok: "classes_ok env q cs1 v1" and "i < classCount cs1 \<and> (isDeterministic (opItem i_ISZERO) \<longrightarrow>
    v1 i = item_sem env (opItem i_ISZERO) (map val [c]) 0)"
  then have i: "i < classCount cs1" "v1 i = (if val c = 0 then 1 else 0)"
    using det by (simp_all add: arith_items)
  have r: "reachable cs1" "models env cs1 v1" using ok by (simp_all add: classes_ok_def)
  show "\<exists>d. bindE (representative cs1 i) (\<lambda>e. bindE (matches (patValue 0) e cs1 Map.empty)
      (\<lambda>(ok, mg). Inr (ok, cs1))) = Inr (d, cs1) \<and> (d \<longrightarrow> val c \<noteq> 0)"
    using i push_value [OF reachable_sane [OF r(1)] r(2) i(1)]
      sane_representative(1) [OF reachable_sane [OF r(1)] i(1)]
    by (auto simp: matches_patValue)
qed simp

lemma cm_zero:
  assumes "classes_ok env q cs val" and "c < classCount cs"
  shows "cm_total (\<lambda>n. cmQuery (\<lambda>cs. knownZero cs c)) env q cs val (\<lambda>d cs' val'. d \<longrightarrow> val c = 0)"
proof -
  have r: "reachable cs" "models env cs val" using assms(1) by (simp_all add: classes_ok_def)
  obtain d where d: "knownZero cs c = Inr d"
    using sane_representative(1) [OF reachable_sane [OF r(1)] assms(2)]
    by (auto simp: knownZero_def matches_patValue)
  have "d \<longrightarrow> val c = 0" using knownZero_sound [OF r(1) _ r(2), of c] d by (cases d) simp_all
  then show ?thesis
    unfolding cm_total_def using assms(1) d extends_refl by (auto simp: cmQuery_def intro!: exI)
qed

lemma cm_different:
  assumes "env_ok env" and "classes_ok env q cs val" and "a < classCount cs" and "b < classCount cs"
  shows "cm_total (\<lambda>n. cmDifferent n a b) env q cs val (\<lambda>d cs' val'. d \<longrightarrow> val a \<noteq> val b)"
proof -
  have eq: "cmDifferent n a b =
      cmBind (cmFind n (opItem i_SUB) [a, b] 0) (\<lambda>i cs. knownNonZeroF n cs i)" for n
    by (auto simp: cmDifferent_def knownToBeDifferentF_def cmBind_def cmFind_def fun_eq_iff
        split: option.splits sum.splits)
  show ?thesis
    unfolding eq
    by (rule cm_bind [OF cm_sub [OF assms]], rule cm_weaken [OF cm_nonZero [OF assms(1)]]) auto
qed

end
