(* ===== verification/KnownStateSound.thy ===== *)
theory KnownStateSound
  imports SymbolicClasses
begin

section \<open>Symbolic stack, storage and memory\<close>

text \<open>
  The laws of the machine that the analysis relies on, and the correctness of the operations
  of \<open>KnownState\<close> on the stack elements and on the contents of storage and memory. The next
  theory puts them together for \<open>feedItem\<close>.
\<close>

subsection \<open>Laws of the machine\<close>

definition sload :: "'w evm \<Rightarrow> u256 \<Rightarrow> 'w \<Rightarrow> u256" where
  "sload E a w = ev_read E i_SLOAD [a] w"

definition mload :: "'w evm \<Rightarrow> u256 \<Rightarrow> 'w \<Rightarrow> u256" where
  "mload E a w = hd (fst (ev_write E i_MLOAD [a] w))"

text \<open>Opcodes whose result does not change during the execution of a contract.\<close>

definition constant_reads :: "instruction list" where
  "constant_reads =
     [i_ADDRESS, i_ORIGIN, i_CALLER, i_CALLVALUE, i_CALLDATALOAD, i_CALLDATASIZE, i_CODESIZE,
      i_GASPRICE, i_BLOCKHASH, i_COINBASE, i_TIMESTAMP, i_NUMBER, i_DIFFICULTY, i_GASLIMIT,
      i_ETHASH]"

definition evm_laws :: "'w evm \<Rightarrow> bool" where
  "evm_laws E \<longleftrightarrow>
     (\<forall>i as w. isValidInstruction i \<longrightarrow>
        length (fst (ev_write E i as w)) = nat (info_ret (instructionInfo i))) \<and>
     (\<forall>i as j bs w. i \<in> set constant_reads \<longrightarrow>
        ev_read E i as (snd (ev_write E j bs w)) = ev_read E i as w) \<and>
     (\<forall>w. addresses_fit (\<lambda>i as. ev_read E i as w)) \<and>
     (\<forall>i as w a. \<not> invalidatesStorage i \<longrightarrow> sload E a (snd (ev_write E i as w)) = sload E a w) \<and>
     (\<forall>i as w a. \<not> invalidatesMemory i \<longrightarrow> mload E a (snd (ev_write E i as w)) = mload E a w) \<and>
     (\<forall>a b v w. sload E b (snd (ev_write E i_SSTORE [a, v] w)) = (if b = a then v else sload E b w)) \<and>
     (\<forall>a v w. mload E a (snd (ev_write E i_MSTORE [a, v] w)) = v) \<and>
     (\<forall>a b v w. (\<forall>j < 32. \<forall>k < 32. b + j \<noteq> a + k) \<longrightarrow>
        mload E b (snd (ev_write E i_MSTORE [a, v] w)) = mload E b w) \<and>
     (\<forall>a b w. mload E b (snd (ev_write E i_MSTORE [a, mload E a w] w)) = mload E b w)"

text \<open>An environment whose operations at sequence number \<open>q\<close> are those of the world \<open>w\<close>.\<close>

definition env_sees :: "'w evm \<Rightarrow> environment \<Rightarrow> nat \<Rightarrow> 'w \<Rightarrow> bool" where
  "env_sees E env q w \<longleftrightarrow>
     (\<forall>a. env_op env i_SLOAD [a] q = sload E a w) \<and>
     (\<forall>a. env_op env i_MLOAD [a] q = mload E a w) \<and>
     (\<forall>i \<in> set constant_reads. \<forall>as. env_op env i as 0 = ev_read E i as w) \<and>
     (\<forall>t d. t \<noteq> UndefinedItem \<longrightarrow> env_push env t d = ev_push E t d)"

definition env_next :: "'w evm \<Rightarrow> environment \<Rightarrow> nat \<Rightarrow> 'w \<Rightarrow> environment" where
  "env_next E env q w = env\<lparr>env_op := (\<lambda>i as s.
     if s = q \<and> i = i_SLOAD then sload E (hd as) w
     else if s = q \<and> i = i_MLOAD then mload E (hd as) w
     else env_op env i as s)\<rparr>"

lemma env_next_ok: "env_ok env \<Longrightarrow> 0 < q \<Longrightarrow> env_ok (env_next E env q w)"
  by (simp add: env_ok_def env_next_def addresses_fit_def)

lemma env_next_agree: "p < q \<Longrightarrow> env_agree p env (env_next E env q w)"
  by (auto simp: env_agree_def env_next_def)

lemma env_next_sees:
  assumes "env_sees E env p w" and "0 < q"
    and "\<And>i as. i \<in> set constant_reads \<Longrightarrow> ev_read E i as w' = ev_read E i as w"
  shows "env_sees E (env_next E env q w') q w'"
  using assms by (auto simp: env_sees_def env_next_def constant_reads_def)

subsection \<open>Maps\<close>

lemma omap_ok_subseq: "subseq qs ps \<Longrightarrow> omap_ok ps \<Longrightarrow> omap_ok qs"
proof (induction rule: list_emb.induct)
  case (list_emb_Cons2 x y xs ys)
  then show ?case using set_mp [OF set_nths_subset] by (auto dest: list_emb_set)
qed simp_all

lemma subseq_mem: "subseq qs ps \<Longrightarrow> p \<in> set qs \<Longrightarrow> p \<in> set ps"
  by (induction rule: list_emb.induct) auto

lemma omap_ok_filter: "omap_ok m \<Longrightarrow> omap_ok (filter P m)"
  by (rule omap_ok_subseq) simp_all

lemma map_of_filter_key: "map_of (filter (\<lambda>p. P (fst p)) m) k = (if P k then map_of m k else None)"
  by (induction m) auto

lemma map_of_mem: "omap_ok m \<Longrightarrow> p \<in> set m \<Longrightarrow> map_of m (fst p) = Some (snd p)"
  by (metis omap_ok_distinct map_of_is_SomeI prod.collapse)

subsection \<open>The stack\<close>

text \<open>
  \<open>stk\<close> is the concrete stack, top first; the element at height \<open>h\<close> is at depth \<open>H - h\<close>.
  \<open>b\<close> is the number of elements that were there at height 0; an element without a class has
  its initial value, and is not above height 0.
\<close>

definition stack_ok :: "(u256 \<Rightarrow> u256) \<Rightarrow> int \<Rightarrow> nat \<Rightarrow> (Id \<Rightarrow> u256) \<Rightarrow> int \<Rightarrow> (int \<times> Id) list \<Rightarrow>
    u256 list \<Rightarrow> bool" where
  "stack_ok S b n val H els stk \<longleftrightarrow>
     omap_ok els \<and> int (length stk) = H + b \<and>
     (\<forall>p \<in> set els. - b < fst p \<and> fst p \<le> H \<and> snd p < n) \<and>
     (\<forall>h. 0 < h \<and> h \<le> H \<longrightarrow> map_of els h \<noteq> None) \<and>
     (\<forall>h. - b < h \<and> h \<le> H \<longrightarrow>
        stk ! nat (H - h) = (case map_of els h of Some c \<Rightarrow> val c | None \<Rightarrow> S (word_of_int h)))"

lemma map_of_in: "map_of m k = Some v \<Longrightarrow> (k, v) \<in> set m"
  by (rule map_of_SomeD)

lemma stack_ok_extends:
  assumes "stack_ok S b (classCount cs) val H els stk" and "extends cs val cs' val'"
  shows "stack_ok S b (classCount cs') val' H els stk"
  using assms unfolding stack_ok_def extends_def
  by (auto dest!: map_of_in split: option.splits)

lemma stack_put:
  assumes "stack_ok S b n val H els stk" and "- b < h" and "h \<le> H" and "c < n"
  shows "stack_ok S b n val H (omap_put h c els) (stk[nat (H - h) := val c])"
  unfolding stack_ok_def
proof (intro conjI ballI allI impI)
  note a = assms(1) [unfolded stack_ok_def]
  show "omap_ok (omap_put h c els)" using a by (simp add: omap_ok_put)
  show "int (length (stk[nat (H - h) := val c])) = H + b" using a by simp
  show "- b < fst p" "fst p \<le> H" "snd p < n" if "p \<in> set (omap_put h c els)" for p
    using that set_omap_put [of h c els] a assms(2-4) by fastforce+
  show "map_of (omap_put h c els) k \<noteq> None" if "0 < k \<and> k \<le> H" for k
    using that a by simp
  show "(stk[nat (H - h) := val c]) ! nat (H - k) =
      (case map_of (omap_put h c els) k of Some c \<Rightarrow> val c | None \<Rightarrow> S (word_of_int k))"
    if "- b < k \<and> k \<le> H" for k
    using that a assms(2,3) by (auto simp: nth_list_update nat_eq_iff)
qed

lemma stack_drop:
  assumes "stack_ok S b n val H els stk" and "k \<le> length stk"
  shows "stack_ok S b n val (H - int k) (filter (\<lambda>p. fst p \<le> H - int k) els) (drop k stk)"
  unfolding stack_ok_def
proof (intro conjI ballI allI impI)
  note a = assms(1) [unfolded stack_ok_def]
  show "omap_ok (filter (\<lambda>p. fst p \<le> H - int k) els)" using a by (simp add: omap_ok_filter)
  show "int (length (drop k stk)) = H - int k + b" using a assms(2) by simp
  show "- b < fst p" "fst p \<le> H - int k" "snd p < n" if "p \<in> set (filter (\<lambda>p. fst p \<le> H - int k) els)" for p
    using that a by auto
  show "map_of (filter (\<lambda>p. fst p \<le> H - int k) els) h \<noteq> None" if "0 < h \<and> h \<le> H - int k" for h
    using that a by (simp add: map_of_filter_key [of "\<lambda>h. h \<le> H - int k"])
  show "drop k stk ! nat (H - int k - h) =
      (case map_of (filter (\<lambda>p. fst p \<le> H - int k) els) h of Some c \<Rightarrow> val c | None \<Rightarrow> S (word_of_int h))"
    if "- b < h \<and> h \<le> H - int k" for h
  proof -
    have "drop k stk ! nat (H - int k - h) = stk ! (k + nat (H - int k - h))"
      using assms(2) by simp
    also have "k + nat (H - int k - h) = nat (H - h)" using that by linarith
    finally show ?thesis
      using a that by (simp add: map_of_filter_key [of "\<lambda>h. h \<le> H - int k"])
  qed
qed

lemma stack_cons:
  assumes "stack_ok S b n val H els stk" and "c < n"
  shows "stack_ok S b n val (H + 1) (omap_put (H + 1) c els) (val c # stk)"
  unfolding stack_ok_def
proof (intro conjI ballI allI impI)
  note a = assms(1) [unfolded stack_ok_def]
  show "omap_ok (omap_put (H + 1) c els)" using a by (simp add: omap_ok_put)
  show "int (length (val c # stk)) = H + 1 + b" using a by simp
  show "- b < fst p" "fst p \<le> H + 1" "snd p < n" if "p \<in> set (omap_put (H + 1) c els)" for p
    using that set_omap_put [of "H + 1" c els] a assms(2) by fastforce+
  show "map_of (omap_put (H + 1) c els) h \<noteq> None" if "0 < h \<and> h \<le> H + 1" for h
    using that a by (cases "h = H + 1") simp_all
  show "(val c # stk) ! nat (H + 1 - h) =
      (case map_of (omap_put (H + 1) c els) h of Some c \<Rightarrow> val c | None \<Rightarrow> S (word_of_int h))"
    if "- b < h \<and> h \<le> H + 1" for h
  proof (cases "h = H + 1")
    case False
    then have "nat (H + 1 - h) = Suc (nat (H - h))" using that by linarith
    then show ?thesis using a that False by simp
  qed (use a in simp)
qed

lemma filter_put:
  "filter (\<lambda>p. fst p \<le> x) (omap_put x c m) = omap_put x c (filter (\<lambda>p. fst p \<le> x - 1) m)"
  if "omap_ok m" for x :: int
  using that
proof (induction x c m rule: omap_put.induct)
  case (2 k v k' v' m)
  have tail: "filter (\<lambda>p. fst p \<le> k) m = []" if "k < k' \<or> k = k'"
    using that 2(2) by (fastforce simp: filter_empty_conv)
  have tail': "filter (\<lambda>p. fst p \<le> k - 1) m = []" if "k \<le> k'"
    using that 2(2) by (fastforce simp: filter_empty_conv)
  show ?case using 2 tail tail' by auto
qed simp

lemma stack_result:
  assumes "stack_ok S b n val H els stk" and "k \<le> length stk" and "c < n"
  shows "stack_ok S b n val (H + (1 - int k))
    (filter (\<lambda>p. fst p \<le> H + (1 - int k)) (omap_put (H + (1 - int k)) c els)) (val c # drop k stk)"
proof -
  have eq: "H + (1 - int k) = H - int k + 1" "H + (1 - int k) - 1 = H - int k" by simp_all
  show ?thesis
    using stack_cons [OF stack_drop [OF assms(1,2)] assms(3)] assms(1)
    unfolding eq by (subst filter_put) (simp_all add: stack_ok_def eq)
qed

subsection \<open>Contents of storage and memory\<close>

definition content_ok :: "nat \<Rightarrow> (Id \<Rightarrow> u256) \<Rightarrow> (u256 \<Rightarrow> u256) \<Rightarrow> (Id \<times> Id) list \<Rightarrow> bool" where
  "content_ok n val f m \<longleftrightarrow>
     omap_ok m \<and> (\<forall>p \<in> set m. fst p < n \<and> snd p < n \<and> f (val (fst p)) = val (snd p))"

lemma content_ok_Nil [simp]: "content_ok n val f []"
  by (simp add: content_ok_def)

lemma content_ok_extends:
  assumes "content_ok (classCount cs) val f m" and "extends cs val cs' val'"
  shows "content_ok (classCount cs') val' f m"
  using assms by (fastforce simp: content_ok_def extends_def)

lemma content_put:
  assumes "content_ok n val f m" and "a < n" and "v < n" and "f (val a) = val v"
  shows "content_ok n val f (omap_put a v m)"
  using assms set_omap_put [of a v m] by (fastforce simp: content_ok_def omap_ok_put)

lemma content_value:
  assumes "content_ok n val f m" and "map_of m a = Some v"
  shows "a < n" and "v < n" and "f (val a) = val v"
  using assms(1) map_of_SomeD [OF assms(2)] by (fastforce simp: content_ok_def)+

subsection \<open>Operations\<close>

lemma args_ok_undefined: "args_ok cs (itemOfType UndefinedItem d l) []"
  by (simp add: args_ok_other)

lemma undefined_value:
  "isDeterministic (itemOfType UndefinedItem d l)"
  "item_sem env (itemOfType UndefinedItem d l) [] s = env_push env UndefinedItem d"
  by (simp_all add: isDeterministic_def item_sem_def)

lemma stackElement_total:
  assumes "env_ok env" and "classes_ok env q cs val"
    and st: "stack_ok (env_push env UndefinedItem) b (classCount cs) val H (ks_stackElements ks) stk"
    and "- b < h" and "h \<le> H"
  shows "cm_total (\<lambda>n. stackElement n h l ks) env q cs val
    (\<lambda>(c, ks') cs' val'. c < classCount cs' \<and> val' c = stk ! nat (H - h) \<and>
       (\<exists>els. ks' = ks\<lparr>ks_stackElements := els\<rparr> \<and>
          stack_ok (env_push env UndefinedItem) b (classCount cs') val' H els stk))"
proof (cases "map_of (ks_stackElements ks) h")
  case (Some c)
  have "c < classCount cs" "val c = stk ! nat (H - h)"
    using st assms(4,5) Some map_of_SomeD [OF Some] by (fastforce simp: stack_ok_def)+
  then show ?thesis
    using st Some by (auto simp: stackElement_def intro!: cm_return assms(2) exI [of _ "ks_stackElements ks"])
next
  case None
  let ?it = "itemOfType UndefinedItem (word_of_int h) l"
  have init: "stk ! nat (H - h) = env_push env UndefinedItem (word_of_int h)"
    using st assms(4,5) None by (simp add: stack_ok_def)
  have step: "cm_total (\<lambda>n. cmReturn (c, ks\<lparr>ks_stackElements := omap_put h c (ks_stackElements ks)\<rparr>)) env q cs' val'
    (\<lambda>(c, ks') cs' val'. c < classCount cs' \<and> val' c = stk ! nat (H - h) \<and>
       (\<exists>els. ks' = ks\<lparr>ks_stackElements := els\<rparr> \<and>
          stack_ok (env_push env UndefinedItem) b (classCount cs') val' H els stk))"
    if "classes_ok env q cs' val'" "extends cs val cs' val'"
      "c < classCount cs' \<and> (isDeterministic ?it \<longrightarrow> val' c = item_sem env ?it (map val []) 0)" for c cs' val'
  proof (rule cm_return [OF that(1)], unfold prod.case, intro conjI exI refl)
    show c: "c < classCount cs'" using that(3) by simp
    show v: "val' c = stk ! nat (H - h)" using that(3) by (simp add: undefined_value init)
    have "stk[nat (H - h) := val' c] = stk" using v by simp
    then show "stack_ok (env_push env UndefinedItem) b (classCount cs') val' H
        (omap_put h c (ks_stackElements ks)) stk"
      using stack_put [OF stack_ok_extends [OF st that(2)] assms(4,5) c] by simp
  qed (rule refl)
  show ?thesis
    unfolding stackElement_def None option.case
    by (rule cm_bind [OF cm_find [OF assms(1,2) args_ok_undefined] step]) simp_all
qed

lemma stackArguments_total:
  assumes "env_ok env"
  shows "classes_ok env q cs val \<Longrightarrow>
    stack_ok (env_push env UndefinedItem) b (classCount cs) val H (ks_stackElements ks) stk \<Longrightarrow>
    int d + int k \<le> int (length stk) \<Longrightarrow>
    cm_total (\<lambda>n. stackArguments n k (H - int d) l ks) env q cs val
    (\<lambda>(as, ks') cs' val'. list_all (\<lambda>a. a < classCount cs') as \<and> map val' as = take k (drop d stk) \<and>
       (\<exists>els. ks' = ks\<lparr>ks_stackElements := els\<rparr> \<and>
          stack_ok (env_push env UndefinedItem) b (classCount cs') val' H els stk))"
proof (induction k arbitrary: d ks cs val)
  case 0
  then show ?case
    by (auto intro!: cm_return exI [of _ "ks_stackElements ks"])
next
  case (Suc k)
  have len: "int (length stk) = H + b" using Suc.prems(2) by (simp add: stack_ok_def)
  have h: "- b < H - int d" "H - int d \<le> H" using Suc.prems(3) len by simp_all
  have take: "take (Suc k) (drop d stk) = stk ! d # take k (drop (Suc d) stk)"
    using Suc.prems(3) by (simp add: Cons_nth_drop_Suc [symmetric])
  have pos: "H - int d - 1 = H - int (Suc d)" by simp
  show ?case
    unfolding stackArguments.simps
  proof (rule cm_bind_pair [OF stackElement_total [OF assms Suc.prems(1,2) h]], elim conjE exE)
    fix a ks1 cs1 v1 els
    assume ok: "classes_ok env q cs1 v1" and a: "a < classCount cs1" "v1 a = stk ! nat (H - (H - int d))"
      and ks1: "ks1 = ks\<lparr>ks_stackElements := els\<rparr>"
      and st: "stack_ok (env_push env UndefinedItem) b (classCount cs1) v1 H els stk"
    have st1: "stack_ok (env_push env UndefinedItem) b (classCount cs1) v1 H (ks_stackElements ks1) stk"
      using st by (simp add: ks1)
    have len1: "int (Suc d) + int k \<le> int (length stk)" using Suc.prems(3) by simp
    show "cm_total (\<lambda>n. cmBind (stackArguments n k (H - int d - 1) l ks1)
        (\<lambda>(as, ks). cmReturn (a # as, ks))) env q cs1 v1
      (\<lambda>(as, ks') cs' val'. list_all (\<lambda>a. a < classCount cs') as \<and> map val' as = take (Suc k) (drop d stk) \<and>
       (\<exists>els. ks' = ks\<lparr>ks_stackElements := els\<rparr> \<and>
          stack_ok (env_push env UndefinedItem) b (classCount cs') val' H els stk))"
      unfolding pos
    proof (rule cm_bind_pair [OF Suc.IH [OF ok st1 len1]], rule cm_return, assumption, unfold prod.case)
      fix as ks' cs2 v2
      assume "extends cs1 v1 cs2 v2"
      then have "a < classCount cs2" "v2 a = stk ! d" using a by (simp_all add: extends_def)
      moreover assume "list_all (\<lambda>a. a < classCount cs2) as \<and> map v2 as = take k (drop (Suc d) stk) \<and>
         (\<exists>els. ks' = ks1\<lparr>ks_stackElements := els\<rparr> \<and>
            stack_ok (env_push env UndefinedItem) b (classCount cs2) v2 H els stk)"
      ultimately show "list_all (\<lambda>a. a < classCount cs2) (a # as) \<and>
         map v2 (a # as) = take (Suc k) (drop d stk) \<and>
         (\<exists>els. ks' = ks\<lparr>ks_stackElements := els\<rparr> \<and>
            stack_ok (env_push env UndefinedItem) b (classCount cs2) v2 H els stk)"
        by (auto simp: take ks1)
    qed
  qed
qed

lemma access_args:
  "args_ok cs (itemOp i_SLOAD l) [a] \<longleftrightarrow> a < classCount cs"
  "args_ok cs (itemOp i_MLOAD l) [a] \<longleftrightarrow> a < classCount cs"
  "args_ok cs (itemOp i_SSTORE l) [a, v] \<longleftrightarrow> a < classCount cs \<and> v < classCount cs"
  "args_ok cs (itemOp i_MSTORE l) [a, v] \<longleftrightarrow> a < classCount cs \<and> v < classCount cs"
  by (simp_all add: args_ok_op instr_table)

lemma load_value:
  "isDeterministic (itemOp i_SLOAD l)" "isDeterministic (itemOp i_MLOAD l)"
  "item_sem env (itemOp i_SLOAD l) [x] q = env_op env i_SLOAD [x] q"
  "item_sem env (itemOp i_MLOAD l) [x] q = env_op env i_MLOAD [x] q"
  by (simp_all add: isDeterministic_def item_sem_def evm_arith_def evm_arith1.simps)

lemma loadFromStorage_total:
  assumes "env_ok env" and "classes_ok env (ks_sequenceNumber ks) cs val" and "slot < classCount cs"
    and ct: "content_ok (classCount cs) val f (ks_storageContent ks)"
    and f: "\<And>a. env_op env i_SLOAD [a] (ks_sequenceNumber ks) = f a"
  shows "cm_total (\<lambda>n. loadFromStorage n slot l ks) env (ks_sequenceNumber ks) cs val
    (\<lambda>(c, ks') cs' val'. c < classCount cs' \<and> val' c = f (val slot) \<and>
       (\<exists>m. ks' = ks\<lparr>ks_storageContent := m\<rparr> \<and> content_ok (classCount cs') val' f m))"
proof (cases "map_of (ks_storageContent ks) slot")
  case (Some v)
  then show ?thesis
    using content_value [OF ct Some] ct
    by (auto simp: loadFromStorage_def intro!: cm_return assms(2) exI [of _ "ks_storageContent ks"])
next
  case None
  show ?thesis
    unfolding loadFromStorage_def None option.case
  proof (rule cm_bind [OF cm_find [OF assms(1,2)]], simp add: access_args assms(3), simp,
      rule cm_return, assumption, unfold prod.case)
    fix c cs' val'
    assume ext: "extends cs val cs' val'" and c: "c < classCount cs' \<and> (isDeterministic (itemOp i_SLOAD l) \<longrightarrow>
      val' c = item_sem env (itemOp i_SLOAD l) (map val [slot]) (ks_sequenceNumber ks))"
    have "slot < classCount cs'" "val' slot = val slot" using ext assms(3) by (simp_all add: extends_def)
    then show "c < classCount cs' \<and> val' c = f (val slot) \<and>
       (\<exists>m. ks\<lparr>ks_storageContent := omap_put slot c (ks_storageContent ks)\<rparr> = ks\<lparr>ks_storageContent := m\<rparr> \<and>
          content_ok (classCount cs') val' f m)"
      using c content_put [OF content_ok_extends [OF ct ext], of slot c]
      by (auto simp: load_value f)
  qed
qed

lemma loadFromMemory_total:
  assumes "env_ok env" and "classes_ok env (ks_sequenceNumber ks) cs val" and "slot < classCount cs"
    and ct: "content_ok (classCount cs) val f (ks_memoryContent ks)"
    and f: "\<And>a. env_op env i_MLOAD [a] (ks_sequenceNumber ks) = f a"
  shows "cm_total (\<lambda>n. loadFromMemory n slot l ks) env (ks_sequenceNumber ks) cs val
    (\<lambda>(c, ks') cs' val'. c < classCount cs' \<and> val' c = f (val slot) \<and>
       (\<exists>m. ks' = ks\<lparr>ks_memoryContent := m\<rparr> \<and> content_ok (classCount cs') val' f m))"
proof (cases "map_of (ks_memoryContent ks) slot")
  case (Some v)
  then show ?thesis
    using content_value [OF ct Some] ct
    by (auto simp: loadFromMemory_def intro!: cm_return assms(2) exI [of _ "ks_memoryContent ks"])
next
  case None
  show ?thesis
    unfolding loadFromMemory_def None option.case
  proof (rule cm_bind [OF cm_find [OF assms(1,2)]], simp add: access_args assms(3), simp,
      rule cm_return, assumption, unfold prod.case)
    fix c cs' val'
    assume ext: "extends cs val cs' val'" and c: "c < classCount cs' \<and> (isDeterministic (itemOp i_MLOAD l) \<longrightarrow>
      val' c = item_sem env (itemOp i_MLOAD l) (map val [slot]) (ks_sequenceNumber ks))"
    have "slot < classCount cs'" "val' slot = val slot" using ext assms(3) by (simp_all add: extends_def)
    then show "c < classCount cs' \<and> val' c = f (val slot) \<and>
       (\<exists>m. ks\<lparr>ks_memoryContent := omap_put slot c (ks_memoryContent ks)\<rparr> = ks\<lparr>ks_memoryContent := m\<rparr> \<and>
          content_ok (classCount cs') val' f m)"
      using c content_put [OF content_ok_extends [OF ct ext], of slot c]
      by (auto simp: load_value f)
  qed
qed

text \<open>What survives a store are entries that the store does not touch.\<close>

lemma retainStorage_total:
  assumes "env_ok env"
  shows "classes_ok env q cs val \<Longrightarrow> slot < classCount cs \<Longrightarrow> list_all (\<lambda>p. fst p < classCount cs) ps \<Longrightarrow>
    cm_total (\<lambda>n. retainStorage n slot v ps) env q cs val
    (\<lambda>qs cs' val'. subseq qs ps \<and> (\<forall>p \<in> set qs. val (fst p) \<noteq> val slot \<or> snd p = v))"
proof (induction ps arbitrary: cs val)
  case (Cons p ps)
  show ?case
    unfolding retainStorage.simps
  proof (rule cm_bind [OF cm_different [OF assms Cons.prems(1)]])
    fix d cs1 v1
    assume ok: "classes_ok env q cs1 v1" and ext: "extends cs val cs1 v1"
      and d: "d \<longrightarrow> val (fst p) \<noteq> val slot"
    have b: "slot < classCount cs1" "list_all (\<lambda>p. fst p < classCount cs1) ps"
      using ext Cons.prems(2,3) by (auto simp: extends_def list_all_iff)
    show "cm_total (\<lambda>n. cmBind (retainStorage n slot v ps)
        (\<lambda>qs. cmReturn (if d \<or> snd p = v then p # qs else qs))) env q cs1 v1
      (\<lambda>qs cs' val'. subseq qs (p # ps) \<and> (\<forall>p \<in> set qs. val (fst p) \<noteq> val slot \<or> snd p = v))"
    proof (rule cm_bind [OF Cons.IH [OF ok b]], rule cm_return, assumption)
      fix qs
      assume qs: "subseq qs ps \<and> (\<forall>p \<in> set qs. v1 (fst p) \<noteq> v1 slot \<or> snd p = v)"
      have "v1 (fst p) = val (fst p)" if "p \<in> set qs" for p
        using subseq_mem [of qs ps p] that qs ext Cons.prems(3) by (simp add: extends_def list_all_iff)
      moreover have "v1 slot = val slot" using ext Cons.prems(2) by (simp add: extends_def)
      ultimately show "subseq (if d \<or> snd p = v then p # qs else qs) (p # ps) \<and>
        (\<forall>p \<in> set (if d \<or> snd p = v then p # qs else qs). val (fst p) \<noteq> val slot \<or> snd p = v)"
        using d qs by auto
    qed
  qed (use Cons.prems in simp_all)
qed (simp add: cm_return)

lemma retainMemory_total:
  assumes "env_ok env"
  shows "classes_ok env q cs val \<Longrightarrow> slot < classCount cs \<Longrightarrow> list_all (\<lambda>p. fst p < classCount cs) ps \<Longrightarrow>
    cm_total (\<lambda>n. retainMemory n slot ps) env q cs val
    (\<lambda>qs cs' val'. subseq qs ps \<and>
       (\<forall>p \<in> set qs. \<forall>j < 32. \<forall>k < 32. val (fst p) + j \<noteq> val slot + k))"
proof (induction ps arbitrary: cs val)
  case (Cons p ps)
  show ?case
    unfolding retainMemory.simps
  proof (rule cm_bind [OF cm_differentBy32 [OF assms Cons.prems(1)]])
    fix d cs1 v1
    assume ok: "classes_ok env q cs1 v1" and ext: "extends cs val cs1 v1"
      and d: "d \<longrightarrow> (\<forall>j < 32. \<forall>k < 32. val (fst p) + j \<noteq> val slot + k)"
    have b: "slot < classCount cs1" "list_all (\<lambda>p. fst p < classCount cs1) ps"
      using ext Cons.prems(2,3) by (auto simp: extends_def list_all_iff)
    show "cm_total (\<lambda>n. cmBind (retainMemory n slot ps)
        (\<lambda>qs. cmReturn (if d then p # qs else qs))) env q cs1 v1
      (\<lambda>qs cs' val'. subseq qs (p # ps) \<and>
         (\<forall>p \<in> set qs. \<forall>j < 32. \<forall>k < 32. val (fst p) + j \<noteq> val slot + k))"
    proof (rule cm_bind [OF Cons.IH [OF ok b]], rule cm_return, assumption)
      fix qs
      assume qs: "subseq qs ps \<and> (\<forall>p \<in> set qs. \<forall>j < 32. \<forall>k < 32. v1 (fst p) + j \<noteq> v1 slot + k)"
      have "v1 (fst p) = val (fst p)" if "p \<in> set qs" for p
        using subseq_mem [of qs ps p] that qs ext Cons.prems(3) by (simp add: extends_def list_all_iff)
      moreover have "v1 slot = val slot" using ext Cons.prems(2) by (simp add: extends_def)
      ultimately show "subseq (if d then p # qs else qs) (p # ps) \<and>
        (\<forall>p \<in> set (if d then p # qs else qs). \<forall>j < 32. \<forall>k < 32. val (fst p) + j \<noteq> val slot + k)"
        using d qs by auto
    qed
  qed (use Cons.prems in simp_all)
qed (simp add: cm_return)

text \<open>
  A store leaves the sequence number as it is when the value is known to be there already;
  otherwise it takes two, one for the write and one for what is read after it.
\<close>

definition seq_step :: "nat \<Rightarrow> nat \<Rightarrow> ExpressionClasses \<Rightarrow> bool \<Rightarrow> bool" where
  "seq_step q s cs unchanged \<longleftrightarrow> s = q \<and> seqs_le q cs \<and> unchanged \<or> s = q + 2"

lemma classes_ok_mono: "classes_ok env q cs val \<Longrightarrow> q \<le> r \<Longrightarrow> classes_ok env r cs val"
  using classes_ok_later [of env q cs val r env] by (simp add: env_agree_def)

lemma storeInStorage_total:
  assumes "env_ok env" and q: "q = ks_sequenceNumber ks" and "classes_ok env q cs val"
    and "slot < classCount cs" and "v < classCount cs"
    and ct: "content_ok (classCount cs) val f (ks_storageContent ks)"
    and f': "f' = f(val slot := val v)"
  shows "cm_total (\<lambda>n. storeInStorage n slot v l ks) env (q + 1) cs val
    (\<lambda>(op, ks') cs' val'. \<exists>m s. ks' = ks\<lparr>ks_storageContent := m, ks_sequenceNumber := s\<rparr> \<and>
       content_ok (classCount cs') val' f' m \<and> seq_step q s cs' (f' = f))"
proof (cases "map_of (ks_storageContent ks) slot = Some v")
  case True
  have "f' = f" using content_value(3) [OF ct True] by (auto simp: f')
  then show ?thesis
    using True ct assms(3) classes_ok_mono [OF assms(3)]
    by (auto simp: storeInStorage_def seq_step_def q classes_ok_def
        intro!: cm_return exI [of _ "ks_storageContent ks"] exI [of _ "ks_sequenceNumber ks"])
next
  case False
  have keys: "list_all (\<lambda>p. fst p < classCount cs) (ks_storageContent ks)"
    using ct by (simp add: content_ok_def list_all_iff)
  show ?thesis
    unfolding storeInStorage_def if_not_P [OF False] Let_def
  proof (rule cm_bind [OF retainStorage_total [OF assms(1,3,4) keys]])
    fix m cs1 v1
    assume ok: "classes_ok env q cs1 v1" and ext: "extends cs val cs1 v1"
      and m: "subseq m (ks_storageContent ks) \<and> (\<forall>p \<in> set m. val (fst p) \<noteq> val slot \<or> snd p = v)"
    have b: "slot < classCount cs1" "v < classCount cs1" "v1 slot = val slot" "v1 v = val v"
      using ext assms(4,5) by (simp_all add: extends_def)
    have ct1: "content_ok (classCount cs1) v1 f' m"
      using subseq_mem [of m "ks_storageContent ks"] m content_ok_extends [OF ct ext] b
        omap_ok_subseq [of m "ks_storageContent ks"]
        ct ext by (auto simp: content_ok_def f' extends_def)
    show "cm_total (\<lambda>n. cmBind (cmFind n (itemOp i_SSTORE l) [slot, v] (ks_sequenceNumber ks + 1)) (\<lambda>i.
        cmReturn (\<lparr>so_target = Storage, so_slot = slot, so_sequenceNumber = ks_sequenceNumber ks + 1,
             so_expression = i\<rparr>,
           ks\<lparr>ks_storageContent := omap_put slot v m, ks_sequenceNumber := ks_sequenceNumber ks + 1 + 1\<rparr>)))
        env (q + 1) cs1 v1
      (\<lambda>(op, ks') cs' val'. \<exists>m s. ks' = ks\<lparr>ks_storageContent := m, ks_sequenceNumber := s\<rparr> \<and>
         content_ok (classCount cs') val' f' m \<and> seq_step q s cs' (f' = f))"
    proof (rule cm_bind [OF cm_find [OF assms(1) classes_ok_mono [OF ok, of "q + 1"]]])
      show "args_ok cs1 (itemOp i_SSTORE l) [slot, v]" using b by (simp add: access_args)
      fix i cs2 v2
      assume ok2: "classes_ok env (q + 1) cs2 v2" and ext2: "extends cs1 v1 cs2 v2"
      have b2: "slot < classCount cs2" "v < classCount cs2" "f' (v2 slot) = v2 v"
        using ext2 b by (simp_all add: extends_def f')
      have "content_ok (classCount cs2) v2 f' (omap_put slot v m)"
        by (rule content_put [OF content_ok_extends [OF ct1 ext2] b2])
      then show "cm_total (\<lambda>n. cmReturn (\<lparr>so_target = Storage, so_slot = slot,
            so_sequenceNumber = ks_sequenceNumber ks + 1, so_expression = i\<rparr>,
          ks\<lparr>ks_storageContent := omap_put slot v m, ks_sequenceNumber := ks_sequenceNumber ks + 1 + 1\<rparr>))
        env (q + 1) cs2 v2
        (\<lambda>(op, ks') cs' val'. \<exists>m s. ks' = ks\<lparr>ks_storageContent := m, ks_sequenceNumber := s\<rparr> \<and>
           content_ok (classCount cs') val' f' m \<and> seq_step q s cs' (f' = f))"
        by (intro cm_return [OF ok2]) (auto simp: seq_step_def q)
    qed (simp_all add: q)
  qed
qed

lemma storeInMemory_total:
  assumes "env_ok env" and q: "q = ks_sequenceNumber ks" and "classes_ok env q cs val"
    and "slot < classCount cs" and "v < classCount cs"
    and ct: "content_ok (classCount cs) val f (ks_memoryContent ks)"
    and f': "f' (val slot) = val v"
      "\<And>a. (\<forall>j < 32. \<forall>k < 32. a + j \<noteq> val slot + k) \<Longrightarrow> f' a = f a"
      "f (val slot) = val v \<Longrightarrow> f' = f"
  shows "cm_total (\<lambda>n. storeInMemory n slot v l ks) env (q + 1) cs val
    (\<lambda>(op, ks') cs' val'. \<exists>m s. ks' = ks\<lparr>ks_memoryContent := m, ks_sequenceNumber := s\<rparr> \<and>
       content_ok (classCount cs') val' f' m \<and> seq_step q s cs' (f' = f))"
proof (cases "map_of (ks_memoryContent ks) slot = Some v")
  case True
  have "f' = f" using content_value(3) [OF ct True] by (rule f'(3))
  then show ?thesis
    using True ct assms(3) classes_ok_mono [OF assms(3)]
    by (auto simp: storeInMemory_def seq_step_def q classes_ok_def
        intro!: cm_return exI [of _ "ks_memoryContent ks"] exI [of _ "ks_sequenceNumber ks"])
next
  case False
  have keys: "list_all (\<lambda>p. fst p < classCount cs) (ks_memoryContent ks)"
    using ct by (simp add: content_ok_def list_all_iff)
  show ?thesis
    unfolding storeInMemory_def if_not_P [OF False] Let_def
  proof (rule cm_bind [OF retainMemory_total [OF assms(1,3,4) keys]])
    fix m cs1 v1
    assume ok: "classes_ok env q cs1 v1" and ext: "extends cs val cs1 v1"
      and m: "subseq m (ks_memoryContent ks) \<and>
        (\<forall>p \<in> set m. \<forall>j < 32. \<forall>k < 32. val (fst p) + j \<noteq> val slot + k)"
    have b: "slot < classCount cs1" "v < classCount cs1" "v1 slot = val slot" "v1 v = val v"
      using ext assms(4,5) by (simp_all add: extends_def)
    have "f' (v1 (fst p)) = v1 (snd p)" if "p \<in> set m" for p
    proof -
      have p: "p \<in> set (ks_memoryContent ks)" by (rule subseq_mem [OF conjunct1 [OF m] that])
      then have "f (val (fst p)) = val (snd p)" "v1 (fst p) = val (fst p)" "v1 (snd p) = val (snd p)"
        using ct ext by (auto simp: content_ok_def extends_def)
      moreover have "f' (val (fst p)) = f (val (fst p))" by (rule f'(2)) (use m that in blast)
      ultimately show ?thesis by simp
    qed
    then have ct1: "content_ok (classCount cs1) v1 f' m"
      using subseq_mem [of m "ks_memoryContent ks"] m content_ok_extends [OF ct ext]
        omap_ok_subseq [of m "ks_memoryContent ks"] by (simp add: content_ok_def)
    show "cm_total (\<lambda>n. cmBind (cmFind n (itemOp i_MSTORE l) [slot, v] (ks_sequenceNumber ks + 1)) (\<lambda>i.
        cmReturn (\<lparr>so_target = Memory, so_slot = slot, so_sequenceNumber = ks_sequenceNumber ks + 1,
             so_expression = i\<rparr>,
           ks\<lparr>ks_memoryContent := omap_put slot v m, ks_sequenceNumber := ks_sequenceNumber ks + 1 + 1\<rparr>)))
        env (q + 1) cs1 v1
      (\<lambda>(op, ks') cs' val'. \<exists>m s. ks' = ks\<lparr>ks_memoryContent := m, ks_sequenceNumber := s\<rparr> \<and>
         content_ok (classCount cs') val' f' m \<and> seq_step q s cs' (f' = f))"
    proof (rule cm_bind [OF cm_find [OF assms(1) classes_ok_mono [OF ok, of "q + 1"]]])
      show "args_ok cs1 (itemOp i_MSTORE l) [slot, v]" using b by (simp add: access_args)
      fix i cs2 v2
      assume ok2: "classes_ok env (q + 1) cs2 v2" and ext2: "extends cs1 v1 cs2 v2"
      have b2: "slot < classCount cs2" "v < classCount cs2" "f' (v2 slot) = v2 v"
        using ext2 b f'(1) by (simp_all add: extends_def)
      have "content_ok (classCount cs2) v2 f' (omap_put slot v m)"
        by (rule content_put [OF content_ok_extends [OF ct1 ext2] b2])
      then show "cm_total (\<lambda>n. cmReturn (\<lparr>so_target = Memory, so_slot = slot,
            so_sequenceNumber = ks_sequenceNumber ks + 1, so_expression = i\<rparr>,
          ks\<lparr>ks_memoryContent := omap_put slot v m, ks_sequenceNumber := ks_sequenceNumber ks + 1 + 1\<rparr>))
        env (q + 1) cs2 v2
        (\<lambda>(op, ks') cs' val'. \<exists>m s. ks' = ks\<lparr>ks_memoryContent := m, ks_sequenceNumber := s\<rparr> \<and>
           content_ok (classCount cs') val' f' m \<and> seq_step q s cs' (f' = f))"
        by (intro cm_return [OF ok2]) (auto simp: seq_step_def q)
    qed (simp_all add: q)
  qed
qed

subsection \<open>One operation of the machine\<close>

text \<open>The state after an item that does not halt.\<close>

definition after :: "'w step \<Rightarrow> u256 list \<Rightarrow> 'w \<Rightarrow> bool" where
  "after r stk w \<longleftrightarrow> r = Next stk w \<or> (\<exists>v. r = JumpTo v stk w)"

text \<open>What the instruction table says of an opcode, as the symbolic execution needs it.\<close>

definition opcode_facts :: "instruction \<Rightarrow> InstructionInfo \<Rightarrow> bool" where
  "opcode_facts i x \<longleftrightarrow>
     0 \<le> info_args x \<and>
     (isDupInstruction i \<or> isSwapInstruction i \<or> isPushInstruction i \<or>
        (info_ret x = 0 \<or>
         info_ret x = 1 \<and>
           (i \<in> set evm_ariths \<or> i \<in> set constant_reads \<or> i = i_SLOAD \<or> i = i_MLOAD \<or> i = i_KECCAK256 \<or>
            \<not> isDeterministic (opItem i)))) \<and>
     (i \<in> set evm_ariths \<or> i \<in> set evm_reads \<longrightarrow>
        info_ret x = 1 \<and> \<not> isDupInstruction i \<and> \<not> isSwapInstruction i) \<and>
     (i = i_JUMP \<or> i = i_JUMPI \<or> i = i_JUMPDEST \<or> i = i_POP \<longrightarrow> info_ret x = 0) \<and>
     (i \<in> set constant_reads \<longrightarrow> i \<in> set evm_reads \<and> i \<notin> set evm_ariths)"

lemma opcode_facts: "isValidInstruction i \<Longrightarrow> opcode_facts i (instructionInfo i)"
proof (rule instructionInfo_rows)
  show "list_all (\<lambda>(i, x). opcode_facts i x) c_instructionInfo"
    by (simp add: c_instructionInfo_def instr_class opcode_facts_def evm_ariths_def constant_reads_def
        evm_reads_def isDeterministic_def)
qed

lemma evm_arith_operation: "evm_arith i as = Some v \<Longrightarrow> i \<in> set evm_ariths"
  by (auto simp: evm_arith_def evm_ariths_def evm_arith1.simps evm_arith2.simps evm_arith3.simps
      split: if_splits list.splits)

lemma exec_op_valid:
  assumes "after (exec_op E i stk w) stk' w'"
  shows "isValidInstruction i" and "nat (info_args (instructionInfo i)) \<le> length stk"
    and "\<not> isPushInstruction i"
    and "w' = w \<or> w' = snd (ev_write E i (take (nat (info_args (instructionInfo i))) stk) w)"
  using assms
  by (auto simp: after_def exec_op_def Let_def split: if_splits option.splits prod.splits)

text \<open>What an operation leaves as it was.\<close>

lemma exec_op_world:
  assumes "evm_laws E" and "after (exec_op E i stk w) stk' w'"
  shows "j \<in> set constant_reads \<Longrightarrow> ev_read E j as w' = ev_read E j as w"
    and "\<not> invalidatesStorage i \<Longrightarrow> sload E a w' = sload E a w"
    and "\<not> invalidatesMemory i \<Longrightarrow> mload E a w' = mload E a w"
  using exec_op_valid(4) [OF assms(2)] assms(1) unfolding evm_laws_def by metis+

lemma exec_op_result:
  assumes "evm_laws E" and "after (exec_op E i stk w) stk' w'" and "env_sees E env q w"
    and it: "m_type it = Operation" "m_instruction it = i"
    and i: "\<not> isDupInstruction i" "\<not> isSwapInstruction i" "i \<notin> {i_SLOAD, i_MLOAD, i_KECCAK256}"
  obtains (none) "info_ret (instructionInfo i) = 0"
      "stk' = drop (nat (info_args (instructionInfo i))) stk"
    | (one) x where "info_ret (instructionInfo i) = 1"
      "stk' = x # drop (nat (info_args (instructionInfo i))) stk"
      "isDeterministic it \<Longrightarrow> x = item_sem env it (take (nat (info_args (instructionInfo i))) stk) 0"
proof -
  let ?n = "nat (info_args (instructionInfo i))"
  note v = exec_op_valid [OF assms(2)]
  note facts = opcode_facts [OF v(1), unfolded opcode_facts_def]
  have det: "isDeterministic it = isDeterministic (opItem i)"
    using it by (simp add: isDeterministic_def)
  have len: "length (take ?n stk) = ?n" using v(2) by simp
  consider (plain) "i = i_POP \<or> i = i_JUMPDEST \<or> i = i_JUMP \<or> i = i_JUMPI"
    | (arith) x where "evm_arith i (take ?n stk) = Some x" "i \<in> set evm_ariths" "stk' = x # drop ?n stk"
    | (query) "i \<in> set evm_reads" "evm_arith i (take ?n stk) = None"
        "stk' = ev_read E i (take ?n stk) w # drop ?n stk"
    | (other) "i \<notin> set evm_reads" "evm_arith i (take ?n stk) = None"
        "stk' = fst (ev_write E i (take ?n stk) w) @ drop ?n stk"
    using assms(2) i(1,2) v(1-3) evm_arith_operation
    by (auto simp: after_def exec_op_def Let_def split: if_splits option.splits prod.splits)
  then show thesis
  proof cases
    case plain
    then have "stk' = drop ?n stk" "info_ret (instructionInfo i) = 0"
      using assms(2) facts i(1,2) v(1-3)
      by (auto simp: after_def exec_op_def Let_def evm_halts_def split: if_splits)
    then show thesis by (rule none [rotated])
  next
    case (arith x)
    have "x = item_sem env it (take ?n stk) 0" using arith(1) it by (simp add: item_sem_def)
    then show thesis using one [of x] arith facts by blast
  next
    case query
    have ret: "info_ret (instructionInfo i) = 1" using query(1) facts by blast
    have "i \<notin> set evm_ariths" using evm_arith_total [OF _ len] query(2) by blast
    then have "isDeterministic it \<Longrightarrow> i \<in> set constant_reads"
      using facts i ret v(3) det by auto
    then have "isDeterministic it \<Longrightarrow> ev_read E i (take ?n stk) w = item_sem env it (take ?n stk) 0"
      using assms(3) it query(2) by (simp add: item_sem_def env_sees_def)
    then show thesis using one [OF ret query(3)] by blast
  next
    case other
    have na: "i \<notin> set evm_ariths" using evm_arith_total [OF _ len] other(2) by blast
    have l: "length (fst (ev_write E i (take ?n stk) w)) = nat (info_ret (instructionInfo i))"
      using assms(1) v(1) by (simp add: evm_laws_def)
    have nc: "i \<notin> set constant_reads" using facts other(1) by blast
    consider "info_ret (instructionInfo i) = 0" | "info_ret (instructionInfo i) = 1" "\<not> isDeterministic it"
      using facts i v(3) na nc det by auto
    then show thesis
    proof cases
      case 1
      then show thesis using none [OF 1] other(3) l by simp
    next
      case 2
      then obtain x where "fst (ev_write E i (take ?n stk) w) = [x]"
        using l by (auto simp: length_Suc_conv numeral_eq_Suc)
      then show thesis using one [OF 2(1), of x] other(3) 2(2) by simp
    qed
  qed
qed

end
