(* ===== verification/KnownStateFeed.thy ===== *)
theory KnownStateFeed
  imports KnownStateSound
begin

section \<open>The knowledge of a known state is true\<close>

text \<open>
  \<open>feedItem\<close> is a sound symbolic execution: when an item takes a machine from one state to
  the next, and what the known state says is true of the first state, then what it says
  after \<open>feedItem\<close> is true of the second. Only the hash instruction is left out, because what
  the code remembers of hashes is wrong; \<open>KnownStateProps\<close> shows how.
\<close>

subsection \<open>Feeding an item\<close>

text \<open>What the known state claims is true of the stack and the world.\<close>

definition state_true :: "'w evm \<Rightarrow> environment \<Rightarrow> int \<Rightarrow> ExpressionClasses \<Rightarrow> (Id \<Rightarrow> u256) \<Rightarrow> KnownState \<Rightarrow>
    u256 list \<Rightarrow> 'w \<Rightarrow> bool" where
  "state_true E env b cs val ks stk w \<longleftrightarrow>
     stack_ok (env_push env UndefinedItem) b (classCount cs) val (ks_stackHeight ks) (ks_stackElements ks) stk \<and>
     content_ok (classCount cs) val (\<lambda>a. sload E a w) (ks_storageContent ks) \<and>
     content_ok (classCount cs) val (\<lambda>a. mload E a w) (ks_memoryContent ks)"

text \<open>The environment up to the current sequence number explains all classes and the world.\<close>

definition explained :: "'w evm \<Rightarrow> environment \<Rightarrow> nat \<Rightarrow> ExpressionClasses \<Rightarrow> (Id \<Rightarrow> u256) \<Rightarrow> 'w \<Rightarrow> bool" where
  "explained E env q cs val w \<longleftrightarrow>
     env_ok env \<and> 0 < q \<and> classes_ok env q cs val \<and> env_sees E env q w"

text \<open>The claim about an operation that takes \<open>stk\<close> and \<open>w\<close> to \<open>stk'\<close> and \<open>w'\<close>.\<close>

definition operation_ok :: "'w evm \<Rightarrow> environment \<Rightarrow> int \<Rightarrow> int \<Rightarrow> KnownState \<Rightarrow> 'w \<Rightarrow> u256 list \<Rightarrow> 'w \<Rightarrow>
    KnownState \<Rightarrow> ExpressionClasses \<Rightarrow> (Id \<Rightarrow> u256) \<Rightarrow> bool" where
  "operation_ok E env b d ks w stk' w' ks' cs' val' \<longleftrightarrow>
     ks_stackHeight ks' = ks_stackHeight ks \<and>
     stack_ok (env_push env UndefinedItem) b (classCount cs') val' (ks_stackHeight ks + d)
       (filter (\<lambda>p. fst p \<le> ks_stackHeight ks + d) (ks_stackElements ks')) stk' \<and>
     content_ok (classCount cs') val' (\<lambda>a. sload E a w') (ks_storageContent ks') \<and>
     content_ok (classCount cs') val' (\<lambda>a. mload E a w') (ks_memoryContent ks') \<and>
     seq_step (ks_sequenceNumber ks) (ks_sequenceNumber ks') cs'
       ((\<lambda>a. sload E a w') = (\<lambda>a. sload E a w) \<and> (\<lambda>a. mload E a w') = (\<lambda>a. mload E a w))"

lemma dup_swap_rows:
  "isDupInstruction i \<Longrightarrow> info_args (instructionInfo i) = uint i - uint i_DUP1 + 1 \<and>
     info_ret (instructionInfo i) = info_args (instructionInfo i) + 1 \<and> 1 \<le> info_args (instructionInfo i)"
  "isSwapInstruction i \<Longrightarrow> info_args (instructionInfo i) = uint i - uint i_SWAP1 + 2 \<and>
     info_ret (instructionInfo i) = info_args (instructionInfo i) \<and> 2 \<le> info_args (instructionInfo i)"
proof -
  have "list_all (\<lambda>(i, x). isDupInstruction i \<longrightarrow> info_args x = uint i - uint i_DUP1 + 1 \<and>
     info_ret x = info_args x + 1 \<and> 1 \<le> info_args x) c_instructionInfo"
    by (simp add: c_instructionInfo_def instr_class)
  from instructionInfo_rows [OF this] family_valid(2)
  show "isDupInstruction i \<Longrightarrow> info_args (instructionInfo i) = uint i - uint i_DUP1 + 1 \<and>
     info_ret (instructionInfo i) = info_args (instructionInfo i) + 1 \<and> 1 \<le> info_args (instructionInfo i)"
    by blast
  have "list_all (\<lambda>(i, x). isSwapInstruction i \<longrightarrow> info_args x = uint i - uint i_SWAP1 + 2 \<and>
     info_ret x = info_args x \<and> 2 \<le> info_args x) c_instructionInfo"
    by (simp add: c_instructionInfo_def instr_class)
  from instructionInfo_rows [OF this] family_valid(3)
  show "isSwapInstruction i \<Longrightarrow> info_args (instructionInfo i) = uint i - uint i_SWAP1 + 2 \<and>
     info_ret (instructionInfo i) = info_args (instructionInfo i) \<and> 2 \<le> info_args (instructionInfo i)"
    by blast
qed

lemma itemIsDup_op: "m_type it = Operation \<Longrightarrow> itemIsDup it = isDupInstruction (m_instruction it)"
  and itemIsSwap_op: "m_type it = Operation \<Longrightarrow> itemIsSwap it = isSwapInstruction (m_instruction it)"
  by (simp_all add: itemIsDup_def itemIsSwap_def)

lemma item_deposit_op:
  "m_type it = Operation \<Longrightarrow> item_deposit it =
     info_ret (instructionInfo (m_instruction it)) - info_args (instructionInfo (m_instruction it))"
  by (simp add: item_deposit_def item_returnValues_def item_arguments_def)

lemma seq_step_same: "classes_ok env q cs val \<Longrightarrow> seq_step q q cs (x = x \<and> y = y)"
  by (simp add: seq_step_def classes_ok_def)

lemma content_ok_later:
  assumes "content_ok (classCount cs) val f m" and "extends cs val cs' val'" and "f' = f"
  shows "content_ok (classCount cs') val' f' m"
  using content_ok_extends [OF assms(1,2)] assms(3) by simp

lemma feed_dup:
  assumes ex: "explained E env (ks_sequenceNumber ks) cs val w" and st: "state_true E env b cs val ks stk w"
    and it: "m_type it = Operation" "isDupInstruction (m_instruction it)"
    and run: "after (exec_op E (m_instruction it) stk w) stk' w'"
  shows "cm_total (\<lambda>n. feedOperation n it ks) env (ks_sequenceNumber ks) cs val
    (\<lambda>(op, ks') cs' val'. operation_ok E env b (item_deposit it) ks w stk' w' ks' cs' val')"
proof -
  let ?i = "m_instruction it" and ?H = "ks_stackHeight ks"
  define n where "n = nat (info_args (instructionInfo ?i))"
  note rows = dup_swap_rows(1) [OF it(2)] and valid = exec_op_valid [OF run]
  have n: "1 \<le> n" "n \<le> length stk" using rows valid(2) unfolding n_def by linarith+
  have args: "info_args (instructionInfo ?i) = int n" using rows by (simp add: n_def)
  have d: "item_deposit it = 1" using item_deposit_op [OF it(1)] rows by simp
  have res: "stk' = stk ! (n - 1) # stk" "w' = w"
    using run it(2) valid(1-3) by (auto simp: after_def exec_op_def Let_def n_def split: if_splits)
  have st': "stack_ok (env_push env UndefinedItem) b (classCount cs) val ?H (ks_stackElements ks) stk"
    using st by (simp add: state_true_def)
  have len: "int (length stk) = ?H + b" using st' by (simp add: stack_ok_def)
  have h: "?H - uint ?i + uint i_DUP1 = ?H - int (n - 1)" using rows args n by simp
  have range: "- b < ?H - int (n - 1)" "?H - int (n - 1) \<le> ?H" using n len by linarith+
  have depth: "nat (?H - (?H - int (n - 1))) = n - 1" by simp
  have dup: "itemIsDup it" using it by (simp add: itemIsDup_op)
  have ok: "env_ok env" "classes_ok env (ks_sequenceNumber ks) cs val" using ex by (simp_all add: explained_def)
  show ?thesis
    unfolding feedOperation_def Let_def if_P [OF dup] h
  proof (rule cm_bind_pair [OF stackElement_total [OF ok st' range]], rule cm_return, assumption,
      unfold prod.case depth, elim conjE exE)
    fix c ks1 cs1 v1 els
    assume ok1: "classes_ok env (ks_sequenceNumber ks) cs1 v1" and ext: "extends cs val cs1 v1"
      and c: "c < classCount cs1" "v1 c = stk ! (n - 1)" and ks1: "ks1 = ks\<lparr>ks_stackElements := els\<rparr>"
      and els: "stack_ok (env_push env UndefinedItem) b (classCount cs1) v1 ?H els stk"
    show "operation_ok E env b (item_deposit it) ks w stk' w' (setStackElement (?H + 1) c ks1) cs1 v1"
      using stack_result [OF els _ c(1), of 0] c(2) st content_ok_extends [OF _ ext] seq_step_same [OF ok1]
      by (simp add: operation_ok_def d res ks1 setStackElement_def state_true_def)
  qed
qed

lemma feed_swap:
  assumes ex: "explained E env (ks_sequenceNumber ks) cs val w" and st: "state_true E env b cs val ks stk w"
    and it: "m_type it = Operation" "isSwapInstruction (m_instruction it)"
    and run: "after (exec_op E (m_instruction it) stk w) stk' w'"
  shows "cm_total (\<lambda>n. feedOperation n it ks) env (ks_sequenceNumber ks) cs val
    (\<lambda>(op, ks') cs' val'. operation_ok E env b (item_deposit it) ks w stk' w' ks' cs' val')"
proof -
  let ?i = "m_instruction it" and ?H = "ks_stackHeight ks" and ?S = "env_push env UndefinedItem"
  define n where "n = nat (info_args (instructionInfo ?i)) - 1"
  note rows = dup_swap_rows(2) [OF it(2)] and valid = exec_op_valid [OF run]
  have n: "1 \<le> n" "n < length stk" using rows valid(2) unfolding n_def by linarith+
  have args: "info_args (instructionInfo ?i) = int n + 1" using rows unfolding n_def by linarith
  have d: "item_deposit it = 0" using item_deposit_op [OF it(1)] rows by simp
  have dup: "\<not> isDupInstruction ?i" using it(2) by (auto simp: instr_class)
  have res: "stk' = stk[0 := stk ! n, n := stk ! 0]" "w' = w"
    using run it(2) valid(1-3) dup by (auto simp: after_def exec_op_def Let_def n_def split: if_splits)
  have st': "stack_ok ?S b (classCount cs) val ?H (ks_stackElements ks) stk"
    using st by (simp add: state_true_def)
  have len: "int (length stk) = ?H + b" using st' by (simp add: stack_ok_def)
  have h: "?H - 1 - uint ?i + uint i_SWAP1 = ?H - int n" using rows args by simp
  have range: "- b < ?H - int n" "?H - int n \<le> ?H" "- b < ?H" using n len by linarith+
  have ne: "?H \<noteq> ?H - int n" using n by simp
  have depth: "nat (?H - (?H - int n)) = n" "nat (?H - ?H) = 0" by simp_all
  have cond: "\<not> itemIsDup it" "itemIsSwap it" using it dup by (simp_all add: itemIsDup_op itemIsSwap_op)
  have ok: "env_ok env" "classes_ok env (ks_sequenceNumber ks) cs val" using ex by (simp_all add: explained_def)
  have swap: "cm_total (\<lambda>n'. swapStackElements n' ?H (?H - int n) (m_location it) ks) env (ks_sequenceNumber ks) cs val
     (\<lambda>ks' cs' val'. operation_ok E env b (item_deposit it) ks w stk' w' ks' cs' val')"
    unfolding swapStackElements_def if_not_P [OF ne]
  proof (rule cm_bind_pair [OF stackElement_total [OF ok st' range(3) order_refl]], elim conjE exE)
    fix ca ks1 cs1 v1 els1
    assume ok1: "classes_ok env (ks_sequenceNumber ks) cs1 v1" and ext1: "extends cs val cs1 v1"
      and ca: "ca < classCount cs1" "v1 ca = stk ! nat (?H - ?H)" and ks1: "ks1 = ks\<lparr>ks_stackElements := els1\<rparr>"
      and els1: "stack_ok ?S b (classCount cs1) v1 ?H els1 stk"
    have s1: "stack_ok ?S b (classCount cs1) v1 ?H (ks_stackElements ks1) stk"
      using els1 by (simp add: ks1)
    show "cm_total (\<lambda>n'. cmBind (stackElement n' (?H - int n) (m_location it) ks1)
        (\<lambda>(cb, ks). cmReturn (setStackElement (?H - int n) ca (setStackElement ?H cb ks))))
       env (ks_sequenceNumber ks) cs1 v1
       (\<lambda>ks' cs' val'. operation_ok E env b (item_deposit it) ks w stk' w' ks' cs' val')"
    proof (rule cm_bind_pair [OF stackElement_total [OF ok(1) ok1 s1 range(1,2)]], rule cm_return, assumption,
        elim conjE exE)
      fix cb ks2 cs2 v2 els2
      assume ok2: "classes_ok env (ks_sequenceNumber ks) cs2 v2" and ext2: "extends cs1 v1 cs2 v2"
        and cb: "cb < classCount cs2" "v2 cb = stk ! nat (?H - (?H - int n))"
        and ks2: "ks2 = ks1\<lparr>ks_stackElements := els2\<rparr>"
        and els2: "stack_ok ?S b (classCount cs2) v2 ?H els2 stk"
      have ca2: "ca < classCount cs2" "v2 ca = stk ! 0" using ca ext2 by (simp_all add: extends_def)
      have "stack_ok ?S b (classCount cs2) v2 ?H (omap_put (?H - int n) ca (omap_put ?H cb els2))
          (stk[nat (?H - ?H) := v2 cb, nat (?H - (?H - int n)) := v2 ca])"
        by (rule stack_put [OF stack_put [OF els2 range(3) order_refl cb(1)] range(1,2) ca2(1)])
      then have els: "stack_ok ?S b (classCount cs2) v2 ?H (omap_put (?H - int n) ca (omap_put ?H cb els2)) stk'"
        using cb(2) ca2(2) by (simp add: res)
      then have "filter (\<lambda>p. fst p \<le> ?H) (omap_put (?H - int n) ca (omap_put ?H cb els2)) =
          omap_put (?H - int n) ca (omap_put ?H cb els2)"
        by (intro filter_True) (simp add: stack_ok_def)
      then show "operation_ok E env b (item_deposit it) ks w stk' w'
          (setStackElement (?H - int n) ca (setStackElement ?H cb ks2)) cs2 v2"
        using els st content_ok_extends [OF _ extends_trans [OF ext1 ext2]] seq_step_same [OF ok2]
        by (simp add: operation_ok_def d res(2) ks1 ks2 setStackElement_def state_true_def)
    qed
  qed
  show ?thesis
    unfolding feedOperation_def Let_def if_not_P [OF cond(1)] if_P [OF cond(2)] h
    by (rule cm_bind [OF swap], rule cm_return) simp_all
qed

lemma cm_later:
  assumes "cm_total F env q cs val Q" and "q \<le> r"
  shows "cm_total F env r cs val Q"
  using assms classes_ok_mono [OF _ assms(2)] unfolding cm_total_def by meson

lemma cm_weaken_pair:
  assumes "cm_total F env q cs val (\<lambda>(a, b). P a b)"
    and "\<And>a b cs' val'. extends cs val cs' val' \<Longrightarrow> P a b cs' val' \<Longrightarrow> Q a b cs' val'"
  shows "cm_total F env q cs val (\<lambda>(a, b). Q a b)"
  by (rule cm_weaken [OF assms(1)]) (auto simp: split_beta intro: assms(2))

lemma evm_arith_access:
  "evm_arith i_SLOAD as = None" "evm_arith i_MLOAD as = None"
  "evm_arith i_SSTORE as = None" "evm_arith i_MSTORE as = None"
proof -
  have "evm_arith i as = None" if "i \<notin> set evm_ariths" for i
    using that evm_arith_operation by (cases "evm_arith i as") auto
  then show "evm_arith i_SLOAD as = None" "evm_arith i_MLOAD as = None"
    "evm_arith i_SSTORE as = None" "evm_arith i_MSTORE as = None"
    by (simp_all add: evm_ariths_def)
qed

lemma exec_access:
  assumes "evm_laws E"
  shows "after (exec_op E i_SLOAD stk w) stk' w' \<Longrightarrow>
      stk' = sload E (stk ! 0) w # drop 1 stk \<and> w' = w"
    and "after (exec_op E i_MLOAD stk w) stk' w' \<Longrightarrow>
      stk' = mload E (stk ! 0) w # drop 1 stk \<and> w' = snd (ev_write E i_MLOAD [stk ! 0] w)"
    and "after (exec_op E i_SSTORE stk w) stk' w' \<Longrightarrow>
      stk' = drop 2 stk \<and> w' = snd (ev_write E i_SSTORE [stk ! 0, stk ! 1] w)"
    and "after (exec_op E i_MSTORE stk w) stk' w' \<Longrightarrow>
      stk' = drop 2 stk \<and> w' = snd (ev_write E i_MSTORE [stk ! 0, stk ! 1] w)"
proof -
  have len: "length (fst (ev_write E i_MLOAD as w)) = 1" "length (fst (ev_write E i_SSTORE as w)) = 0"
    "length (fst (ev_write E i_MSTORE as w)) = 0" for as w
    using assms by (simp_all add: evm_laws_def instr_table)
  have take1: "take (Suc 0) stk = [stk ! 0]" if "stk \<noteq> []"
    using that by (cases stk) simp_all
  have take2: "take 2 stk = [stk ! 0, stk ! 1]" if "2 \<le> length stk"
    using that by (cases stk; cases "tl stk") simp_all
  show "after (exec_op E i_SLOAD stk w) stk' w' \<Longrightarrow> stk' = sload E (stk ! 0) w # drop 1 stk \<and> w' = w"
    using take1
    by (auto simp: after_def exec_op_def Let_def evm_arith_access instr_class evm_halts_def evm_reads_def
        sload_def instr_table split: if_splits)
  show "after (exec_op E i_MLOAD stk w) stk' w' \<Longrightarrow>
      stk' = mload E (stk ! 0) w # drop 1 stk \<and> w' = snd (ev_write E i_MLOAD [stk ! 0] w)"
    using take1 len(1) [of "[stk ! 0]" w]
    by (auto simp: after_def exec_op_def Let_def evm_arith_access instr_class evm_halts_def evm_reads_def
        mload_def instr_table length_Suc_conv split: if_splits prod.splits)
  show "after (exec_op E i_SSTORE stk w) stk' w' \<Longrightarrow>
      stk' = drop 2 stk \<and> w' = snd (ev_write E i_SSTORE [stk ! 0, stk ! 1] w)"
    using take2 len(2) [of "[stk ! 0, stk ! 1]" w]
    by (auto simp: after_def exec_op_def Let_def evm_arith_access instr_class evm_halts_def evm_reads_def
        instr_table split: if_splits prod.splits)
  show "after (exec_op E i_MSTORE stk w) stk' w' \<Longrightarrow>
      stk' = drop 2 stk \<and> w' = snd (ev_write E i_MSTORE [stk ! 0, stk ! 1] w)"
    using take2 len(3) [of "[stk ! 0, stk ! 1]" w]
    by (auto simp: after_def exec_op_def Let_def evm_arith_access instr_class evm_halts_def evm_reads_def
        instr_table split: if_splits prod.splits)
qed

text \<open>
  The cases of the switch, for a state \<open>ks\<close> in which the arguments have been fetched:
  \<open>els\<close> are its stack elements, \<open>as\<close> the classes of the arguments.
\<close>

lemma feedOther_total:
  assumes laws: "evm_laws E" and ex: "explained E env q cs val w" and q: "q = ks_sequenceNumber ks"
    and st: "state_true E env b cs val ks stk w"
    and it: "m_type it = Operation" "m_instruction it = i"
    and i: "\<not> isDupInstruction i" "\<not> isSwapInstruction i" "i \<notin> {i_SLOAD, i_MLOAD, i_KECCAK256}"
    and run: "after (exec_op E i stk w) stk' w'"
    and args: "list_all (\<lambda>a. a < classCount cs) as"
      "map val as = take (nat (info_args (instructionInfo i))) stk"
  shows "cm_total (\<lambda>n. feedOther n it as ks) env q cs val
    (\<lambda>ks' cs' val'. operation_ok E env b (item_deposit it) ks w stk' w' ks' cs' val')"
proof -
  let ?n = "nat (info_args (instructionInfo i))" and ?S = "env_push env UndefinedItem"
    and ?H = "ks_stackHeight ks"
  define k where "k = (let ks = (if invalidatesMemory i then resetMemory ks else ks);
      ks = (if invalidatesStorage i then resetStorage ks else ks)
      in if invalidatesMemory i \<or> invalidatesStorage i
         then ks\<lparr>ks_sequenceNumber := ks_sequenceNumber ks + 2\<rparr> else ks)"
  have eq: "feedOther n it as ks =
      (if \<not> info_ret (instructionInfo i) \<le> 1 then cmThrow InvalidDeposit
       else if info_ret (instructionInfo i) = 1
       then cmBind (cmFind n it as 0) (\<lambda>c. cmReturn (setStackElement (ks_stackHeight k + item_deposit it) c k))
       else cmReturn k)" for n
    unfolding feedOther_def k_def Let_def it(2) ..
  note valid = exec_op_valid [OF run] and world = exec_op_world [OF laws run]
  have nat: "info_args (instructionInfo i) = int ?n"
    using info_args_range [of i] by simp
  have k: "ks_stackHeight k = ?H" "ks_stackElements k = ks_stackElements ks"
    by (simp_all add: k_def Let_def resetMemory_def resetStorage_def)
  have st': "stack_ok ?S b (classCount cs) val ?H (ks_stackElements ks) stk"
    using st by (simp add: state_true_def)
  have ct: "content_ok (classCount cs) val (\<lambda>a. sload E a w') (ks_storageContent k)"
    "content_ok (classCount cs) val (\<lambda>a. mload E a w') (ks_memoryContent k)"
    using st world by (auto simp: k_def Let_def resetMemory_def resetStorage_def state_true_def)
  have sq: "seq_step q (ks_sequenceNumber k) cs'
      ((\<lambda>a. sload E a w') = (\<lambda>a. sload E a w) \<and> (\<lambda>a. mload E a w') = (\<lambda>a. mload E a w))"
    if "classes_ok env q cs' val'" for cs' val'
    using that world by (auto simp: k_def Let_def resetMemory_def resetStorage_def seq_step_def q classes_ok_def)
  have ok: "env_ok env" "classes_ok env q cs val" "env_sees E env q w" using ex by (simp_all add: explained_def)
  have dep: "item_deposit it = info_ret (instructionInfo i) - int ?n"
    using item_deposit_op [OF it(1)] it(2) nat by simp
  show ?thesis
  proof (rule exec_op_result [OF laws run ok(3) it i])
    assume none: "info_ret (instructionInfo i) = 0" "stk' = drop ?n stk"
    show ?thesis
      unfolding eq
      using none stack_drop [OF st' valid(2)] ct sq [OF ok(2)] dep k
      by (auto simp: operation_ok_def q intro!: cm_return ok(2) [unfolded q])
  next
    fix x
    assume one: "info_ret (instructionInfo i) = 1" "stk' = x # drop ?n stk"
      and x: "isDeterministic it \<Longrightarrow> x = item_sem env it (take ?n stk) 0"
    have d: "item_deposit it = 1 - int ?n" using dep one(1) by simp
    have len: "length as = ?n" using arg_cong [OF args(2), of length] valid(2) by simp
    have aok: "args_ok cs it as" using args(1) len it by (simp add: args_ok_op)
    have find: "cm_total (\<lambda>n. cmFind n it as 0) env q cs val (\<lambda>c cs' val'. c < classCount cs' \<and> val' c = x)"
    proof (cases "isDeterministic it")
      case True
      show ?thesis
        by (rule cm_weaken [OF cm_find [OF ok(1,2) aok]]) (use True x args(2) in simp_all)
    next
      case False
      then show ?thesis by (rule cm_find_opaque [OF ok(2) aok le0])
    qed
    have r: "\<not> \<not> info_ret (instructionInfo i) \<le> 1" using one(1) by simp
    show ?thesis
      unfolding eq if_not_P [OF r] if_P [OF one(1)]
    proof (rule cm_bind [OF find], rule cm_return, assumption)
      fix c cs' val'
      assume ok': "classes_ok env q cs' val'" and ext: "extends cs val cs' val'"
        and c: "c < classCount cs' \<and> val' c = x"
      show "operation_ok E env b (item_deposit it) ks w stk' w'
          (setStackElement (ks_stackHeight k + item_deposit it) c k) cs' val'"
        using stack_result [OF stack_ok_extends [OF st' ext] valid(2), of c] c one(2)
          content_ok_extends [OF ct(1) ext] content_ok_extends [OF ct(2) ext] sq [OF ok']
        by (simp add: operation_ok_def d setStackElement_def k q)
    qed
  qed
qed

lemma operation_ok_load:
  assumes "stack_ok (env_push env UndefinedItem) b (classCount cs) val (ks_stackHeight ks) (ks_stackElements ks) stk"
    and "n \<le> length stk" and "c < classCount cs" and "d = 1 - int n"
    and "stk' = val c # drop n stk" and "ks_sequenceNumber ks = ks_sequenceNumber ks0"
    and "ks_stackHeight ks = ks_stackHeight ks0"
    and "content_ok (classCount cs) val (\<lambda>a. sload E a w') (ks_storageContent ks)"
    and "content_ok (classCount cs) val (\<lambda>a. mload E a w') (ks_memoryContent ks)"
    and "\<And>a. sload E a w' = sload E a w" and "\<And>a. mload E a w' = mload E a w"
    and "classes_ok env (ks_sequenceNumber ks0) cs val"
  shows "operation_ok E env b d ks0 w stk' w' (setStackElement (ks_stackHeight ks0 + d) c ks) cs val"
  using stack_result [OF assms(1-3)] assms(4-)
  by (simp add: operation_ok_def setStackElement_def seq_step_def classes_ok_def)

lemma operation_ok_other:
  assumes "operation_ok E env b d ks1 w stk' w' ks' cs val"
    and "ks_stackHeight ks1 = ks_stackHeight ks" and "ks_sequenceNumber ks1 = ks_sequenceNumber ks"
  shows "operation_ok E env b d ks w stk' w' ks' cs val"
  using assms by (simp add: operation_ok_def)

lemma access_deposit:
  "m_type it = Operation \<Longrightarrow> m_instruction it = i_SLOAD \<Longrightarrow> item_deposit it = 0"
  "m_type it = Operation \<Longrightarrow> m_instruction it = i_MLOAD \<Longrightarrow> item_deposit it = 0"
  "m_type it = Operation \<Longrightarrow> m_instruction it = i_SSTORE \<Longrightarrow> item_deposit it = - 2"
  "m_type it = Operation \<Longrightarrow> m_instruction it = i_MSTORE \<Longrightarrow> item_deposit it = - 2"
  "m_type it = Operation \<Longrightarrow> m_instruction it = i_POP \<Longrightarrow> item_deposit it = - 1"
  by (simp_all add: item_deposit_op instr_table)

lemma feedSwitch_total:
  assumes laws: "evm_laws E" and ex: "explained E env q cs val w" and q: "q = ks_sequenceNumber ks"
    and st: "state_true E env b cs val ks stk w"
    and it: "m_type it = Operation" "m_instruction it = i"
    and i: "\<not> isDupInstruction i" "\<not> isSwapInstruction i" "i \<noteq> i_KECCAK256"
    and run: "after (exec_op E i stk w) stk' w'"
    and args: "list_all (\<lambda>a. a < classCount cs) as"
      "map val as = take (nat (info_args (instructionInfo i))) stk"
  shows "cm_total (\<lambda>n. feedSwitch n it (ks_stackHeight ks + item_deposit it) as ks) env (q + 1) cs val
    (\<lambda>(op, ks') cs' val'. operation_ok E env b (item_deposit it) ks w stk' w' ks' cs' val')"
proof -
  let ?n = "nat (info_args (instructionInfo i))"
  note valid = exec_op_valid [OF run] and world = exec_op_world [OF laws run] and acc = exec_access [OF laws]
  note t = st [unfolded state_true_def]
  have ok: "env_ok env" "classes_ok env q cs val" "env_sees E env q w" using ex by (simp_all add: explained_def)
  have len: "length as = ?n" using arg_cong [OF args(2), of length] valid(2) by simp
  have nth: "as ! j < classCount cs" "val (as ! j) = stk ! j" if "j < ?n" for j
    using args that len valid(2) nth_map [of j as val] by (simp_all add: list_all_length)
  consider "i = i_SSTORE" | "i = i_MSTORE" | "i = i_SLOAD" | "i = i_MLOAD"
    | "i \<notin> {i_SSTORE, i_MSTORE, i_SLOAD, i_MLOAD}" by blast
  then show ?thesis
  proof cases
    case 1
    have n: "?n = 2" using 1 by (simp add: instr_table)
    have a: "as ! 0 < classCount cs" "val (as ! 0) = stk ! 0" "as ! 1 < classCount cs" "val (as ! 1) = stk ! 1"
      using nth n by simp_all
    have r: "stk' = drop 2 stk" "w' = snd (ev_write E i_SSTORE [stk ! 0, stk ! 1] w)"
      using acc(3) run 1 by blast+
    have f': "(\<lambda>a. sload E a w') = (\<lambda>a. sload E a w)(val (as ! 0) := val (as ! 1))"
      using laws a r(2) by (simp add: evm_laws_def fun_eq_iff)
    have ct: "content_ok (classCount cs) val (\<lambda>a. sload E a w) (ks_storageContent ks)" using t by simp
    have m: "(\<lambda>a. mload E a w') = (\<lambda>a. mload E a w)"
      using world(3) 1 by (simp add: invalidatesMemory_def)
    have d: "item_deposit it = - 2" using access_deposit(3) it 1 by simp
    have st2: "stack_ok (env_push env UndefinedItem) b (classCount cs) val (ks_stackHeight ks - 2)
        (filter (\<lambda>p. fst p \<le> ks_stackHeight ks - 2) (ks_stackElements ks)) stk'"
      using stack_drop [OF t [THEN conjunct1] valid(2)] n r(1) by simp
    show ?thesis
      unfolding feedSwitch_def Let_def it(2) if_P [OF 1]
    proof (rule cm_weaken_pair [OF storeInStorage_total [OF ok(1) q ok(2) a(1,3) ct f']])
      fix op ks' cs' val'
      assume ext: "extends cs val cs' val'" and "\<exists>m s. ks' = ks\<lparr>ks_storageContent := m, ks_sequenceNumber := s\<rparr> \<and>
          content_ok (classCount cs') val' (\<lambda>a. sload E a w') m \<and>
          seq_step q s cs' ((\<lambda>a. sload E a w') = (\<lambda>a. sload E a w))"
      then show "operation_ok E env b (item_deposit it) ks w stk' w' ks' cs' val'"
        using stack_ok_extends [OF st2 ext] content_ok_extends [OF _ ext] t
        by (auto simp: operation_ok_def d m q)
    qed
  next
    case 2
    then have neq: "i \<noteq> i_SSTORE" "i \<noteq> i_SLOAD" by simp_all
    have n: "?n = 2" using 2 by (simp add: instr_table)
    have a: "as ! 0 < classCount cs" "val (as ! 0) = stk ! 0" "as ! 1 < classCount cs" "val (as ! 1) = stk ! 1"
      using nth n by simp_all
    have r: "stk' = drop 2 stk" "w' = snd (ev_write E i_MSTORE [stk ! 0, stk ! 1] w)"
      using acc(4) run 2 by blast+
    have s: "(\<lambda>a. sload E a w') = (\<lambda>a. sload E a w)"
      using world(2) 2 by (simp add: invalidatesStorage_def)
    have m: "mload E (val (as ! 0)) w' = val (as ! 1)"
      "(\<forall>j < 32. \<forall>k < 32. x + j \<noteq> val (as ! 0) + k) \<Longrightarrow> mload E x w' = mload E x w"
      "mload E (val (as ! 0)) w = val (as ! 1) \<Longrightarrow> (\<lambda>a. mload E a w') = (\<lambda>a. mload E a w)" for x
      using laws a r(2) unfolding evm_laws_def by (metis, metis, metis)
    have d: "item_deposit it = - 2" using access_deposit(4) it 2 by simp
    have st2: "stack_ok (env_push env UndefinedItem) b (classCount cs) val (ks_stackHeight ks - 2)
        (filter (\<lambda>p. fst p \<le> ks_stackHeight ks - 2) (ks_stackElements ks)) stk'"
      using stack_drop [OF t [THEN conjunct1] valid(2)] n r(1) by simp
    show ?thesis
      unfolding feedSwitch_def Let_def it(2) if_P [OF 2] if_not_P [OF neq(1)] if_not_P [OF neq(2)]
    proof (rule cm_weaken_pair [OF storeInMemory_total [OF ok(1) q ok(2) a(1,3), where f = "\<lambda>a. mload E a w"
          and f' = "\<lambda>a. mload E a w'"]])
      show "content_ok (classCount cs) val (\<lambda>a. mload E a w) (ks_memoryContent ks)" using t by simp
      fix op ks' cs' val'
      assume ext: "extends cs val cs' val'" and "\<exists>m s. ks' = ks\<lparr>ks_memoryContent := m, ks_sequenceNumber := s\<rparr> \<and>
          content_ok (classCount cs') val' (\<lambda>a. mload E a w') m \<and>
          seq_step q s cs' ((\<lambda>a. mload E a w') = (\<lambda>a. mload E a w))"
      then show "operation_ok E env b (item_deposit it) ks w stk' w' ks' cs' val'"
        using stack_ok_extends [OF st2 ext] content_ok_extends [OF _ ext] t
        by (auto simp: operation_ok_def d s q)
    qed (use m in blast)+
  next
    case 3
    then have neq: "i \<noteq> i_SSTORE" by simp
    have n: "?n = 1" using 3 by (simp add: instr_table)
    note a = nth [unfolded n, of 0, simplified]
    have r: "stk' = sload E (stk ! 0) w # drop 1 stk" "w' = w" using acc(1) run 3 by blast+
    have d: "item_deposit it = 0" using access_deposit(1) it 3 by simp
    have f: "env_op env i_SLOAD [x] q = sload E x w" for x using ok(3) by (simp add: env_sees_def)
    have ct: "content_ok (classCount cs) val (\<lambda>a. sload E a w) (ks_storageContent ks)" using t by simp
    show ?thesis
      unfolding feedSwitch_def Let_def it(2) if_P [OF 3] if_not_P [OF neq]
    proof (rule cm_later [OF cm_bind_pair [OF loadFromStorage_total [OF ok(1) ok(2) [unfolded q] a(1) ct f [unfolded q]]]],
        rule cm_return, assumption, elim conjE exE, unfold prod.case)
      fix c ks1 cs1 v1 m
      assume ok1: "classes_ok env (ks_sequenceNumber ks) cs1 v1" and ext: "extends cs val cs1 v1"
        and c: "c < classCount cs1" "v1 c = sload E (val (as ! 0)) w"
        and ks1: "ks1 = ks\<lparr>ks_storageContent := m\<rparr>" "content_ok (classCount cs1) v1 (\<lambda>a. sload E a w) m"
      show "operation_ok E env b (item_deposit it) ks w stk' w'
          (setStackElement (ks_stackHeight ks + item_deposit it) c ks1) cs1 v1"
        by (rule operation_ok_load [OF _ _ c(1), of env b v1 ks1 stk 1])
          (use stack_ok_extends [OF t [THEN conjunct1] ext] content_ok_extends [OF _ ext] t
            valid(2) n c r a d ks1 ok1 in auto)
    qed (simp add: q)
  next
    case 4
    then have neq: "i \<noteq> i_SSTORE" "i \<noteq> i_SLOAD" "i \<noteq> i_MSTORE" by simp_all
    have n: "?n = 1" using 4 by (simp add: instr_table)
    note a = nth [unfolded n, of 0, simplified]
    have r: "stk' = mload E (stk ! 0) w # drop 1 stk" using acc(2) run 4 by blast
    have same: "sload E x w' = sload E x w" "mload E x w' = mload E x w" for x
      using world(2,3) 4 by (simp_all add: invalidatesStorage_def invalidatesMemory_def)
    have d: "item_deposit it = 0" using access_deposit(2) it 4 by simp
    have f: "env_op env i_MLOAD [x] q = mload E x w" for x using ok(3) by (simp add: env_sees_def)
    have ct: "content_ok (classCount cs) val (\<lambda>a. mload E a w) (ks_memoryContent ks)" using t by simp
    show ?thesis
      unfolding feedSwitch_def Let_def it(2) if_P [OF 4] if_not_P [OF neq(1)] if_not_P [OF neq(2)]
        if_not_P [OF neq(3)]
    proof (rule cm_later [OF cm_bind_pair [OF loadFromMemory_total [OF ok(1) ok(2) [unfolded q] a(1) ct f [unfolded q]]]],
        rule cm_return, assumption, elim conjE exE, unfold prod.case)
      fix c ks1 cs1 v1 m
      assume ok1: "classes_ok env (ks_sequenceNumber ks) cs1 v1" and ext: "extends cs val cs1 v1"
        and c: "c < classCount cs1" "v1 c = mload E (val (as ! 0)) w"
        and ks1: "ks1 = ks\<lparr>ks_memoryContent := m\<rparr>" "content_ok (classCount cs1) v1 (\<lambda>a. mload E a w) m"
      show "operation_ok E env b (item_deposit it) ks w stk' w'
          (setStackElement (ks_stackHeight ks + item_deposit it) c ks1) cs1 v1"
        by (rule operation_ok_load [OF _ _ c(1), of env b v1 ks1 stk 1])
          (use stack_ok_extends [OF t [THEN conjunct1] ext] content_ok_extends [OF _ ext] t
            valid(2) n c r a d ks1 ok1 same in auto)
    qed (simp add: q)
  next
    case 5
    then have i5: "i \<notin> {i_SLOAD, i_MLOAD, i_KECCAK256}" using i(3) by blast
    have sw: "feedSwitch n it x as ks = cmBind (feedOther n it as ks) (\<lambda>ks. cmReturn (invalidOperation, ks))" for n x
      using 5 i(3) it(2) by (simp add: feedSwitch_def)
    show ?thesis
      unfolding sw
      by (rule cm_later [OF cm_bind [OF feedOther_total [OF laws ex q st it i(1,2) i5 run args]] le_add1],
          rule cm_return) simp_all
  qed
qed

lemma explained_extends:
  assumes "explained E env q cs val w" and "classes_ok env q cs' val'"
  shows "explained E env q cs' val' w"
  using assms by (simp add: explained_def)

lemma feedOperation_total:
  assumes laws: "evm_laws E" and ex: "explained E env (ks_sequenceNumber ks) cs val w"
    and st: "state_true E env b cs val ks stk w"
    and it: "m_type it = Operation" "m_instruction it \<noteq> i_KECCAK256"
    and run: "after (exec_op E (m_instruction it) stk w) stk' w'"
  shows "cm_total (\<lambda>n. feedOperation n it ks) env (ks_sequenceNumber ks + 1) cs val
    (\<lambda>(op, ks') cs' val'. operation_ok E env b (item_deposit it) ks w stk' w' ks' cs' val')"
proof -
  let ?i = "m_instruction it" and ?q = "ks_sequenceNumber ks" and ?H = "ks_stackHeight ks"
  note valid = exec_op_valid [OF run]
  have ok: "env_ok env" "classes_ok env ?q cs val" using ex by (simp_all add: explained_def)
  have st': "stack_ok (env_push env UndefinedItem) b (classCount cs) val ?H (ks_stackElements ks) stk"
    using st by (simp add: state_true_def)
  consider "isDupInstruction ?i" | "isSwapInstruction ?i"
    | (pop) "\<not> isDupInstruction ?i" "\<not> isSwapInstruction ?i" "?i = i_POP"
    | (rest) "\<not> isDupInstruction ?i" "\<not> isSwapInstruction ?i" "?i \<noteq> i_POP" by blast
  then show ?thesis
  proof cases
    case 1
    then show ?thesis by (rule cm_later [OF feed_dup [OF ex st it(1) _ run] le_add1])
  next
    case 2
    then show ?thesis by (rule cm_later [OF feed_swap [OF ex st it(1) _ run] le_add1])
  next
    case pop
    have c: "\<not> itemIsDup it" "\<not> itemIsSwap it" using pop it(1) by (simp_all add: itemIsDup_op itemIsSwap_op)
    have r: "stk' = drop 1 stk" "w' = w" "1 \<le> length stk"
      using run pop valid(1-3) by (auto simp: after_def exec_op_def Let_def instr_table split: if_splits)
    have d: "item_deposit it = - 1" using access_deposit(5) it(1) pop(3) by simp
    have "operation_ok E env b (item_deposit it) ks w stk' w' ks cs val"
      using stack_drop [OF st' r(3)] st ok(2)
      by (simp add: operation_ok_def d r(1,2) state_true_def seq_step_def classes_ok_def)
    then show ?thesis
      unfolding feedOperation_def Let_def if_not_P [OF c(1)] if_not_P [OF c(2)] if_P [OF pop(3)]
      by (intro cm_return classes_ok_mono [OF ok(2)]) simp_all
  next
    case rest
    have c: "\<not> itemIsDup it" "\<not> itemIsSwap it" using rest it(1) by (simp_all add: itemIsDup_op itemIsSwap_op)
    let ?n = "nat (info_args (instructionInfo ?i))"
    have n: "int 0 + int ?n \<le> int (length stk)" using valid(2) by linarith
    have h0: "?H - int 0 = ?H" by simp
    show ?thesis
      unfolding feedOperation_def Let_def if_not_P [OF c(1)] if_not_P [OF c(2)] if_not_P [OF rest(3)]
    proof (rule cm_bind_pair [OF stackArguments_total [OF ok st' n, unfolded h0 drop_0]], elim conjE exE)
      fix as ks1 cs1 v1 els
      assume ok1: "classes_ok env ?q cs1 v1" and ext: "extends cs val cs1 v1"
        and as: "list_all (\<lambda>a. a < classCount cs1) as" "map v1 as = take ?n stk"
        and ks1: "ks1 = ks\<lparr>ks_stackElements := els\<rparr>"
        and els: "stack_ok (env_push env UndefinedItem) b (classCount cs1) v1 ?H els stk"
      have q1: "?q = ks_sequenceNumber ks1" by (simp add: ks1)
      have st1: "state_true E env b cs1 v1 ks1 stk w"
        using els st content_ok_extends [OF _ ext] by (simp add: state_true_def ks1)
      have H: "?H = ks_stackHeight ks1" by (simp add: ks1)
      have "cm_total (\<lambda>n. feedSwitch n it (ks_stackHeight ks1 + item_deposit it) as ks1) env (?q + 1) cs1 v1
        (\<lambda>(op, ks') cs' val'. operation_ok E env b (item_deposit it) ks1 w stk' w' ks' cs' val')"
        by (rule feedSwitch_total [OF laws explained_extends [OF ex ok1] q1 st1 it(1) refl rest(1,2) it(2) run as])
      then show "cm_total (\<lambda>n. feedSwitch n it (?H + item_deposit it) as ks1) env (?q + 1) cs1 v1
        (\<lambda>(op, ks') cs' val'. operation_ok E env b (item_deposit it) ks w stk' w' ks' cs' val')"
        unfolding H by (rule cm_weaken_pair) (simp add: operation_ok_def ks1)
    qed
  qed
qed

text \<open>
  Pushes: \<open>m_pushedValue\<close> is set only after assembly; where it is set it is the value pushed.
\<close>

definition pushed_ok :: "'w evm \<Rightarrow> AssemblyItem \<Rightarrow> bool" where
  "pushed_ok E it \<longleftrightarrow>
     (case m_pushedValue it of
        None \<Rightarrow> True
      | Some v \<Rightarrow> m_type it \<noteq> Operation \<and> v = (if m_type it = Push then m_data it else ev_push E (m_type it) (m_data it)))"

definition keccak_free :: "AssemblyItem \<Rightarrow> bool" where
  "keccak_free it \<longleftrightarrow> m_type it = Operation \<longrightarrow> m_instruction it \<noteq> i_KECCAK256"

lemma feed_push:
  assumes ex: "explained E env (ks_sequenceNumber ks) cs val w" and st: "state_true E env b cs val ks stk w"
    and it: "m_type it \<noteq> Tag" "m_type it \<noteq> Operation" and pv: "pushed_ok E it"
    and run: "after (exec_item E it stk w) stk' w'"
  shows "cm_total (\<lambda>n. feedItem n it ks) env (ks_sequenceNumber ks) cs val
    (\<lambda>(op, ks') cs' val'. state_true E env b cs' val' ks' stk' w' \<and> w' = w \<and>
       ks_sequenceNumber ks' = ks_sequenceNumber ks)"
proof -
  let ?q = "ks_sequenceNumber ks" and ?H = "ks_stackHeight ks"
  have ok: "env_ok env" "classes_ok env ?q cs val" "env_sees E env ?q w" using ex by (simp_all add: explained_def)
  have u: "m_type it \<noteq> UndefinedItem" using run by (auto simp: after_def exec_item_def)
  define x where "x = (if m_type it = Push then m_data it else ev_push E (m_type it) (m_data it))"
  have r: "stk' = x # stk" "w' = w"
    using run it u by (auto simp: after_def exec_item_def x_def split: AssemblyItemType.splits)
  have d: "\<not> item_deposit it \<noteq> 1"
    using it u by (cases "m_type it") (simp_all add: item_deposit_def item_returnValues_def item_arguments_def)
  have find: "cm_total (\<lambda>n. case m_pushedValue it of Some v \<Rightarrow> cmFind n (pushItem v) [] 0
      | None \<Rightarrow> cmFind n it [] 0) env ?q cs val (\<lambda>c cs' val'. c < classCount cs' \<and> val' c = x)"
  proof (cases "m_pushedValue it")
    case None
    have "isDeterministic it" "item_sem env it [] 0 = x" "args_ok cs it []"
      using it u ok(3) by (auto simp: isDeterministic_def item_sem_def x_def env_sees_def args_ok_other
          split: AssemblyItemType.splits)
    then show ?thesis
      unfolding None option.case by (intro cm_weaken [OF cm_find [OF ok(1,2)]]) simp_all
  next
    case (Some v)
    have "v = x" using pv Some by (simp add: pushed_ok_def x_def)
    then show ?thesis
      unfolding Some option.case
      by (intro cm_weaken [OF cm_find [OF ok(1,2)]]) (simp_all add: args_ok_push isDeterministic_def item_sem_def)
  qed
  show ?thesis
    unfolding feedItem_def if_not_P [OF it(1)] if_P [OF it(2)] if_not_P [OF d] Let_def
  proof (rule cm_bind [OF find], rule cm_return, assumption, unfold prod.case)
    fix c cs1 v1
    assume ext: "extends cs val cs1 v1" and c: "c < classCount cs1 \<and> v1 c = x"
    have st1: "stack_ok (env_push env UndefinedItem) b (classCount cs1) v1 ?H (ks_stackElements ks) stk"
      using st stack_ok_extends [OF _ ext] by (simp add: state_true_def)
    show "state_true E env b cs1 v1 (setStackElement (?H + 1) c (ks\<lparr>ks_stackHeight := ?H + 1\<rparr>)) stk' w' \<and>
      w' = w \<and> ks_sequenceNumber (setStackElement (?H + 1) c (ks\<lparr>ks_stackHeight := ?H + 1\<rparr>)) = ?q"
      using stack_cons [OF st1, of c] c r st content_ok_extends [OF _ ext]
      by (simp add: state_true_def setStackElement_def)
  qed
qed

text \<open>
  The theorem for one item: with enough fuel \<open>feedItem\<close> returns, and what it then knows is
  true of the machine after the item, in an environment that agrees with the old one on
  everything that was recorded before.
\<close>

lemma feedItem_sound:
  assumes laws: "evm_laws E" and ex: "explained E env (ks_sequenceNumber ks) cs val w"
    and st: "state_true E env b cs val ks stk w"
    and it: "keccak_free it" "pushed_ok E it"
    and run: "after (exec_item E it stk w) stk' w'"
  shows "\<exists>n\<^sub>0 op ks' cs' val' env'. (\<forall>n > n\<^sub>0. feedItem n it ks cs = Some (Inr ((op, ks'), cs'))) \<and>
    explained E env' (ks_sequenceNumber ks') cs' val' w' \<and> state_true E env' b cs' val' ks' stk' w' \<and>
    env_agree (ks_sequenceNumber ks) env env' \<and> extends cs val cs' val'"
proof -
  let ?q = "ks_sequenceNumber ks"
  have q: "0 < ?q" and ok: "env_ok env" "classes_ok env ?q cs val" "env_sees E env ?q w"
    using ex by (simp_all add: explained_def)
  consider (tag) "m_type it = Tag" | (push) "m_type it \<noteq> Tag" "m_type it \<noteq> Operation"
    | (op) "m_type it = Operation" by blast
  then show ?thesis
  proof cases
    case tag
    have "stk' = stk" "w' = w" using run tag by (auto simp: after_def exec_item_def)
    moreover have "feedItem n it ks cs = Some (Inr ((invalidOperation, ks), cs))" for n
      using tag by (simp add: feedItem_def cmReturn_def)
    ultimately show ?thesis
      using ex st by (intro exI [of _ "0::nat"] exI [of _ invalidOperation] exI [of _ ks] exI [of _ cs]
          exI [of _ val] exI [of _ env]) (simp add: env_agree_def)
  next
    case push
    obtain n\<^sub>0 op ks' cs' val' where r: "\<forall>n > n\<^sub>0. feedItem n it ks cs = Some (Inr ((op, ks'), cs'))"
      "classes_ok env ?q cs' val'" "extends cs val cs' val'" "state_true E env b cs' val' ks' stk' w'"
      "w' = w" "ks_sequenceNumber ks' = ?q"
      using feed_push [OF ex st push it(2) run] unfolding cm_total_def by auto
    have "explained E env (ks_sequenceNumber ks') cs' val' w'"
      using r explained_extends [OF ex r(2)] by simp
    then show ?thesis
      using r by (intro exI [of _ n\<^sub>0] exI [of _ op] exI [of _ ks'] exI [of _ cs'] exI [of _ val'] exI [of _ env])
        (simp add: env_agree_def)
  next
    case op
    have run': "after (exec_op E (m_instruction it) stk w) stk' w'" using run op by (simp add: exec_item_def)
    have k: "m_instruction it \<noteq> i_KECCAK256" using it(1) op by (simp add: keccak_free_def)
    obtain n\<^sub>0 o' ks1 cs' val' where r: "\<forall>n > n\<^sub>0. feedOperation n it ks cs = Some (Inr ((o', ks1), cs'))"
      "classes_ok env (?q + 1) cs' val'" "extends cs val cs' val'"
      "operation_ok E env b (item_deposit it) ks w stk' w' ks1 cs' val'"
      using feedOperation_total [OF laws ex st op k run'] unfolding cm_total_def by auto
    let ?ks = "adjustHeight (item_deposit it) ks1" and ?s = "ks_sequenceNumber ks1"
    note o = r(4) [unfolded operation_ok_def]
    have t: "\<not> m_type it \<noteq> Operation" "m_type it \<noteq> Tag" using op by simp_all
    have f: "\<forall>n > n\<^sub>0. feedItem n it ks cs = Some (Inr ((o', ?ks), cs'))"
      unfolding feedItem_def if_not_P [OF t(1)] if_not_P [OF t(2)] by (simp add: cmBind_def r(1) cmReturn_def)
    have st1: "state_true E env b cs' val' ?ks stk' w'"
      using o by (simp add: state_true_def adjustHeight_def Let_def)
    have sq: "ks_sequenceNumber ?ks = ?s" by (simp add: adjustHeight_def Let_def)
    have const: "\<And>i as. i \<in> set constant_reads \<Longrightarrow> ev_read E i as w' = ev_read E i as w"
      by (rule exec_op_world(1) [OF laws run'])
    consider (same) "?s = ?q" "seqs_le ?q cs'" "(\<lambda>a. sload E a w') = (\<lambda>a. sload E a w)"
        "(\<lambda>a. mload E a w') = (\<lambda>a. mload E a w)"
      | (later) "?s = ?q + 2"
      using o by (auto simp: seq_step_def)
    then show ?thesis
    proof cases
      case same
      have "env_sees E env ?q w'"
        using ok(3) same(3,4) const by (simp add: env_sees_def fun_eq_iff)
      then have "explained E env ?s cs' val' w'"
        using q ok(1) r(2) same(1,2) by (simp add: explained_def classes_ok_def)
      then show ?thesis
        using f st1 r(3) sq by (intro exI [of _ n\<^sub>0] exI [of _ o'] exI [of _ ?ks] exI [of _ cs'] exI [of _ val'] exI [of _ env])
          (simp add: env_agree_def)
    next
      case later
      let ?env = "env_next E env ?s w'"
      have agree: "env_agree (?q + 1) env ?env" by (rule env_next_agree) (simp add: later)
      have "env_sees E ?env ?s w'" by (rule env_next_sees [OF ok(3) _ const]) (simp_all add: later)
      moreover have "classes_ok ?env ?s cs' val'"
        by (rule classes_ok_later [OF r(2) _ agree]) (simp add: later)
      moreover have "env_ok ?env" by (rule env_next_ok [OF ok(1)]) (simp add: later)
      ultimately have "explained E ?env ?s cs' val' w'" using later by (simp add: explained_def)
      moreover have "state_true E ?env b cs' val' ?ks stk' w'"
        using st1 by (simp add: state_true_def env_next_def)
      moreover have "env_agree ?q env ?env" using agree by (simp add: env_agree_def)
      ultimately show ?thesis
        using f r(3) sq by (intro exI [of _ n\<^sub>0] exI [of _ o'] exI [of _ ?ks] exI [of _ cs'] exI [of _ val'] exI [of _ ?env])
          simp
    qed
  qed
qed

end
