(* ===== verification/KnownStateProps.thy ===== *)
theory KnownStateProps
  imports KnownStateFeed
begin

section \<open>What the analysis of a block shows, and where it is wrong\<close>

text \<open>
  The soundness of feeding a whole block to a fresh state, a machine with byte-addressed
  memory that satisfies the laws the soundness rests on, and the defect in the treatment of
  hashes.
\<close>

subsection \<open>Feeding a block\<close>

fun feedAll :: "nat \<Rightarrow> AssemblyItems \<Rightarrow> KnownState \<Rightarrow> KnownState CM" where
  "feedAll n [] ks = cmReturn ks"
| "feedAll n (it # its) ks = cmBind (feedItem n it ks) (\<lambda>(op, ks). feedAll n its ks)"

lemma feedAll_sound:
  assumes laws: "evm_laws E"
  shows "explained E env (ks_sequenceNumber ks) cs val w \<Longrightarrow> state_true E env b cs val ks stk w \<Longrightarrow>
    list_all keccak_free its \<Longrightarrow> list_all (pushed_ok E) its \<Longrightarrow> exec_block E its stk w = Next stk' w' \<Longrightarrow>
    \<exists>n\<^sub>0 ks' cs' val' env'. (\<forall>n > n\<^sub>0. feedAll n its ks cs = Some (Inr (ks', cs'))) \<and>
      explained E env' (ks_sequenceNumber ks') cs' val' w' \<and> state_true E env' b cs' val' ks' stk' w'"
proof (induction its arbitrary: env ks cs val stk w)
  case Nil
  then show ?case
    by (intro exI [of _ "0::nat"] exI [of _ ks] exI [of _ cs] exI [of _ val] exI [of _ env])
      (simp add: cmReturn_def)
next
  case (Cons it its)
  obtain stk1 w1 where 1: "exec_item E it stk w = Next stk1 w1" "exec_block E its stk1 w1 = Next stk' w'"
    using Cons.prems(5) by (auto split: step.splits)
  then have run: "after (exec_item E it stk w) stk1 w1" by (simp add: after_def)
  have it: "keccak_free it" "pushed_ok E it" "list_all keccak_free its" "list_all (pushed_ok E) its"
    using Cons.prems(3,4) by simp_all
  obtain n1 op ks1 cs1 v1 e1 where f1: "\<forall>n > n1. feedItem n it ks cs = Some (Inr ((op, ks1), cs1))"
    "explained E e1 (ks_sequenceNumber ks1) cs1 v1 w1" "state_true E e1 b cs1 v1 ks1 stk1 w1"
    using feedItem_sound [OF laws Cons.prems(1,2) it(1,2) run] by metis
  obtain n2 ks2 cs2 v2 e2 where f2: "\<forall>n > n2. feedAll n its ks1 cs1 = Some (Inr (ks2, cs2))"
    "explained E e2 (ks_sequenceNumber ks2) cs2 v2 w'" "state_true E e2 b cs2 v2 ks2 stk' w'"
    using Cons.IH [OF f1(2,3) it(3,4) 1(2)] by metis
  have "\<forall>n > max n1 n2. feedAll n (it # its) ks cs = Some (Inr (ks2, cs2))"
    using f1(1) f2(1) by (simp add: cmBind_def)
  then show ?case using f2(2,3) by blast
qed

text \<open>The environment of a fresh state.\<close>

definition initial_env :: "'w evm \<Rightarrow> u256 list \<Rightarrow> 'w \<Rightarrow> environment" where
  "initial_env E stk w =
     \<lparr>env_op = (\<lambda>i as s. if i = i_MLOAD then mload E (hd as) w else ev_read E i as w),
      env_push = (\<lambda>t d. if t = UndefinedItem then stk ! nat (- sint d) else ev_push E t d)\<rparr>"

lemma initial_explained:
  assumes "evm_laws E"
  shows "explained E (initial_env E stk w) 1 emptyClasses val w"
proof -
  have "addresses_fit (\<lambda>i as. ev_read E i as w)" using assms by (simp add: evm_laws_def)
  then have "env_ok (initial_env E stk w)"
    by (simp add: env_ok_def initial_env_def addresses_fit_def)
  moreover have "env_sees E (initial_env E stk w) 1 w"
    by (auto simp: env_sees_def initial_env_def sload_def constant_reads_def)
  moreover have "classes_ok (initial_env E stk w) 1 emptyClasses val"
    by (simp add: classes_ok_def seqs_le_def models_def reachable.empty, simp add: emptyClasses_def)
  ultimately show ?thesis by (simp add: explained_def)
qed

lemma sint_height:
  assumes "- (2 ^ 255) \<le> h" and "h \<le> 0"
  shows "sint (word_of_int h :: u256) = h"
proof -
  have "h < 2 ^ 255" using assms(2) by (rule le_less_trans) simp
  then have "signed_take_bit 255 h = h" using assms(1) by (simp only: signed_take_bit_int_eq_self)
  then show ?thesis by (simp add: signed_of_int)
qed

lemma initial_true:
  assumes "length stk < 2 ^ 255"
  shows "state_true E (initial_env E stk w) (int (length stk)) emptyClasses val freshState stk w"
proof -
  have "stk ! nat (- h) = env_push (initial_env E stk w) UndefinedItem (word_of_int h)"
    if "- int (length stk) < h" "h \<le> 0" for h
  proof -
    have "int (length stk) < 2 ^ 255" using assms by (metis of_nat_less_numeral_power_cancel_iff)
    then have "- (2 ^ 255) \<le> h" using that(1) by linarith
    then show ?thesis using sint_height that(2) by (simp add: initial_env_def)
  qed
  then show ?thesis by (simp add: state_true_def stack_ok_def freshState_def)
qed


subsection \<open>A machine with byte-addressed memory\<close>

record memoryWorld =
  mw_storage :: "u256 \<Rightarrow> u256"
  mw_memory :: "u256 \<Rightarrow> u8"

definition readWord :: "(u256 \<Rightarrow> u8) \<Rightarrow> u256 \<Rightarrow> u256" where
  "readWord m a = fromBigEndian (map (\<lambda>j. m (a + word_of_nat j)) [0 ..< 32])"

definition writeWord :: "(u256 \<Rightarrow> u8) \<Rightarrow> u256 \<Rightarrow> u256 \<Rightarrow> u256 \<Rightarrow> u8" where
  "writeWord m a v x = (if x - a < 32 then toBigEndian256 v ! unat (x - a) else m x)"

definition memoryMachine :: "memoryWorld evm" where
  "memoryMachine =
     \<lparr>ev_read = (\<lambda>i as w. if i = i_SLOAD then mw_storage w (as ! 0) else 0),
      ev_write = (\<lambda>i as w.
        if i = i_MLOAD then ([readWord (mw_memory w) (as ! 0)], w)
        else if i = i_MSTORE then ([], w\<lparr>mw_memory := writeWord (mw_memory w) (as ! 0) (as ! 1)\<rparr>)
        else if i = i_SSTORE then ([], w\<lparr>mw_storage := (mw_storage w)(as ! 0 := as ! 1)\<rparr>)
        else (replicate (nat (info_ret (instructionInfo i))) 0, w)),
      ev_push = (\<lambda>t d. 0)\<rparr>"

lemma small_offset: "j < 32 \<Longrightarrow> unat (word_of_nat j :: u256) = j"
  by (simp add: unsigned_of_nat take_bit_nat_eq_self)

lemma read_write_same: "readWord (writeWord m a v) a = v"
proof -
  have "map (\<lambda>j. writeWord m a v (a + word_of_nat j)) [0 ..< 32] = map ((!) (toBigEndian256 v)) [0 ..< 32]"
    by (rule map_cong) (simp_all add: writeWord_def small_offset word_less_nat_alt)
  also have "\<dots> = toBigEndian256 v"
    using map_nth [of "toBigEndian256 v"] by (simp add: toBigEndian256_def)
  finally show ?thesis
    by (simp add: readWord_def toBigEndian256_def fromBigEndian_toBigEndian_id bytesRequired_256)
qed

lemma read_write_other:
  assumes "\<forall>j < 32. \<forall>k < 32. b + j \<noteq> a + k"
  shows "readWord (writeWord m a v) b = readWord m b"
proof -
  have "writeWord m a v (b + word_of_nat j) = m (b + word_of_nat j)" if "j < 32" for j
  proof -
    have "word_of_nat j < (32 :: u256)" using that by (simp add: word_less_nat_alt small_offset)
    then have "b + word_of_nat j \<noteq> a + k" if "k < 32" for k using assms that by blast
    then have "\<not> b + word_of_nat j - a < 32" by (metis add_diff_cancel_left' add.commute diff_add_cancel)
    then show ?thesis by (simp add: writeWord_def)
  qed
  then have "map (\<lambda>j. writeWord m a v (b + word_of_nat j)) [0 ..< 32] = map (\<lambda>j. m (b + word_of_nat j)) [0 ..< 32]"
    by (intro map_cong) simp_all
  then show ?thesis unfolding readWord_def by (rule arg_cong)
qed

lemma write_read: "writeWord m a (readWord m a) = m"
proof
  fix x
  show "writeWord m a (readWord m a) x = m x"
  proof (cases "x - a < 32")
    case True
    then have j: "unat (x - a) < 32" by (simp add: word_less_nat_alt)
    have "toBigEndian256 (readWord m a) = map (\<lambda>j. m (a + word_of_nat j)) [0 ..< 32]"
      using toBigEndian_fromBigEndian [of "map (\<lambda>j. m (a + word_of_nat j)) [0 ..< 32]", where 'a = 256]
      by (simp add: toBigEndian256_def readWord_def)
    then show ?thesis using True j by (simp add: writeWord_def)
  qed (simp add: writeWord_def)
qed

lemma memoryMachine_load:
  "sload memoryMachine a w = mw_storage w a" "mload memoryMachine a w = readWord (mw_memory w) a"
  by (simp_all add: sload_def mload_def memoryMachine_def)

lemma memoryMachine_laws: "evm_laws memoryMachine"
  unfolding evm_laws_def memoryMachine_load
proof (intro conjI allI impI)
  show "length (fst (ev_write memoryMachine i as w)) = nat (info_ret (instructionInfo i))" for i as w
    by (simp add: memoryMachine_def instr_table)
  show "ev_read memoryMachine i as (snd (ev_write memoryMachine j bs w)) = ev_read memoryMachine i as w"
    if "i \<in> set constant_reads" for i as j bs w
    using that by (auto simp: memoryMachine_def constant_reads_def)
  show "addresses_fit (\<lambda>i as. ev_read memoryMachine i as w)" for w
    by (simp add: addresses_fit_def memoryMachine_def)
qed (auto simp: memoryMachine_def invalidatesStorage_def invalidatesMemory_def read_write_same
  read_write_other write_read)

definition zeroWorld :: memoryWorld where
  "zeroWorld = \<lparr>mw_storage = (\<lambda>a. 0), mw_memory = (\<lambda>a. 0)\<rparr>"

lemma stored_value_run:
  "exec_block memoryMachine [pushItem 5, pushItem 3, opItem i_SSTORE, pushItem 3, opItem i_SLOAD] [] zeroWorld =
     Next [5] (zeroWorld\<lparr>mw_storage := (\<lambda>a. 0)(3 := 5)\<rparr>)"
  by (simp add: exec_item_def exec_op_def Let_def evm_arith_access instr_class evm_halts_def evm_reads_def
      instr_table memoryMachine_def zeroWorld_def)


subsection \<open>The length of a hash is forgotten\<close>

text \<open>
  \<open>applyKeccak256\<close> looks hashes up by the words of the memory only: for a length that is no
  multiple of 32, the last word is the same as for the full word. The block below hashes 32
  bytes and then the first 31 of them.
\<close>

definition hashBlock :: AssemblyItems where
  "hashBlock =
     [pushItem 32, pushItem 0, opItem i_KECCAK256, pushItem 31, pushItem 0, opItem i_KECCAK256]"

lemma ruleTable_ADD:
  obtains rest where "ruleTable i_ADD =
    mkRule (patOp i_ADD [patA, patB]) (withD2 patA patB (\<lambda>a b. patValue (a + b))) False # rest"
  by (simp add: ruleTable_def allRules_def simplificationRuleList_def simplificationRuleListPart1_def
      constantRules_def mkRule_def patOp_def)

lemma ADD_facts:
  "isDeterministic (opItem i_ADD)" "isCommutativeOperation (opItem i_ADD)"
  by (simp_all add: isDeterministic_def isCommutativeOperation_iff)

lemma simplified_ADD_self:
  assumes "a < classCount cs" and "e_item (m_representatives cs ! a) = pushItem x"
  shows "simplifiedTemplate cs (mkExpression (opItem i_ADD) [a, a] s) =
    Inr (Some (ExpressionTemplate False noId (pushItem (x + x)) []))"
proof -
  obtain rest where rules: "ruleTable i_ADD =
      mkRule (patOp i_ADD [patA, patB]) (withD2 patA patB (\<lambda>a b. patValue (a + b))) False # rest"
    by (rule ruleTable_ADD)
  have m: "matches (r_pattern (mkRule (patOp i_ADD [patA, patB]) f g)) (mkExpression (opItem i_ADD) [a, a] s) cs
      Map.empty = Inr (True, [1 \<mapsto> m_representatives cs ! a, 2 \<mapsto> m_representatives cs ! a])" for f g
    using assms
    by (simp add: mkRule_def mkExpression_def patOp_def patA_def patB_def patType_def matchesBaseItem_def
        matchGroupStep_def representative_def item_facts ADD_facts Let_def)
  show ?thesis
    by (subst simplified_first [OF _ _ _ m, of _ _ rest])
      (simp_all add: rules item_facts ADD_facts, simp add: assms mkRule_def withD2_def patD_def matchGroupValue_def
        Let_def patValue_def toAssemblyItem_def patData_def item_facts)
qed

lemma ruleTable_Nil: "i \<notin> set ruleOps \<Longrightarrow> ruleTable i = []"
proof -
  assume i: "i \<notin> set ruleOps"
  have "p_instruction (r_pattern r) \<noteq> i" if "r \<in> set allRules" for r
  proof -
    have wf: "pat_wf (r_pattern r)" and op: "\<exists>j args. r_pattern r = patOp j args"
      using allRules_wf that by (simp_all add: list_all_iff rule_wf_def)
    obtain j args where p: "r_pattern r = patOp j args" using op by blast
    then have "j \<in> set ruleOps" using wf by (simp add: patOp_def pat_wf.simps)
    moreover have "p_instruction (r_pattern r) = j" by (simp add: p patOp_def)
    ultimately show ?thesis using i by blast
  qed
  then show "ruleTable i = []" by (simp add: ruleTable_def filter_empty_conv)
qed

lemma find_no_rules:
  assumes "m_instruction it \<notin> set ruleOps" and "m_type it = Operation"
    and "setFind (m_expressions cs) (mkExpression it args s) = None"
  shows "findF (Suc n) cs it args s = Some (Inr (enterExpression cs (mkExpression it args s) None))"
  using assms ruleTable_Nil [OF assms(1)]
  by (simp add: simplifiedTemplate_def makeRules_table findFirstMatch_def instructionOf_def Let_def
      split: option.splits)

lemma mkExpression_ADD: "mkExpression (opItem i_ADD) [a, a] s =
    \<lparr>e_id = noId, e_item = opItem i_ADD, e_arguments = [a, a], e_sequenceNumber = s\<rparr>"
  by (simp add: mkExpression_def)

lemma find_ADD_zero:
  assumes "a < classCount cs" and "e_item (m_representatives cs ! a) = pushItem 0"
    and "setFind (m_expressions cs) \<lparr>e_id = noId, e_item = opItem i_ADD, e_arguments = [a, a], e_sequenceNumber = 0\<rparr> = None"
    and "setFind (m_expressions cs) \<lparr>e_id = noId, e_item = pushItem 0, e_arguments = [], e_sequenceNumber = 0\<rparr> = Some f"
  shows "findF (Suc (Suc n)) cs (opItem i_ADD) [a, a] 0 =
    Some (Inr (enterExpression cs (mkExpression (opItem i_ADD) [a, a] 0) (Some (e_id f))))"
proof -
  have t: "simplifiedTemplate cs (mkExpression (opItem i_ADD) [a, a] 0) =
      Inr (Some (ExpressionTemplate False noId (pushItem 0) []))"
    using simplified_ADD_self [OF assms(1,2), of 0] by simp
  have p: "findF (Suc n) cs (pushItem 0) [] 0 = Some (Inr (e_id f, cs))"
    using assms(4) by (simp add: findF_push Let_def del: findF.simps)
  show ?thesis
    using t unfolding mkExpression_ADD
    by (subst findF.simps(2))
      (simp add: Let_def mkExpression_ADD p assms(3) ADD_facts del: findF.simps)
qed

lemma find_found:
  assumes "isDeterministic it" and "setFind (m_expressions cs) (mkExpression it args s) = Some f"
  shows "findF (Suc n) cs it args s = Some (Inr (e_id f, cs))"
  using assms by (simp add: Let_def)

lemma hash_items:
  "m_type (opItem i) = Operation" "m_instruction (opItem i) = i" "m_location (opItem i) = noLocation"
  "m_pushedValue (pushItem v) = None" "item_deposit (pushItem v) = 1"
  "item_deposit (opItem i_KECCAK256) = - 1" "isDeterministic (opItem i_KECCAK256)"
  "isDeterministic (opItem i_MLOAD)" "\<not> isCommutativeOperation (opItem i_KECCAK256)"
  "\<not> isCommutativeOperation (opItem i_MLOAD)" "\<not> isCommutativeOperation (pushItem v)"
  "i_MLOAD \<notin> set ruleOps" "i_KECCAK256 \<notin> set ruleOps"
  "\<not> itemIsDup (opItem i_KECCAK256)" "\<not> itemIsSwap (opItem i_KECCAK256)"
  "info_args (instructionInfo i_KECCAK256) = 2"
  by (simp_all add: itemPush_def itemOfType_def itemOp_def item_deposit_def item_returnValues_def
      item_arguments_def instr_table isDeterministic_def isCommutativeOperation_iff ruleOps_def
      evm_ariths_def itemIsDup_def itemIsSwap_def instr_class)

definition hashClasses1 :: ExpressionClasses where
  "hashClasses1 =
     (let e0 = \<lparr>e_id = 0, e_item = pushItem 32, e_arguments = [], e_sequenceNumber = 0\<rparr>;
          e1 = \<lparr>e_id = 1, e_item = pushItem 0, e_arguments = [], e_sequenceNumber = 0\<rparr>;
          a = \<lparr>e_id = 1, e_item = opItem i_ADD, e_arguments = [1, 1], e_sequenceNumber = 0\<rparr>;
          e2 = \<lparr>e_id = 2, e_item = opItem i_MLOAD, e_arguments = [1], e_sequenceNumber = 1\<rparr>;
          e3 = \<lparr>e_id = 3, e_item = opItem i_KECCAK256, e_arguments = [1, 0], e_sequenceNumber = 1\<rparr>
      in \<lparr>m_representatives = [e0, e1, e2, e3], m_expressions = [e0, e1, a, e2, e3]\<rparr>)"

definition hashState1 :: KnownState where
  "hashState1 = freshState
     \<lparr>ks_stackHeight := 1, ks_stackElements := [(1, 3)], ks_memoryContent := [(1, 2)],
      ks_knownKeccak256Hashes := [[2] \<mapsto> 3]\<rparr>"

lemmas find_evaluation =
  cmFind_def findF_push find_no_rules find_ADD_zero enterExpression_def mkExpression_def setFind_def setInsert_def
  expression_equiv_iff item_facts item_eq_push hash_items

lemma hash_offsets: "wordOffsets 32 = [0]" "wordOffsets 31 = [0]"
  by (simp_all add: wordOffsets_def)

lemma feed_push_item:
  "feedItem (Suc n) (pushItem v) ks = cmBind (cmFind (Suc n) (pushItem v) [] 0) (\<lambda>c.
     cmReturn (invalidOperation, setStackElement (ks_stackHeight ks + 1) c
       (ks\<lparr>ks_stackHeight := ks_stackHeight ks + 1\<rparr>)))"
  by (simp add: feedItem_def hash_items item_facts Let_def)

lemma knownConstant_eval:
  assumes "i < classCount cs"
  shows "knownConstant cs i = Inr
    (if m_type (e_item (m_representatives cs ! i)) = Push
     then Some (m_data (e_item (m_representatives cs ! i))) else None)"
proof -
  have p: "setMatchGroup (patType Push) 1 = patA" by (simp add: patA_def)
  show ?thesis
    using assms unfolding knownConstant_def Let_def p
    by (simp add: matches_patA patD_def matchGroupValue_def dataOf_def representative_def)
qed

lemma feed_hash_item:
  assumes "map_of (ks_stackElements ks) (ks_stackHeight ks) = Some s"
    and "map_of (ks_stackElements ks) (ks_stackHeight ks - 1) = Some l"
  shows "feedItem n (opItem i_KECCAK256) ks =
    cmBind (applyKeccak256 n s l noLocation ks) (\<lambda>(c, k).
      cmReturn (invalidOperation, adjustHeight (- 1) (setStackElement (ks_stackHeight ks - 1) c k)))"
proof -
  have args: "stackArguments n 2 (ks_stackHeight ks) noLocation ks = cmReturn ([s, l], ks)"
    unfolding numeral_2_eq_2 using assms by (simp add: stackElement_def fun_eq_iff cmBind_def cmReturn_def)
  have top: "cmBind (cmReturn x) f = f x" for x :: "Ids \<times> KnownState" and f :: "_ \<Rightarrow> (StoreOperation \<times> KnownState) CM"
    by (simp add: fun_eq_iff cmBind_def cmReturn_def)
  have op: "feedOperation n (opItem i_KECCAK256) ks = cmBind (applyKeccak256 n s l noLocation ks)
      (\<lambda>(c, k). cmReturn (invalidOperation, setStackElement (ks_stackHeight ks - 1) c k))"
    by (simp add: feedOperation_def hash_items Let_def args top) (simp add: feedSwitch_def hash_items)
  show ?thesis
    by (simp add: feedItem_def hash_items op)
      (auto simp: fun_eq_iff cmBind_def cmReturn_def split: option.splits sum.splits prod.splits)
qed

lemma hash_first:
  "feedAll (Suc (Suc n)) [pushItem 32, pushItem 0, opItem i_KECCAK256] freshState emptyClasses =
     Some (Inr (hashState1, hashClasses1))"
  by (simp add: feed_push_item feed_hash_item cmBind_def cmReturn_def find_evaluation Let_def emptyClasses_def
      freshState_def setStackElement_def adjustHeight_def applyKeccak256_def cmQuery_def knownConstant_eval hash_offsets
      loadFromMemory_def hashState1_def hashClasses1_def del: findF.simps)
    (simp add: numeral_2_eq_2 numeral_3_eq_3)

lemma feedAll_append:
  "feedAll n (its @ its') ks = cmBind (feedAll n its ks) (feedAll n its')"
proof (induction its arbitrary: ks)
  case (Cons it its)
  then show ?case
    by (auto simp: fun_eq_iff cmBind_def split: option.splits sum.splits)
qed (simp add: fun_eq_iff cmBind_def cmReturn_def)

text \<open>C39: After hashing 32 bytes of memory and then the first 31 of them, \<open>KnownState\<close> takes the two
  hashes for the same value: the two topmost stack elements are in one class.\<close>

theorem keccak_length_forgotten:
  "\<exists>ks cs. (\<forall>n. feedAll (Suc (Suc n)) hashBlock freshState emptyClasses = Some (Inr (ks, cs))) \<and>
     ks_stackHeight ks = 2 \<and> map_of (ks_stackElements ks) 2 = map_of (ks_stackElements ks) 1 \<and>
     map_of (ks_stackElements ks) 1 \<noteq> None"
proof -
  have block: "hashBlock = [pushItem 32, pushItem 0, opItem i_KECCAK256] @ [pushItem 31, pushItem 0, opItem i_KECCAK256]"
    by (simp add: hashBlock_def)
  define ks where "ks = hashState1\<lparr>ks_stackHeight := 2, ks_stackElements := [(1, 3), (2, 3)]\<rparr>"
  define cs where "cs = hashClasses1
    \<lparr>m_representatives := m_representatives hashClasses1 @
       [\<lparr>e_id = 4, e_item = pushItem 31, e_arguments = [], e_sequenceNumber = 0\<rparr>],
     m_expressions := m_expressions hashClasses1 @
       [\<lparr>e_id = 4, e_item = pushItem 31, e_arguments = [], e_sequenceNumber = 0\<rparr>]\<rparr>"
  define k where "k = hashState1\<lparr>ks_stackHeight := 3, ks_stackElements := [(1, 3), (2, 4), (3, 1)]\<rparr>"
  have pushes: "feedAll (Suc n) [pushItem 31, pushItem 0] hashState1 hashClasses1 = Some (Inr (k, cs))" for n
    by (simp add: feed_push_item cmBind_def cmReturn_def find_evaluation Let_def freshState_def setStackElement_def
        hashState1_def hashClasses1_def cs_def k_def del: findF.simps)
  have add: "findF (Suc n) cs (opItem i_ADD) [1, 1] 0 = Some (Inr (1, cs))" for n
  proof -
    let ?e = "\<lparr>e_id = 1, e_item = opItem i_ADD, e_arguments = [1, 1], e_sequenceNumber = 0\<rparr> :: Expression"
    have "setFind (m_expressions cs) (mkExpression (opItem i_ADD) [1, 1] 0) = Some ?e"
      unfolding mkExpression_ADD
      by (simp add: setFind_def cs_def hashClasses1_def Let_def expression_equiv_iff item_facts)
    from find_found [OF ADD_facts(1) this] show ?thesis by (simp del: findF.simps)
  qed
  have zero: "findF (Suc n) cs (pushItem 0) [] 0 = Some (Inr (1, cs))" for n
    by (simp add: findF_push setFind_def cs_def hashClasses1_def Let_def expression_equiv_iff item_facts item_eq_push
        del: findF.simps)
  have len: "knownConstant cs 4 = Inr (Some 31)"
    by (simp add: knownConstant_eval cs_def hashClasses1_def Let_def item_facts)
  have mem: "map_of (ks_memoryContent k) 1 = Some 2" and known: "ks_knownKeccak256Hashes k [2] = Some 3"
    by (simp_all add: k_def hashState1_def)
  have words: "keccakArguments (Suc n) 1 [0] noLocation k cs = Some (Inr (([2], k), cs))" for n
    unfolding keccakArguments.simps cmBind_def cmFind_def zero option.case sum.case prod.case add loadFromMemory_def mem
    by (simp add: cmReturn_def)
  have hash: "applyKeccak256 (Suc n) 1 4 noLocation k cs = Some (Inr ((3, k), cs))" for n
  proof -
    have "\<not> (31 :: u256) > 128" by simp
    then show ?thesis
      unfolding applyKeccak256_def cmBind_def cmQuery_def len option.case sum.case prod.case hash_offsets words known
      by (simp add: words known cmReturn_def del: One_nat_def keccakArguments.simps)
  qed
  have last: "feedItem (Suc n) (opItem i_KECCAK256) k cs = Some (Inr ((invalidOperation, ks), cs))" for n
  proof -
    have top: "map_of (ks_stackElements k) (ks_stackHeight k) = Some 1"
      "map_of (ks_stackElements k) (ks_stackHeight k - 1) = Some 4"
      by (simp_all add: k_def)
    have "feedItem (Suc n) (opItem i_KECCAK256) k cs =
        Some (Inr ((invalidOperation, adjustHeight (- 1) (setStackElement (ks_stackHeight k - 1) 3 k)), cs))"
      unfolding feed_hash_item [OF top] cmBind_def hash option.case sum.case prod.case cmReturn_def ..
    then show ?thesis
      by (simp add: k_def ks_def adjustHeight_def setStackElement_def hashState1_def)
  qed
  have rest: "[pushItem 31, pushItem 0, opItem i_KECCAK256] = [pushItem 31, pushItem 0] @ [opItem i_KECCAK256]"
    by simp
  have run: "feedAll (Suc (Suc n)) hashBlock freshState emptyClasses = Some (Inr (ks, cs))" for n
    unfolding block feedAll_append cmBind_def hash_first option.case sum.case prod.case
    unfolding rest feedAll_append cmBind_def pushes option.case sum.case prod.case
    unfolding feedAll.simps cmBind_def last option.case sum.case prod.case cmReturn_def ..
  show ?thesis by (intro exI [of _ ks] exI [of _ cs]) (simp add: run, simp add: ks_def hashState1_def)
qed

end
