(* ===== verification/LinkerObject.thy ===== *)
theory LinkerObject
  imports Keccak256 OrderedMap
begin

section \<open>Linker objects (libevmasm/LinkerObject)\<close>

text \<open>
  Byte code with references to libraries at offsets. The reference map is iterated in the
  order of the offsets. An access outsideBlocks the byte code or the text, which C++ leaves
  undefined, is the error \<open>OutOfRange\<close>; the lemmas show that it does not occur for the
  objects the assembler makes. Addresses are 160-bit words, as \<open>h160\<close>.
\<close>

type_synonym h160 = "160 word"
type_synonym LinkReferences = "(nat \<times> string) list"

record LinkerObject =
  bytecode :: bytes
  linkReferences :: LinkReferences

definition emptyObject :: LinkerObject where
  "emptyObject = \<lparr>bytecode = [], linkReferences = []\<rparr>"

text \<open>\<open>asBytes\<close> and \<open>asString\<close> of \<open>libdevcore/CommonData.h\<close>.\<close>

definition asBytes :: "string \<Rightarrow> bytes" where
  "asBytes s = map (\<lambda>c. of_char c) s"

definition asString :: "bytes \<Rightarrow> string" where
  "asString b = map (\<lambda>v. char_of (unat v)) b"

subsection \<open>Operations\<close>

definition object_append :: "LinkerObject \<Rightarrow> LinkerObject \<Rightarrow> LinkerObject" where
  "object_append obj other =
     \<lparr>bytecode = bytecode obj @ bytecode other,
      linkReferences =
        fold (\<lambda>(pos, lib). omap_put (pos + length (bytecode obj)) lib)
          (linkReferences other) (linkReferences obj)\<rparr>"

definition matchLibrary :: "string \<Rightarrow> (string \<rightharpoonup> h160) \<Rightarrow> h160 option" where
  "matchLibrary name libs =
     (case libs name of
        Some a \<Rightarrow> Some a
      | None \<Rightarrow>
          if CHR '':'' \<notin> set name then None
          else libs (tl (dropWhile (\<lambda>c. c \<noteq> CHR '':'') name)))"

text \<open>\<open>copy\<close> of bytes to an offset.\<close>

definition copyTo :: "'a list \<Rightarrow> nat \<Rightarrow> 'a list \<Rightarrow> 'a list result" where
  "copyTo src pos dst =
     (if pos + length src \<le> length dst then Inr (take pos dst @ src @ drop (pos + length src) dst)
      else Inl OutOfRange)"

fun linkLoop :: "LinkReferences \<Rightarrow> (string \<rightharpoonup> h160) \<Rightarrow> bytes \<Rightarrow> (bytes \<times> LinkReferences) result" where
  "linkLoop [] libs code = Inr (code, [])"
| "linkLoop ((pos, name) # refs) libs code =
     (case matchLibrary name libs of
        Some address \<Rightarrow>
          bindE (copyTo (toBigEndian 20 address) pos code) (\<lambda>code. linkLoop refs libs code)
      | None \<Rightarrow>
          bindE (linkLoop refs libs code) (\<lambda>(code, rest). Inr (code, (pos, name) # rest)))"

definition link :: "LinkerObject \<Rightarrow> (string \<rightharpoonup> h160) \<Rightarrow> LinkerObject result" where
  "link obj libs =
     bindE (linkLoop (linkReferences obj) libs (bytecode obj)) (\<lambda>(code, refs).
       Inr \<lparr>bytecode = code, linkReferences = refs\<rparr>)"

definition libraryPlaceholder :: "string \<Rightarrow> string" where
  "libraryPlaceholder name =
     ''$'' @ take 34 (toHex (keccak256_bytes (asBytes name)) 2 DontAdd) @ ''$''"

text \<open>The characters written at a reference: two underscores, the hash, two underscores.\<close>

definition writePlaceholder :: "nat \<times> string \<Rightarrow> string \<Rightarrow> string result" where
  "writePlaceholder ref hex =
     (case ref of (off, name) \<Rightarrow>
        let pos = off * 2; hash = libraryPlaceholder name in
        bindE (copyTo ''__'' pos hex) (\<lambda>hex.
        bindE (copyTo ''__'' (pos + 38) hex) (\<lambda>hex.
        if length hash < 36 then Inl OutOfRange else copyTo (take 36 hash) (pos + 2) hex)))"

fun writePlaceholders :: "LinkReferences \<Rightarrow> string \<Rightarrow> string result" where
  "writePlaceholders [] hex = Inr hex"
| "writePlaceholders (ref # refs) hex = bindE (writePlaceholder ref hex) (writePlaceholders refs)"

definition object_toHex :: "LinkerObject \<Rightarrow> string result" where
  "object_toHex obj = writePlaceholders (linkReferences obj) (toHex (bytecode obj) 2 DontAdd)"

subsection \<open>Well-formed objects\<close>

text \<open>The references are in order, within the byte code and do not overlap.\<close>

definition refs_ok :: "LinkReferences \<Rightarrow> nat \<Rightarrow> nat \<Rightarrow> bool" where
  "refs_ok refs lo hi \<longleftrightarrow>
     sorted_wrt (\<lambda>p q. fst p + 20 \<le> fst q) refs \<and> (\<forall>p \<in> set refs. lo \<le> fst p \<and> fst p + 20 \<le> hi)"

definition object_ok :: "LinkerObject \<Rightarrow> bool" where
  "object_ok obj \<longleftrightarrow> refs_ok (linkReferences obj) 0 (length (bytecode obj))"

lemma refs_ok_Nil [simp]: "refs_ok [] lo hi"
  by (simp add: refs_ok_def)

lemma refs_ok_Cons:
  "refs_ok (p # refs) lo hi \<longleftrightarrow> lo \<le> fst p \<and> fst p + 20 \<le> hi \<and> refs_ok refs (fst p + 20) hi"
  by (auto simp: refs_ok_def)

lemma refs_ok_append:
  "refs_ok refs lo mid \<Longrightarrow> refs_ok refs' mid hi \<Longrightarrow> lo \<le> mid \<Longrightarrow> mid \<le> hi \<Longrightarrow> refs_ok (refs @ refs') lo hi"
  by (fastforce simp: refs_ok_def sorted_wrt_append)

lemma refs_ok_shift:
  "refs_ok (map (\<lambda>(pos, lib). (pos + n, lib)) refs) (lo + n) (hi + n) \<longleftrightarrow> refs_ok refs lo hi"
  by (auto simp: refs_ok_def sorted_wrt_map case_prod_beta)

lemma refs_ok_omap: "refs_ok refs lo hi \<Longrightarrow> omap_ok refs"
  by (auto simp: refs_ok_def omap_ok_def sorted_wrt_map intro: sorted_wrt_mono_rel [rotated])

lemma refs_ok_le: "refs_ok refs lo hi \<Longrightarrow> p \<in> set refs \<Longrightarrow> lo \<le> fst p \<and> fst p + 20 \<le> hi"
  by (simp add: refs_ok_def)

lemma refs_ok_mono: "refs_ok refs lo hi \<Longrightarrow> lo' \<le> lo \<Longrightarrow> hi \<le> hi' \<Longrightarrow> refs_ok refs lo' hi'"
  by (fastforce simp: refs_ok_def)

text \<open>C30: appending one object to another moves the references of the second one behind the code of
  the first, and keeps both well-formed.\<close>

theorem object_append_relocates:
  assumes "object_ok a" and "object_ok b"
  shows "object_ok (object_append a b) \<and> bytecode (object_append a b) = bytecode a @ bytecode b \<and>
     linkReferences (object_append a b) =
       linkReferences a @ map (\<lambda>(pos, lib). (pos + length (bytecode a), lib)) (linkReferences b)"
proof -
  let ?n = "length (bytecode a)"
  let ?bs = "map (\<lambda>(pos, lib). (pos + ?n, lib)) (linkReferences b)"
  have ok: "refs_ok (linkReferences a @ ?bs) 0 (?n + length (bytecode b))"
  proof (rule refs_ok_append)
    show "refs_ok ?bs ?n (?n + length (bytecode b))"
      using refs_ok_shift [of ?n "linkReferences b" 0 "length (bytecode b)"] assms(2)
      by (simp add: object_ok_def add.commute)
  qed (use assms(1) in \<open>simp_all add: object_ok_def\<close>)
  have "fold (\<lambda>(pos, lib). omap_put (pos + ?n) lib) (linkReferences b) (linkReferences a) =
      fold (\<lambda>p. omap_put (fst p) (snd p)) ?bs (linkReferences a)"
    by (simp add: fold_map comp_def case_prod_beta')
  also have "\<dots> = linkReferences a @ ?bs"
    by (rule omap_put_fold [OF refs_ok_omap [OF ok]])
  finally show ?thesis using ok by (simp add: object_append_def object_ok_def)
qed

subsection \<open>Writing separate blocks\<close>

fun copyAll :: "(nat \<times> 'a list) list \<Rightarrow> 'a list \<Rightarrow> 'a list result" where
  "copyAll [] dst = Inr dst"
| "copyAll ((pos, src) # bs) dst = bindE (copyTo src pos dst) (copyAll bs)"

definition blocks_ok :: "(nat \<times> 'a list) list \<Rightarrow> nat \<Rightarrow> bool" where
  "blocks_ok bs n \<longleftrightarrow>
     sorted_wrt (\<lambda>p q. fst p + length (snd p) \<le> fst q) bs \<and> (\<forall>p \<in> set bs. fst p + length (snd p) \<le> n)"

definition outsideBlocks :: "(nat \<times> 'a list) list \<Rightarrow> nat \<Rightarrow> bool" where
  "outsideBlocks bs i \<longleftrightarrow> (\<forall>p \<in> set bs. i < fst p \<or> fst p + length (snd p) \<le> i)"

lemma blocks_ok_Cons:
  "blocks_ok ((pos, src) # bs) n \<longleftrightarrow>
     (\<forall>q \<in> set bs. pos + length src \<le> fst q) \<and> pos + length src \<le> n \<and> blocks_ok bs n"
  by (auto simp: blocks_ok_def)

lemma outsideBlocks_Cons: "outsideBlocks ((pos, src) # bs) i \<longleftrightarrow> (i < pos \<or> pos + length src \<le> i) \<and> outsideBlocks bs i"
  by (simp add: outsideBlocks_def)

lemma copyTo_spec:
  assumes "pos + length src \<le> length dst"
  shows "\<exists>d. copyTo src pos dst = Inr d \<and> length d = length dst \<and>
    (\<forall>k < length src. d ! (pos + k) = src ! k) \<and> (\<forall>i. i < pos \<or> pos + length src \<le> i \<longrightarrow> d ! i = dst ! i)"
proof -
  let ?d = "take pos dst @ src @ drop (pos + length src) dst"
  have "?d ! i = dst ! i" if "i < pos \<or> pos + length src \<le> i" for i
  proof (cases "i < length dst")
    case True
    then show ?thesis using that assms by (auto simp: nth_append)
  next
    case False
    then show ?thesis using that assms by (auto simp: nth_append nth_drop)
  qed
  then show ?thesis using assms by (intro exI [of _ ?d]) (auto simp: copyTo_def nth_append)
qed

lemma copyAll_spec:
  "blocks_ok bs (length dst) \<Longrightarrow>
   \<exists>d. copyAll bs dst = Inr d \<and> length d = length dst \<and>
     (\<forall>p \<in> set bs. \<forall>k < length (snd p). d ! (fst p + k) = snd p ! k) \<and>
     (\<forall>i. outsideBlocks bs i \<longrightarrow> d ! i = dst ! i)"
proof (induction bs arbitrary: dst)
  case (Cons p bs)
  obtain pos src where p: "p = (pos, src)" by force
  have bs: "\<forall>q \<in> set bs. pos + length src \<le> fst q" "pos + length src \<le> length dst"
    "blocks_ok bs (length dst)"
    using Cons.prems by (simp_all add: p blocks_ok_Cons)
  obtain d where d: "copyTo src pos dst = Inr d" "length d = length dst"
    "\<And>k. k < length src \<Longrightarrow> d ! (pos + k) = src ! k"
    "\<And>i. i < pos \<or> pos + length src \<le> i \<Longrightarrow> d ! i = dst ! i"
    using copyTo_spec [OF bs(2)] by blast
  obtain e where e: "copyAll bs d = Inr e" "length e = length dst"
    "\<forall>p \<in> set bs. \<forall>k < length (snd p). e ! (fst p + k) = snd p ! k" "\<forall>i. outsideBlocks bs i \<longrightarrow> e ! i = d ! i"
    using Cons.IH [of d] bs(3) d(2) by auto
  have "outsideBlocks bs (pos + k)" if "k < length src" for k
    using bs(1) that by (fastforce simp: outsideBlocks_def)
  then show ?case
    using d e by (intro exI [of _ e]) (auto simp: p outsideBlocks_Cons)
qed (simp add: outsideBlocks_def)

lemma take_drop_eqI:
  assumes "\<And>k. k < length xs \<Longrightarrow> ys ! (n + k) = xs ! k" and "n + length xs \<le> length ys"
  shows "take (length xs) (drop n ys) = xs"
  using assms by (intro nth_equalityI) auto

subsection \<open>Linking\<close>

fun linkedBlocks :: "LinkReferences \<Rightarrow> (string \<rightharpoonup> h160) \<Rightarrow> (nat \<times> bytes) list" where
  "linkedBlocks [] libs = []"
| "linkedBlocks ((pos, name) # refs) libs =
     (case matchLibrary name libs of
        Some address \<Rightarrow> (pos, toBigEndian 20 address) # linkedBlocks refs libs
      | None \<Rightarrow> linkedBlocks refs libs)"

lemma linkLoop_copyAll:
  "linkLoop refs libs code =
     bindE (copyAll (linkedBlocks refs libs) code) (\<lambda>code.
       Inr (code, filter (\<lambda>(pos, name). matchLibrary name libs = None) refs))"
proof (induction refs libs code rule: linkLoop.induct)
  case (2 pos name refs libs code)
  show ?case
  proof (cases "matchLibrary name libs")
    case None
    then show ?thesis using 2 by (cases "copyAll (linkedBlocks refs libs) code") simp_all
  next
    case (Some a)
    then show ?thesis using 2 by (cases "copyTo (toBigEndian 20 a) pos code") simp_all
  qed
qed simp

lemma set_linkedBlocks:
  "set (linkedBlocks refs libs) =
     {(pos, toBigEndian 20 a) | pos name a. (pos, name) \<in> set refs \<and> matchLibrary name libs = Some a}"
  by (induction refs libs rule: linkedBlocks.induct) (auto split: option.splits, blast)

lemma linkedBlocks_ok: "refs_ok refs lo hi \<Longrightarrow> blocks_ok (linkedBlocks refs libs) hi"
proof (induction refs libs arbitrary: lo rule: linkedBlocks.induct)
  case (2 pos name refs libs)
  have "\<forall>q \<in> set (linkedBlocks refs libs). pos + 20 \<le> fst q"
    using 2(3) refs_ok_le [of refs "pos + 20" hi] by (fastforce simp: set_linkedBlocks refs_ok_Cons)
  then show ?case using 2 by (auto simp: refs_ok_Cons blocks_ok_Cons split: option.splits)
qed (simp add: blocks_ok_def)

text \<open>C28: linking a well-formed object succeeds, writes each known address over its references, in
  big-endian order, changes no other byte, and keeps exactly the references that no address is
  given for.\<close>

theorem link_correct:
  assumes "object_ok obj"
  shows "\<exists>obj'. link obj libs = Inr obj' \<and> object_ok obj' \<and>
     length (bytecode obj') = length (bytecode obj) \<and>
     linkReferences obj' = filter (\<lambda>(pos, name). matchLibrary name libs = None) (linkReferences obj) \<and>
     (\<forall>pos name a. (pos, name) \<in> set (linkReferences obj) \<longrightarrow> matchLibrary name libs = Some a \<longrightarrow>
        take 20 (drop pos (bytecode obj')) = toBigEndian 20 a) \<and>
     (\<forall>i. (\<forall>pos name a. (pos, name) \<in> set (linkReferences obj) \<longrightarrow> matchLibrary name libs = Some a \<longrightarrow>
          i < pos \<or> pos + 20 \<le> i) \<longrightarrow> bytecode obj' ! i = bytecode obj ! i)"
proof -
  let ?refs = "linkReferences obj" and ?bs = "linkedBlocks (linkReferences obj) libs"
  have ok: "refs_ok ?refs 0 (length (bytecode obj))" using assms by (simp add: object_ok_def)
  obtain d where d: "copyAll ?bs (bytecode obj) = Inr d" "length d = length (bytecode obj)"
    "\<forall>p \<in> set ?bs. \<forall>k < length (snd p). d ! (fst p + k) = snd p ! k"
    "\<forall>i. outsideBlocks ?bs i \<longrightarrow> d ! i = bytecode obj ! i"
    using copyAll_spec [OF linkedBlocks_ok [OF ok]] by blast
  have "take 20 (drop pos d) = toBigEndian 20 a"
    if "(pos, name) \<in> set ?refs" "matchLibrary name libs = Some a" for pos name a
  proof -
    have "(pos, toBigEndian 20 a) \<in> set ?bs" using that by (auto simp: set_linkedBlocks)
    then have "\<And>k. k < 20 \<Longrightarrow> d ! (pos + k) = toBigEndian 20 a ! k" using d(3) by fastforce
    then show ?thesis
      using take_drop_eqI [of "toBigEndian 20 a" d pos] refs_ok_le [OF ok that(1)] d(2) by simp
  qed
  moreover have "outsideBlocks ?bs i"
    if "\<forall>pos name a. (pos, name) \<in> set ?refs \<longrightarrow> matchLibrary name libs = Some a \<longrightarrow> i < pos \<or> pos + 20 \<le> i" for i
    using that by (fastforce simp: outsideBlocks_def set_linkedBlocks)
  moreover have "refs_ok (filter P ?refs) 0 (length (bytecode obj))" for P
    using ok by (auto simp: refs_ok_def sorted_wrt_filter)
  ultimately show ?thesis
    using d by (simp add: link_def linkLoop_copyAll object_ok_def)
qed

subsection \<open>Printing\<close>

lemma length_hex: "length (toHex bs 2 DontAdd) = 2 * length bs"
  by (induction bs) (simp_all add: toHex_2 hexByte_2)

lemma length_libraryPlaceholder [simp]: "length (libraryPlaceholder name) = 36"
  by (simp add: libraryPlaceholder_def length_hex)

lemma writePlaceholder_copyTo:
  assumes "off * 2 + 40 \<le> length hex"
  shows "writePlaceholder (off, name) hex = copyTo (''__'' @ libraryPlaceholder name @ ''__'') (2 * off) hex"
  using assms
  by (simp add: writePlaceholder_def copyTo_def Let_def mult.commute add.commute) arith

definition placeholders :: "LinkReferences \<Rightarrow> (nat \<times> string) list" where
  "placeholders refs = map (\<lambda>(off, name). (2 * off, ''__'' @ libraryPlaceholder name @ ''__'')) refs"

lemma writePlaceholders_copyAll:
  "refs_ok refs lo n \<Longrightarrow> length hex = 2 * n \<Longrightarrow> writePlaceholders refs hex = copyAll (placeholders refs) hex"
proof (induction refs arbitrary: lo hex)
  case (Cons p refs)
  obtain off name where p: "p = (off, name)" by force
  have le: "off + 20 \<le> n" "refs_ok refs (off + 20) n" using Cons.prems(1) by (simp_all add: p refs_ok_Cons)
  then have w: "writePlaceholder (off, name) hex = copyTo (''__'' @ libraryPlaceholder name @ ''__'') (2 * off) hex"
    using Cons.prems(2) by (intro writePlaceholder_copyTo) simp
  obtain d where "copyTo (''__'' @ libraryPlaceholder name @ ''__'') (2 * off) hex = Inr d" "length d = length hex"
    using copyTo_spec [of "2 * off" "''__'' @ libraryPlaceholder name @ ''__''" hex] le(1) Cons.prems(2) by auto
  then show ?case using w Cons.IH [OF le(2)] Cons.prems(2) by (simp add: p placeholders_def)
qed (simp add: placeholders_def)

lemma placeholders_ok: "refs_ok refs lo n \<Longrightarrow> blocks_ok (placeholders refs) (2 * n)"
proof -
  have "(\<lambda>(x :: nat \<times> string) (y :: nat \<times> string). 2 * fst x + 40 \<le> 2 * fst y) = (\<lambda>x y. fst x + 20 \<le> fst y)"
    by (intro ext iffI) linarith+
  then show "refs_ok refs lo n \<Longrightarrow> blocks_ok (placeholders refs) (2 * n)"
    by (auto simp: refs_ok_def blocks_ok_def placeholders_def sorted_wrt_map case_prod_beta)
qed


subsection \<open>Concrete objects\<close>

definition exampleObject :: LinkerObject where
  "exampleObject = \<lparr>bytecode = replicate 25 0, linkReferences = [(1, ''a.sol:L'')]\<rparr>"

lemma example_ok: "object_ok exampleObject"
  by (simp add: exampleObject_def object_ok_def refs_ok_def)

theorem object_append_relocates_witness:
  "linkReferences (object_append exampleObject exampleObject) = [(1, ''a.sol:L''), (26, ''a.sol:L'')]"
  using object_append_relocates [OF example_ok example_ok] by (simp add: exampleObject_def)

theorem link_correct_witness:
  "\<exists>obj'. link exampleObject [''L'' \<mapsto> 7] = Inr obj' \<and> linkReferences obj' = [] \<and>
     take 20 (drop 1 (bytecode obj')) = replicate 19 0 @ [7]"
proof -
  have lib: "matchLibrary ''a.sol:L'' [''L'' \<mapsto> 7] = Some 7" by code_simp
  have bytes: "toBigEndian 20 (7 :: h160) = replicate 19 0 @ [7]" by code_simp
  show ?thesis
    using link_correct [OF example_ok, of "[''L'' \<mapsto> 7]"] lib bytes
    by (auto simp: exampleObject_def)
qed


end
