(* ===== verification/Assembly.thy ===== *)
theory Assembly
  imports AssemblyItem LinkerObject
begin

section \<open>Assemblies (libevmasm/Assembly)\<close>

text \<open>
  The state of an assembly, the operations that build it, and the assembler. The maps that the
  assembler iterates over are ordered; \<open>m_namedTags\<close> is only looked up. Sub-assemblies are
  shared pointers in the code and values here: the model is exact while an assembly is a sub
  of one assembly only. \<open>m_deposit\<close> is an \<open>int\<close>. Accesses outside a vector, which C++ leaves
  undefined, are the error \<open>OutOfRange\<close>, as is the exception of \<open>at\<close>.
\<close>

record AssemblyState =
  m_usedTags :: u32
  m_namedTags :: "string \<rightharpoonup> u64"
  m_items :: AssemblyItems
  m_dataMap :: "(u256 \<times> bytes) list"
  m_auxiliaryData :: bytes
  m_strings :: "(u256 \<times> string) list"
  m_libraries :: "(u256 \<times> string) list"
  m_assembledObject :: LinkerObject
  m_tagPositionsInBytecode :: "u64 list"
  m_deposit :: int
  m_currentSourceLocation :: SourceLocation

datatype Assembly = Assembly (asmState: AssemblyState) (m_subs: "Assembly list")

definition emptyState :: AssemblyState where
  "emptyState =
     \<lparr>m_usedTags = 1, m_namedTags = Map.empty, m_items = [], m_dataMap = [], m_auxiliaryData = [],
      m_strings = [], m_libraries = [], m_assembledObject = emptyObject,
      m_tagPositionsInBytecode = [], m_deposit = 0, m_currentSourceLocation = noLocation\<rparr>"

definition emptyAssembly :: Assembly where
  "emptyAssembly = Assembly emptyState []"

subsection \<open>Tags, data and sub-assemblies\<close>

definition newTag :: "AssemblyState \<Rightarrow> (AssemblyItem \<times> AssemblyState) result" where
  "newTag st =
     (if m_usedTags st < 0xffffffff
      then Inr (itemOfType Tag (ucast (m_usedTags st)) noLocation, st\<lparr>m_usedTags := m_usedTags st + 1\<rparr>)
      else Inl (AssemblyException []))"

definition newPushTag :: "AssemblyState \<Rightarrow> (AssemblyItem \<times> AssemblyState) result" where
  "newPushTag st =
     (if m_usedTags st < 0xffffffff
      then Inr (itemOfType PushTag (ucast (m_usedTags st)) noLocation, st\<lparr>m_usedTags := m_usedTags st + 1\<rparr>)
      else Inl (AssemblyException []))"

definition namedTag :: "AssemblyState \<Rightarrow> string \<Rightarrow> (AssemblyItem \<times> AssemblyState) result" where
  "namedTag st name =
     (if name = [] then Inl (AssemblyException ''Empty named tag.'')
      else case m_namedTags st name of
          Some t \<Rightarrow> Inr (itemOfType Tag (ucast t) noLocation, st)
        | None \<Rightarrow> bindE (newTag st) (\<lambda>(it, st).
            bindE (dataOf it) (\<lambda>d.
            Inr (itemOfType Tag (ucast (ucast d :: u64)) noLocation,
                 st\<lparr>m_namedTags := (m_namedTags st)(name \<mapsto> ucast d)\<rparr>))))"

definition assembly_newData :: "AssemblyState \<Rightarrow> bytes \<Rightarrow> AssemblyItem \<times> AssemblyState" where
  "assembly_newData st data =
     (let h = keccak256 (asBytes (asString data))
      in (itemOfType PushData h noLocation, st\<lparr>m_dataMap := omap_put h data (m_dataMap st)\<rparr>))"

definition newPushString :: "AssemblyState \<Rightarrow> string \<Rightarrow> AssemblyItem \<times> AssemblyState" where
  "newPushString st data =
     (let h = keccak256 (asBytes data)
      in (itemOfType PushString h noLocation, st\<lparr>m_strings := omap_put h data (m_strings st)\<rparr>))"

definition newPushLibraryAddress :: "AssemblyState \<Rightarrow> string \<Rightarrow> AssemblyItem \<times> AssemblyState" where
  "newPushLibraryAddress st identifier =
     (let h = keccak256 (asBytes identifier)
      in (itemOfType PushLibraryAddress h noLocation,
          st\<lparr>m_libraries := omap_put h identifier (m_libraries st)\<rparr>))"

definition newSub :: "Assembly \<Rightarrow> Assembly \<Rightarrow> AssemblyItem \<times> Assembly" where
  "newSub a sub =
     (let subs = m_subs a @ [sub]
      in (itemOfType PushSub (of_nat (length subs) - 1) noLocation, Assembly (asmState a) subs))"

definition newPushSubSize :: "u256 \<Rightarrow> AssemblyItem" where
  "newPushSubSize subId = itemOfType PushSubSize subId noLocation"

subsection \<open>Appending\<close>

definition appendItem :: "AssemblyState \<Rightarrow> AssemblyItem \<Rightarrow> AssemblyState result" where
  "appendItem st it =
     (if \<not> 0 \<le> m_deposit st then Inl (AssemblyException ''Stack underflow.'')
      else
        let it' = (if location_isEmpty (m_location it) \<and> \<not> location_isEmpty (m_currentSourceLocation st)
                   then it\<lparr>m_location := m_currentSourceLocation st\<rparr> else it)
        in Inr (st\<lparr>m_deposit := m_deposit st + item_deposit it, m_items := m_items st @ [it']\<rparr>))"

fun appendItems :: "AssemblyState \<Rightarrow> AssemblyItems \<Rightarrow> AssemblyState result" where
  "appendItems st [] = Inr st"
| "appendItems st (it # its) = bindE (appendItem st it) (\<lambda>st. appendItems st its)"

definition backItem :: "AssemblyState \<Rightarrow> AssemblyItem" where
  "backItem st = last (m_items st)"

definition appendString :: "AssemblyState \<Rightarrow> string \<Rightarrow> AssemblyState result" where
  "appendString st s = (case newPushString st s of (it, st) \<Rightarrow> appendItem st it)"

definition appendData :: "AssemblyState \<Rightarrow> bytes \<Rightarrow> AssemblyState result" where
  "appendData st d = (case assembly_newData st d of (it, st) \<Rightarrow> appendItem st it)"

definition appendProgramSize :: "AssemblyState \<Rightarrow> AssemblyState result" where
  "appendProgramSize st = appendItem st (itemOfType PushProgramSize 0 noLocation)"

definition appendLibraryAddress :: "AssemblyState \<Rightarrow> string \<Rightarrow> AssemblyState result" where
  "appendLibraryAddress st identifier =
     (case newPushLibraryAddress st identifier of (it, st) \<Rightarrow> appendItem st it)"

text \<open>\<open>appendJump()\<close>, \<open>appendJumpI()\<close> and the versions with a tag: the push item as it was
  appended, and the state.\<close>

definition appendNewJump :: "instruction \<Rightarrow> AssemblyState \<Rightarrow> (AssemblyItem \<times> AssemblyState) result" where
  "appendNewJump i st =
     bindE (newPushTag st) (\<lambda>(it, st).
     bindE (appendItem st it) (\<lambda>st.
     bindE (appendItem st (opItem i)) (\<lambda>st'. Inr (backItem st, st'))))"

definition appendJumpTo :: "instruction \<Rightarrow> AssemblyState \<Rightarrow> AssemblyItem \<Rightarrow> (AssemblyItem \<times> AssemblyState) result" where
  "appendJumpTo i st tag =
     bindE (pushTagOf tag) (\<lambda>it.
     bindE (appendItem st it) (\<lambda>st.
     bindE (appendItem st (opItem i)) (\<lambda>st'. Inr (backItem st, st'))))"

definition liftState :: "(AssemblyState \<Rightarrow> AssemblyState result) \<Rightarrow> Assembly \<Rightarrow> Assembly result" where
  "liftState f a = bindE (f (asmState a)) (\<lambda>st. Inr (Assembly st (m_subs a)))"

definition appendSubroutine :: "Assembly \<Rightarrow> Assembly \<Rightarrow> (AssemblyItem \<times> Assembly) result" where
  "appendSubroutine a sub =
     (case newSub a sub of (it, a) \<Rightarrow>
        bindE (dataOf it) (\<lambda>d.
        bindE (liftState (\<lambda>st. appendItem st (newPushSubSize (ucast (ucast d :: u64)))) a) (\<lambda>a. Inr (it, a))))"

definition pushSubroutineSize :: "AssemblyState \<Rightarrow> u64 \<Rightarrow> AssemblyState result" where
  "pushSubroutineSize st sub = appendItem st (newPushSubSize (ucast sub))"

definition pushSubroutineOffset :: "AssemblyState \<Rightarrow> u64 \<Rightarrow> AssemblyState result" where
  "pushSubroutineOffset st sub = appendItem st (itemOfType PushSub (ucast sub) noLocation)"

definition appendAuxiliaryDataToEnd :: "AssemblyState \<Rightarrow> bytes \<Rightarrow> AssemblyState" where
  "appendAuxiliaryDataToEnd st d = st\<lparr>m_auxiliaryData := m_auxiliaryData st @ d\<rparr>"

definition setDeposit :: "AssemblyState \<Rightarrow> int \<Rightarrow> AssemblyState result" where
  "setDeposit st d = (if 0 \<le> d then Inr (st\<lparr>m_deposit := d\<rparr>) else Inl InvalidDeposit)"

definition adjustDeposit :: "AssemblyState \<Rightarrow> int \<Rightarrow> AssemblyState result" where
  "adjustDeposit st n =
     (if 0 \<le> m_deposit st + n then Inr (st\<lparr>m_deposit := m_deposit st + n\<rparr>) else Inl InvalidDeposit)"

definition setSourceLocation :: "AssemblyState \<Rightarrow> SourceLocation \<Rightarrow> AssemblyState" where
  "setSourceLocation st l = st\<lparr>m_currentSourceLocation := l\<rparr>"

definition injectStart :: "AssemblyState \<Rightarrow> AssemblyItem \<Rightarrow> AssemblyState" where
  "injectStart st it = st\<lparr>m_items := it # m_items st\<rparr>"

definition backString :: "AssemblyState \<Rightarrow> string result" where
  "backString st =
     (if m_items st \<noteq> [] \<and> m_type (backItem st) = PushString
      then (case map_of (m_strings st) (m_data (backItem st)) of Some s \<Rightarrow> Inr s | None \<Rightarrow> Inl OutOfRange)
      else Inr [])"

subsection \<open>Appending an assembly\<close>

definition relocateItem :: "u32 \<Rightarrow> nat \<Rightarrow> AssemblyItem \<Rightarrow> AssemblyItem result" where
  "relocateItem usedTags subs it =
     (case m_type it of
        Tag \<Rightarrow> bindE (dataOf it) (\<lambda>d. setData it (d + ucast usedTags))
      | PushTag \<Rightarrow> bindE (dataOf it) (\<lambda>d. setData it (d + ucast usedTags))
      | PushSub \<Rightarrow> bindE (dataOf it) (\<lambda>d. setData it (d + of_nat subs))
      | PushSubSize \<Rightarrow> bindE (dataOf it) (\<lambda>d. setData it (d + of_nat subs))
      | _ \<Rightarrow> Inr it)"

fun relocateItems :: "u32 \<Rightarrow> nat \<Rightarrow> AssemblyState \<Rightarrow> AssemblyItems \<Rightarrow> AssemblyState result" where
  "relocateItems usedTags subs st [] = Inr st"
| "relocateItems usedTags subs st (it # its) =
     bindE (relocateItem usedTags subs it) (\<lambda>it.
     bindE (appendItem st it) (\<lambda>st. relocateItems usedTags subs st its))"

definition insertAll :: "('k::linorder \<times> 'v) list \<Rightarrow> ('k \<times> 'v) list \<Rightarrow> ('k \<times> 'v) list" where
  "insertAll ps m = fold (\<lambda>(k, v). omap_insert k v) ps m"

definition appendAssembly :: "Assembly \<Rightarrow> Assembly \<Rightarrow> Assembly result" where
  "appendAssembly a b =
     (let newDeposit = m_deposit (asmState a) + m_deposit (asmState b) in
      bindE (relocateItems (m_usedTags (asmState a)) (length (m_subs a)) (asmState a) (m_items (asmState b)))
        (\<lambda>st. Inr (Assembly
          (st\<lparr>m_deposit := newDeposit,
              m_usedTags := m_usedTags st + m_usedTags (asmState b),
              m_dataMap := insertAll (m_dataMap (asmState b)) (m_dataMap st),
              m_strings := insertAll (m_strings (asmState b)) (m_strings st),
              m_libraries := insertAll (m_libraries (asmState b)) (m_libraries st)\<rparr>)
          (m_subs a @ m_subs b))))"

definition appendAssemblyDeposit :: "Assembly \<Rightarrow> Assembly \<Rightarrow> int \<Rightarrow> Assembly result" where
  "appendAssemblyDeposit a b deposit =
     (if \<not> deposit \<le> m_deposit (asmState b) then Inl InvalidDeposit
      else bindE (appendAssembly a b)
        (liftState (\<lambda>st. appendItems st
          (replicate (nat (m_deposit (asmState b) - deposit)) (opItem i_POP)))))"

subsection \<open>Size of the code\<close>

definition codeSize :: "AssemblyState \<Rightarrow> u32 \<Rightarrow> u32 result" where
  "codeSize st tagSize =
     bindE (items_bytesRequired (m_items st) (unat tagSize)) (\<lambda>n.
       Inr (1 + of_nat (sum_list (map (length \<circ> snd) (m_dataMap st))) + of_nat n))"

function codeSizeLoop :: "AssemblyState \<Rightarrow> u32 \<Rightarrow> u32 result" where
  "codeSizeLoop st tagSize =
     bindE (codeSize st tagSize) (\<lambda>ret.
       if bytesRequired ret \<le> unat tagSize then Inr ret
       else codeSizeLoop st (tagSize + 1))"
  by pat_completeness auto
termination
proof (relation "measure (\<lambda>(st, tagSize). 4 - unat tagSize)")
  fix st :: AssemblyState and tagSize x :: u32
  assume "\<not> bytesRequired x \<le> unat tagSize"
  moreover have "bytesRequired x \<le> 4"
    using unat_less_length [of x] by (simp add: bytesRequired_le_iff)
  ultimately have small: "unat tagSize < 4" by simp
  then have "unat (tagSize + 1) = unat tagSize + 1" by (subst unat_add_lem [THEN iffD1]) simp_all
  with small show "((st, tagSize + 1), st, tagSize) \<in> measure (\<lambda>(st, tagSize). 4 - unat tagSize)"
    by simp
qed simp

declare codeSizeLoop.simps [simp del]

definition assembly_bytesRequired :: "AssemblyState \<Rightarrow> u32 \<Rightarrow> u32 result" where
  "assembly_bytesRequired st subTagSize = codeSizeLoop st subTagSize"

end
