(* ===== verification/CodePass.thy ===== *)
theory CodePass
  imports EVM "HOL-Library.Sublist"
begin

section \<open>Passes that rewrite code block by block\<close>

text \<open>
  What an optimiser pass that walks an item list from left to right must do for the
  optimised program to behave like the original: a locale, whose one lemma the passes of
  the optimiser use through their interpretations.
\<close>

text \<open>
  How the execution of the block that replaces another may differ: it may do anything
  where the original fails, and it may fall through where the original jumps to the code
  \<open>ys\<close> that follows the block.
\<close>

definition step_refines :: "'w evm \<Rightarrow> AssemblyItems \<Rightarrow> AssemblyItems \<Rightarrow> 'w step \<Rightarrow> 'w step \<Rightarrow> bool" where
  "step_refines E P ys r s =
     (case r of
        Fail \<Rightarrow> True
      | JumpTo v stk w \<Rightarrow> s = r \<or> (s = Next stk w \<and> findTag E P v = Some ys)
      | _ \<Rightarrow> s = r)"

definition isTagItem :: "AssemblyItem \<Rightarrow> bool" where
  "isTagItem it \<longleftrightarrow> m_type it = Tag"

definition isPushTagItem :: "AssemblyItem \<Rightarrow> bool" where
  "isPushTagItem it \<longleftrightarrow> m_type it = PushTag"

text \<open>Tags occur only at the end of a block, and the new block has the same.\<close>

definition tags_agree :: "AssemblyItems \<Rightarrow> AssemblyItems \<Rightarrow> bool" where
  "tags_agree a b \<longleftrightarrow>
     filter isTagItem a = filter isTagItem b \<and>
     (filter isTagItem a = [] \<or>
      (\<exists>t a' b'. a = a' @ [t] \<and> b = b' @ [t] \<and> filter isTagItem a' = []))"

definition block_refines ::
  "'w evm \<Rightarrow> AssemblyItems \<Rightarrow> AssemblyItems \<Rightarrow> AssemblyItems \<Rightarrow> AssemblyItems \<Rightarrow> bool" where
  "block_refines E P ys a b \<longleftrightarrow>
     (\<forall>stk w. step_refines E P ys (exec_block E a stk w) (exec_block E b stk w))"

lemma findTag_no_tags: "filter isTagItem xs = [] \<Longrightarrow> findTag E xs v = None"
  by (induction xs) (auto simp: isTagItem_def split: if_splits)

lemma findTag_tags_agree:
  assumes "tags_agree a b"
  shows "findTag E a v = None \<and> findTag E b v = None \<or>
     findTag E a v = Some [] \<and> findTag E b v = Some []"
proof (cases "filter isTagItem a = []")
  case True
  then show ?thesis using assms by (auto simp: tags_agree_def findTag_no_tags)
next
  case False
  then obtain t a' b' where ab: "a = a' @ [t]" "b = b' @ [t]" and a': "filter isTagItem a' = []"
    and eq: "filter isTagItem a = filter isTagItem b"
    using assms by (auto simp: tags_agree_def)
  then have "filter isTagItem b' = []" by (auto split: if_splits)
  with a' show ?thesis by (auto simp: ab findTag_append findTag_no_tags)
qed

lemma findTag_suffix: "findTag E xs v = Some ys \<Longrightarrow> suffix ys xs"
  by (induction xs) (auto simp: suffix_ConsI split: if_splits)

text \<open>A block that is kept.\<close>

lemma step_refines_refl [simp]: "step_refines E P ys r r"
  by (auto simp: step_refines_def split: step.splits)

lemma tags_agree_single [simp]: "tags_agree [it] [it]"
  by (auto simp: tags_agree_def intro: exI [of _ it])

locale code_pass =
  fixes pass :: "AssemblyItems \<Rightarrow> AssemblyItems"
    and admissible :: "'w evm \<Rightarrow> AssemblyItems \<Rightarrow> bool"
  assumes pass_Nil: "pass [] = []"
    and pass_block: "admissible E P \<Longrightarrow> suffix xs P \<Longrightarrow> xs \<noteq> [] \<Longrightarrow>
      \<exists>a b ys. xs = a @ ys \<and> a \<noteq> [] \<and> pass xs = b @ pass ys \<and>
        tags_agree a b \<and> block_refines E P ys a b"
begin

lemma findTag_pass:
  assumes "admissible E P" and "suffix xs P"
  shows "findTag E (pass xs) v = map_option pass (findTag E xs v)"
  using assms(2)
proof (induction "length xs" arbitrary: xs rule: less_induct)
  case less
  show ?case
  proof (cases "xs = []")
    case True
    then show ?thesis by (simp add: pass_Nil)
  next
    case False
    obtain a b ys where b: "xs = a @ ys" "a \<noteq> []" "pass xs = b @ pass ys" and t: "tags_agree a b"
      using pass_block [OF assms(1) less.prems False] by blast
    have "findTag E (pass ys) v = map_option pass (findTag E ys v)"
      using less b(1,2) by (auto dest: suffix_appendD)
    then show ?thesis
      using findTag_tags_agree [OF t, of E v] b(3) unfolding b(1)
      by (auto simp: findTag_append)
  qed
qed

lemma run_pass:
  assumes "admissible E P" and "suffix xs P" and "run n E P xs stk w = Some r" and "r \<noteq> Failed"
  shows "\<exists>m. run m E (pass P) (pass xs) stk w = Some r"
  using assms(2,3)
proof (induction n arbitrary: xs stk w rule: less_induct)
  case (less n)
  show ?case
  proof (cases "xs = []")
    case True
    then have "run (Suc 0) E (pass P) (pass xs) stk w = Some r"
      using less.prems(2) by (cases n) (auto simp: pass_Nil)
    then show ?thesis by blast
  next
    case False
    obtain a b ys where b: "xs = a @ ys" "a \<noteq> []" "pass xs = b @ pass ys"
      and ref: "step_refines E P ys (exec_block E a stk w) (exec_block E b stk w)"
      using pass_block [OF assms(1) less.prems(1) False] by (auto simp: block_refines_def)
    have suf: "suffix ys P" using less.prems(1) b(1) by (auto dest: suffix_appendD)
    note rb = run_block [OF less.prems(2) [unfolded b(1)]]
    show ?thesis
    proof (cases "exec_block E a stk w")
      case (Next stk' w')
      then have "n - length a < n" and "run (n - length a) E P ys stk' w' = Some r"
        using rb b(2) by (cases a; simp)+
      then obtain m where "run m E (pass P) (pass ys) stk' w' = Some r"
        using less.IH [OF _ suf] by blast
      then show ?thesis
        using Next ref run_block_Next unfolding b(3) by (fastforce simp: step_refines_def)
    next
      case (JumpTo v stk' w')
      then obtain zs k where zs: "findTag E P v = Some zs" and k: "k < n" "run k E P zs stk' w' = Some r"
        using rb assms(4) by (auto split: option.splits)
      then obtain m where m: "run m E (pass P) (pass zs) stk' w' = Some r"
        using less.IH [OF k(1) findTag_suffix [OF zs] k(2)] by blast
      have tag: "findTag E (pass P) v = Some (pass zs)"
        using findTag_pass [OF assms(1) suffix_order.refl, of v] zs by simp
      show ?thesis
        using JumpTo ref zs m tag run_block_Next [of E b stk w stk' w' m "pass P" "pass zs" r]
          run_block_JumpTo [of E b stk w v stk' w' "pass P" "pass zs" m r "pass ys"]
        unfolding b(3) by (auto simp: step_refines_def)
    next
      case (Halt i as w')
      then show ?thesis
        using ref rb run_block_Halt unfolding b(3) by (fastforce simp: step_refines_def)
    next
      case Fail
      then show ?thesis using rb assms(4) by simp
    qed
  qed
qed

theorem run_program_pass:
  assumes "admissible E P" and "run n E P P stk w = Some r" and "r \<noteq> Failed"
  shows "\<exists>m. run m E (pass P) (pass P) stk w = Some r"
  using run_pass [OF assms(1) suffix_order.refl assms(2,3)] .

end

end
