(* ===== verification/Peephole.thy ===== *)
theory Peephole
  imports CodePass
begin

section \<open>The peephole optimiser (libevmasm/PeepholeOptimiser)\<close>

text \<open>
  The methods of \<open>PeepholeOptimiser.cpp\<close>, the loop that applies the first that matches at
  each position, and \<open>optimise\<close>. An \<open>applySimple\<close> returns \<open>None\<close> for \<open>false\<close> and
  \<open>Some\<close> of the items it writes to \<open>_out\<close> for \<open>true\<close>; a rule's \<open>apply\<close> takes and
  returns the optimiser's state.
\<close>

record OptimiserState =
  os_items :: AssemblyItems
  os_i :: nat
  os_out :: AssemblyItems

type_synonym peephole_step = "OptimiserState \<Rightarrow> bool \<times> OptimiserState"
type_synonym rule = "AssemblyItems \<Rightarrow> AssemblyItems option"

fun applyRule1 :: "(AssemblyItem \<Rightarrow> AssemblyItems option) \<Rightarrow> rule" where
  "applyRule1 f [a] = f a"
| "applyRule1 f _ = None"

fun applyRule2 :: "(AssemblyItem \<Rightarrow> AssemblyItem \<Rightarrow> AssemblyItems option) \<Rightarrow> rule" where
  "applyRule2 f [a, b] = f a b"
| "applyRule2 f _ = None"

fun applyRule3 ::
  "(AssemblyItem \<Rightarrow> AssemblyItem \<Rightarrow> AssemblyItem \<Rightarrow> AssemblyItems option) \<Rightarrow> rule" where
  "applyRule3 f [a, b, c] = f a b c"
| "applyRule3 f _ = None"

text \<open>\<open>SimplePeepholeOptimizerMethod::apply\<close> for a window size and the rule on the window.\<close>

definition applyWindow :: "nat \<Rightarrow> rule \<Rightarrow> peephole_step" where
  "applyWindow windowSize rule st =
     (if os_i st + windowSize \<le> length (os_items st)
      then case rule (take windowSize (drop (os_i st) (os_items st))) of
             Some out \<Rightarrow> (True, st\<lparr>os_i := os_i st + windowSize, os_out := os_out st @ out\<rparr>)
           | None \<Rightarrow> (False, st)
      else (False, st))"

subsection \<open>The rules\<close>

definition Identity :: "AssemblyItem \<Rightarrow> AssemblyItems option" where
  "Identity it = Some [it]"

definition PushPop :: "AssemblyItem \<Rightarrow> AssemblyItem \<Rightarrow> AssemblyItems option" where
  "PushPop psh pop =
     (let t = m_type psh in
      if is_op pop i_POP \<and>
         (itemIsDup psh \<or>
          t = Push \<or> t = PushString \<or> t = PushTag \<or> t = PushSub \<or>
          t = PushSubSize \<or> t = PushProgramSize \<or> t = PushData \<or> t = PushLibraryAddress)
      then Some [] else None)"

definition OpPop :: "AssemblyItem \<Rightarrow> AssemblyItem \<Rightarrow> AssemblyItems option" where
  "OpPop it pop =
     (if is_op pop i_POP \<and> m_type it = Operation
      then let inf = instructionInfo (m_instruction it) in
           if info_ret inf = 1 \<and> \<not> info_sideEffects inf
           then Some (replicate (nat (info_args inf)) (itemOp i_POP (m_location it)))
           else None
      else None)"

definition DoubleSwap :: "AssemblyItem \<Rightarrow> AssemblyItem \<Rightarrow> AssemblyItems option" where
  "DoubleSwap s1 s2 = (if item_eq s1 s2 \<and> itemIsSwap s1 then Some [] else None)"

definition DoublePush :: "AssemblyItem \<Rightarrow> AssemblyItem \<Rightarrow> AssemblyItems option" where
  "DoublePush push1 push2 =
     (if m_type push1 = Push \<and> m_type push2 = Push \<and> m_data push1 = m_data push2
      then Some [push1, itemOp i_DUP1 (m_location push2)] else None)"

definition CommutativeSwap :: "AssemblyItem \<Rightarrow> AssemblyItem \<Rightarrow> AssemblyItems option" where
  "CommutativeSwap swap it =
     (if m_type swap = Operation \<and> m_instruction swap = i_SWAP1 \<and> isCommutativeOperation it
      then Some [it] else None)"

definition swappableOps :: "(instruction \<times> instruction) list" where
  "swappableOps = [(i_LT, i_GT), (i_GT, i_LT), (i_SLT, i_SGT), (i_SGT, i_SLT)]"

definition SwapComparison :: "AssemblyItem \<Rightarrow> AssemblyItem \<Rightarrow> AssemblyItems option" where
  "SwapComparison swap it =
     (if m_type swap = Operation \<and> m_instruction swap = i_SWAP1 \<and> m_type it = Operation
      then case map_of swappableOps (m_instruction it) of
             Some i \<Rightarrow> Some [opItem i]
           | None \<Rightarrow> None
      else None)"

definition JumpToNext ::
  "AssemblyItem \<Rightarrow> AssemblyItem \<Rightarrow> AssemblyItem \<Rightarrow> AssemblyItems option" where
  "JumpToNext pushTag jump tag =
     (if m_type pushTag = PushTag \<and> (is_op jump i_JUMP \<or> is_op jump i_JUMPI) \<and>
         m_type tag = Tag \<and> m_data pushTag = m_data tag
      then Some ((if is_op jump i_JUMPI then [itemOp i_POP (m_location jump)] else []) @ [tag])
      else None)"

definition TagConjunctions ::
  "AssemblyItem \<Rightarrow> AssemblyItem \<Rightarrow> AssemblyItem \<Rightarrow> AssemblyItems option" where
  "TagConjunctions pushTag pushConstant andItem =
     (if m_type pushTag = PushTag \<and> is_op andItem i_AND \<and> m_type pushConstant = Push \<and>
         m_data pushConstant AND 0xFFFFFFFF = 0xFFFFFFFF
      then Some [pushTag] else None)"

definition TruthyAnd ::
  "AssemblyItem \<Rightarrow> AssemblyItem \<Rightarrow> AssemblyItem \<Rightarrow> AssemblyItems option" where
  "TruthyAnd psh notItem andItem =
     (if m_type psh = Push \<and> m_data psh = 0 \<and> is_op notItem i_NOT \<and> is_op andItem i_AND
      then Some [] else None)"

text \<open>
  \<open>UnreachableCode::apply\<close>: the inner loop counts the items after the first that are not
  tags.
\<close>

definition UnreachableCode :: peephole_step where
  "UnreachableCode st =
     (case drop (os_i st) (os_items st) of
        [] \<Rightarrow> (False, st)
      | it0 # rest \<Rightarrow>
          if \<not> is_op it0 i_JUMP \<and> \<not> is_op it0 i_RETURN \<and> \<not> is_op it0 i_STOP \<and>
             \<not> is_op it0 i_INVALID \<and> \<not> is_op it0 i_SELFDESTRUCT \<and> \<not> is_op it0 i_REVERT
          then (False, st)
          else let i = 1 + length (takeWhile (\<lambda>it. m_type it \<noteq> Tag) rest) in
               if 1 < i
               then (True, st\<lparr>os_i := os_i st + i, os_out := os_out st @ [it0]\<rparr>)
               else (False, st))"

subsection \<open>The loop\<close>

text \<open>The parameter pack of \<open>applyMethods\<close>, in the order \<open>optimise\<close> gives it.\<close>

definition methods :: "peephole_step list" where
  "methods =
     [applyWindow 2 (applyRule2 PushPop),
      applyWindow 2 (applyRule2 OpPop),
      applyWindow 2 (applyRule2 DoublePush),
      applyWindow 2 (applyRule2 DoubleSwap),
      applyWindow 2 (applyRule2 CommutativeSwap),
      applyWindow 2 (applyRule2 SwapComparison),
      applyWindow 3 (applyRule3 JumpToNext),
      UnreachableCode,
      applyWindow 3 (applyRule3 TagConjunctions),
      applyWindow 3 (applyRule3 TruthyAnd),
      applyWindow 1 (applyRule1 Identity)]"

fun applyMethods :: "peephole_step list \<Rightarrow> OptimiserState \<Rightarrow> OptimiserState result" where
  "applyMethods [] st =
     Inl (OptimizerException ''Peephole optimizer failed to apply identity.'')"
| "applyMethods (m # ms) st =
     (case m st of (True, st') \<Rightarrow> Inr st' | (False, st') \<Rightarrow> applyMethods ms st')"

definition numberOfPops :: "AssemblyItems \<Rightarrow> nat" where
  "numberOfPops its = length (filter (\<lambda>it. is_op it i_POP) its)"

subsection \<open>What a method does to the code that is left\<close>

text \<open>
  The weight of an item: every rewriting but the identity makes the sum smaller.
\<close>

definition itemWeight :: "AssemblyItem \<Rightarrow> nat" where
  "itemWeight it =
     (case m_type it of
        Operation \<Rightarrow> if info_ret (instructionInfo (m_instruction it)) = 1 then 8 else 1
      | Push \<Rightarrow> 2
      | _ \<Rightarrow> 1)"

definition weight :: "AssemblyItems \<Rightarrow> nat" where
  "weight its = sum_list (map itemWeight its)"

text \<open>
  The programs the rules are sound for, as \<open>Assembly::assemble\<close> makes them: no two tags
  have the same address, and the address of a pushed tag fits in 32 bits.
\<close>

definition tags_placed :: "'w evm \<Rightarrow> AssemblyItems \<Rightarrow> bool" where
  "tags_placed E P \<longleftrightarrow>
     distinct (map (\<lambda>it. ev_push E PushTag (m_data it)) (filter isTagItem P)) \<and>
     list_all (\<lambda>it. ev_push E PushTag (m_data it) < 0x100000000) (filter isPushTagItem P)"

definition isSymbolic :: "AssemblyItem \<Rightarrow> bool" where
  "isSymbolic it \<longleftrightarrow> m_type it \<noteq> Operation"

text \<open>The contract of a method on the suffix of the program that is left to process.\<close>

locale peephole_method =
  fixes world :: "'w itself"
    and step :: "peephole_step"
    and on_suffix :: "AssemblyItems \<Rightarrow> (nat \<times> AssemblyItems) option"
  assumes step_eq: "step st =
      (case on_suffix (drop (os_i st) (os_items st)) of
         Some (n, e) \<Rightarrow> (True, st\<lparr>os_i := os_i st + n, os_out := os_out st @ e\<rparr>)
       | None \<Rightarrow> (False, st))"
    and window: "on_suffix xs = Some (n, e) \<Longrightarrow> 0 < n \<and> n \<le> length xs"
    and lighter: "on_suffix xs = Some (n, e) \<Longrightarrow> e = take n xs \<or> weight e < weight (take n xs)"
    and tags: "on_suffix xs = Some (n, e) \<Longrightarrow> tags_agree (take n xs) e"
    and symbolic: "on_suffix xs = Some (n, e) \<Longrightarrow>
      set (filter isSymbolic e) \<subseteq> set (filter isSymbolic (take n xs))"
    and refines: "on_suffix xs = Some (n, e) \<Longrightarrow> tags_placed (E :: 'w evm) P \<Longrightarrow> suffix xs P \<Longrightarrow>
      block_refines E P (drop n xs) (take n xs) e"

text \<open>The same for a rule on a window of fixed size.\<close>

locale window_rule =
  fixes world :: "'w itself"
    and size :: nat and rule :: "rule"
  assumes size_pos: "0 < size"
    and rule_lighter: "rule a = Some e \<Longrightarrow> e = a \<or> weight e < weight a"
    and rule_tags: "rule a = Some e \<Longrightarrow> tags_agree a e"
    and rule_symbolic: "rule a = Some e \<Longrightarrow>
      set (filter isSymbolic e) \<subseteq> set (filter isSymbolic a)"
    and rule_refines: "rule a = Some e \<Longrightarrow> tags_placed (E :: 'w evm) P \<Longrightarrow> suffix (a @ ys) P \<Longrightarrow>
      block_refines E P ys a e"

definition window_on :: "nat \<Rightarrow> rule \<Rightarrow> AssemblyItems \<Rightarrow> (nat \<times> AssemblyItems) option" where
  "window_on n rule xs =
     (if n \<le> length xs then map_option (\<lambda>e. (n, e)) (rule (take n xs)) else None)"

sublocale window_rule \<subseteq> peephole_method world "applyWindow size rule" "window_on size rule"
proof
  show "applyWindow size rule st =
      (case window_on size rule (drop (os_i st) (os_items st)) of
         Some (n, e) \<Rightarrow> (True, st\<lparr>os_i := os_i st + n, os_out := os_out st @ e\<rparr>)
       | None \<Rightarrow> (False, st))" for st
    using size_pos by (auto simp: applyWindow_def window_on_def split: option.splits)
qed (use size_pos rule_lighter rule_tags rule_symbolic rule_refines in
  \<open>auto simp: window_on_def split: if_splits\<close>)


subsection \<open>The rules keep the contract\<close>

lemma exec_op_POP [simp]:
  "exec_op E i_POP stk w = (case stk of [] \<Rightarrow> Fail | _ # rest \<Rightarrow> Next rest w)"
  by (cases stk) (auto simp: exec_op_def instr_table isPushInstruction_def isDupInstruction_def
      isSwapInstruction_def word_le_nat_alt)

lemma exec_op_dup:
  assumes "isDupInstruction i"
  shows "exec_op E i stk w =
    (let n = unat (getDupNumber i) in
     if length stk < n then Fail else Next (stk ! (n - 1) # stk) w)"
proof -
  have "\<not> isPushInstruction i" using assms by (auto simp: instr_class)
  then show ?thesis
    using assms dup_rows [OF assms] family_valid(2) [OF assms] by (simp add: exec_op_def Let_def)
qed

lemma exec_op_swap:
  assumes "isSwapInstruction i"
  shows "exec_op E i stk w =
    (let n = unat (getSwapNumber i) in
     if length stk < n + 1 then Fail else Next (stk[0 := stk ! n, n := stk ! 0]) w)"
proof -
  have "\<not> isPushInstruction i" "\<not> isDupInstruction i" using assms by (auto simp: instr_class)
  then show ?thesis
    using assms swap_rows [OF assms] family_valid(3) [OF assms]
    by (simp add: exec_op_def Let_def nat_add_distrib)
qed

lemma exec_op_DUP1: "exec_op E i_DUP1 stk w =
    (case stk of [] \<Rightarrow> Fail | x # rest \<Rightarrow> Next (x # x # rest) w)"
  by (cases stk) (simp_all add: exec_op_dup instr_class)

lemma exec_op_SWAP1: "exec_op E i_SWAP1 stk w =
    (case stk of x # y # rest \<Rightarrow> Next (y # x # rest) w | _ \<Rightarrow> Fail)"
  by (cases stk rule: remdups_adj.cases) (simp_all add: exec_op_swap instr_class)

text \<open>Opcodes the table calls free of side effects, with one result.\<close>

lemma side_effect_free_cases:
  assumes "info_ret (instructionInfo i) = 1" and "\<not> info_sideEffects (instructionInfo i)"
  shows "isPushInstruction i \<or> i \<in> set evm_reads \<or> i \<in> set evm_ariths"
proof -
  have "list_all (\<lambda>(i, x). info_ret x = 1 \<and> \<not> info_sideEffects x \<longrightarrow>
      isPushInstruction i \<or> i \<in> set evm_reads \<or> i \<in> set evm_ariths) c_instructionInfo"
    unfolding c_instructionInfo_def list.pred_inject prod.case
    by (simp add: evm_reads_def evm_ariths_def isPushInstruction_def word_le_nat_alt)
  from instructionInfo_all [OF this] assms show ?thesis by simp
qed

lemma exec_op_pure:
  assumes "info_ret (instructionInfo i) = 1" and "\<not> info_sideEffects (instructionInfo i)"
  shows "exec_op E i stk w = Fail \<or>
    nat (info_args (instructionInfo i)) \<le> length stk \<and>
    (\<exists>v. exec_op E i stk w = Next (v # drop (nat (info_args (instructionInfo i))) stk) w)"
proof (cases "isPushInstruction i \<or> length stk < nat (info_args (instructionInfo i))")
  case True
  then show ?thesis by (auto simp: exec_op_def Let_def)
next
  case False
  then have i: "i \<in> set evm_reads \<or> i \<in> set evm_ariths"
    using side_effect_free_cases [OF assms] by blast
  have plain: "isValidInstruction i \<and> \<not> isDupInstruction i \<and> \<not> isSwapInstruction i \<and>
      i \<notin> set evm_halts \<and> i \<noteq> i_POP \<and> i \<noteq> i_JUMPDEST \<and> i \<noteq> i_JUMP \<and> i \<noteq> i_JUMPI"
    using i by (auto simp: evm_reads_def evm_ariths_def evm_halts_def instr_class instr_table)
  have "i \<in> set evm_ariths \<longrightarrow>
      (\<exists>v. evm_arith i (take (nat (info_args (instructionInfo i))) stk) = Some v)"
    using evm_arith_total False by (simp add: not_less)
  then show ?thesis
    using plain i False by (auto simp: exec_op_def Let_def not_less split: option.splits)
qed

lemma exec_block_pops:
  "exec_block E (replicate n (itemOp i_POP l)) stk w =
     (if length stk < n then Fail else Next (drop n stk) w)"
  by (induction n arbitrary: stk) (auto simp: exec_item_def split: list.splits)


lemma exec_op_arith1:
  assumes "i \<in> set evm_ariths" and "info_args (instructionInfo i) = 1"
  shows "exec_op E i stk w =
    (case stk of x # r \<Rightarrow> Next (the (evm_arith1 i x) # r) w | _ \<Rightarrow> Fail)"
proof -
  have plain: "isValidInstruction i \<and> \<not> isPushInstruction i \<and> \<not> isDupInstruction i \<and>
      \<not> isSwapInstruction i \<and> i \<notin> set evm_halts \<and> i \<noteq> i_POP \<and> i \<noteq> i_JUMPDEST \<and> i \<noteq> i_JUMP \<and>
      i \<noteq> i_JUMPI"
    using assms(1) by (auto simp: evm_ariths_def evm_halts_def instr_class instr_table)
  show ?thesis
    using plain assms(2) evm_arith_total [OF assms(1), of "[hd stk]"]
    by (cases stk) (auto simp: exec_op_def Let_def evm_arith_def split: option.splits)
qed

lemma exec_op_arith2:
  assumes "i \<in> set evm_ariths" and "info_args (instructionInfo i) = 2"
  shows "exec_op E i stk w =
    (case stk of x # y # r \<Rightarrow> Next (the (evm_arith2 i x y) # r) w | _ \<Rightarrow> Fail)"
proof -
  have plain: "isValidInstruction i \<and> \<not> isPushInstruction i \<and> \<not> isDupInstruction i \<and>
      \<not> isSwapInstruction i \<and> i \<notin> set evm_halts \<and> i \<noteq> i_POP \<and> i \<noteq> i_JUMPDEST \<and> i \<noteq> i_JUMP \<and>
      i \<noteq> i_JUMPI"
    using assms(1) by (auto simp: evm_ariths_def evm_halts_def instr_class instr_table)
  show ?thesis
    using plain assms(2) evm_arith_total [OF assms(1), of "[hd stk, hd (tl stk)]"]
    by (cases stk; cases "tl stk")
      (auto simp: exec_op_def Let_def evm_arith_def numeral_2_eq_2 split: option.splits)
qed

lemma exec_op_AND: "exec_op E i_AND stk w =
    (case stk of x # y # r \<Rightarrow> Next ((x AND y) # r) w | _ \<Rightarrow> Fail)"
  by (subst exec_op_arith2) (auto simp: evm_ariths_def instr_table evm_arith2.simps split: list.splits)

lemma exec_op_NOT: "exec_op E i_NOT stk w = (case stk of x # r \<Rightarrow> Next (NOT x # r) w | _ \<Rightarrow> Fail)"
  by (subst exec_op_arith1) (auto simp: evm_ariths_def instr_table evm_arith1.simps split: list.splits)

lemma exec_op_JUMP: "exec_op E i_JUMP stk w = (case stk of x # r \<Rightarrow> JumpTo x r w | _ \<Rightarrow> Fail)"
  by (cases stk) (auto simp: exec_op_def instr_table instr_class)

lemma exec_op_JUMPI: "exec_op E i_JUMPI stk w =
    (case stk of x # c # r \<Rightarrow> if c \<noteq> 0 then JumpTo x r w else Next r w | _ \<Rightarrow> Fail)"
proof -
  have "\<not> isPushInstruction i_JUMPI \<and> \<not> isDupInstruction i_JUMPI \<and> \<not> isSwapInstruction i_JUMPI"
    by (simp add: instr_class)
  then show ?thesis
    by (cases stk; cases "tl stk") (auto simp: exec_op_def instr_table Let_def)
qed

text \<open>A commutative opcode after a swap of its operands.\<close>

lemma arith2_ops:
  assumes "i \<in> set [i_ADD, i_MUL, i_EQ, i_AND, i_OR, i_XOR, i_LT, i_GT, i_SLT, i_SGT]"
  shows "i \<in> set evm_ariths" and "info_args (instructionInfo i) = 2"
proof -
  have "list_all (\<lambda>i. i \<in> set evm_ariths \<and> info_args (instructionInfo i) = 2)
      [i_ADD, i_MUL, i_EQ, i_AND, i_OR, i_XOR, i_LT, i_GT, i_SLT, i_SGT]"
    unfolding list.pred_inject by (simp add: instr_table evm_ariths_def)
  then have "\<forall>i \<in> set [i_ADD, i_MUL, i_EQ, i_AND, i_OR, i_XOR, i_LT, i_GT, i_SLT, i_SGT].
      i \<in> set evm_ariths \<and> info_args (instructionInfo i) = 2"
    by (simp only: list_all_iff)
  with assms show "i \<in> set evm_ariths" and "info_args (instructionInfo i) = 2" by blast+
qed

lemmas exec_op_binary = exec_op_arith2 [OF arith2_ops]

lemma swappableOps_cases:
  assumes "map_of swappableOps i = Some j"
  shows "i = i_LT \<and> j = i_GT \<or> i = i_GT \<and> j = i_LT \<or> i = i_SLT \<and> j = i_SGT \<or> i = i_SGT \<and> j = i_SLT"
  using assms by (simp add: swappableOps_def split: if_splits)

lemma evm_arith2_swaps: "map_of swappableOps i = Some j \<Longrightarrow> evm_arith2 j x y = evm_arith2 i y x"
  by (drule swappableOps_cases) (elim disjE; simp)

subsubsection \<open>Windows\<close>

lemma applyRule1_Some: "applyRule1 f a = Some e \<longleftrightarrow> (\<exists>x. a = [x] \<and> f x = Some e)"
  by (cases "(f, a)" rule: applyRule1.cases) auto

lemma applyRule2_Some: "applyRule2 f a = Some e \<longleftrightarrow> (\<exists>x y. a = [x, y] \<and> f x y = Some e)"
  by (cases "(f, a)" rule: applyRule2.cases) auto

lemma applyRule3_Some: "applyRule3 f a = Some e \<longleftrightarrow> (\<exists>x y z. a = [x, y, z] \<and> f x y z = Some e)"
  by (cases "(f, a)" rule: applyRule3.cases) auto

lemma itemWeight_pos [simp]: "0 < itemWeight it"
  by (simp add: itemWeight_def split: AssemblyItemType.splits)

lemma weight_simps [simp]:
  "weight [] = 0" "weight (x # xs) = itemWeight x + weight xs"
  "weight (xs @ ys) = weight xs + weight ys"
  by (simp_all add: weight_def)

lemma tags_agree_no_tags:
  "filter isTagItem a = [] \<Longrightarrow> filter isTagItem b = [] \<Longrightarrow> tags_agree a b"
  by (simp add: tags_agree_def)

lemma step_case_id [simp]:
  "(case r of Next s w \<Rightarrow> Next s w | JumpTo v s w \<Rightarrow> JumpTo v s w | Halt i as w \<Rightarrow> Halt i as w
    | Fail \<Rightarrow> Fail) = r"
  by (cases r) auto

lemma findTag_unique:
  assumes "tags_placed E (pre @ t # ys)" and "m_type t = Tag"
  shows "findTag E (pre @ t # ys) (ev_push E PushTag (m_data t)) = Some ys"
  using assms
proof (induction pre)
  case (Cons x pre)
  then have "tags_placed E (pre @ t # ys)" by (auto simp: tags_placed_def split: if_splits)
  moreover have "\<not> (m_type x = Tag \<and> ev_push E PushTag (m_data x) = ev_push E PushTag (m_data t))"
    using Cons.prems by (auto simp: tags_placed_def isTagItem_def)
  ultimately show ?case using Cons by simp
qed simp

lemmas is_item = is_op_iff isTagItem_def isSymbolic_def

lemmas rule_window = applyRule1_Some applyRule2_Some applyRule3_Some

lemma exec_item_op: "m_type it = Operation \<Longrightarrow> exec_item E it stk w = exec_op E (m_instruction it) stk w"
  by (simp add: exec_item_def)

interpretation Identity: window_rule "TYPE('w)" 1 "applyRule1 Identity"
  by unfold_locales (auto simp: rule_window Identity_def block_refines_def)

lemma PushPop_pushes:
  assumes "PushPop x y = Some e"
  shows "exec_item E x stk w = Fail \<or> (\<exists>v. exec_item E x stk w = Next (v # stk) w)"
    and "e = [] \<and> is_op y i_POP \<and> m_type x \<noteq> Tag"
  using assms
  by (auto simp: PushPop_def exec_item_def itemIsDup_def exec_op_dup Let_def split: if_splits)

interpretation PushPop: window_rule "TYPE('w)" 2 "applyRule2 PushPop"
proof unfold_locales
  fix E :: "'w evm" and P ys a e
  assume "applyRule2 PushPop a = Some e"
  then obtain x y where a: "a = [x, y]" and xy: "PushPop x y = Some e"
    by (auto simp: rule_window)
  note p = PushPop_pushes [OF xy]
  have "step_refines E P ys (exec_block E a stk w) (exec_block E e stk w)" for stk w
    using p(1) [of E stk w] p(2) by (auto simp: a is_item exec_item_op step_refines_def)
  then show "block_refines E P ys a e" by (simp add: block_refines_def)
qed (auto simp: rule_window is_item dest!: PushPop_pushes(2) intro!: tags_agree_no_tags)

lemma OpPop_pops:
  assumes "OpPop x y = Some e"
  shows "is_op y i_POP \<and> m_type x = Operation"
    and "info_ret (instructionInfo (m_instruction x)) = 1"
    and "\<not> info_sideEffects (instructionInfo (m_instruction x))"
    and "e = replicate (nat (info_args (instructionInfo (m_instruction x))))
           (itemOp i_POP (m_location x))"
  using assms by (auto simp: OpPop_def Let_def split: if_splits)

lemma OpPop_frame: "OpPop x y = Some e \<Longrightarrow>
    is_op y i_POP \<and> m_type x = Operation \<and> (\<exists>n. e = replicate n (itemOp i_POP (m_location x)))"
  using OpPop_pops by blast

lemma filter_pops [simp]:
  "filter isTagItem (replicate n (itemOp i l)) = []"
  "filter isSymbolic (replicate n (itemOp i l)) = []"
  by (simp_all add: isTagItem_def isSymbolic_def)

lemma itemWeight_POP [simp]: "itemWeight (itemOp i_POP l) = 1"
  by (simp add: itemWeight_def instr_table)

lemma weight_pops: "weight (replicate n (itemOp i_POP l)) = n"
  by (simp add: weight_def sum_list_replicate_nat)

text \<open>An opcode with one result and no side effect takes at most five operands (\<open>ETHASH\<close>).\<close>

lemma side_effect_free_args:
  assumes "info_ret (instructionInfo i) = 1" and "\<not> info_sideEffects (instructionInfo i)"
  shows "info_args (instructionInfo i) \<le> 5"
proof -
  have "list_all (\<lambda>(i, x). info_ret x = 1 \<and> \<not> info_sideEffects x \<longrightarrow> info_args x \<le> 5)
      c_instructionInfo"
    unfolding c_instructionInfo_def list.pred_inject prod.case by simp
  from instructionInfo_all [OF this] assms show ?thesis by simp
qed

interpretation OpPop: window_rule "TYPE('w)" 2 "applyRule2 OpPop"
proof unfold_locales
  fix a e
  assume "applyRule2 OpPop a = Some e"
  then obtain x y where a: "a = [x, y]" and xy: "OpPop x y = Some e"
    by (auto simp: rule_window)
  note p = OpPop_pops [OF xy]
  have "nat (info_args (instructionInfo (m_instruction x))) \<le> 5"
    using side_effect_free_args [OF p(2,3)] by simp
  moreover have "itemWeight x = 8" using p(1,2) by (simp add: itemWeight_def)
  ultimately show "e = a \<or> weight e < weight a"
    using itemWeight_pos [of y] unfolding p(4) weight_pops a by simp
next
  fix E :: "'w evm" and P ys a e
  assume "applyRule2 OpPop a = Some e"
  then obtain x y where a: "a = [x, y]" and xy: "OpPop x y = Some e"
    by (auto simp: rule_window)
  note p = OpPop_pops [OF xy]
  have "step_refines E P ys (exec_block E a stk w) (exec_block E e stk w)" for stk w
    using exec_op_pure [OF p(2,3), of E stk w] p(1)
    unfolding p(4) a exec_block_pops by (auto simp: is_item exec_item_op step_refines_def)
  then show "block_refines E P ys a e" by (simp add: block_refines_def)
qed (auto simp: rule_window is_item dest!: OpPop_frame intro!: tags_agree_no_tags)

lemma DoubleSwap_swaps:
  "DoubleSwap x y = Some e \<Longrightarrow>
     e = [] \<and> m_type x = Operation \<and> m_type y = Operation \<and> m_instruction y = m_instruction x \<and>
     isSwapInstruction (m_instruction x)"
  by (auto simp: DoubleSwap_def item_eq_def itemIsSwap_def split: if_splits)

lemma swap_twice:
  assumes "n < length (stk :: u256 list)"
  shows "(stk[0 := stk ! n, n := stk ! 0])
    [0 := (stk[0 := stk ! n, n := stk ! 0]) ! n, n := (stk[0 := stk ! n, n := stk ! 0]) ! 0] = stk"
proof (cases n)
  case 0
  then show ?thesis using assms by (cases stk) simp_all
next
  case (Suc m)
  then show ?thesis using assms by (cases stk) simp_all
qed

interpretation DoubleSwap: window_rule "TYPE('w)" 2 "applyRule2 DoubleSwap"
proof unfold_locales
  fix E :: "'w evm" and P ys a e
  assume "applyRule2 DoubleSwap a = Some e"
  then obtain x y where a: "a = [x, y]" and xy: "DoubleSwap x y = Some e"
    by (auto simp: rule_window)
  note p = DoubleSwap_swaps [OF xy]
  have "step_refines E P ys (exec_block E a stk w) (exec_block E e stk w)" for stk w
    using p swap_twice [of "unat (getSwapNumber (m_instruction x))" stk]
    by (auto simp: a exec_item_op exec_op_swap Let_def step_refines_def)
  then show "block_refines E P ys a e" by (simp add: block_refines_def)
qed (auto simp: rule_window is_item dest!: DoubleSwap_swaps intro!: tags_agree_no_tags)

lemma itemWeight_DUP1 [simp]: "itemWeight (itemOp i_DUP1 l) = 1"
  by (simp add: itemWeight_def instr_table)

lemma itemWeight_Push: "m_type x = Push \<Longrightarrow> itemWeight x = 2"
  by (simp add: itemWeight_def)

lemma DoublePush_pushes:
  "DoublePush x y = Some e \<Longrightarrow>
     m_type x = Push \<and> m_type y = Push \<and> m_data y = m_data x \<and>
     e = [x, itemOp i_DUP1 (m_location y)]"
  by (auto simp: DoublePush_def split: if_splits)

interpretation DoublePush: window_rule "TYPE('w)" 2 "applyRule2 DoublePush"
proof unfold_locales
  fix E :: "'w evm" and P ys a e
  assume "applyRule2 DoublePush a = Some e"
  then show "block_refines E P ys a e"
    by (auto simp: rule_window block_refines_def exec_item_op exec_op_DUP1 exec_item_def
        dest!: DoublePush_pushes)
qed (auto simp: rule_window is_item itemWeight_Push
    dest!: DoublePush_pushes intro!: tags_agree_no_tags)

lemma CommutativeSwap_ops:
  "CommutativeSwap x y = Some e \<Longrightarrow>
     m_type x = Operation \<and> m_instruction x = i_SWAP1 \<and> isCommutativeOperation y \<and> e = [y]"
  by (auto simp: CommutativeSwap_def split: if_splits)

lemma exec_op_SWAP1_binary:
  assumes "i \<in> set [i_ADD, i_MUL, i_EQ, i_AND, i_OR, i_XOR, i_LT, i_GT, i_SLT, i_SGT]"
    and "j \<in> set [i_ADD, i_MUL, i_EQ, i_AND, i_OR, i_XOR, i_LT, i_GT, i_SLT, i_SGT]"
    and "\<And>u v. evm_arith2 j u v = evm_arith2 i v u"
  shows "step_refines E P ys
    (case exec_op E i_SWAP1 stk w of Next s w \<Rightarrow> exec_op E i s w | r \<Rightarrow> r) (exec_op E j stk w)"
  unfolding exec_op_SWAP1 exec_op_binary [OF assms(1) assms(1)] exec_op_binary [OF assms(2) assms(2)]
  by (cases stk rule: remdups_adj.cases) (auto simp: assms(3) step_refines_def)

interpretation CommutativeSwap: window_rule "TYPE('w)" 2 "applyRule2 CommutativeSwap"
proof unfold_locales
  fix E :: "'w evm" and P ys a e
  assume "applyRule2 CommutativeSwap a = Some e"
  then obtain x y where a: "a = [x, y]" and xy: "CommutativeSwap x y = Some e"
    by (auto simp: rule_window)
  note p = CommutativeSwap_ops [OF xy]
  have y: "m_type y = Operation" "m_instruction y \<in> set [i_ADD, i_MUL, i_EQ, i_AND, i_OR, i_XOR]"
    using p isCommutativeOperation_iff by blast+
  have "m_instruction y \<in>
      set [i_ADD, i_MUL, i_EQ, i_AND, i_OR, i_XOR, i_LT, i_GT, i_SLT, i_SGT]"
    using y(2) by auto
  from exec_op_SWAP1_binary [OF this this evm_arith2_commutes [OF y(2)]]
  show "block_refines E P ys a e"
    using p y(1) by (auto simp: block_refines_def a exec_item_op cong: step.case_cong)
qed (auto simp: rule_window is_item isCommutativeOperation_def
    dest!: CommutativeSwap_ops intro!: tags_agree_no_tags split: if_splits)

lemma SwapComparison_ops:
  "SwapComparison x y = Some e \<Longrightarrow>
     m_type x = Operation \<and> m_instruction x = i_SWAP1 \<and> m_type y = Operation \<and>
     (\<exists>j. map_of swappableOps (m_instruction y) = Some j \<and> e = [opItem j])"
  by (auto simp: SwapComparison_def split: if_splits option.splits)

interpretation SwapComparison: window_rule "TYPE('w)" 2 "applyRule2 SwapComparison"
proof unfold_locales
  fix a e
  assume "applyRule2 SwapComparison a = Some e"
  then obtain x y j where a: "a = [x, y]" "m_type y = Operation" "e = [opItem j]"
    and j: "map_of swappableOps (m_instruction y) = Some j"
    by (auto simp: rule_window dest!: SwapComparison_ops)
  have "itemWeight (opItem j) = itemWeight y"
    using swappableOps_cases [OF j] a(2) by (auto simp: itemWeight_def instr_table)
  then show "e = a \<or> weight e < weight a" using a by simp
next
  fix E :: "'w evm" and P ys a e
  assume "applyRule2 SwapComparison a = Some e"
  then obtain x y j where a: "a = [x, y]" "m_type x = Operation" "m_instruction x = i_SWAP1"
    "m_type y = Operation" "e = [opItem j]" and j: "map_of swappableOps (m_instruction y) = Some j"
    by (auto simp: rule_window dest!: SwapComparison_ops)
  have "m_instruction y \<in> set [i_ADD, i_MUL, i_EQ, i_AND, i_OR, i_XOR, i_LT, i_GT, i_SLT, i_SGT]"
    "j \<in> set [i_ADD, i_MUL, i_EQ, i_AND, i_OR, i_XOR, i_LT, i_GT, i_SLT, i_SGT]"
    using swappableOps_cases [OF j] by auto
  from exec_op_SWAP1_binary [OF this evm_arith2_swaps [OF j]]
  show "block_refines E P ys a e"
    using a by (auto simp: block_refines_def exec_item_op cong: step.case_cong)
qed (auto simp: rule_window is_item dest!: SwapComparison_ops intro!: tags_agree_no_tags)

lemma JumpToNext_items:
  "JumpToNext x y t = Some e \<Longrightarrow>
     m_type x = PushTag \<and> m_type t = Tag \<and> m_data x = m_data t \<and>
     (is_op y i_JUMP \<and> e = [t] \<or> is_op y i_JUMPI \<and> e = [itemOp i_POP (m_location y), t])"
  by (auto simp: JumpToNext_def is_op_iff split: if_splits)

interpretation JumpToNext: window_rule "TYPE('w)" 3 "applyRule3 JumpToNext"
proof unfold_locales
  fix a e
  assume "applyRule3 JumpToNext a = Some e"
  then obtain x y t where a: "a = [x, y, t]" and xyt: "JumpToNext x y t = Some e"
    by (auto simp: rule_window)
  note p = JumpToNext_items [OF xyt]
  show "tags_agree a e"
    using p unfolding tags_agree_def a
    by (auto simp: is_item intro: exI [of _ "[x, y]"] exI [of _ "[]"]
        exI [of _ "[itemOp i_POP (m_location y)]"])
  show "e = a \<or> weight e < weight a"
    using p itemWeight_pos [of x] itemWeight_pos [of y] unfolding a by (auto simp del: itemWeight_pos)
next
  fix E :: "'w evm" and P ys a e
  assume "applyRule3 JumpToNext a = Some e" and placed: "tags_placed E P" and "suffix (a @ ys) P"
  then obtain x y t pre where a: "a = [x, y, t]" and xyt: "JumpToNext x y t = Some e"
    and P: "P = (pre @ [x, y]) @ t # ys"
    by (auto simp: rule_window suffix_def)
  note p = JumpToNext_items [OF xyt]
  have "findTag E P (ev_push E PushTag (m_data t)) = Some ys"
    using findTag_unique [of E "pre @ [x, y]" t ys] placed p unfolding P by blast
  then have "step_refines E P ys (exec_block E a stk w) (exec_block E e stk w)" for stk w
    using p by (cases stk) (auto simp: a exec_item_def is_item exec_op_JUMP exec_op_JUMPI step_refines_def)
  then show "block_refines E P ys a e" by (simp add: block_refines_def)
qed (auto simp: rule_window is_item dest!: JumpToNext_items)

lemma TagConjunctions_items:
  "TagConjunctions x y z = Some e \<Longrightarrow>
     m_type x = PushTag \<and> m_type y = Push \<and> is_op z i_AND \<and> e = [x] \<and>
     m_data y AND 0xFFFFFFFF = 0xFFFFFFFF"
  by (auto simp: TagConjunctions_def split: if_splits)

lemma and_low_mask:
  assumes "(d :: u256) AND 0xFFFFFFFF = 0xFFFFFFFF" and "v < 0x100000000"
  shows "d AND v = v"
proof -
  have mask: "(0xFFFFFFFF :: u256) = mask 32" by (simp add: mask_eq_exp_minus_1)
  have v: "v = v AND 0xFFFFFFFF"
    unfolding mask using assms(2) by (intro less_mask_eq [symmetric]) simp
  then have "d AND v = v AND (d AND 0xFFFFFFFF)" by (metis and.assoc and.commute)
  then show ?thesis using assms(1) v by simp
qed

interpretation TagConjunctions: window_rule "TYPE('w)" 3 "applyRule3 TagConjunctions"
proof unfold_locales
  fix E :: "'w evm" and P ys a e
  assume "applyRule3 TagConjunctions a = Some e" and placed: "tags_placed E P"
    and "suffix (a @ ys) P"
  then obtain x y z where a: "a = [x, y, z]" and xyz: "TagConjunctions x y z = Some e"
    and x: "x \<in> set P"
    by (auto simp: rule_window suffix_def)
  note p = TagConjunctions_items [OF xyz]
  have "ev_push E PushTag (m_data x) < 0x100000000"
    using placed x p by (auto simp: tags_placed_def list_all_iff isPushTagItem_def)
  then have "m_data y AND ev_push E PushTag (m_data x) = ev_push E PushTag (m_data x)"
    using p and_low_mask by blast
  then show "block_refines E P ys a e"
    using p by (auto simp: a block_refines_def exec_item_def is_item exec_op_AND)
qed (auto simp: rule_window is_item dest!: TagConjunctions_items intro!: tags_agree_no_tags)

lemma TruthyAnd_items:
  "TruthyAnd x y z = Some e \<Longrightarrow>
     m_type x = Push \<and> m_data x = 0 \<and> is_op y i_NOT \<and> is_op z i_AND \<and> e = []"
  by (auto simp: TruthyAnd_def split: if_splits)

interpretation TruthyAnd: window_rule "TYPE('w)" 3 "applyRule3 TruthyAnd"
proof unfold_locales
  fix E :: "'w evm" and P ys a e
  assume "applyRule3 TruthyAnd a = Some e"
  then obtain x y z where a: "a = [x, y, z]" and xyz: "TruthyAnd x y z = Some e"
    by (auto simp: rule_window)
  have "step_refines E P ys (exec_block E a stk w) (exec_block E e stk w)" for stk w
    using TruthyAnd_items [OF xyz]
    by (cases stk)
      (auto simp: a exec_item_def is_item exec_op_AND exec_op_NOT step_refines_def)
  then show "block_refines E P ys a e" by (simp add: block_refines_def)
qed (auto simp: rule_window is_item dest!: TruthyAnd_items intro!: tags_agree_no_tags)

subsubsection \<open>Unreachable code\<close>

definition ends_control :: "AssemblyItem \<Rightarrow> bool" where
  "ends_control it \<longleftrightarrow>
     list_ex (is_op it) [i_JUMP, i_RETURN, i_STOP, i_INVALID, i_SELFDESTRUCT, i_REVERT]"

definition unreachable_on :: "AssemblyItems \<Rightarrow> (nat \<times> AssemblyItems) option" where
  "unreachable_on xs =
     (case xs of
        [] \<Rightarrow> None
      | it0 # rest \<Rightarrow>
          (let n = length (takeWhile (\<lambda>it. m_type it \<noteq> Tag) rest) in
           if 0 < n \<and> ends_control it0
           then Some (1 + n, [it0]) else None))"

lemma exec_terminator:
  assumes "ends_control it"
  shows "exec_item E it stk w \<noteq> Next stk' w'"
proof -
  have "exec_op E i stk w \<noteq> Next stk' w'" if "i \<in> set evm_halts" for i
  proof -
    have "\<not> isDupInstruction i \<and> \<not> isSwapInstruction i \<and> i \<noteq> i_POP \<and> i \<noteq> i_JUMPDEST \<and>
        i \<noteq> i_JUMP \<and> i \<noteq> i_JUMPI"
      using that by (auto simp: evm_halts_def instr_class)
    then show ?thesis using that by (simp add: exec_op_def Let_def)
  qed
  moreover have "exec_op E i_JUMP stk w \<noteq> Next stk' w'" by (simp add: exec_op_JUMP split: list.splits)
  moreover have "m_type it = Operation \<and> (m_instruction it = i_JUMP \<or> m_instruction it \<in> set evm_halts)"
    using assms by (auto simp: ends_control_def is_op_iff evm_halts_def)
  ultimately show ?thesis by (auto simp: exec_item_op)
qed

lemma exec_block_terminated:
  assumes "ends_control it"
  shows "exec_block E (it # xs) stk w = exec_block E [it] stk w"
  using exec_terminator [OF assms, of E stk w] by (auto split: step.splits)

lemma takeWhile_no_tags: "filter isTagItem (takeWhile (\<lambda>it. m_type it \<noteq> Tag) xs) = []"
  by (auto simp: filter_empty_conv isTagItem_def dest: set_takeWhileD)

lemma unreachable_on_Some:
  assumes "unreachable_on xs = Some (n, e)"
  obtains it rest where "xs = it # rest" and "e = [it]" and "0 < n" "n \<le> length xs"
    and "ends_control it"
    and "take n xs = it # takeWhile (\<lambda>it. m_type it \<noteq> Tag) rest"
    and "takeWhile (\<lambda>it. m_type it \<noteq> Tag) rest \<noteq> []"
proof -
  obtain it rest where xs: "xs = it # rest" using assms by (cases xs) (auto simp: unreachable_on_def)
  have p: "ends_control it"
    "e = [it]" "n = Suc (length (takeWhile (\<lambda>it. m_type it \<noteq> Tag) rest))"
    "takeWhile (\<lambda>it. m_type it \<noteq> Tag) rest \<noteq> []"
    using assms by (auto simp: unreachable_on_def xs Let_def split: if_splits)
  have "take n xs = it # takeWhile (\<lambda>it. m_type it \<noteq> Tag) rest"
    unfolding p(3) xs by (simp add: takeWhile_eq_take flip: takeWhile_eq_take)
  then show thesis
    using that [OF xs p(2) _ _ p(1) _ p(4)] p(3) by (simp add: xs length_takeWhile_le)
qed

lemma weight_pos: "xs \<noteq> [] \<Longrightarrow> 0 < weight xs"
  by (cases xs) simp_all

interpretation UnreachableCode: peephole_method "TYPE('w)" UnreachableCode unreachable_on
proof unfold_locales
  fix st :: OptimiserState
  show "UnreachableCode st =
      (case unreachable_on (drop (os_i st) (os_items st)) of
         Some (n, e) \<Rightarrow> (True, st\<lparr>os_i := os_i st + n, os_out := os_out st @ e\<rparr>)
       | None \<Rightarrow> (False, st))"
    by (auto simp: UnreachableCode_def unreachable_on_def ends_control_def Let_def split: list.splits)
next
  fix xs n e
  assume "unreachable_on xs = Some (n, e)"
  then obtain it rest where xs: "xs = it # rest" "e = [it]" "0 < n" "n \<le> length xs"
    and t: "take n xs = it # takeWhile (\<lambda>it. m_type it \<noteq> Tag) rest"
    and ne: "takeWhile (\<lambda>it. m_type it \<noteq> Tag) rest \<noteq> []"
    and op: "ends_control it"
    by (rule unreachable_on_Some)
  show "0 < n \<and> n \<le> length xs" using xs by simp
  show "e = take n xs \<or> weight e < weight (take n xs)"
    using weight_pos [OF ne] unfolding t xs(2) by simp
  have "\<not> isTagItem it" "\<not> isSymbolic it" using op by (auto simp: ends_control_def is_item)
  then show "tags_agree (take n xs) e"
    and "set (filter isSymbolic e) \<subseteq> set (filter isSymbolic (take n xs))"
    unfolding t xs(2) by (auto simp: takeWhile_no_tags intro!: tags_agree_no_tags)
  show "block_refines E P (drop n xs) (take n xs) e" for E :: "'w evm" and P
    unfolding block_refines_def t xs(2) exec_block_terminated [OF op, of E "takeWhile _ _"] by simp
qed

subsection \<open>The methods in their order\<close>

definition suffix_rules :: "(AssemblyItems \<Rightarrow> (nat \<times> AssemblyItems) option) list" where
  "suffix_rules =
     [window_on 2 (applyRule2 PushPop), window_on 2 (applyRule2 OpPop),
      window_on 2 (applyRule2 DoublePush), window_on 2 (applyRule2 DoubleSwap),
      window_on 2 (applyRule2 CommutativeSwap), window_on 2 (applyRule2 SwapComparison),
      window_on 3 (applyRule3 JumpToNext), unreachable_on,
      window_on 3 (applyRule3 TagConjunctions), window_on 3 (applyRule3 TruthyAnd),
      window_on 1 (applyRule1 Identity)]"

fun first_rule ::
  "(AssemblyItems \<Rightarrow> (nat \<times> AssemblyItems) option) list \<Rightarrow> AssemblyItems \<Rightarrow> (nat \<times> AssemblyItems) option"
  where
  "first_rule [] xs = None"
| "first_rule (r # rs) xs = (case r xs of Some p \<Rightarrow> Some p | None \<Rightarrow> first_rule rs xs)"

lemma methods_keep_contract: "list_all2 (peephole_method TYPE('w)) methods suffix_rules"
  unfolding methods_def suffix_rules_def list.rel_inject
  by (simp del: One_nat_def add: PushPop.peephole_method_axioms OpPop.peephole_method_axioms
      DoublePush.peephole_method_axioms DoubleSwap.peephole_method_axioms
      CommutativeSwap.peephole_method_axioms SwapComparison.peephole_method_axioms
      JumpToNext.peephole_method_axioms UnreachableCode.peephole_method_axioms
      TagConjunctions.peephole_method_axioms TruthyAnd.peephole_method_axioms
      Identity.peephole_method_axioms)

lemma first_rule_from:
  "first_rule rs xs = Some p \<Longrightarrow> list_all2 C ms rs \<Longrightarrow> \<exists>m r. C m r \<and> r xs = Some p"
proof (induction rs arbitrary: ms)
  case (Cons r rs)
  then obtain m ms' where "ms = m # ms'" "C m r" "list_all2 C ms' rs" by (auto simp: list_all2_Cons2)
  then show ?case using Cons by (cases "r xs") auto
qed simp

lemma applyMethods_first_rule:
  assumes "list_all2 (peephole_method TYPE('w)) ms rs"
  shows "applyMethods ms st =
    (case first_rule rs (drop (os_i st) (os_items st)) of
       Some (n, e) \<Rightarrow> Inr (st\<lparr>os_i := os_i st + n, os_out := os_out st @ e\<rparr>)
     | None \<Rightarrow> Inl (OptimizerException ''Peephole optimizer failed to apply identity.''))"
  using assms
proof induction
  case (Cons m ms r rs)
  then show ?case
    using peephole_method.step_eq [OF Cons.hyps(1), of st] by (auto split: option.splits)
qed simp

text \<open>The methods together keep the contract of a method.\<close>

definition firstMethod :: peephole_step where
  "firstMethod st = (case applyMethods methods st of Inr st' \<Rightarrow> (True, st') | Inl _ \<Rightarrow> (False, st))"

interpretation methods: peephole_method "TYPE('w)" firstMethod "first_rule suffix_rules"
proof unfold_locales
  fix st :: OptimiserState
  show "firstMethod st =
      (case first_rule suffix_rules (drop (os_i st) (os_items st)) of
         Some (n, e) \<Rightarrow> (True, st\<lparr>os_i := os_i st + n, os_out := os_out st @ e\<rparr>)
       | None \<Rightarrow> (False, st))"
    unfolding firstMethod_def applyMethods_first_rule [OF methods_keep_contract]
    by (auto split: option.splits)
next
  fix xs n e
  assume "first_rule suffix_rules xs = Some (n, e)"
  from first_rule_from [OF this methods_keep_contract]
  obtain m r where m: "peephole_method TYPE('w) m r" and r: "r xs = Some (n, e)" by blast
  show "0 < n \<and> n \<le> length xs" by (rule peephole_method.window [OF m r])
  show "e = take n xs \<or> weight e < weight (take n xs)" by (rule peephole_method.lighter [OF m r])
  show "tags_agree (take n xs) e" by (rule peephole_method.tags [OF m r])
  show "set (filter isSymbolic e) \<subseteq> set (filter isSymbolic (take n xs))"
    by (rule peephole_method.symbolic [OF m r])
  show "tags_placed E P \<Longrightarrow> suffix xs P \<Longrightarrow> block_refines E P (drop n xs) (take n xs) e"
    for E :: "'w evm" and P by (rule peephole_method.refines [OF m r])
qed

lemma first_rule_total:
  assumes "xs \<noteq> []"
  obtains n e where "first_rule suffix_rules xs = Some (n, e)"
proof -
  have "first_rule (rs @ [window_on 1 (applyRule1 Identity)]) xs \<noteq> None" for rs
    using assms
    by (induction rs) (cases xs; auto simp: window_on_def Identity_def split: option.splits)+
  from this [of "butlast suffix_rules"] show thesis
    using that by (auto simp: suffix_rules_def)
qed

lemma applyMethods_identity:
  assumes "os_i st < length (os_items st)"
  obtains n e where "applyMethods methods st = Inr (st\<lparr>os_i := os_i st + n, os_out := os_out st @ e\<rparr>)"
    and "first_rule suffix_rules (drop (os_i st) (os_items st)) = Some (n, e)"
    and "0 < n" and "os_i st + n \<le> length (os_items st)"
proof -
  have "drop (os_i st) (os_items st) \<noteq> []" using assms by simp
  then obtain n e where f: "first_rule suffix_rules (drop (os_i st) (os_items st)) = Some (n, e)"
    by (rule first_rule_total)
  have "0 < n" and "os_i st + n \<le> length (os_items st)"
    using methods.window [OF f] assms by auto
  then show thesis
    using that [OF _ f]
    unfolding applyMethods_first_rule [OF methods_keep_contract [where 'w = unit]] f by simp
qed

subsection \<open>\<open>optimise\<close>\<close>

text \<open>The \<open>while\<close> of \<open>optimise\<close>.\<close>

function optimiseLoop :: "OptimiserState \<Rightarrow> OptimiserState result" where
  "optimiseLoop st =
     (if os_i st < length (os_items st)
      then (case applyMethods methods st of Inl e \<Rightarrow> Inl e | Inr st' \<Rightarrow> optimiseLoop st')
      else Inr st)"
  by pat_completeness auto
termination
proof (relation "measure (\<lambda>st. length (os_items st) - os_i st)")
  fix st st'
  assume "os_i st < length (os_items st)" and "applyMethods methods st = Inr st'"
  then show "(st', st) \<in> measure (\<lambda>st. length (os_items st) - os_i st)"
    by (elim applyMethods_identity) auto
qed simp

declare optimiseLoop.simps [simp del]

definition peepholeOptimise :: "AssemblyItems \<Rightarrow> (bool \<times> AssemblyItems) result" where
  "peepholeOptimise its =
     bindE (optimiseLoop \<lparr>os_items = its, os_i = 0, os_out = []\<rparr>) (\<lambda>st.
       let out = os_out st in
       if length out < length its then Inr (True, out)
       else if length out = length its then
         bindE (items_bytesRequired out 3) (\<lambda>n.
         bindE (items_bytesRequired its 3) (\<lambda>m.
           if n < m \<or> numberOfPops out > numberOfPops its then Inr (True, out)
           else Inr (False, its)))
       else Inr (False, its))"

text \<open>The items the loop writes, as a function of the suffix that is left.\<close>

function peephole :: "AssemblyItems \<Rightarrow> AssemblyItems" where
  "peephole xs =
     (case first_rule suffix_rules xs of
        Some (n, e) \<Rightarrow> e @ peephole (drop n xs)
      | None \<Rightarrow> [])"
  by pat_completeness auto
termination
  by (relation "measure length") (auto dest: methods.window)

declare peephole.simps [simp del]

lemma peephole_Nil [simp]: "peephole [] = []"
proof -
  have "first_rule suffix_rules [] = None"
    using methods.window [of "[]"] by (cases "first_rule suffix_rules []") auto
  then show ?thesis by (simp add: peephole.simps)
qed

lemma optimiseLoop_peephole:
  "os_i st \<le> length (os_items st) \<Longrightarrow> optimiseLoop st =
     Inr (st\<lparr>os_i := length (os_items st), os_out := os_out st @ peephole (drop (os_i st) (os_items st))\<rparr>)"
proof (induction st rule: optimiseLoop.induct)
  case (1 st)
  show ?case
  proof (cases "os_i st < length (os_items st)")
    case True
    then obtain n e where a:
      "applyMethods methods st = Inr (st\<lparr>os_i := os_i st + n, os_out := os_out st @ e\<rparr>)"
      "first_rule suffix_rules (drop (os_i st) (os_items st)) = Some (n, e)"
      "os_i st + n \<le> length (os_items st)"
      by (rule applyMethods_identity)
    then show ?thesis
      using True 1 by (simp add: optimiseLoop.simps [of st]
          peephole.simps [of "drop (os_i st) (os_items st)"] add.commute)
  next
    case False
    then show ?thesis using 1 by (simp add: optimiseLoop.simps)
  qed
qed

lemma peepholeOptimise_eq:
  "peepholeOptimise its =
     (let out = peephole its in
       if length out < length its then Inr (True, out)
       else if length out = length its then
         bindE (items_bytesRequired out 3) (\<lambda>n.
         bindE (items_bytesRequired its 3) (\<lambda>m.
           if n < m \<or> numberOfPops out > numberOfPops its then Inr (True, out)
           else Inr (False, its)))
       else Inr (False, its))"
  by (simp add: peepholeOptimise_def optimiseLoop_peephole Let_def cong: if_cong)

lemma peephole_block:
  assumes "xs \<noteq> []"
  obtains n e where "peephole xs = e @ peephole (drop n xs)" and "0 < n" and "n \<le> length xs"
    and "first_rule suffix_rules xs = Some (n, e)"
proof -
  obtain n e where "first_rule suffix_rules xs = Some (n, e)" using first_rule_total [OF assms] .
  then show thesis
    using that [of e n] methods.window [of xs n e]
    by (simp add: peephole.simps [of xs])
qed

lemma peephole_weight: "peephole xs = xs \<or> weight (peephole xs) < weight xs"
proof (induction "length xs" arbitrary: xs rule: less_induct)
  case less
  show ?case
  proof (cases "xs = []")
    case False
    then obtain n e where n: "peephole xs = e @ peephole (drop n xs)" "0 < n" "n \<le> length xs"
      and f: "first_rule suffix_rules xs = Some (n, e)"
      by (rule peephole_block)
    have "peephole (drop n xs) = drop n xs \<or> weight (peephole (drop n xs)) < weight (drop n xs)"
      using less n by simp
    moreover have "weight xs = weight (take n xs) + weight (drop n xs)"
      using weight_simps(3) [of "take n xs" "drop n xs"] by simp
    ultimately show ?thesis
      using methods.lighter [OF f] append_take_drop_id [of n xs] n(1) by auto
  qed simp
qed

lemma peephole_tags:
  "filter isTagItem (peephole xs) = filter isTagItem xs \<and>
   set (filter isSymbolic (peephole xs)) \<subseteq> set (filter isSymbolic xs)"
proof (induction "length xs" arbitrary: xs rule: less_induct)
  case less
  show ?case
  proof (cases "xs = []")
    case False
    then obtain n e where n: "peephole xs = e @ peephole (drop n xs)" "0 < n" "n \<le> length xs"
      and f: "first_rule suffix_rules xs = Some (n, e)"
      by (rule peephole_block)
    have IH: "filter isTagItem (peephole (drop n xs)) = filter isTagItem (drop n xs)"
      "set (filter isSymbolic (peephole (drop n xs))) \<subseteq> set (filter isSymbolic (drop n xs))"
      using less n by simp_all
    have xs: "filter isTagItem xs = filter isTagItem (take n xs) @ filter isTagItem (drop n xs)"
      "filter isSymbolic xs = filter isSymbolic (take n xs) @ filter isSymbolic (drop n xs)"
      by (simp_all flip: filter_append)
    show ?thesis
      unfolding xs n(1) filter_append set_append
      using IH methods.tags [OF f] methods.symbolic [OF f] by (auto simp: tags_agree_def simp del: set_filter)
  qed simp
qed

lemma tags_placed_peephole:
  assumes "tags_placed E P"
  shows "tags_placed E (peephole P)"
  using assms peephole_tags [of P]
  by (auto simp: tags_placed_def list_all_iff isPushTagItem_def isSymbolic_def)

interpretation peephole: code_pass peephole "tags_placed :: 'w evm \<Rightarrow> AssemblyItems \<Rightarrow> bool"
proof unfold_locales
  fix E :: "'w evm" and P xs
  assume placed: "tags_placed E P" and suf: "suffix xs P" and "xs \<noteq> []"
  from \<open>xs \<noteq> []\<close> obtain n e where n: "peephole xs = e @ peephole (drop n xs)" "0 < n"
    "n \<le> length xs" and f: "first_rule suffix_rules xs = Some (n, e)"
    by (rule peephole_block)
  show "\<exists>a b ys. xs = a @ ys \<and> a \<noteq> [] \<and> peephole xs = b @ peephole ys \<and>
      tags_agree a b \<and> block_refines E P ys a b"
    using n \<open>xs \<noteq> []\<close> methods.tags [OF f] methods.refines [OF f placed suf]
    by (intro exI [of _ "take n xs"] exI [of _ e] exI [of _ "drop n xs"]) simp
qed simp

text \<open>What the answer of \<open>optimise\<close> says.\<close>

lemma peepholeOptimise_cases:
  assumes "peepholeOptimise its = Inr (b, its')"
  shows "b \<and> its' = peephole its \<and> weight its' < weight its \<or> \<not> b \<and> its' = its"
proof (cases b)
  case True
  then have "its' = peephole its" and "peephole its \<noteq> its"
    using assms
    by (auto simp: peepholeOptimise_eq Let_def bindE_Inr_iff split: if_splits)
  then show ?thesis using peephole_weight [of its] True by auto
next
  case False
  then show ?thesis
    using assms by (auto simp: peepholeOptimise_eq Let_def bindE_Inr_iff split: if_splits)
qed

text \<open>\<open>while (peepOpt.optimise()) ...\<close>, as \<open>Assembly::optimiseInternal\<close> runs it.\<close>

function peepholeRepeat :: "AssemblyItems \<Rightarrow> AssemblyItems result" where
  "peepholeRepeat its =
     (case peepholeOptimise its of
        Inl e \<Rightarrow> Inl e
      | Inr (True, its') \<Rightarrow> peepholeRepeat its'
      | Inr (False, its') \<Rightarrow> Inr its')"
  by pat_completeness auto
termination
  by (relation "measure weight") (auto dest: peepholeOptimise_cases)

declare peepholeRepeat.simps [simp del]

lemma peepholeRepeat_fixpoint:
  "peepholeRepeat its = Inr its' \<Longrightarrow> peepholeOptimise its' = Inr (False, its')"
proof (induction its rule: peepholeRepeat.induct)
  case (1 its)
  show ?case
  proof (cases "peepholeOptimise its")
    case (Inr p)
    obtain b r where p: "p = (b, r)" by (cases p)
    show ?thesis
      using 1 Inr peepholeOptimise_cases [of its b r]
      by (cases b) (simp_all add: p peepholeRepeat.simps [of its])
  qed (use 1 in \<open>simp add: peepholeRepeat.simps [of its]\<close>)
qed

lemma peephole_defined:
  "list_all (\<lambda>it. m_type it \<noteq> UndefinedItem) its \<Longrightarrow>
     list_all (\<lambda>it. m_type it \<noteq> UndefinedItem) (peephole its)"
  using peephole_tags [of its] by (auto simp: list_all_iff isSymbolic_def)

lemma peepholeOptimise_total:
  assumes "list_all (\<lambda>it. m_type it \<noteq> UndefinedItem) its"
  shows "\<exists>b its'. peepholeOptimise its = Inr (b, its') \<and> length its' \<le> length its"
proof -
  obtain n m where "items_bytesRequired its 3 = Inr n" "items_bytesRequired (peephole its) 3 = Inr m"
    using assms peephole_defined [OF assms] items_bytesRequired_total by metis
  then have "peepholeOptimise its = Inr (True, peephole its) \<and> length (peephole its) \<le> length its \<or>
      peepholeOptimise its = Inr (False, its)"
    by (simp add: peepholeOptimise_eq Let_def)
  then show ?thesis by auto
qed

subsection \<open>The properties of the pass\<close>

text \<open>C3: applying the methods at a position inside the code never reaches the assertion
  "Peephole optimizer failed to apply identity": some method applies, the position moves
  forward and stays within the items.\<close>

theorem applyMethods_never_throws:
  assumes "os_i st < length (os_items st)"
  shows "\<exists>st'. applyMethods methods st = Inr st' \<and> os_i st < os_i st' \<and>
    os_i st' \<le> length (os_items st) \<and> os_items st' = os_items st"
  using applyMethods_identity [OF assms] by force

theorem applyMethods_never_throws_witness:
  "\<exists>st'. applyMethods methods \<lparr>os_items = [opItem i_ADD], os_i = 0, os_out = []\<rparr> = Inr st' \<and>
     0 < os_i st' \<and> os_i st' \<le> 1 \<and> os_items st' = [opItem i_ADD]"
  using applyMethods_never_throws [of "\<lparr>os_items = [opItem i_ADD], os_i = 0, os_out = []\<rparr>"] by simp



text \<open>C1: the peephole optimiser preserves behaviour. For a program whose tags have distinct
  addresses that fit in 32 bits, every terminating run that does not fail (stack underflow,
  invalid opcode, jump to no tag) is a run of the optimised program from the same stack and
  world, with the same outcome.\<close>

theorem peephole_preserves_behaviour:
  assumes "tags_placed E P" and "peepholeRepeat P = Inr P'"
    and "run n E P P stk w = Some r" and "r \<noteq> Failed"
  shows "\<exists>m. run m E P' P' stk w = Some r"
  using assms
proof (induction P arbitrary: n rule: peepholeRepeat.induct)
  case (1 P)
  obtain b Q where Q: "peepholeOptimise P = Inr (b, Q)"
    using 1(3) by (auto simp: peepholeRepeat.simps [of P] split: sum.splits)
  show ?case
  proof (cases b)
    case True
    then have q: "Q = peephole P" using peepholeOptimise_cases [OF Q] by auto
    obtain k where "run k E Q Q stk w = Some r"
      using peephole.run_program_pass [OF 1(2,4,5)] unfolding q by blast
    then show ?thesis
      using 1(1) [OF Q refl] tags_placed_peephole [OF 1(2), folded q] 1(3,5) Q True
      by (simp add: peepholeRepeat.simps [of P])
  next
    case False
    then show ?thesis
      using 1(3,4) Q peepholeOptimise_cases [OF Q] by (auto simp: peepholeRepeat.simps [of P])
  qed
qed

text \<open>An instance: a dropped result, a swap before a comparison, and a jump to the next item.\<close>

definition demoWorld :: "unit evm" where
  "demoWorld =
     \<lparr>ev_read = (\<lambda>i as w. 0), ev_write = (\<lambda>i as w. ([], w)), ev_push = (\<lambda>t d. d)\<rparr>"

definition demoProgram :: AssemblyItems where
  "demoProgram =
     [opItem i_CALLVALUE, opItem i_POP, pushItem 7, pushItem 9, opItem i_SWAP1, opItem i_LT,
      itemOfType PushTag 4 noLocation, opItem i_JUMP, itemOfType Tag 4 noLocation, opItem i_STOP,
      pushItem 1]"

definition demoOptimised :: AssemblyItems where
  "demoOptimised =
     [pushItem 7, pushItem 9, opItem i_GT, itemOfType Tag 4 noLocation, opItem i_STOP]"

theorem peephole_preserves_behaviour_witness:
  "\<exists>m. run m demoWorld demoOptimised demoOptimised [] () = Some (Halted i_STOP [] ())"
proof (rule peephole_preserves_behaviour)
  show "tags_placed demoWorld demoProgram" by code_simp
  show "peepholeRepeat demoProgram = Inr demoOptimised" by code_simp
  show "run 20 demoWorld demoProgram demoProgram [] () = Some (Halted i_STOP [] ())" by code_simp
qed simp

end
