(* ===== verification/JumpdestRemover.thy ===== *)
theory JumpdestRemover
  imports EVM
begin

section \<open>The jumpdest remover (libevmasm/JumpdestRemover)\<close>

text \<open>
  The tags that an item list references in an assembly, and the removal of the tags that are
  not referenced. The second part shows that removal keeps every run whose jumps all lead
  to referenced tags.
\<close>

text \<open>A \<open>set<size_t>\<close> is a set of 64-bit words; \<open>- 1\<close> stands for the assembly itself.\<close>

fun referencedTags :: "AssemblyItems \<Rightarrow> u64 \<Rightarrow> u64 set result" where
  "referencedTags [] subId = Inr {}"
| "referencedTags (it # its) subId =
     (if m_type it = PushTag then
        bindE (splitForeignPushTag it) (\<lambda>subAndTag.
        bindE (referencedTags its subId) (\<lambda>ret.
          Inr (if fst subAndTag = subId then insert (snd subAndTag) ret else ret)))
      else referencedTags its subId)"

text \<open>The predicate of the \<open>remove_if\<close>: whether an item is removed.\<close>

definition unreferencedTag :: "u64 set \<Rightarrow> AssemblyItem \<Rightarrow> bool result" where
  "unreferencedTag references it =
     (if m_type it \<noteq> Tag then Inr False
      else bindE (splitForeignPushTag it) (\<lambda>asmIdAndTag.
        if fst asmIdAndTag \<noteq> - 1
        then Inl (OptimizerException ''Sub-assembly tag used as label.'')
        else Inr (snd asmIdAndTag \<notin> references)))"

fun removeTags :: "u64 set \<Rightarrow> AssemblyItems \<Rightarrow> AssemblyItems result" where
  "removeTags references [] = Inr []"
| "removeTags references (it # its) =
     bindE (unreferencedTag references it) (\<lambda>b.
     bindE (removeTags references its) (\<lambda>rest. Inr (if b then rest else it # rest)))"

definition jumpdestOptimise :: "u64 set \<Rightarrow> AssemblyItems \<Rightarrow> (bool \<times> AssemblyItems) result" where
  "jumpdestOptimise tagsReferencedFromOutside its =
     bindE (referencedTags its (- 1)) (\<lambda>refs.
     bindE (removeTags (refs \<union> tagsReferencedFromOutside) its) (\<lambda>its'.
       Inr (length its' \<noteq> length its, its')))"

subsection \<open>What is removed\<close>

definition tagId :: "AssemblyItem \<Rightarrow> u64" where
  "tagId it = ucast (m_data it AND 0xffffffffffffffff)"

definition localTag :: "AssemblyItem \<Rightarrow> bool" where
  "localTag it \<longleftrightarrow> (ucast (drop_bit 64 (m_data it) - 1) :: u64) = - 1"

definition keepItem :: "u64 set \<Rightarrow> AssemblyItem \<Rightarrow> bool" where
  "keepItem references it \<longleftrightarrow> m_type it \<noteq> Tag \<or> tagId it \<in> references"

lemma split_tag:
  "m_type it = PushTag \<or> m_type it = Tag \<Longrightarrow>
     splitForeignPushTag it = Inr (ucast (drop_bit 64 (m_data it) - 1), tagId it)"
  by (simp add: splitForeignPushTag_def tagId_def Let_def)

lemma referencedTags_eq:
  "referencedTags its subId =
     Inr {tagId it | it. it \<in> set its \<and> m_type it = PushTag \<and>
       ucast (drop_bit 64 (m_data it) - 1) = subId}"
proof (induction its)
  case (Cons it its)
  then show ?case by (auto simp: split_tag)
qed simp

lemma removeTags_eq:
  "list_all (\<lambda>it. m_type it = Tag \<longrightarrow> localTag it) its \<Longrightarrow>
     removeTags references its = Inr (filter (keepItem references) its)"
proof (induction its)
  case (Cons it its)
  then show ?case
    by (cases "m_type it = Tag") (auto simp: unreferencedTag_def split_tag localTag_def keepItem_def)
qed simp

lemma removeTags_foreign:
  "\<not> list_all (\<lambda>it. m_type it = Tag \<longrightarrow> localTag it) its \<Longrightarrow>
     removeTags references its = Inl (OptimizerException ''Sub-assembly tag used as label.'')"
proof (induction its)
  case (Cons it its)
  show ?case
  proof (cases "m_type it = Tag \<longrightarrow> localTag it")
    case True
    then have "\<exists>b. unreferencedTag references it = Inr b"
      by (auto simp: unreferencedTag_def split_tag localTag_def)
    then show ?thesis using True Cons by auto
  next
    case False
    then show ?thesis by (simp add: unreferencedTag_def split_tag localTag_def)
  qed
qed simp

definition localReferences :: "AssemblyItems \<Rightarrow> u64 set" where
  "localReferences its =
     tagId ` set (filter (\<lambda>it. m_type it = PushTag \<and> localTag it) its)"

lemma jumpdestOptimise_eq:
  assumes "list_all (\<lambda>it. m_type it = Tag \<longrightarrow> localTag it) its"
  shows "jumpdestOptimise outside its =
    (let its' = filter (keepItem (localReferences its \<union> outside)) its
     in Inr (length its' \<noteq> length its, its'))"
proof -
  have "{tagId it | it. it \<in> set its \<and> m_type it = PushTag \<and>
       (ucast (drop_bit 64 (m_data it) - 1) :: u64) = - 1} = localReferences its"
    by (auto simp: localReferences_def localTag_def)
  then show ?thesis
    by (simp only: jumpdestOptimise_def referencedTags_eq removeTags_eq [OF assms] bindE_simps Let_def)
qed

lemma localReferences_kept: "localReferences (filter (keepItem r) its) = localReferences its"
  by (auto simp: localReferences_def keepItem_def)

text \<open>C24: The remover drops exactly the tags that nothing references and keeps everything else in
  order; the answer tells whether it dropped one, and a second call finds nothing. It raises its
  exception exactly when a tag of another assembly is used as a label.\<close>

theorem jumpdestOptimise_exact:
  "jumpdestOptimise outside its =
     (if \<exists>it \<in> set its. m_type it = Tag \<and> \<not> localTag it
      then Inl (OptimizerException ''Sub-assembly tag used as label.'')
      else Inr (filter (keepItem (localReferences its \<union> outside)) its \<noteq> its,
                filter (keepItem (localReferences its \<union> outside)) its)) \<and>
   (case jumpdestOptimise outside its of
      Inr (b, its') \<Rightarrow> jumpdestOptimise outside its' = Inr (False, its') | Inl _ \<Rightarrow> True)"
proof (cases "list_all (\<lambda>it. m_type it = Tag \<longrightarrow> localTag it) its")
  case True
  let ?its = "filter (keepItem (localReferences its \<union> outside)) its"
  have l: "length ?its \<noteq> length its \<longleftrightarrow> ?its \<noteq> its"
    using length_filter_less by (metis filter_id_conv less_irrefl)
  have eq: "jumpdestOptimise outside its = Inr (?its \<noteq> its, ?its)"
    unfolding jumpdestOptimise_eq [OF True] Let_def l ..
  have "list_all (\<lambda>it. m_type it = Tag \<longrightarrow> localTag it) ?its" using True by (auto simp: list_all_iff)
  from jumpdestOptimise_eq [OF this, of outside]
  have "jumpdestOptimise outside ?its = Inr (False, ?its)"
    by (simp add: localReferences_kept Let_def)
  then show ?thesis using eq True by (auto simp: list_all_iff)
next
  case False
  have "jumpdestOptimise outside its = Inl (OptimizerException ''Sub-assembly tag used as label.'')"
    by (simp add: jumpdestOptimise_def referencedTags_eq removeTags_foreign [OF False])
  then show ?thesis using False by (auto simp: list_all_iff)
qed

subsection \<open>Behaviour\<close>

text \<open>The tag a jump to an address leads to, and the runs all of whose jumps lead to kept tags.\<close>

fun tagAt :: "'w evm \<Rightarrow> AssemblyItems \<Rightarrow> u256 \<Rightarrow> AssemblyItem option" where
  "tagAt E [] v = None"
| "tagAt E (it # its) v =
     (if m_type it = Tag \<and> ev_push E PushTag (m_data it) = v then Some it else tagAt E its v)"

fun jumpsKept :: "nat \<Rightarrow> 'w evm \<Rightarrow> u64 set \<Rightarrow> AssemblyItems \<Rightarrow> AssemblyItems \<Rightarrow> u256 list \<Rightarrow> 'w \<Rightarrow>
    bool" where
  "jumpsKept 0 E refs P xs stk w = True"
| "jumpsKept (Suc n) E refs P [] stk w = True"
| "jumpsKept (Suc n) E refs P (it # its) stk w =
     (case exec_item E it stk w of
        Next stk' w' \<Rightarrow> jumpsKept n E refs P its stk' w'
      | JumpTo v stk' w' \<Rightarrow>
          (case findTag E P v of
             Some ys \<Rightarrow> (case tagAt E P v of Some t \<Rightarrow> keepItem refs t | None \<Rightarrow> False) \<and>
               jumpsKept n E refs P ys stk' w'
           | None \<Rightarrow> True)
      | _ \<Rightarrow> True)"

lemma findTag_filter:
  assumes "findTag E xs v = Some ys" and "tagAt E xs v = Some t" and "keepItem refs t"
  shows "findTag E (filter (keepItem refs) xs) v = Some (filter (keepItem refs) ys)"
  using assms by (induction xs) (auto split: if_splits)

lemma run_removed:
  "run n E P xs stk w = Some r \<Longrightarrow> jumpsKept n E refs P xs stk w \<Longrightarrow> r \<noteq> Failed \<Longrightarrow>
     \<exists>m. run m E (filter (keepItem refs) P) (filter (keepItem refs) xs) stk w = Some r"
proof (induction n arbitrary: xs stk w)
  case (Suc n)
  let ?Q = "filter (keepItem refs) P"
  show ?case
  proof (cases xs)
    case Nil
    then have "run (Suc 0) E ?Q (filter (keepItem refs) xs) stk w = Some r" using Suc.prems(1) by simp
    then show ?thesis by blast
  next
    case (Cons it its)
    show ?thesis
    proof (cases "keepItem refs it")
      case False
      then have "exec_item E it stk w = Next stk w" by (simp add: keepItem_def exec_item_def)
      then have "run n E P its stk w = Some r" "jumpsKept n E refs P its stk w"
        using Suc.prems(1,2) Cons by simp_all
      then show ?thesis using Suc.IH Suc.prems(3) Cons False by simp
    next
      case True
      show ?thesis
      proof (cases "exec_item E it stk w")
        case (Next stk' w')
        then obtain m where "run m E ?Q (filter (keepItem refs) its) stk' w' = Some r"
          using Suc.IH [of its stk' w'] Suc.prems Cons by auto
        then have "run (Suc m) E ?Q (filter (keepItem refs) xs) stk w = Some r"
          using Next True Cons by simp
        then show ?thesis by blast
      next
        case (JumpTo v stk' w')
        then obtain ys t where ys: "findTag E P v = Some ys" "tagAt E P v = Some t" "keepItem refs t"
          "run n E P ys stk' w' = Some r" "jumpsKept n E refs P ys stk' w'"
          using Suc.prems Cons by (auto split: option.splits)
        then obtain m where "run m E ?Q (filter (keepItem refs) ys) stk' w' = Some r"
          using Suc.IH Suc.prems(3) by blast
        then have "run (Suc m) E ?Q (filter (keepItem refs) xs) stk w = Some r"
          using JumpTo True Cons findTag_filter [OF ys(1-3)] by simp
        then show ?thesis by blast
      next
        case (Halt i as w')
        then have "run (Suc 0) E ?Q (filter (keepItem refs) xs) stk w = Some r"
          using Suc.prems(1) True Cons by simp
        then show ?thesis by blast
      next
        case Fail
        then show ?thesis using Suc.prems Cons by simp
      qed
    qed
  qed
qed simp

text \<open>C23: Removing jumpdests keeps behaviour: a run that does not fail, and whose jumps all lead to
  tags that are pushed in the code or referenced from outside, is a run of the result.\<close>

theorem jumpdestOptimise_preserves_behaviour:
  assumes "jumpdestOptimise outside P = Inr (b, P')"
    and "run n E P P stk w = Some r" and "r \<noteq> Failed"
    and "jumpsKept n E (localReferences P \<union> outside) P P stk w"
  shows "\<exists>m. run m E P' P' stk w = Some r"
proof -
  have "P' = filter (keepItem (localReferences P \<union> outside)) P"
  proof (cases "list_all (\<lambda>it. m_type it = Tag \<longrightarrow> localTag it) P")
    case True
    then show ?thesis using assms(1) jumpdestOptimise_eq [OF True] by (simp add: Let_def)
  next
    case False
    then show ?thesis using assms(1)
      by (simp add: jumpdestOptimise_def referencedTags_eq removeTags_foreign [OF False])
  qed
  then show ?thesis using run_removed [OF assms(2,4,3)] by simp
qed

definition jumpProgram :: AssemblyItems where
  "jumpProgram =
     [itemOfType PushTag 1 noLocation, opItem i_JUMP, itemOfType Tag 2 noLocation,
      itemOfType Tag 1 noLocation, opItem i_STOP]"

definition jumpWorld :: "unit evm" where
  "jumpWorld =
     \<lparr>ev_read = (\<lambda>i as w. 0), ev_write = (\<lambda>i as w. ([], w)), ev_push = (\<lambda>t d. d)\<rparr>"

theorem jumpdestOptimise_preserves_behaviour_witness:
  "\<exists>m. run m jumpWorld
     [itemOfType PushTag 1 noLocation, opItem i_JUMP, itemOfType Tag 1 noLocation, opItem i_STOP]
     [itemOfType PushTag 1 noLocation, opItem i_JUMP, itemOfType Tag 1 noLocation, opItem i_STOP]
     [] () = Some (Halted i_STOP [] ())"
proof (rule jumpdestOptimise_preserves_behaviour)
  have all: "list_all (\<lambda>it. m_type it = Tag \<longrightarrow> localTag it) jumpProgram" by code_simp
  have refs: "localReferences jumpProgram = {1}"
  proof -
    have "(ucast (- 1 :: u256) :: u64) = - 1" by code_simp
    then show ?thesis
      by (simp add: localReferences_def jumpProgram_def tagId_def localTag_def itemOfType_def)
  qed
  show "jumpdestOptimise {} jumpProgram = Inr (True,
     [itemOfType PushTag 1 noLocation, opItem i_JUMP, itemOfType Tag 1 noLocation, opItem i_STOP])"
    unfolding jumpdestOptimise_eq [OF all] refs
    by (simp add: jumpProgram_def keepItem_def tagId_def itemOfType_def Let_def)
  show "run 5 jumpWorld jumpProgram jumpProgram [] () = Some (Halted i_STOP [] ())" by code_simp
  show "jumpsKept 5 jumpWorld (localReferences jumpProgram \<union> {}) jumpProgram jumpProgram [] ()"
    unfolding refs by code_simp
qed simp

end
