(* ===== verification/BlockDeduplicator.thy ===== *)
theory BlockDeduplicator
  imports JumpdestRemover
begin

section \<open>The block deduplicator (libevmasm/BlockDeduplicator)\<close>

text \<open>
  The iterator over a block, the order of blocks by their content, the search for equal
  blocks, and the replacement of the tags that are pushed. The ordered set of the blocks seen
  is the list of the indices inserted: the comparator orders indices by the item sequences
  of their blocks, so at most one element of the set is equivalent to an index. The loop of
  \<open>deduplicate\<close> need not end when a tag is placed twice; it is a partial function, and it is
  shown below to end when the tags are distinct.
\<close>

type_synonym TagMap = "u256 \<rightharpoonup> u256"

subsection \<open>Blocks\<close>

text \<open>The virtual tag of the current block.\<close>

definition pushSelf :: AssemblyItem where
  "pushSelf = itemOfType PushTag (- 4) noLocation"

text \<open>\<open>operator++\<close> of the iterator, on the items from its position on.\<close>

definition advance :: "AssemblyItems \<Rightarrow> AssemblyItems" where
  "advance xs =
     (case xs of
        [] \<Rightarrow> []
      | it # its \<Rightarrow>
          if altersControlFlow it \<and> \<not> item_eq it (opItem i_JUMPI) then []
          else dropWhile (\<lambda>it. m_type it = Tag) its)"

text \<open>\<open>operator*\<close>.\<close>

definition deref :: "AssemblyItem \<Rightarrow> AssemblyItem \<Rightarrow> AssemblyItem \<Rightarrow> AssemblyItem" where
  "deref replaceItem replaceWith it = (if item_eq it replaceItem then replaceWith else it)"

lemma length_advance: "xs \<noteq> [] \<Longrightarrow> length (advance xs) < length xs"
  by (cases xs) (auto simp: advance_def less_Suc_eq_le length_dropWhile_le)

function blockItems :: "AssemblyItems \<Rightarrow> AssemblyItems" where
  "blockItems xs = (case xs of [] \<Rightarrow> [] | it # its \<Rightarrow> it # blockItems (advance xs))"
  by pat_completeness auto
termination
proof (relation "measure length")
  fix xs :: AssemblyItems and it its
  assume "xs = it # its"
  then show "(advance xs, xs) \<in> measure length" using length_advance [of xs] by simp
qed simp

declare blockItems.simps [simp del]

definition ownPush :: "AssemblyItems \<Rightarrow> nat \<Rightarrow> AssemblyItem" where
  "ownPush its i =
     (if i < length its \<and> m_type (its ! i) = Tag
      then itemOfType PushTag (m_data (its ! i)) noLocation else pushSelf)"

text \<open>The items the comparator sees of the block at an index.\<close>

definition blockContent :: "AssemblyItems \<Rightarrow> nat \<Rightarrow> AssemblyItems" where
  "blockContent its i =
     (let suffix = drop i its; own = ownPush its i;
          start = (if suffix \<noteq> [] \<and> m_type (deref own pushSelf (hd suffix)) = Tag
                   then advance suffix else suffix)
      in map (deref own pushSelf) (blockItems start))"

fun lexLess :: "AssemblyItems \<Rightarrow> AssemblyItems \<Rightarrow> bool" where
  "lexLess xs [] = False"
| "lexLess [] (y # ys) = True"
| "lexLess (x # xs) (y # ys) =
     (if item_less x y then True else if item_less y x then False else lexLess xs ys)"

definition blockLess :: "AssemblyItems \<Rightarrow> nat \<Rightarrow> nat \<Rightarrow> bool" where
  "blockLess its i j = (if i = j then False else lexLess (blockContent its i) (blockContent its j))"

definition findBlock :: "AssemblyItems \<Rightarrow> nat list \<Rightarrow> nat \<Rightarrow> nat option" where
  "findBlock its seen i = find (\<lambda>j. \<not> blockLess its j i \<and> \<not> blockLess its i j) seen"

text \<open>The loop over the items of one iteration.\<close>

fun scanBlocks :: "AssemblyItems \<Rightarrow> nat list \<Rightarrow> nat list \<Rightarrow> TagMap \<Rightarrow> TagMap" where
  "scanBlocks its [] seen reps = reps"
| "scanBlocks its (i # is) seen reps =
     (if m_type (its ! i) \<noteq> Tag then scanBlocks its is seen reps
      else case findBlock its seen i of
          None \<Rightarrow> scanBlocks its is (seen @ [i]) reps
        | Some j \<Rightarrow> scanBlocks its is seen (reps(m_data (its ! i) \<mapsto> m_data (its ! j))))"

subsection \<open>Replacing tags\<close>

definition replaceTag :: "TagMap \<Rightarrow> u64 \<Rightarrow> AssemblyItem \<Rightarrow> (bool \<times> AssemblyItem) result" where
  "replaceTag reps subId it =
     (if m_type it \<noteq> PushTag then Inr (False, it)
      else bindE (splitForeignPushTag it) (\<lambda>(sub, tag).
        if sub \<noteq> subId then Inr (False, it)
        else case reps (ucast tag) of
            None \<Rightarrow> Inr (False, it)
          | Some t \<Rightarrow> bindE (setPushTagSubIdAndTag it sub (ucast t)) (\<lambda>it'. Inr (True, it'))))"

fun applyTagReplacement :: "AssemblyItems \<Rightarrow> TagMap \<Rightarrow> u64 \<Rightarrow> (bool \<times> AssemblyItems) result" where
  "applyTagReplacement [] reps subId = Inr (False, [])"
| "applyTagReplacement (it # its) reps subId =
     bindE (replaceTag reps subId it) (\<lambda>(c, it').
     bindE (applyTagReplacement its reps subId) (\<lambda>(d, its'). Inr (c \<or> d, it' # its')))"

subsection \<open>\<open>deduplicate\<close>\<close>

partial_function (option) dedupLoop :: "nat \<Rightarrow> AssemblyItems \<Rightarrow> TagMap \<Rightarrow>
    (nat \<times> AssemblyItems \<times> TagMap) result option" where
  "dedupLoop iterations its reps =
     (let reps' = scanBlocks its [0..<length its] [] reps in
      case applyTagReplacement its reps' (- 1) of
        Inl e \<Rightarrow> Some (Inl e)
      | Inr p \<Rightarrow>
          if fst p then dedupLoop (iterations + 1) (snd p) reps'
          else Some (Inr (iterations, snd p, reps')))"

declare dedupLoop.simps [code]

text \<open>The answer, the items and \<open>m_replacedTags\<close>.\<close>

definition deduplicate :: "AssemblyItems \<Rightarrow> (bool \<times> AssemblyItems \<times> TagMap) result option" where
  "deduplicate its =
     (if list_ex (\<lambda>it. item_eq it (itemOfType Tag (- 4) noLocation) \<or> item_eq it pushSelf) its
      then Some (Inr (False, its, Map.empty))
      else map_option (\<lambda>r. bindE r (\<lambda>(n, its', reps). Inr (0 < n, its', reps)))
        (dedupLoop 0 its Map.empty))"

subsection \<open>Equal blocks\<close>

definition sameBlock :: "AssemblyItems \<Rightarrow> nat \<Rightarrow> nat \<Rightarrow> bool" where
  "sameBlock its i j \<longleftrightarrow> list_all2 item_eq (blockContent its i) (blockContent its j)"

lemma lexLess_incomparable: "\<not> lexLess xs ys \<and> \<not> lexLess ys xs \<longleftrightarrow> list_all2 item_eq xs ys"
proof (induction xs ys rule: lexLess.induct)
  case (3 x xs y ys)
  then show ?case
    using item_less_eq_compat [of x y] by (cases "item_less x y"; cases "item_less y x") auto
next
  case (1 xs)
  then show ?case by (cases xs) auto
qed simp_all

lemma blockLess_incomparable: "\<not> blockLess its i j \<and> \<not> blockLess its j i \<longleftrightarrow> sameBlock its i j"
  using lexLess_incomparable [of "blockContent its i" "blockContent its j"]
  by (auto simp: blockLess_def sameBlock_def intro: list_all2_refl)

lemma sameBlock_refl [simp]: "sameBlock its i i"
  by (simp add: sameBlock_def list_all2_refl)

lemma sameBlock_trans: "sameBlock its i j \<Longrightarrow> sameBlock its j k \<Longrightarrow> sameBlock its i k"
  unfolding sameBlock_def by (rule list_all2_trans [OF item_eq_trans])

lemma findBlock_sound: "findBlock its seen i = Some j \<Longrightarrow> j \<in> set seen \<and> sameBlock its j i"
  using blockLess_incomparable by (fastforce simp: findBlock_def find_Some_iff)

lemma findBlock_complete: "j \<in> set seen \<Longrightarrow> sameBlock its j i \<Longrightarrow> findBlock its seen i \<noteq> None"
  unfolding findBlock_def find_None_iff using blockLess_incomparable by auto

lemma scanBlocks_keeps: "reps k \<noteq> None \<Longrightarrow> scanBlocks its is seen reps k \<noteq> None"
  by (induction its "is" seen reps rule: scanBlocks.induct) (auto split: option.splits)

text \<open>A tag whose block has been seen before is replaced.\<close>

lemma scanBlocks_seen:
  "j \<in> set is \<Longrightarrow> m_type (its ! j) = Tag \<Longrightarrow> s \<in> set seen \<Longrightarrow> sameBlock its s j \<Longrightarrow>
   scanBlocks its is seen reps (m_data (its ! j)) \<noteq> None"
proof (induction "is" arbitrary: seen reps)
  case (Cons i "is")
  show ?case
  proof (cases "j = i")
    case True
    then obtain k where "findBlock its seen i = Some k"
      using findBlock_complete Cons.prems(3,4) by blast
    moreover have "scanBlocks its is seen (reps(m_data (its ! i) \<mapsto> m_data (its ! k))) (m_data (its ! i)) \<noteq> None"
      by (rule scanBlocks_keeps) simp
    ultimately show ?thesis using True Cons.prems(2) by simp
  next
    case False
    then show ?thesis using Cons by (auto split: option.splits)
  qed
qed simp

lemma scanBlocks_complete:
  "sorted_wrt (<) is \<Longrightarrow> i \<in> set is \<Longrightarrow> j \<in> set is \<Longrightarrow> i < j \<Longrightarrow> m_type (its ! i) = Tag \<Longrightarrow>
   m_type (its ! j) = Tag \<Longrightarrow> sameBlock its i j \<Longrightarrow> scanBlocks its is seen reps (m_data (its ! j)) \<noteq> None"
proof (induction "is" arbitrary: seen reps)
  case (Cons h "is")
  have j: "j \<in> set is" using Cons.prems by auto
  show ?case
  proof (cases "h = i")
    case False
    then have "i \<in> set is" "sorted_wrt (<) is" using Cons.prems by auto
    then show ?thesis using Cons.IH Cons.prems j by (auto split: option.splits)
  next
    case h: True
    show ?thesis
    proof (cases "findBlock its seen h")
      case None
      have "scanBlocks its is (seen @ [h]) reps (m_data (its ! j)) \<noteq> None"
        by (rule scanBlocks_seen [OF j Cons.prems(6)]) (use h Cons.prems(7) in auto)
      then show ?thesis using None h Cons.prems(5) by simp
    next
      case (Some k)
      have k: "k \<in> set seen" "sameBlock its k j"
        using findBlock_sound [OF Some] sameBlock_trans Cons.prems(7) h by auto
      have "scanBlocks its is seen (reps(m_data (its ! h) \<mapsto> m_data (its ! k))) (m_data (its ! j)) \<noteq> None"
        by (rule scanBlocks_seen [OF j Cons.prems(6) k])
      then show ?thesis using Some h Cons.prems(5) by simp
    qed
  qed
qed simp

lemma scanBlocks_origin:
  "sorted_wrt (<) (seen @ is) \<Longrightarrow> \<forall>j \<in> set seen. m_type (its ! j) = Tag \<Longrightarrow>
   \<forall>j \<in> set (seen @ is). j < length its \<Longrightarrow>
   \<forall>k v. scanBlocks its is seen reps k = Some v \<longrightarrow> reps k = Some v \<or>
      (\<exists>i < length its. \<exists>j < i. m_type (its ! i) = Tag \<and> m_type (its ! j) = Tag \<and>
         k = m_data (its ! i) \<and> v = m_data (its ! j) \<and> sameBlock its j i)"
proof (induction "is" arbitrary: seen reps)
  case (Cons i "is")
  have sub: "sorted_wrt (<) (seen @ is)" "\<forall>j \<in> set (seen @ is). j < length its"
    "sorted_wrt (<) ((seen @ [i]) @ is)" "\<forall>j \<in> set ((seen @ [i]) @ is). j < length its" "i < length its"
    using Cons.prems(1,3) by (simp_all add: sorted_wrt_append)
  show ?case
  proof (cases "m_type (its ! i) = Tag")
    case False
    then show ?thesis using Cons.IH [OF sub(1) Cons.prems(2) sub(2), of reps] by simp
  next
    case tag: True
    show ?thesis
    proof (cases "findBlock its seen i")
      case None
      have "\<forall>j \<in> set (seen @ [i]). m_type (its ! j) = Tag" using Cons.prems(2) tag by auto
      then show ?thesis using Cons.IH [OF sub(3) _ sub(4), of reps] None tag by simp
    next
      case (Some j)
      then have j: "j < i" "m_type (its ! j) = Tag" "sameBlock its j i"
        using findBlock_sound [OF Some] Cons.prems(1,2) by (auto simp: sorted_wrt_append)
      let ?reps = "reps(m_data (its ! i) \<mapsto> m_data (its ! j))"
      have new: "?reps k = Some v \<Longrightarrow> reps k = Some v \<or> k = m_data (its ! i) \<and> v = m_data (its ! j)" for k v
        by (auto split: if_splits)
      show ?thesis
      proof (intro allI impI)
        fix k v
        assume "scanBlocks its (i # is) seen reps k = Some v"
        then have "scanBlocks its is seen ?reps k = Some v" using tag Some by simp
        then consider "?reps k = Some v" | "\<exists>i < length its. \<exists>j < i. m_type (its ! i) = Tag \<and>
            m_type (its ! j) = Tag \<and> k = m_data (its ! i) \<and> v = m_data (its ! j) \<and> sameBlock its j i"
          using Cons.IH [OF sub(1) Cons.prems(2) sub(2), of ?reps] by metis
        then show "reps k = Some v \<or> (\<exists>i < length its. \<exists>j < i. m_type (its ! i) = Tag \<and>
            m_type (its ! j) = Tag \<and> k = m_data (its ! i) \<and> v = m_data (its ! j) \<and> sameBlock its j i)"
          using new j tag sub(5) by metis
      qed
    qed
  qed
qed simp

text \<open>C26: what one pass over the tags records: a tag that is mapped to another one was mapped before,
  or the block after it equals, up to pushes of the own tag, the block after the other one, which
  comes first; and every tag whose block equals an earlier one is mapped.\<close>

theorem scanBlocks_sound:
  "(\<forall>k v. scanBlocks its [0..<length its] [] reps k = Some v \<longrightarrow> reps k = Some v \<or>
      (\<exists>i < length its. \<exists>j < i. m_type (its ! i) = Tag \<and> m_type (its ! j) = Tag \<and>
         k = m_data (its ! i) \<and> v = m_data (its ! j) \<and>
         list_all2 item_eq (blockContent its j) (blockContent its i))) \<and>
   (\<forall>i < length its. \<forall>j < i. m_type (its ! i) = Tag \<longrightarrow> m_type (its ! j) = Tag \<longrightarrow>
      list_all2 item_eq (blockContent its j) (blockContent its i) \<longrightarrow>
      scanBlocks its [0..<length its] [] reps (m_data (its ! i)) \<noteq> None)"
proof (intro conjI)
  from scanBlocks_origin [of "[]" "[0..<length its]"]
  show "\<forall>k v. scanBlocks its [0..<length its] [] reps k = Some v \<longrightarrow> reps k = Some v \<or>
      (\<exists>i < length its. \<exists>j < i. m_type (its ! i) = Tag \<and> m_type (its ! j) = Tag \<and>
         k = m_data (its ! i) \<and> v = m_data (its ! j) \<and>
         list_all2 item_eq (blockContent its j) (blockContent its i))"
    unfolding sameBlock_def by simp
  show "\<forall>i < length its. \<forall>j < i. m_type (its ! i) = Tag \<longrightarrow> m_type (its ! j) = Tag \<longrightarrow>
      list_all2 item_eq (blockContent its j) (blockContent its i) \<longrightarrow>
      scanBlocks its [0..<length its] [] reps (m_data (its ! i)) \<noteq> None"
    unfolding sameBlock_def [symmetric]
    by (intro allI impI, rule scanBlocks_complete [where i = "_ :: nat"]) auto
qed

subsection \<open>Positions of tags\<close>

text \<open>The tags at their positions, which no replacement changes.\<close>

definition shape :: "AssemblyItems \<Rightarrow> u256 option list" where
  "shape its = map (\<lambda>it. if m_type it = Tag then Some (m_data it) else None) its"

definition tagPosition :: "u256 option list \<Rightarrow> u256 \<Rightarrow> nat" where
  "tagPosition s d = length (takeWhile (\<lambda>x. x \<noteq> Some d) s)"

definition shape_ok :: "u256 option list \<Rightarrow> bool" where
  "shape_ok s \<longleftrightarrow> distinct (filter (\<lambda>x. x \<noteq> None) s) \<and>
     list_all (\<lambda>x. case x of Some d \<Rightarrow> d < 2 ^ 64 | None \<Rightarrow> True) s"

definition maps_down :: "u256 option list \<Rightarrow> TagMap \<Rightarrow> bool" where
  "maps_down s reps \<longleftrightarrow>
     (\<forall>k v. reps k = Some v \<longrightarrow> v < 2 ^ 64 \<and> tagPosition s v < tagPosition s k)"

lemma tagPosition_nth:
  "distinct (filter (\<lambda>x. x \<noteq> None) s) \<Longrightarrow> i < length s \<Longrightarrow> s ! i = Some d \<Longrightarrow> tagPosition s d = i"
proof (induction s arbitrary: i)
  case (Cons x s)
  show ?case
  proof (cases i)
    case 0
    then show ?thesis using Cons.prems(3) by (simp add: tagPosition_def)
  next
    case (Suc j)
    then have "Some d \<in> set s" using Cons.prems(2,3) nth_mem by force
    then have "x \<noteq> Some d" using Cons.prems(1) by auto
    then show ?thesis
      using Cons.IH [of j] Cons.prems Suc by (auto simp: tagPosition_def split: if_splits)
  qed
qed simp

lemma scanBlocks_down:
  assumes "shape_ok (shape its)"
  shows "sorted_wrt (<) (seen @ is) \<Longrightarrow> \<forall>j \<in> set seen. m_type (its ! j) = Tag \<Longrightarrow>
     \<forall>j \<in> set (seen @ is). j < length its \<Longrightarrow> maps_down (shape its) reps \<Longrightarrow>
     maps_down (shape its) (scanBlocks its is seen reps)"
proof (induction "is" arbitrary: seen reps)
  case (Cons i "is")
  show ?case
  proof (cases "m_type (its ! i) = Tag")
    case False
    then show ?thesis using Cons.IH Cons.prems by (simp add: sorted_wrt_append)
  next
    case True
    show ?thesis
    proof (cases "findBlock its seen i")
      case None
      then show ?thesis using Cons.IH Cons.prems True by (simp add: sorted_wrt_append)
    next
      case (Some j)
      then have j: "j \<in> set seen" by (auto simp: findBlock_def find_Some_iff)
      then have ji: "j < i" "j < length its" "i < length its" "m_type (its ! j) = Tag"
        using Cons.prems by (auto simp: sorted_wrt_append)
      have sh: "shape its ! i = Some (m_data (its ! i))" "shape its ! j = Some (m_data (its ! j))"
        "i < length (shape its)" "j < length (shape its)"
        using ji True by (simp_all add: shape_def)
      have dist: "distinct (filter (\<lambda>x. x \<noteq> None) (shape its))"
        using assms unfolding shape_ok_def by (rule conjunct1)
      have "tagPosition (shape its) (m_data (its ! i)) = i" "tagPosition (shape its) (m_data (its ! j)) = j"
        by (rule tagPosition_nth [OF dist sh(3,1)], rule tagPosition_nth [OF dist sh(4,2)])
      moreover have "m_data (its ! j) < 2 ^ 64"
        using assms sh(2,4) by (auto simp: shape_ok_def list_all_length)
      ultimately have "maps_down (shape its) (reps(m_data (its ! i) \<mapsto> m_data (its ! j)))"
        using Cons.prems(4) ji(1) by (simp add: maps_down_def)
      moreover have "sorted_wrt (<) (seen @ is)" "\<forall>j \<in> set (seen @ is). j < length its"
        using Cons.prems(1,3) by (simp_all add: sorted_wrt_append)
      ultimately have "maps_down (shape its)
          (scanBlocks its is seen (reps(m_data (its ! i) \<mapsto> m_data (its ! j))))"
        using Cons.IH Cons.prems(2) by blast
      then show ?thesis using True Some by simp
    qed
  qed
qed simp

text \<open>The sum of the positions of the tags that are pushed.\<close>

definition pushWeight :: "u256 option list \<Rightarrow> AssemblyItems \<Rightarrow> nat" where
  "pushWeight s its =
     sum_list (map (\<lambda>it. if m_type it = PushTag \<and> localTag it then tagPosition s (ucast (tagId it)) else 0) its)"

lemma local_data [simp]:
  "localTag (it\<lparr>m_data := ucast (t :: u64)\<rparr>)" "tagId (it\<lparr>m_data := ucast (t :: u64)\<rparr>) = t"
proof -
  have "drop_bit 64 (ucast t :: u256) = 0"
    by (rule bit_word_eqI) (auto simp: bit_simps dest: bit_imp_le_length)
  moreover have "(ucast (- 1 :: u256) :: u64) = - 1" by code_simp
  ultimately show "localTag (it\<lparr>m_data := ucast (t :: u64)\<rparr>)" by (simp add: localTag_def)
  have m: "(0xffffffffffffffff :: u256) = mask 64" by (simp add: mask_eq_exp_minus_1)
  show "tagId (it\<lparr>m_data := ucast (t :: u64)\<rparr>) = t"
    unfolding tagId_def m by (rule bit_word_eqI) (auto simp: bit_simps)
qed

lemma ucast_small: "v < 2 ^ 64 \<Longrightarrow> ucast (ucast (v :: u256) :: u64) = v"
  by (simp add: word_unat_eq_iff unsigned_ucast_eq unsigned_take_bit_eq take_bit_nat_eq_self_iff word_less_nat_alt)

lemma replaceTag_cases:
  assumes "maps_down s reps"
  shows "replaceTag reps (- 1) it = Inr (False, it) \<and>
      (m_type it = PushTag \<longrightarrow> localTag it \<longrightarrow> reps (ucast (tagId it)) = None) \<or>
    (\<exists>v. replaceTag reps (- 1) it = Inr (True, it\<lparr>m_data := ucast (ucast v :: u64)\<rparr>) \<and> m_type it = PushTag \<and>
      localTag it \<and> reps (ucast (tagId it)) = Some v \<and> v < 2 ^ 64 \<and>
      tagPosition s v < tagPosition s (ucast (tagId it)))"
proof (cases "m_type it = PushTag")
  case True
  then show ?thesis
    using assms
    by (auto simp: replaceTag_def split_tag localTag_def setPushTagSubIdAndTag_def setData_def maps_down_def
        split: option.splits)
qed (simp add: replaceTag_def)

lemma pushWeight_Cons:
  "pushWeight s (it # its) =
     (if m_type it = PushTag \<and> localTag it then tagPosition s (ucast (tagId it)) else 0) + pushWeight s its"
  by (simp add: pushWeight_def)

lemma shape_Cons: "shape (it # its) = (if m_type it = Tag then Some (m_data it) else None) # shape its"
  by (simp add: shape_def)

definition no_replaced_push :: "TagMap \<Rightarrow> AssemblyItems \<Rightarrow> bool" where
  "no_replaced_push reps its \<longleftrightarrow>
     (\<forall>it \<in> set its. m_type it = PushTag \<longrightarrow> localTag it \<longrightarrow> reps (ucast (tagId it)) = None)"

lemma applyTagReplacement_cases:
  assumes "maps_down s reps"
  shows "\<exists>c its'. applyTagReplacement its reps (- 1) = Inr (c, its') \<and> shape its' = shape its \<and>
    length its' = length its \<and> (c \<longrightarrow> pushWeight s its' < pushWeight s its) \<and>
    (\<not> c \<longrightarrow> its' = its \<and> no_replaced_push reps its)"
proof (induction its)
  case (Cons it its)
  then obtain d its' where IH: "applyTagReplacement its reps (- 1) = Inr (d, its')" "shape its' = shape its"
    "length its' = length its" "d \<longrightarrow> pushWeight s its' < pushWeight s its"
    "\<not> d \<longrightarrow> its' = its \<and> no_replaced_push reps its"
    by auto
  have le: "pushWeight s its' \<le> pushWeight s its" using IH(4,5) by (cases d) auto
  from replaceTag_cases [OF assms, of it] show ?case
  proof (elim disjE exE conjE)
    assume a: "replaceTag reps (- 1) it = Inr (False, it)"
      "m_type it = PushTag \<longrightarrow> localTag it \<longrightarrow> reps (ucast (tagId it)) = None"
    have "applyTagReplacement (it # its) reps (- 1) = Inr (d, it # its')"
      using a(1) IH(1) by simp
    moreover have "no_replaced_push reps its \<Longrightarrow> no_replaced_push reps (it # its)"
      using a(2) by (simp add: no_replaced_push_def)
    ultimately show ?thesis
      using IH by (intro exI [of _ d] exI [of _ "it # its'"]) (simp add: shape_Cons pushWeight_Cons)
  next
    fix v
    let ?it = "it\<lparr>m_data := ucast (ucast (v :: u256) :: u64)\<rparr>"
    assume a: "replaceTag reps (- 1) it = Inr (True, ?it)"
      "m_type it = PushTag" "localTag it" "v < 2 ^ 64"
      "tagPosition s v < tagPosition s (ucast (tagId it))"
    have "applyTagReplacement (it # its) reps (- 1) = Inr (True, ?it # its')"
      using a(1) IH(1) by simp
    moreover have "pushWeight s (?it # its') < pushWeight s (it # its)"
      using a(2,3,5) le ucast_small [OF a(4)] local_data [where it = it and t = "ucast v"]
      unfolding pushWeight_Cons by simp
    moreover have "shape (?it # its') = shape (it # its)"
      using a(2) IH(2) by (simp add: shape_Cons)
    ultimately show ?thesis
      using IH(3) by (intro exI [of _ True] exI [of _ "?it # its'"]) simp
  qed
qed (auto simp: shape_def no_replaced_push_def)

lemma sorted_indices: "sorted_wrt (<) [0..<n]"
  by simp

lemma maps_down_scan:
  assumes "shape_ok (shape its)" and "maps_down (shape its) reps"
  shows "maps_down (shape its) (scanBlocks its [0..<length its] [] reps)"
  by (rule scanBlocks_down [OF assms(1)]) (use assms(2) in auto)

lemma no_replaced_pushD:
  "no_replaced_push reps its \<Longrightarrow> it \<in> set its \<Longrightarrow> m_type it = PushTag \<Longrightarrow> localTag it \<Longrightarrow>
   reps k \<noteq> None \<Longrightarrow> ucast (tagId it) \<noteq> k"
  by (auto simp: no_replaced_push_def)

lemma dedupLoop_total:
  "shape_ok (shape its) \<Longrightarrow> maps_down (shape its) reps \<Longrightarrow>
     \<exists>n its' reps' reps0. dedupLoop iterations its reps = Some (Inr (n, its', reps')) \<and>
       shape its' = shape its \<and> iterations \<le> n \<and> (n = iterations \<longrightarrow> its' = its) \<and>
       reps' = scanBlocks its' [0..<length its'] [] reps0 \<and>
       maps_down (shape its) reps' \<and> no_replaced_push reps' its'"
proof (induction "pushWeight (shape its) its" arbitrary: its reps iterations rule: less_induct)
  case less
  let ?reps = "scanBlocks its [0..<length its] [] reps"
  have down: "maps_down (shape its) ?reps" by (rule maps_down_scan [OF less.prems])
  from applyTagReplacement_cases [OF this, of its]
  obtain c its' where a: "applyTagReplacement its ?reps (- 1) = Inr (c, its')" "shape its' = shape its"
    "c \<longrightarrow> pushWeight (shape its) its' < pushWeight (shape its) its"
    "\<not> c \<longrightarrow> its' = its \<and> no_replaced_push ?reps its"
    by auto
  show ?case
  proof (cases c)
    case True
    have "\<exists>n its'' reps' reps0. dedupLoop (iterations + 1) its' ?reps = Some (Inr (n, its'', reps')) \<and>
       shape its'' = shape its' \<and> iterations + 1 \<le> n \<and> (n = iterations + 1 \<longrightarrow> its'' = its') \<and>
       reps' = scanBlocks its'' [0..<length its''] [] reps0 \<and>
       maps_down (shape its') reps' \<and> no_replaced_push reps' its''"
      by (rule less.hyps) (use a True less.prems down in simp_all)
    then obtain n its'' reps' reps0 where r:
      "dedupLoop (iterations + 1) its' ?reps = Some (Inr (n, its'', reps'))"
      "shape its'' = shape its'" "iterations + 1 \<le> n"
      "reps' = scanBlocks its'' [0..<length its''] [] reps0"
      "maps_down (shape its') reps'" "no_replaced_push reps' its''" by blast
    have "dedupLoop iterations its reps = Some (Inr (n, its'', reps'))"
      using a(1) r(1) True by (subst dedupLoop.simps) (simp add: Let_def)
    then show ?thesis using r(2-6) a(2) by (intro exI conjI) (assumption | simp)+
  next
    case False
    then have "dedupLoop iterations its reps = Some (Inr (iterations, its, ?reps))"
      using a(1,4) by (subst dedupLoop.simps) (simp add: Let_def)
    then show ?thesis using a False down by (intro exI conjI) (assumption | simp)+
  qed
qed

lemma shape_nth: "i < length its \<Longrightarrow> shape its ! i = Some d \<longleftrightarrow> m_type (its ! i) = Tag \<and> m_data (its ! i) = d"
  by (simp add: shape_def)

text \<open>C25: deduplication ends for items whose tags are distinct and below \<open>2 ^ 64\<close>, raises no exception
  and moves no tag; and in the result no tag is pushed that the recorded replacements map, nor one
  whose block equals the block of an earlier tag.\<close>

theorem deduplicate_total:
  assumes "shape_ok (shape its)"
  shows "\<exists>b its' reps. deduplicate its = Some (Inr (b, its', reps)) \<and> shape its' = shape its \<and>
     (\<not> b \<longrightarrow> its' = its) \<and> no_replaced_push reps its' \<and>
     (list_ex (\<lambda>it. item_eq it (itemOfType Tag (- 4) noLocation) \<or> item_eq it pushSelf) its \<or>
      (\<forall>i < length its'. \<forall>j < i. \<forall>it \<in> set its'.
         m_type (its' ! i) = Tag \<longrightarrow> m_type (its' ! j) = Tag \<longrightarrow>
         list_all2 item_eq (blockContent its' j) (blockContent its' i) \<longrightarrow>
         m_type it = PushTag \<longrightarrow> localTag it \<longrightarrow> ucast (tagId it) \<noteq> m_data (its' ! i)))"
proof (cases "list_ex (\<lambda>it. item_eq it (itemOfType Tag (- 4) noLocation) \<or> item_eq it pushSelf) its")
  case True
  then show ?thesis by (auto simp: deduplicate_def no_replaced_push_def)
next
  case False
  have "maps_down (shape its) Map.empty" by (simp add: maps_down_def)
  from dedupLoop_total [OF assms this, of 0]
  obtain n its' reps reps0 where r: "dedupLoop 0 its Map.empty = Some (Inr (n, its', reps))"
    "shape its' = shape its" "n = 0 \<longrightarrow> its' = its"
    "reps = scanBlocks its' [0..<length its'] [] reps0" "no_replaced_push reps its'" by blast
  have "ucast (tagId it) \<noteq> m_data (its' ! i)"
    if "i < length its'" "j < i" "it \<in> set its'" "m_type (its' ! i) = Tag" "m_type (its' ! j) = Tag"
      "sameBlock its' j i" "m_type it = PushTag" "localTag it" for i j it
  proof (rule no_replaced_pushD [OF r(5) that(3,7,8)])
    show "reps (m_data (its' ! i)) \<noteq> None"
      unfolding r(4) by (rule scanBlocks_complete [where i = j]) (use that in auto)
  qed
  then show ?thesis
    using False r(1-3,5) by (auto simp: deduplicate_def sameBlock_def)
qed

definition twinProgram :: AssemblyItems where
  "twinProgram =
     [itemOfType PushTag 1 noLocation, opItem i_JUMPI, itemOfType PushTag 2 noLocation, opItem i_JUMP,
      itemOfType Tag 1 noLocation, opItem i_STOP, itemOfType Tag 2 noLocation, opItem i_STOP]"

theorem deduplicate_total_witness:
  "\<exists>b its' reps. deduplicate twinProgram = Some (Inr (b, its', reps)) \<and> no_replaced_push reps its'"
proof -
  have "shape_ok (shape twinProgram)" by code_simp
  from deduplicate_total [OF this] show ?thesis by blast
qed

theorem scanBlocks_sound_witness:
  "scanBlocks twinProgram [0..<length twinProgram] [] Map.empty (m_data (twinProgram ! 6)) \<noteq> None"
proof (rule scanBlocks_sound [THEN conjunct2, rule_format])
  show "(6 :: nat) < length twinProgram" "(4 :: nat) < 6" by (simp_all add: twinProgram_def)
  show "m_type (twinProgram ! 6) = Tag" "m_type (twinProgram ! 4) = Tag" by code_simp+
  show "list_all2 item_eq (blockContent twinProgram 4) (blockContent twinProgram 6)" by code_simp
qed

lemma deduplicate_twin:
  "map_option (map_sum id (\<lambda>(b, its', reps). (b, its' ! 2, reps 2))) (deduplicate twinProgram) =
     Some (Inr (True, itemOfType PushTag 1 noLocation, Some 1))"
  by code_simp

end
