(* ===== verification/GasCosts.thy ===== *)
theory GasCosts
  imports AssemblyItem
begin

section \<open>EVM versions and gas costs (liblangutil/EVMVersion.h, libevmasm/GasMeter)\<close>

text \<open>
  The versions of the EVM with their order, the constants of \<open>GasCosts\<close>, and the two static
  functions of the gas meter that need no state. A \<open>bigint\<close> is an \<open>int\<close>; the constants are
  \<open>unsigned\<close>, far below the range of the type, and are natural numbers here.
\<close>

subsection \<open>Versions\<close>

datatype EVMVersion = Homestead | TangerineWhistle | SpuriousDragon | Byzantium | Constantinople

fun version_value :: "EVMVersion \<Rightarrow> nat" where
  "version_value Homestead = 0"
| "version_value TangerineWhistle = 1"
| "version_value SpuriousDragon = 2"
| "version_value Byzantium = 3"
| "version_value Constantinople = 4"

text \<open>\<open>operator<\<close>, which the type class takes over.\<close>

definition version_less :: "EVMVersion \<Rightarrow> EVMVersion \<Rightarrow> bool" where
  "version_less v w \<longleftrightarrow> version_value v < version_value w"

instantiation EVMVersion :: linorder
begin

definition less_eq_EVMVersion :: "EVMVersion \<Rightarrow> EVMVersion \<Rightarrow> bool" where
  "less_eq_EVMVersion v w \<longleftrightarrow> version_value v \<le> version_value w"

definition less_EVMVersion :: "EVMVersion \<Rightarrow> EVMVersion \<Rightarrow> bool" where
  "less_EVMVersion v w \<longleftrightarrow> version_less v w"

instance
proof
  show "x \<le> y \<Longrightarrow> y \<le> x \<Longrightarrow> x = y" for x y :: EVMVersion
    by (cases x; cases y) (simp_all add: less_eq_EVMVersion_def)
qed (auto simp: less_eq_EVMVersion_def less_EVMVersion_def version_less_def)

end

fun version_name :: "EVMVersion \<Rightarrow> string" where
  "version_name Homestead = ''homestead''"
| "version_name TangerineWhistle = ''tangerineWhistle''"
| "version_name SpuriousDragon = ''spuriousDragon''"
| "version_name Byzantium = ''byzantium''"
| "version_name Constantinople = ''constantinople''"

definition versionFromString :: "string \<Rightarrow> EVMVersion option" where
  "versionFromString s =
     find (\<lambda>v. s = version_name v)
       [Homestead, TangerineWhistle, SpuriousDragon, Byzantium, Constantinople]"

definition supportsReturndata :: "EVMVersion \<Rightarrow> bool" where
  "supportsReturndata v \<longleftrightarrow> Byzantium \<le> v"

definition hasStaticCall :: "EVMVersion \<Rightarrow> bool" where
  "hasStaticCall v \<longleftrightarrow> Byzantium \<le> v"

definition hasBitwiseShifting :: "EVMVersion \<Rightarrow> bool" where
  "hasBitwiseShifting v \<longleftrightarrow> Constantinople \<le> v"

definition hasCreate2 :: "EVMVersion \<Rightarrow> bool" where
  "hasCreate2 v \<longleftrightarrow> Constantinople \<le> v"

definition canOverchargeGasForCall :: "EVMVersion \<Rightarrow> bool" where
  "canOverchargeGasForCall v \<longleftrightarrow> TangerineWhistle \<le> v"

subsection \<open>Constants\<close>

definition stackLimit :: nat where "stackLimit = 1024"
definition tier0Gas :: nat where "tier0Gas = 0"
definition tier1Gas :: nat where "tier1Gas = 2"
definition tier2Gas :: nat where "tier2Gas = 3"
definition tier3Gas :: nat where "tier3Gas = 5"
definition tier4Gas :: nat where "tier4Gas = 8"
definition tier5Gas :: nat where "tier5Gas = 10"
definition tier6Gas :: nat where "tier6Gas = 20"

definition extCodeGas :: "EVMVersion \<Rightarrow> nat" where
  "extCodeGas v = (if TangerineWhistle \<le> v then 700 else 20)"

definition balanceGas :: "EVMVersion \<Rightarrow> nat" where
  "balanceGas v = (if TangerineWhistle \<le> v then 400 else 20)"

definition expGas :: nat where "expGas = 10"

definition expByteGas :: "EVMVersion \<Rightarrow> nat" where
  "expByteGas v = (if SpuriousDragon \<le> v then 50 else 10)"

definition keccak256Gas :: nat where "keccak256Gas = 30"
definition keccak256WordGas :: nat where "keccak256WordGas = 6"

definition sloadGas :: "EVMVersion \<Rightarrow> nat" where
  "sloadGas v = (if TangerineWhistle \<le> v then 200 else 50)"

definition sstoreSetGas :: nat where "sstoreSetGas = 20000"
definition sstoreResetGas :: nat where "sstoreResetGas = 5000"
definition jumpdestGas :: nat where "jumpdestGas = 1"
definition logGas :: nat where "logGas = 375"
definition logDataGas :: nat where "logDataGas = 8"
definition logTopicGas :: nat where "logTopicGas = 375"
definition createGas :: nat where "createGas = 32000"

definition callGas :: "EVMVersion \<Rightarrow> nat" where
  "callGas v = (if TangerineWhistle \<le> v then 700 else 40)"

definition callValueTransferGas :: nat where "callValueTransferGas = 9000"
definition callNewAccountGas :: nat where "callNewAccountGas = 25000"

definition selfdestructGas :: "EVMVersion \<Rightarrow> nat" where
  "selfdestructGas v = (if TangerineWhistle \<le> v then 5000 else 0)"

definition memoryGas :: nat where "memoryGas = 3"
definition quadCoeffDiv :: nat where "quadCoeffDiv = 512"
definition createDataGas :: nat where "createDataGas = 200"
definition txDataZeroGas :: nat where "txDataZeroGas = 4"
definition txDataNonZeroGas :: nat where "txDataNonZeroGas = 68"
definition copyGas :: nat where "copyGas = 3"

lemmas gas_constants =
  stackLimit_def tier0Gas_def tier1Gas_def tier2Gas_def tier3Gas_def tier4Gas_def tier5Gas_def
  tier6Gas_def extCodeGas_def balanceGas_def expGas_def expByteGas_def keccak256Gas_def
  keccak256WordGas_def sloadGas_def sstoreSetGas_def sstoreResetGas_def jumpdestGas_def logGas_def
  logDataGas_def logTopicGas_def createGas_def callGas_def callValueTransferGas_def
  callNewAccountGas_def selfdestructGas_def memoryGas_def quadCoeffDiv_def createDataGas_def
  txDataZeroGas_def txDataNonZeroGas_def copyGas_def

subsection \<open>Gas of instructions and data\<close>

definition runGas :: "instruction \<Rightarrow> nat result" where
  "runGas i =
     (if i = i_JUMPDEST then Inr 1
      else case info_gasPriceTier (instructionInfo i) of
          TierZero \<Rightarrow> Inr tier0Gas
        | TierBase \<Rightarrow> Inr tier1Gas
        | TierVeryLow \<Rightarrow> Inr tier2Gas
        | TierLow \<Rightarrow> Inr tier3Gas
        | TierMid \<Rightarrow> Inr tier4Gas
        | TierHigh \<Rightarrow> Inr tier5Gas
        | TierExt \<Rightarrow> Inr tier6Gas
        | _ \<Rightarrow> Inl (OptimizerException
                 (''Invalid gas tier for instruction '' @ info_name (instructionInfo i))))"

definition dataGasSum :: "bytes \<Rightarrow> bool \<Rightarrow> int" where
  "dataGasSum data inCreation =
     (if inCreation
      then sum_list (map (\<lambda>b. int (if b \<noteq> 0 then txDataNonZeroGas else txDataZeroGas)) data)
      else int createDataGas * int (length data))"

definition dataGas :: "bytes \<Rightarrow> bool \<Rightarrow> u256 result" where
  "dataGas data inCreation =
     (let gas = dataGasSum data inCreation in
      if gas < 2 ^ 256 - 1 then Inr (word_of_int gas)
      else Inl (OptimizerException ''Gas cost exceeds 256 bits.''))"

lemma dataGasSum_bounds:
  "0 \<le> dataGasSum data c" "dataGasSum data c \<le> 200 * int (length data)"
proof -
  have "0 \<le> sum_list (map (\<lambda>b. int (if b \<noteq> 0 then txDataNonZeroGas else txDataZeroGas)) data) \<and>
      sum_list (map (\<lambda>b. int (if b \<noteq> 0 then txDataNonZeroGas else txDataZeroGas)) data) \<le>
        200 * int (length data)"
    by (induction data) (auto simp: gas_constants)
  then show "0 \<le> dataGasSum data c" "dataGasSum data c \<le> 200 * int (length data)"
    by (auto simp: dataGasSum_def gas_constants)
qed

lemma dataGas_small:
  assumes "length data \<le> 32"
  shows "dataGas data c = Inr (word_of_int (dataGasSum data c))"
proof -
  have "dataGasSum data c \<le> 6400" using dataGasSum_bounds(2) [of data c] assms by linarith
  then have "dataGasSum data c < 2 ^ 256 - 1" by (rule le_less_trans) simp
  then show ?thesis by (simp add: dataGas_def Let_def)
qed

text \<open>A version printed by \<open>name\<close> is read back by \<open>fromString\<close>.\<close>

theorem version_roundtrip: "versionFromString (version_name v) = Some v"
  by (cases v) (simp_all add: versionFromString_def)

end
