(* ===== verification/ConstantOptimiser.thy ===== *)
theory ConstantOptimiser
  imports GasCosts CommonData CodePass "HOL-Library.AList"
begin

section \<open>The constant optimiser (libevmasm/ConstantOptimiser)\<close>

text \<open>
  The three ways to represent a constant, the gas they are estimated to need, the search for
  a way to compute a constant, the small evaluator that checks it, and the replacement of
  the constants of an item list. \<open>m_maxSteps\<close>, the counter that all calls of
  \<open>findRepresentation\<close> of one constant share, is passed along. The hash of
  \<open>Assembly::newData\<close> is a parameter.
\<close>

record Params =
  p_isCreation :: bool
  p_runs :: nat
  p_multiplicity :: nat
  p_evmVersion :: EVMVersion

subsection \<open>Gas\<close>

fun simpleRunGas :: "AssemblyItems \<Rightarrow> int result" where
  "simpleRunGas [] = Inr 0"
| "simpleRunGas (it # its) =
     bindE (if m_type it = Push then runGas i_PUSH1
            else if m_type it = Operation then
              (if m_instruction it = i_EXP then Inr expGas else runGas (m_instruction it))
            else Inr 0) (\<lambda>g.
     bindE (simpleRunGas its) (\<lambda>gas. Inr (int g + gas)))"

definition co_dataGas :: "Params \<Rightarrow> bytes \<Rightarrow> int result" where
  "co_dataGas ps data =
     (if data = [] then Inl (OptimizerException ''Empty bytecode generated.'')
      else bindE (dataGas data (p_isCreation ps)) (\<lambda>g. Inr (uint g)))"

definition co_bytesRequired :: "AssemblyItems \<Rightarrow> nat result" where
  "co_bytesRequired its = items_bytesRequired its 3"

definition combineGas :: "Params \<Rightarrow> int \<Rightarrow> int \<Rightarrow> int \<Rightarrow> int" where
  "combineGas ps rg repeatedDataGas uniqueDataGas =
     int (p_runs ps) * rg + int (p_multiplicity ps) * repeatedDataGas + uniqueDataGas"

definition byteGas :: "Params \<Rightarrow> nat" where
  "byteGas ps = (if p_isCreation ps then txDataNonZeroGas else createDataGas)"

definition literalGasNeeded :: "Params \<Rightarrow> u256 \<Rightarrow> int result" where
  "literalGasNeeded ps v =
     bindE (simpleRunGas [opItem i_PUSH1]) (\<lambda>rg.
     bindE (co_dataGas ps (toCompactBigEndian v 1)) (\<lambda>dg.
       Inr (combineGas ps rg (int (byteGas ps) + dg) 0)))"

definition copyRoutine :: AssemblyItems where
  "copyRoutine =
     [pushItem 0, opItem i_DUP1, opItem i_MLOAD, pushItem 32,
      itemOfType PushData (push_bit 16 1) noLocation, opItem i_DUP4, opItem i_CODECOPY,
      opItem i_DUP2, opItem i_MLOAD, opItem i_SWAP2, opItem i_MSTORE]"

definition copyGasNeeded :: "Params \<Rightarrow> u256 \<Rightarrow> int result" where
  "copyGasNeeded ps v =
     bindE (simpleRunGas copyRoutine) (\<lambda>rg.
     bindE (co_bytesRequired copyRoutine) (\<lambda>n.
     bindE (co_dataGas ps (toBigEndian256 v)) (\<lambda>dg.
       Inr (combineGas ps (rg + int copyGas) (int n * int (byteGas ps)) dg))))"

definition computeGasNeeded :: "Params \<Rightarrow> AssemblyItems \<Rightarrow> int result" where
  "computeGasNeeded ps routine =
     (let numExps = length (filter (\<lambda>it. item_eq it (opItem i_EXP)) routine) in
      bindE (simpleRunGas routine) (\<lambda>rg.
      bindE (co_bytesRequired routine) (\<lambda>n.
        Inr (combineGas ps (rg + int numExps * int (expGas + expByteGas (p_evmVersion ps)))
               (int n * int (byteGas ps)) 0))))"

subsection \<open>Finding a representation\<close>

definition gapDetector :: "u256 \<Rightarrow> nat \<Rightarrow> u32" where
  "gapDetector v bits = ucast (drop_bit (bits - 8) v AND 0x1ff)"

text \<open>The upper and the signed lower part of the value at a bit position.\<close>

definition splitValue :: "u256 \<Rightarrow> nat \<Rightarrow> u256 \<times> int" where
  "splitValue v bits =
     (let powerOfTwo = push_bit bits 1 :: u256;
          upperPart = drop_bit bits v;
          lowerPart = uint (v AND (powerOfTwo - 1))
      in if uint powerOfTwo - lowerPart < lowerPart
         then (upperPart + 1, lowerPart - uint powerOfTwo) else (upperPart, lowerPart))"

definition candidate :: "u256 \<Rightarrow> nat \<Rightarrow> bool" where
  "candidate v bits \<longleftrightarrow>
     (gapDetector v bits = 0xff \<or> gapDetector v bits = 0x100) \<and>
     (case splitValue v bits of (upperPart, lowerPart) \<Rightarrow>
        upperPart \<noteq> 0 \<and> \<not> \<bar>lowerPart\<bar> \<ge> uint (drop_bit 8 (push_bit bits 1 :: u256)))"

text \<open>The new routine, from those for the two parts.\<close>

definition assembleRoutine :: "nat \<Rightarrow> u256 \<Rightarrow> int \<Rightarrow> AssemblyItems \<Rightarrow> AssemblyItems \<Rightarrow> AssemblyItems" where
  "assembleRoutine bits upperPart lowerPart lower upper =
     (if lowerPart \<noteq> 0 then lower else []) @
     [pushItem (of_nat bits), pushItem 2, opItem i_EXP] @
     (if upperPart \<noteq> 1 then upper @ [opItem i_MUL] else []) @
     (if lowerPart > 0 then [opItem i_ADD] else if lowerPart < 0 then [opItem i_SUB] else [])"

lemma bytesRequired_less: "bytesRequired v < bytesRequired w \<Longrightarrow> unat v < unat w"
  using bytesRequired_mono [of w v] by (meson leD leI)

lemma uint_push_bit_1:
  assumes "bits < 256"
  shows "uint (push_bit bits 1 :: u256) = 2 ^ bits"
proof -
  have "(2 :: int) ^ bits < 2 ^ 256" using assms by (intro power_strict_increasing) simp_all
  moreover have "uint (push_bit bits 1 :: u256) = take_bit LENGTH(256) (push_bit bits (uint (1 :: u256)))"
    by (rule unsigned_push_bit_eq)
  moreover have "LENGTH(256) = 256" by simp
  ultimately show ?thesis
    by (simp only: unsigned_1 push_bit_eq_mult mult_1 take_bit_int_eq_self zero_le_power zero_le_numeral)
qed

lemma splitValue_parts:
  assumes "bits < 256" and "splitValue v bits = (up, lo)"
  shows "v = up * 2 ^ bits + word_of_int lo" and "\<bar>lo\<bar> \<le> 2 ^ bits"
    and "unat up \<le> unat v div 2 ^ bits + 1"
proof -
  let ?pow = "2 ^ bits :: u256" and ?low = "v AND (2 ^ bits - 1)"
  have pow: "uint ?pow = 2 ^ bits" using uint_push_bit_1 [OF assms(1)] by (simp only: push_bit_of_1)
  have low: "?low = take_bit bits v"
    by (simp add: take_bit_eq_mask mask_eq_decr_exp push_bit_eq_mult)
  have "v = push_bit bits (drop_bit bits v) + take_bit bits v"
    by (simp add: bits_ident)
  then have split: "v = drop_bit bits v * ?pow + ?low"
    unfolding low by (simp add: push_bit_eq_mult)
  have l: "0 \<le> uint ?low" "uint ?low < 2 ^ bits"
    unfolding low by (simp_all add: unsigned_take_bit_eq)
  have u: "unat (drop_bit bits v) = unat v div 2 ^ bits" by (rule unat_drop_bit_div)
  have cases: "(up, lo) = (if 2 ^ bits - uint ?low < uint ?low
      then (drop_bit bits v + 1, uint ?low - 2 ^ bits) else (drop_bit bits v, uint ?low))"
    using assms(2) unfolding splitValue_def Let_def push_bit_of_1 pow by (rule sym)
  show "v = up * ?pow + word_of_int lo"
  proof (cases "2 ^ bits - uint ?low < uint ?low")
    case True
    then have "up = drop_bit bits v + 1" and lo: "lo = uint ?low - uint ?pow"
      using cases pow by simp_all
    moreover have "word_of_int lo = ?low - ?pow" unfolding lo by simp
    ultimately have "up * ?pow + word_of_int lo = drop_bit bits v * ?pow + ?low"
      by (simp add: distrib_right)
    then show ?thesis using split by simp
  next
    case False
    then have "up = drop_bit bits v" "lo = uint ?low" using cases by simp_all
    then show ?thesis using split by simp
  qed
  show "\<bar>lo\<bar> \<le> 2 ^ bits" using cases l by (auto split: if_splits)
  have "unat (drop_bit bits v + 1) \<le> unat (drop_bit bits v) + 1"
    by (simp add: unat_word_ariths(1) mod_less_eq_dividend)
  then show "unat up \<le> unat v div 2 ^ bits + 1" using cases u by (auto split: if_splits)
qed

lemma gap_large:
  assumes "gapDetector v bits = 0xff \<or> gapDetector v bits = 0x100"
  shows "255 * 2 ^ (bits - 8) \<le> unat v"
proof -
  have "255 \<le> unat (gapDetector v bits)" using assms by auto
  also have "\<dots> \<le> unat (drop_bit (bits - 8) v AND 0x1ff)"
    by (simp only: gapDetector_def unsigned_ucast_eq take_bit_nat_less_eq_self)
  also have "\<dots> \<le> unat (drop_bit (bits - 8) v)"
    by (simp add: word_and_le2 word_le_nat_alt [symmetric])
  also have "\<dots> = unat v div 2 ^ (bits - 8)" by (rule unat_drop_bit_div)
  finally show ?thesis by (metis div_le_mono mult.commute less_eq_div_iff_mult_less_eq zero_less_numeral zero_less_power)
qed

lemma candidate_parts:
  assumes "candidate v bits" and "8 < bits" and "splitValue v bits = (up, lo)"
  shows "bits < 256" and "\<bar>lo\<bar> < 2 ^ (bits - 8)" and "up \<noteq> 0"
    and "unat (word_of_int \<bar>lo\<bar> :: u256) < unat v" and "unat up < unat v"
proof -
  have c: "255 * 2 ^ (bits - 8) \<le> unat v" "\<bar>lo\<bar> < uint (drop_bit 8 (push_bit bits 1 :: u256))" "up \<noteq> 0"
    using assms(1,3) gap_large by (auto simp: candidate_def simp del: push_bit_of_1)
  show "up \<noteq> 0" by (rule c(3))
  show b: "bits < 256"
  proof (rule ccontr)
    assume "\<not> bits < 256"
    then have zero: "push_bit bits (1 :: u256) = 0" by simp
    show False using c(2) unfolding zero by simp
  qed
  have "uint (drop_bit 8 (push_bit bits 1 :: u256)) = int (unat (push_bit bits 1 :: u256) div 2 ^ 8)"
    by (simp only: uint_nat unat_drop_bit_div)
  also have "\<dots> = uint (push_bit bits 1 :: u256) div 2 ^ 8"
    by (simp only: uint_nat of_nat_div of_nat_power of_nat_numeral)
  also have "\<dots> = 2 ^ bits div 2 ^ 8" by (simp only: uint_push_bit_1 [OF b])
  also have "\<dots> = 2 ^ (bits - 8)" using assms(2) by (simp add: power_diff)
  finally show lo: "\<bar>lo\<bar> < 2 ^ (bits - 8)" using c(2) by simp
  have "unat (word_of_int \<bar>lo\<bar> :: u256) \<le> nat \<bar>lo\<bar>"
    by (simp add: unsigned_of_int nat_take_bit_eq take_bit_nat_less_eq_self)
  also have "\<dots> < 2 ^ (bits - 8)" using lo by (simp add: nat_less_iff)
  also have "\<dots> \<le> unat v" using c(1) by linarith
  finally show "unat (word_of_int \<bar>lo\<bar> :: u256) < unat v" .
  have "(2 :: nat) ^ 1 \<le> 2 ^ (bits - 8)" using assms(2) by (intro power_increasing) simp_all
  then have v: "510 \<le> unat v" using c(1) by simp
  have "(2 :: nat) ^ 9 \<le> 2 ^ bits" using assms(2) by (intro power_increasing) simp_all
  then have "unat v div 2 ^ bits \<le> unat v div 2 ^ 9" by (intro div_le_mono2) simp_all
  then show "unat up < unat v" using splitValue_parts(3) [OF b assms(3)] v by simp
qed

definition findMeasure ::
  "Params \<times> u256 \<times> nat + Params \<times> u256 \<times> nat \<times> AssemblyItems \<times> int \<times> nat \<Rightarrow> nat \<times> nat" where
  "findMeasure x = (case x of Inl (ps, v, s) \<Rightarrow> (unat v, 256) | Inr (ps, v, bits, _) \<Rightarrow> (unat v, bits))"

lemma candidate_smaller:
  assumes "candidate v bits" and "(up, lo) = splitValue v bits" and "8 < bits"
  shows "unat (word_of_int \<bar>lo\<bar> :: u256) < unat v" and "unat up < unat v"
  using candidate_parts(4,5) [of v bits up lo] assms by simp_all

text \<open>
  \<open>findRepresentation\<close> and its loop over the bit positions, with the best routine so far and
  its gas. The third argument and the second result are \<open>m_maxSteps\<close>.
\<close>

function (sequential) findRepresentation :: "Params \<Rightarrow> u256 \<Rightarrow> nat \<Rightarrow> (AssemblyItems \<times> nat) result"
  and findLoop :: "Params \<Rightarrow> u256 \<Rightarrow> nat \<Rightarrow> AssemblyItems \<Rightarrow> int \<Rightarrow> nat \<Rightarrow> (AssemblyItems \<times> nat) result"
  where
  "findRepresentation ps v steps =
     (if v < 0x10000 then Inr ([pushItem v], steps)
      else if bytesRequired (NOT v) < bytesRequired v then
        bindE (findRepresentation ps (NOT v) steps) (\<lambda>(r, s). Inr (r @ [opItem i_NOT], s))
      else bindE (computeGasNeeded ps [pushItem v]) (\<lambda>bestGas.
        findLoop ps v 255 [pushItem v] bestGas steps))"
| "findLoop ps v bits routine bestGas steps =
     (if \<not> (8 < bits \<and> 0 < steps) then Inr (routine, steps)
      else if \<not> candidate v bits then findLoop ps v (bits - 1) routine bestGas steps
      else case splitValue v bits of (upperPart, lowerPart) \<Rightarrow>
        bindE (if lowerPart \<noteq> 0 then findRepresentation ps (word_of_int \<bar>lowerPart\<bar>) steps
               else Inr ([], steps)) (\<lambda>(lower, steps1).
        bindE (if upperPart \<noteq> 1 then findRepresentation ps upperPart steps1
               else Inr ([], steps1)) (\<lambda>(upper, steps2).
        let newRoutine = assembleRoutine bits upperPart lowerPart lower upper in
        bindE (computeGasNeeded ps newRoutine) (\<lambda>newGas.
          if newGas < bestGas then findLoop ps v (bits - 1) newRoutine newGas (steps2 - 1)
          else findLoop ps v (bits - 1) routine bestGas (steps2 - 1)))))"
  by pat_completeness auto

termination
  by (relation "inv_image (less_than <*lex*> less_than) findMeasure")
    (auto simp: findMeasure_def wf_inv_image bytesRequired_less dest: candidate_smaller)

declare findRepresentation.simps [simp del] findLoop.simps [simp del]

subsection \<open>Checking a representation\<close>

text \<open>
  The stack is a list with its top first; \<open>None\<close> is the \<open>return false\<close> inside the loop.
  \<open>stack.resize(stack.size() + item.deposit())\<close> drops elements from the top, since no
  operation that is evaluated has a positive deposit.
\<close>

definition evalOperation :: "AssemblyItem \<Rightarrow> u256 list \<Rightarrow> u256 list option" where
  "evalOperation it stack =
     (if int (length stack) < item_arguments it then None
      else map_option (drop (nat (- item_deposit it)))
        (case stack of
           a # b # rest \<Rightarrow>
             (if m_instruction it = i_MUL then Some (a # a * b # rest)
              else if m_instruction it = i_EXP then
                (if b > 0xff then None else Some (a # a ^ unat b # rest))
              else if m_instruction it = i_ADD then Some (a # (a + b) # rest)
              else if m_instruction it = i_SUB then Some (a # (a - b) # rest)
              else if m_instruction it = i_NOT then Some (NOT a # b # rest)
              else None)
         | [a] \<Rightarrow> if m_instruction it = i_NOT then Some [NOT a] else None
         | [] \<Rightarrow> None))"

fun evalRoutine :: "AssemblyItems \<Rightarrow> u256 list \<Rightarrow> u256 list option" where
  "evalRoutine [] stack = Some stack"
| "evalRoutine (it # its) stack =
     (case m_type it of
        Operation \<Rightarrow>
          (case evalOperation it stack of None \<Rightarrow> None | Some stack' \<Rightarrow> evalRoutine its stack')
      | Push \<Rightarrow> evalRoutine its (m_data it # stack)
      | _ \<Rightarrow> None)"

definition checkRepresentation :: "u256 \<Rightarrow> AssemblyItems \<Rightarrow> bool" where
  "checkRepresentation v routine =
     (case evalRoutine routine [] of Some [w] \<Rightarrow> w = v | _ \<Rightarrow> False)"

text \<open>The constructor of \<open>ComputeMethod\<close>.\<close>

definition computeMethod :: "Params \<Rightarrow> u256 \<Rightarrow> AssemblyItems result" where
  "computeMethod ps v =
     bindE (findRepresentation ps v 10000) (\<lambda>(routine, steps).
     if checkRepresentation v routine then Inr routine
     else Inl (OptimizerException ''Invalid constant expression created.''))"

subsection \<open>Replacing the constants\<close>

fun replaceConstants :: "(u256 \<Rightarrow> AssemblyItems option) \<Rightarrow> AssemblyItems \<Rightarrow> AssemblyItems" where
  "replaceConstants reps [] = []"
| "replaceConstants reps (it # its) =
     (case (if m_type it = Push then reps (m_data it) else None) of
        Some r \<Rightarrow> r @ replaceConstants reps its
      | None \<Rightarrow> it # replaceConstants reps its)"

text \<open>
  \<open>map<AssemblyItem, size_t> pushes\<close>: the push items in the order of the map with their number;
  an insertion keeps the key that is there.
\<close>

fun countPush :: "AssemblyItem \<Rightarrow> (AssemblyItem \<times> nat) list \<Rightarrow> (AssemblyItem \<times> nat) list" where
  "countPush it [] = [(it, 1)]"
| "countPush it ((k, n) # ps) =
     (if item_less it k then (it, 1) # (k, n) # ps
      else if item_less k it then (k, n) # countPush it ps
      else (k, n + 1) # ps)"

definition countPushes :: "AssemblyItems \<Rightarrow> (AssemblyItem \<times> nat) list" where
  "countPushes its = fold countPush (filter (\<lambda>it. m_type it = Push) its) []"

text \<open>\<open>Assembly::newData\<close> on the data of the assembly.\<close>

type_synonym DataMap = "u256 \<rightharpoonup> bytes"

definition newData :: "(bytes \<Rightarrow> u256) \<Rightarrow> DataMap \<Rightarrow> bytes \<Rightarrow> AssemblyItem \<times> DataMap" where
  "newData hash m data = (itemOfType PushData (hash data) noLocation, m(hash data \<mapsto> data))"

definition copyExecute :: "(bytes \<Rightarrow> u256) \<Rightarrow> DataMap \<Rightarrow> u256 \<Rightarrow> AssemblyItems \<times> DataMap" where
  "copyExecute hash m v =
     (case newData hash m (toBigEndian256 v) of (it, m') \<Rightarrow> (copyRoutine[4 := it], m'))"

record Optimisation =
  o_count :: nat
  o_data :: DataMap
  o_pending :: "u256 \<rightharpoonup> AssemblyItems"

text \<open>One iteration of the loop over the pushes.\<close>

definition optimiseConstant :: "(bytes \<Rightarrow> u256) \<Rightarrow> bool \<Rightarrow> nat \<Rightarrow> EVMVersion \<Rightarrow>
    AssemblyItem \<times> nat \<Rightarrow> Optimisation \<Rightarrow> Optimisation result" where
  "optimiseConstant hash isCreation runs version p st =
     (case p of (it, multiplicity) \<Rightarrow>
      bindE (dataOf it) (\<lambda>v.
      if v < 0x100 then Inr st
      else
        let ps = \<lparr>p_isCreation = isCreation, p_runs = runs, p_multiplicity = multiplicity,
                  p_evmVersion = version\<rparr> in
        bindE (literalGasNeeded ps v) (\<lambda>literalGas.
        bindE (copyGasNeeded ps v) (\<lambda>copyGas.
        bindE (computeMethod ps v) (\<lambda>routine.
        bindE (computeGasNeeded ps routine) (\<lambda>computeGas.
          let (replacement, st') =
            (if copyGas < literalGas \<and> copyGas < computeGas then
               case copyExecute hash (o_data st) v of (r, m) \<Rightarrow>
                 (r, st\<lparr>o_count := o_count st + 1, o_data := m\<rparr>)
             else if computeGas < literalGas \<and> computeGas \<le> copyGas then
               (routine, st\<lparr>o_count := o_count st + 1\<rparr>)
             else ([], st))
          in Inr (if replacement \<noteq> [] then st'\<lparr>o_pending := (o_pending st')(v \<mapsto> replacement)\<rparr>
                  else st')))))))"

fun optimiseConstantList :: "(bytes \<Rightarrow> u256) \<Rightarrow> bool \<Rightarrow> nat \<Rightarrow> EVMVersion \<Rightarrow>
    (AssemblyItem \<times> nat) list \<Rightarrow> Optimisation \<Rightarrow> Optimisation result" where
  "optimiseConstantList hash c runs version [] st = Inr st"
| "optimiseConstantList hash c runs version (p # ps) st =
     bindE (optimiseConstant hash c runs version p st) (optimiseConstantList hash c runs version ps)"

text \<open>
  \<open>ConstantOptimisationMethod::optimiseConstants\<close>: the number of optimisations, the data of
  the assembly and the items. Replacing by the empty map, which the code skips, changes
  nothing.
\<close>

definition optimiseConstants :: "(bytes \<Rightarrow> u256) \<Rightarrow> bool \<Rightarrow> nat \<Rightarrow> EVMVersion \<Rightarrow> DataMap \<Rightarrow>
    AssemblyItems \<Rightarrow> (nat \<times> DataMap \<times> AssemblyItems) result" where
  "optimiseConstants hash isCreation runs version m its =
     bindE (optimiseConstantList hash isCreation runs version (countPushes its)
       \<lparr>o_count = 0, o_data = m, o_pending = Map.empty\<rparr>) (\<lambda>st.
     Inr (o_count st, o_data st, replaceConstants (o_pending st) its))"

subsection \<open>Routines that push a constant\<close>

definition isRoutineItem :: "AssemblyItem \<Rightarrow> bool" where
  "isRoutineItem it \<longleftrightarrow>
     m_type it = Push \<or>
     m_type it = Operation \<and> m_instruction it \<in> set [i_MUL, i_EXP, i_ADD, i_SUB, i_NOT]"

lemma isRoutineItem_simps [simp]:
  "isRoutineItem (pushItem v)" "isRoutineItem (opItem i_MUL)" "isRoutineItem (opItem i_EXP)"
  "isRoutineItem (opItem i_ADD)" "isRoutineItem (opItem i_SUB)" "isRoutineItem (opItem i_NOT)"
  by (simp_all add: isRoutineItem_def itemPush_def itemOfType_def)

lemma routine_gas:
  assumes "list_all isRoutineItem r"
  obtains g where "computeGasNeeded ps r = Inr g"
proof -
  have run: "\<exists>g. runGas i_PUSH1 = Inr g" "\<exists>g. runGas i = Inr g"
    if "i \<in> set [i_MUL, i_ADD, i_SUB, i_NOT]" for i
    using that by (auto simp: runGas_def instr_table)
  have "\<exists>g. simpleRunGas r = Inr g"
    using assms
  proof (induction r)
    case (Cons it r)
    then obtain g where "simpleRunGas r = Inr g" by auto
    moreover have "\<exists>g. (if m_type it = Push then runGas i_PUSH1
            else if m_type it = Operation then
              (if m_instruction it = i_EXP then Inr expGas else runGas (m_instruction it))
            else Inr 0) = Inr g"
      using Cons.prems run by (auto simp: isRoutineItem_def)
    ultimately show ?case by auto
  qed simp
  moreover have "\<exists>n. co_bytesRequired r = Inr n"
    unfolding co_bytesRequired_def items_bytesRequired_total
    using assms by (auto simp: list_all_iff isRoutineItem_def)
  ultimately show thesis using that by (auto simp: computeGasNeeded_def Let_def)
qed

definition pushes :: "AssemblyItems \<Rightarrow> u256 \<Rightarrow> bool" where
  "pushes r v \<longleftrightarrow> (\<forall>stack. evalRoutine r stack = Some (v # stack))"

lemma evalRoutine_append:
  "evalRoutine (xs @ ys) stack =
     (case evalRoutine xs stack of None \<Rightarrow> None | Some stack' \<Rightarrow> evalRoutine ys stack')"
  by (induction xs arbitrary: stack) (auto split: AssemblyItemType.splits option.splits)

lemma evalOperation_simps:
  "evalOperation (opItem i_MUL) (a # b # stack) = Some (a * b # stack)"
  "evalOperation (opItem i_EXP) (a # b # stack) = (if b > 0xff then None else Some (a ^ unat b # stack))"
  "evalOperation (opItem i_ADD) (a # b # stack) = Some ((a + b) # stack)"
  "evalOperation (opItem i_SUB) (a # b # stack) = Some ((a - b) # stack)"
  "evalOperation (opItem i_NOT) (a # stack) = Some (NOT a # stack)"
  by (cases stack; simp add: evalOperation_def item_arguments_def item_deposit_def item_returnValues_def instr_table)+

lemma evalRoutine_single [simp]:
  "evalRoutine (pushItem v # r) stack = evalRoutine r (v # stack)"
  "evalRoutine [opItem i] stack = evalOperation (opItem i) stack"
  "evalRoutine (opItem i # r) stack =
     (case evalOperation (opItem i) stack of None \<Rightarrow> None | Some stack' \<Rightarrow> evalRoutine r stack')"
  by (simp_all add: itemPush_def itemOfType_def split: option.splits)

lemma pushes_literal: "pushes [pushItem v] v"
  by (simp add: pushes_def)

lemma pushes_not: "pushes r v \<Longrightarrow> pushes (r @ [opItem i_NOT]) (NOT v)"
  by (simp add: pushes_def evalRoutine_append evalOperation_simps)

lemma pushes_assembleRoutine:
  assumes "bits < 256" and "lo \<noteq> 0 \<Longrightarrow> pushes lower (word_of_int \<bar>lo\<bar>)"
    and "up \<noteq> 1 \<Longrightarrow> pushes upper up"
  shows "pushes (assembleRoutine bits up lo lower upper) (up * 2 ^ bits + word_of_int lo)"
proof -
  have b: "unat (of_nat bits :: u256) = bits" using assms(1) by (simp add: unat_of_nat)
  then have "\<not> (of_nat bits :: u256) > 0xff" using assms(1) by (simp add: word_less_nat_alt)
  then have e: "evalOperation (opItem i_EXP) (2 # of_nat bits # stack) = Some (2 ^ bits # stack)" for stack
    using b by (simp add: evalOperation_simps)
  have m: "evalRoutine (if up \<noteq> 1 then upper @ [opItem i_MUL] else []) (2 ^ bits # stack) =
      Some (up * 2 ^ bits # stack)" for stack
    using assms(3) by (simp add: pushes_def evalRoutine_append evalOperation_simps)
  have l: "evalRoutine (if lo > 0 then [opItem i_ADD] else if lo < 0 then [opItem i_SUB] else [])
      (x # (if lo \<noteq> 0 then word_of_int \<bar>lo\<bar> # stack else stack)) = Some ((x + word_of_int lo) # stack)"
    for x stack
    by (simp add: evalOperation_simps)
  show ?thesis
    unfolding pushes_def assembleRoutine_def
  proof
    fix stack
    have "evalRoutine (if lo \<noteq> 0 then lower else []) stack =
        Some (if lo \<noteq> 0 then word_of_int \<bar>lo\<bar> # stack else stack)"
      using assms(2) by (simp add: pushes_def)
    then show "evalRoutine ((if lo \<noteq> 0 then lower else []) @
        [pushItem (of_nat bits), pushItem 2, opItem i_EXP] @
        (if up \<noteq> 1 then upper @ [opItem i_MUL] else []) @
        (if lo > 0 then [opItem i_ADD] else if lo < 0 then [opItem i_SUB] else [])) stack =
        Some ((up * 2 ^ bits + word_of_int lo) # stack)"
      using e m l by (simp only: evalRoutine_append evalRoutine_single evalRoutine.simps(1) option.case)
  qed
qed

lemma assembleRoutine_items:
  assumes "lo \<noteq> 0 \<Longrightarrow> list_all isRoutineItem lower" and "up \<noteq> 1 \<Longrightarrow> list_all isRoutineItem upper"
  shows "list_all isRoutineItem (assembleRoutine bits up lo lower upper)"
  using assms by (auto simp: assembleRoutine_def)

text \<open>What the search promises of its result; \<open>limit\<close> bounds its gas.\<close>

definition found :: "Params \<Rightarrow> u256 \<Rightarrow> nat \<Rightarrow> int option \<Rightarrow> (AssemblyItems \<times> nat) result \<Rightarrow> bool" where
  "found ps v steps limit res \<longleftrightarrow>
     (\<exists>r s. res = Inr (r, s) \<and> s \<le> steps \<and> list_all isRoutineItem r \<and> pushes r v \<and>
        (\<forall>l. limit = Some l \<longrightarrow> (\<exists>g. computeGasNeeded ps r = Inr g \<and> g \<le> l)))"

lemma foundI:
  "res = Inr (r, s) \<Longrightarrow> s \<le> steps \<Longrightarrow> list_all isRoutineItem r \<Longrightarrow> pushes r v \<Longrightarrow>
     (\<And>l. limit = Some l \<Longrightarrow> \<exists>g. computeGasNeeded ps r = Inr g \<and> g \<le> l) \<Longrightarrow> found ps v steps limit res"
  by (auto simp: found_def)

lemma found_weaken: "found ps v s limit res \<Longrightarrow> s \<le> steps \<Longrightarrow> found ps v steps limit res"
  unfolding found_def using le_trans by blast

lemma found_limit: "found ps v s (Some l) res \<Longrightarrow> l \<le> l' \<Longrightarrow> found ps v s (Some l') res"
  unfolding found_def using order_trans by blast

lemma found_any: "found ps v s limit res \<Longrightarrow> found ps v s None res"
  by (auto simp: found_def)

lemma findRepresentation_found:
  "found ps v steps None (findRepresentation ps v steps)"
  "list_all isRoutineItem routine \<Longrightarrow> pushes routine v \<Longrightarrow> computeGasNeeded ps routine = Inr bestGas \<Longrightarrow>
     found ps v steps (Some bestGas) (findLoop ps v bits routine bestGas steps)"
proof (induction ps v steps and ps v bits routine bestGas steps
    rule: findRepresentation_findLoop.induct)
  case (1 ps v steps)
  consider "v < 0x10000" | "\<not> v < 0x10000" "bytesRequired (NOT v) < bytesRequired v"
    | "\<not> v < 0x10000" "\<not> bytesRequired (NOT v) < bytesRequired v" by blast
  then show ?case
  proof cases
    case 1
    then show ?thesis
      by (intro foundI [of _ "[pushItem v]" steps]) (simp_all add: findRepresentation.simps [of ps v] pushes_literal)
  next
    case 2
    obtain r s where r: "findRepresentation ps (NOT v) steps = Inr (r, s)" "s \<le> steps"
      "list_all isRoutineItem r" "pushes r (NOT v)"
      using 1(1) [OF 2] by (auto simp: found_def)
    show ?thesis
      using 2 r pushes_not [OF r(4)]
      by (intro foundI [of _ "r @ [opItem i_NOT]" s]) (simp_all add: findRepresentation.simps [of ps v])
  next
    case 3
    obtain g where g: "computeGasNeeded ps [pushItem v] = Inr g"
      by (rule routine_gas [of "[pushItem v]" ps]) simp
    have "found ps v steps (Some g) (findLoop ps v 255 [pushItem v] g steps)"
      by (rule 1(2) [OF 3 g _ pushes_literal g]) simp
    then show ?thesis
      using 3 g found_any by (simp add: findRepresentation.simps [of ps v])
  qed
next
  case (2 ps v bits routine bestGas steps)
  note simps = findLoop.simps [of ps v bits routine bestGas steps]
  show ?case
  proof (cases "8 < bits \<and> 0 < steps")
    case False
    then show ?thesis
      using 2(6-8) by (intro foundI [of _ routine steps]) (auto simp: simps)
  next
    case True
    show ?thesis
    proof (cases "candidate v bits")
      case False
      then show ?thesis using 2(1) 2(6-8) True by (simp add: simps)
    next
      case cand: True
      obtain up lo where s: "splitValue v bits = (up, lo)" by fastforce
      note parts = candidate_parts [OF cand _ s]
      have nn: "\<not> \<not> (8 < bits \<and> 0 < steps)" "\<not> \<not> candidate v bits" using True cand by simp_all
      let ?low = "if lo \<noteq> 0 then findRepresentation ps (word_of_int \<bar>lo\<bar>) steps else Inr ([], steps)"
      have "lo \<noteq> 0 \<Longrightarrow> found ps (word_of_int \<bar>lo\<bar>) steps None (findRepresentation ps (word_of_int \<bar>lo\<bar>) steps)"
        by (rule 2(2) [OF nn s [symmetric]])
      then obtain lower s1 where lower: "?low = Inr (lower, s1)" "s1 \<le> steps"
        "lo \<noteq> 0 \<Longrightarrow> list_all isRoutineItem lower" "lo \<noteq> 0 \<Longrightarrow> pushes lower (word_of_int \<bar>lo\<bar>)"
        by (cases "lo = 0") (auto simp: found_def)
      let ?up = "if up \<noteq> 1 then findRepresentation ps up s1 else Inr ([], s1)"
      have "up \<noteq> 1 \<Longrightarrow> found ps up s1 None (findRepresentation ps up s1)"
        by (rule 2(3) [OF nn s [symmetric] lower(1) refl])
      then obtain upper s2 where upper: "?up = Inr (upper, s2)" "s2 \<le> s1"
        "up \<noteq> 1 \<Longrightarrow> list_all isRoutineItem upper" "up \<noteq> 1 \<Longrightarrow> pushes upper up"
        by (cases "up = 1") (auto simp: found_def)
      let ?new = "assembleRoutine bits up lo lower upper"
      have items: "list_all isRoutineItem ?new"
        by (rule assembleRoutine_items [OF lower(3) upper(3)])
      have push: "pushes ?new v"
        using pushes_assembleRoutine [OF parts(1) lower(4) upper(4)] splitValue_parts(1) [OF parts(1) s] True
        by simp
      obtain g where g: "computeGasNeeded ps ?new = Inr g" using routine_gas [OF items] .
      have le: "s2 - 1 \<le> steps" using lower(2) upper(2) by simp
      have eq: "findLoop ps v bits routine bestGas steps =
          (if g < bestGas then findLoop ps v (bits - 1) ?new g (s2 - 1)
           else findLoop ps v (bits - 1) routine bestGas (s2 - 1))"
        unfolding simps using True cand
        by (simp only: nn if_False s prod.case lower(1) upper(1) bindE_simps Let_def g)
          (simp only: not_not if_False HOL.simp_thms)
      show ?thesis
      proof (cases "g < bestGas")
        case True
        have "found ps v (s2 - 1) (Some g) (findLoop ps v (bits - 1) ?new g (s2 - 1))"
          by (rule 2(4) [OF nn s [symmetric] lower(1) refl upper(1) refl refl g True items push g])
        then show ?thesis
          using True found_weaken [OF _ le] found_limit [of ps v steps g _ bestGas] unfolding eq by simp
      next
        case False
        have "found ps v (s2 - 1) (Some bestGas) (findLoop ps v (bits - 1) routine bestGas (s2 - 1))"
          by (rule 2(5) [OF nn s [symmetric] lower(1) refl upper(1) refl refl g False 2(6-8)])
        then show ?thesis using False found_weaken [OF _ le] unfolding eq by simp
      qed
    qed
  qed
qed

lemma computeMethod_returns:
  "\<exists>r. computeMethod ps v = Inr r \<and> checkRepresentation v r"
proof -
  obtain r s where r: "findRepresentation ps v 10000 = Inr (r, s)" "pushes r v"
    using findRepresentation_found(1) [of ps v 10000] by (auto simp: found_def)
  have "checkRepresentation v r" using r(2) by (simp add: checkRepresentation_def pushes_def)
  then show ?thesis using r(1) by (simp add: computeMethod_def)
qed

text \<open>C21: The constructor of \<open>ComputeMethod\<close> returns for every constant: the search terminates, no
  step of it raises an exception, and the assertion "Invalid constant expression created"
  never fails.\<close>

theorem computeMethod_correct:
  "\<exists>r. computeMethod ps v = Inr r \<and> checkRepresentation v r"
  by (rule computeMethod_returns)

lemma computeMethod_result:
  assumes "computeMethod ps v = Inr r"
  shows "list_all isRoutineItem r" and "pushes r v"
  using assms findRepresentation_found(1) [of ps v 10000]
  by (auto simp: computeMethod_def found_def split: if_splits)


subsection \<open>Replacing constants keeps behaviour\<close>

lemma exec_op_arith:
  assumes "evm_arith i (take n stk) = Some v" and "info_args (instructionInfo i) = int n" and "n \<le> length stk"
    and "i \<in> set [i_MUL, i_EXP, i_ADD, i_SUB, i_NOT]"
  shows "exec_op E i stk w = Next (v # drop n stk) w"
  using assms
  by (auto simp: exec_op_def isPushInstruction_def isDupInstruction_def isSwapInstruction_def instr_table
      word_le_nat_alt evm_halts_def)

lemma evalOperation_exec:
  assumes "evalOperation it stk = Some stk'" and "isRoutineItem it" and "m_type it = Operation"
  shows "exec_op E (m_instruction it) stk w = Next stk' w"
proof -
  have i: "m_instruction it \<in> set [i_MUL, i_EXP, i_ADD, i_SUB, i_NOT]"
    using assms(2,3) by (simp add: isRoutineItem_def)
  show ?thesis
  proof (cases "m_instruction it = i_NOT")
    case True
    then obtain a rest where "stk = a # rest" "stk' = NOT a # rest"
      using assms(1,3)
      by (cases stk) (auto simp: evalOperation_def item_arguments_def item_deposit_def
          item_returnValues_def instr_table split: list.splits)
    then show ?thesis
      using exec_op_arith [of i_NOT 1 stk "NOT a" E w] True by (simp add: evm_arith_def instr_table)
  next
    case False
    then have args: "info_args (instructionInfo (m_instruction it)) = int 2"
      "info_ret (instructionInfo (m_instruction it)) = 1"
      using i by (auto simp: instr_table)
    then obtain a b rest where stk: "stk = a # b # rest"
      using assms(1,3) by (cases stk rule: remdups_adj.cases) (auto simp: evalOperation_def item_arguments_def)
    have "evm_arith (m_instruction it) (take 2 stk) = Some (hd stk') \<and> stk' = hd stk' # rest"
      using assms(1,3) False i args
      by (auto simp: stk evalOperation_def item_arguments_def item_deposit_def item_returnValues_def
          evm_arith_def split: if_splits)
    then show ?thesis
      using exec_op_arith [of "m_instruction it" 2 stk "hd stk'" E w] i args stk by simp
  qed
qed

lemma evalRoutine_exec:
  "evalRoutine r stk = Some stk' \<Longrightarrow> list_all isRoutineItem r \<Longrightarrow> exec_block E r stk w = Next stk' w"
proof (induction r arbitrary: stk)
  case (Cons it r)
  show ?case
  proof (cases "m_type it = Push")
    case True
    then show ?thesis using Cons by (simp add: exec_item_def)
  next
    case False
    then have op: "m_type it = Operation" using Cons.prems(2) by (auto simp: isRoutineItem_def)
    then obtain stk1 where "evalOperation it stk = Some stk1" "evalRoutine r stk1 = Some stk'"
      using Cons.prems(1) by (auto split: option.splits)
    then show ?thesis
      using Cons.IH [of stk1] Cons.prems(2) evalOperation_exec [of it stk stk1 E w] op
      by (simp add: exec_item_def)
  qed
qed simp

definition replacements_ok :: "'w evm \<Rightarrow> (u256 \<Rightarrow> AssemblyItems option) \<Rightarrow> bool" where
  "replacements_ok E reps \<longleftrightarrow>
     (\<forall>v r. reps v = Some r \<longrightarrow>
        filter isTagItem r = [] \<and> (\<forall>stk w. exec_block E r stk w = Next (v # stk) w))"

interpretation constants: code_pass "replaceConstants reps" "\<lambda>E P. replacements_ok (E :: 'w evm) reps"
  for reps
proof unfold_locales
  fix E :: "'w evm" and P xs :: AssemblyItems
  assume ok: "replacements_ok E reps" and "xs \<noteq> []"
  then obtain it ys where xs: "xs = it # ys" by (cases xs) auto
  let ?rep = "if m_type it = Push then reps (m_data it) else None"
  let ?b = "case ?rep of Some r \<Rightarrow> r | None \<Rightarrow> [it]"
  have "replaceConstants reps xs = ?b @ replaceConstants reps ys" by (simp add: xs split: option.split)
  moreover have "tags_agree [it] ?b \<and> block_refines E P ys [it] ?b"
  proof (cases ?rep)
    case (Some r)
    then have r: "m_type it = Push" "reps (m_data it) = Some r" by (auto split: if_splits)
    then have "filter isTagItem r = []" "\<And>stk w. exec_block E r stk w = Next (m_data it # stk) w"
      using ok by (auto simp: replacements_ok_def)
    then show ?thesis
      using r by (simp add: tags_agree_def isTagItem_def block_refines_def exec_item_def)
  qed (simp add: block_refines_def)
  ultimately show "\<exists>a b ys. xs = a @ ys \<and> a \<noteq> [] \<and> replaceConstants reps xs = b @ replaceConstants reps ys \<and>
      tags_agree a b \<and> block_refines E P ys a b"
    using xs by (intro exI [of _ "[it]"] exI [of _ ?b] exI [of _ ys]) simp
qed simp

lemma routine_replacement:
  assumes "list_all isRoutineItem r" and "pushes r v"
  shows "filter isTagItem r = []" and "exec_block E r stk w = Next (v # stk) w"
proof -
  show "filter isTagItem r = []"
    using assms(1) by (auto simp: filter_empty_conv list_all_iff isRoutineItem_def isTagItem_def)
  show "exec_block E r stk w = Next (v # stk) w"
    by (rule evalRoutine_exec [OF _ assms(1)]) (use assms(2) in \<open>simp add: pushes_def\<close>)
qed

subsection \<open>The copy routine\<close>

text \<open>
  What the routine relies on of the EVM and of the assembled code: MLOAD reads a word of
  memory, CODECOPY from the address pushed for the data places the data at 0, and MSTORE of
  the old word restores the memory (the world does not show how far memory was touched).
\<close>

definition memory_laws :: "(bytes \<Rightarrow> u256) \<Rightarrow> 'w evm \<Rightarrow> u256 \<Rightarrow> 'w \<Rightarrow> bool" where
  "memory_laws hash E v w \<longleftrightarrow>
     (case ev_write E i_MLOAD [0] w of
        ([m], w1) \<Rightarrow>
          (case ev_write E i_CODECOPY [0, ev_push E PushData (hash (toBigEndian256 v)), 32] w1 of
             ([], w2) \<Rightarrow>
               (case ev_write E i_MLOAD [0] w2 of
                  ([x], w3) \<Rightarrow> x = v \<and> ev_write E i_MSTORE [0, m] w3 = ([], w)
                | _ \<Rightarrow> False)
           | _ \<Rightarrow> False)
      | _ \<Rightarrow> False)"

lemma exec_op_copy:
  "0 < length stk \<Longrightarrow> exec_op E i_DUP1 stk w = Next (stk ! 0 # stk) w"
  "1 < length stk \<Longrightarrow> exec_op E i_DUP2 stk w = Next (stk ! 1 # stk) w"
  "3 < length stk \<Longrightarrow> exec_op E i_DUP4 stk w = Next (stk ! 3 # stk) w"
  "2 < length stk \<Longrightarrow> exec_op E i_SWAP2 stk w = Next (stk[0 := stk ! 2, 2 := stk ! 0]) w"
  "exec_op E i_MLOAD (a # stk) w = (case ev_write E i_MLOAD [a] w of (rs, w') \<Rightarrow> Next (rs @ stk) w')"
  "exec_op E i_CODECOPY (a # b # c # stk) w =
     (case ev_write E i_CODECOPY [a, b, c] w of (rs, w') \<Rightarrow> Next (rs @ stk) w')"
  "exec_op E i_MSTORE (a # b # stk) w =
     (case ev_write E i_MSTORE [a, b] w of (rs, w') \<Rightarrow> Next (rs @ stk) w')"
  by (simp_all add: exec_op_def instr_table isPushInstruction_def isDupInstruction_def
      isSwapInstruction_def word_le_nat_alt evm_halts_def evm_reads_def evm_arith_def
      evm_arith1.simps evm_arith2.simps evm_arith3.simps)

lemma copy_exec:
  assumes "memory_laws hash E v w" and "copyExecute hash m v = (r, m')"
  shows "filter isTagItem r = []" and "exec_block E r stk w = Next (v # stk) w"
proof -
  have r: "r = copyRoutine[4 := itemOfType PushData (hash (toBigEndian256 v)) noLocation]"
    using assms(2) by (simp add: copyExecute_def newData_def)
  then show "filter isTagItem r = []"
    by (simp add: copyRoutine_def isTagItem_def itemPush_def itemOfType_def)
  let ?d = "ev_push E PushData (hash (toBigEndian256 v))"
  obtain a1 w1 where 1: "ev_write E i_MLOAD [0] w = (a1, w1)" by fastforce
  obtain a2 w2 where 2: "ev_write E i_CODECOPY [0, ?d, 32] w1 = (a2, w2)" by fastforce
  obtain a3 w3 where 3: "ev_write E i_MLOAD [0] w2 = (a3, w3)" by fastforce
  note laws = assms(1) [unfolded memory_laws_def 1 prod.case]
  obtain x where x: "a1 = [x]" using laws by (cases a1 rule: remdups_adj.cases) simp_all
  note laws = laws [unfolded x list.case 2 prod.case]
  have "a2 = []" using laws by (cases a2) simp_all
  note laws = laws [unfolded this list.case 3 prod.case]
  obtain y where y: "a3 = [y]" using laws by (cases a3 rule: remdups_adj.cases) simp_all
  have "y = v" "ev_write E i_MSTORE [0, x] w3 = ([], w)" using laws unfolding y by simp_all
  with 1 2 3 x y \<open>a2 = []\<close>
  have "ev_write E i_MLOAD [0] w = ([x], w1)" "ev_write E i_CODECOPY [0, ?d, 32] w1 = ([], w2)"
    "ev_write E i_MLOAD [0] w2 = ([v], w3)" "ev_write E i_MSTORE [0, x] w3 = ([], w)" by simp_all
  then show "exec_block E r stk w = Next (v # stk) w"
    by (simp add: r copyRoutine_def exec_item_def itemPush_def itemOfType_def exec_op_copy)
qed

subsection \<open>The whole pass\<close>

lemma gas_total:
  "\<exists>g. literalGasNeeded ps v = Inr g" "\<exists>g. copyGasNeeded ps v = Inr g"
  "computeMethod ps v = Inr r \<Longrightarrow> \<exists>g. computeGasNeeded ps r = Inr g"
proof -
  have len: "length (toCompactBigEndian v 1) \<le> 32" "toCompactBigEndian v 1 \<noteq> []"
    using bytesRequired_256 [of v] by (simp_all add: toCompactBigEndian_def flip: length_0_conv)
  then show "\<exists>g. literalGasNeeded ps v = Inr g"
    by (simp add: literalGasNeeded_def runGas_def instr_table co_dataGas_def dataGas_small)
  have "toBigEndian256 v \<noteq> []" "length (toBigEndian256 v) \<le> 32"
    by (simp_all add: toBigEndian256_def flip: length_0_conv)
  then have "\<exists>g. co_dataGas ps (toBigEndian256 v) = Inr g" by (simp add: co_dataGas_def dataGas_small)
  moreover have "\<exists>g. simpleRunGas copyRoutine = Inr g"
    by (simp add: copyRoutine_def runGas_def instr_table itemPush_def itemOfType_def)
  moreover have "\<exists>n. co_bytesRequired copyRoutine = Inr n"
    unfolding co_bytesRequired_def items_bytesRequired_total
    by (simp add: copyRoutine_def itemPush_def itemOfType_def)
  ultimately show "\<exists>g. copyGasNeeded ps v = Inr g" by (auto simp: copyGasNeeded_def)
  show "computeMethod ps v = Inr r \<Longrightarrow> \<exists>g. computeGasNeeded ps r = Inr g"
    by (rule routine_gas [OF computeMethod_result(1)]) blast+
qed

text \<open>What one iteration over the pushes does to the state.\<close>

definition pending_ok :: "(bytes \<Rightarrow> u256) \<Rightarrow> Optimisation \<Rightarrow> bool" where
  "pending_ok hash st \<longleftrightarrow>
     (\<forall>v r. o_pending st v = Some r \<longrightarrow>
        list_all isRoutineItem r \<and> pushes r v \<or>
        r = copyRoutine[4 := itemOfType PushData (hash (toBigEndian256 v)) noLocation] \<and>
        hash (toBigEndian256 v) \<in> dom (o_data st))"

lemma optimiseConstant_step:
  assumes "m_type it = Push" and "pending_ok hash st"
  obtains st' where "optimiseConstant hash c runs version (it, n) st = Inr st'" "pending_ok hash st'"
    "dom (o_data st) \<subseteq> dom (o_data st')"
proof (cases "m_data it < 0x100")
  case True
  then show thesis using that [of st] assms by (simp add: optimiseConstant_def dataOf_def)
next
  case False
  let ?v = "m_data it"
  let ?ps = "\<lparr>p_isCreation = c, p_runs = runs, p_multiplicity = n, p_evmVersion = version\<rparr>"
  obtain lg where lg: "literalGasNeeded ?ps ?v = Inr lg" using gas_total(1) by blast
  obtain cg where cg: "copyGasNeeded ?ps ?v = Inr cg" using gas_total(2) by blast
  obtain r where r: "computeMethod ?ps ?v = Inr r" using computeMethod_returns by blast
  obtain rg where rg: "computeGasNeeded ?ps r = Inr rg" using gas_total(3) r by blast
  note res = computeMethod_result [OF r]
  have ne: "r \<noteq> []" using res(2) by (auto simp: pushes_def)
  let ?copy = "copyRoutine[4 := itemOfType PushData (hash (toBigEndian256 ?v)) noLocation]"
  have cne: "?copy \<noteq> []" by (simp add: copyRoutine_def)
  let ?m = "(o_data st)(hash (toBigEndian256 ?v) \<mapsto> toBigEndian256 ?v)"
  define st' where "st' =
    (if cg < lg \<and> cg < rg then
       st\<lparr>o_count := o_count st + 1, o_data := ?m, o_pending := (o_pending st)(?v \<mapsto> ?copy)\<rparr>
     else if rg < lg \<and> rg \<le> cg then
       st\<lparr>o_count := o_count st + 1, o_pending := (o_pending st)(?v \<mapsto> r)\<rparr>
     else st)"
  have "optimiseConstant hash c runs version (it, n) st = Inr st'"
    using False assms(1) ne cne
    by (simp add: optimiseConstant_def dataOf_def lg cg r rg Let_def copyExecute_def newData_def st'_def)
  moreover have "pending_ok hash st'"
    using assms(2) res by (auto simp: pending_ok_def st'_def)
  moreover have "dom (o_data st) \<subseteq> dom (o_data st')" by (auto simp: st'_def)
  ultimately show thesis using that by blast
qed

lemma countPush_types: "list_all (\<lambda>p. P (fst p)) ps \<Longrightarrow> P it \<Longrightarrow> list_all (\<lambda>p. P (fst p)) (countPush it ps)"
  by (induction it ps rule: countPush.induct) auto

lemma countPushes_Push: "list_all (\<lambda>p. m_type (fst p) = Push) (countPushes its)"
proof -
  have "list_all (\<lambda>p. m_type (fst p) = Push) ps \<Longrightarrow>
      list_all (\<lambda>p. m_type (fst p) = Push) (fold countPush (filter (\<lambda>it. m_type it = Push) its) ps)" for ps
    using countPush_types [where P = "\<lambda>it. m_type it = Push"] by (induction its arbitrary: ps) auto
  then show ?thesis by (simp add: countPushes_def)
qed

lemma optimiseConstantList_step:
  "list_all (\<lambda>p. m_type (fst p) = Push) ps \<Longrightarrow> pending_ok hash st \<Longrightarrow>
     \<exists>st'. optimiseConstantList hash c runs version ps st = Inr st' \<and> pending_ok hash st' \<and>
       dom (o_data st) \<subseteq> dom (o_data st')"
proof (induction ps arbitrary: st)
  case (Cons p ps)
  obtain it n where p: "p = (it, n)" by (cases p)
  with Cons.prems have "m_type it = Push" by simp
  from optimiseConstant_step [OF this Cons.prems(2), of c runs version n]
  obtain st1 where 1: "optimiseConstant hash c runs version p st = Inr st1"
    "pending_ok hash st1" "dom (o_data st) \<subseteq> dom (o_data st1)"
    unfolding p by blast
  then show ?case using Cons.IH [OF _ 1(2)] Cons.prems(1) by auto
qed simp

lemma optimiseConstants_result:
  obtains st where "optimiseConstants hash c runs version m its =
      Inr (o_count st, o_data st, replaceConstants (o_pending st) its)"
    "pending_ok hash st" "dom m \<subseteq> dom (o_data st)"
proof -
  have "pending_ok hash \<lparr>o_count = 0, o_data = m, o_pending = Map.empty\<rparr>" by (simp add: pending_ok_def)
  from optimiseConstantList_step [OF countPushes_Push this, of c runs version its]
  show thesis using that by (auto simp: optimiseConstants_def)
qed

lemma optimiseConstants_resultE:
  assumes "optimiseConstants hash c runs version m P = Inr (n, m', P')"
  obtains st where "P' = replaceConstants (o_pending st) P" "m' = o_data st" "pending_ok hash st"
proof -
  obtain st where "optimiseConstants hash c runs version m P =
      Inr (o_count st, o_data st, replaceConstants (o_pending st) P)" "pending_ok hash st"
    by (rule optimiseConstants_result)
  then show thesis using that [of st] assms by simp
qed

definition pushedData :: "AssemblyItems \<Rightarrow> u256 set" where
  "pushedData its = m_data ` set (filter (\<lambda>it. m_type it = PushData) its)"

lemma replaceConstants_in:
  "it \<in> set (replaceConstants reps its) \<Longrightarrow> it \<in> set its \<or> (\<exists>v r. reps v = Some r \<and> it \<in> set r)"
  by (induction its) (auto split: option.splits if_splits)

text \<open>C20: \<open>optimiseConstants\<close> returns for all items, without an exception; every data item that it
  inserts has its data in the assembly, and no data is lost.\<close>

theorem optimiseConstants_total:
  "\<exists>n m' its'. optimiseConstants hash isCreation runs version m its = Inr (n, m', its') \<and>
     pushedData its' \<subseteq> pushedData its \<union> dom m' \<and> dom m \<subseteq> dom m'"
proof -
  obtain st where st: "optimiseConstants hash isCreation runs version m its =
      Inr (o_count st, o_data st, replaceConstants (o_pending st) its)"
    "pending_ok hash st" "dom m \<subseteq> dom (o_data st)"
    by (rule optimiseConstants_result)
  have "m_data it \<in> dom (o_data st)"
    if "o_pending st v = Some r" "it \<in> set r" "m_type it = PushData" for v r it
  proof -
    have "\<not> list_all isRoutineItem r"
      using that(2,3) by (auto simp: list_all_iff isRoutineItem_def intro!: bexI [of _ it])
    then have "r = copyRoutine[4 := itemOfType PushData (hash (toBigEndian256 v)) noLocation]"
      "hash (toBigEndian256 v) \<in> dom (o_data st)"
      using st(2) that(1) by (auto simp: pending_ok_def)
    then show ?thesis using that(2,3) by (auto simp: copyRoutine_def itemPush_def itemOfType_def)
  qed
  then have "pushedData (replaceConstants (o_pending st) its) \<subseteq> pushedData its \<union> dom (o_data st)"
    using replaceConstants_in [of _ "o_pending st" its] by (fastforce simp: pushedData_def)
  then show ?thesis using st(1,3) by blast
qed


subsection \<open>Instances\<close>

abbreviation exampleParams :: Params where
  "exampleParams \<equiv> \<lparr>p_isCreation = False, p_runs = 1, p_multiplicity = 1, p_evmVersion = Byzantium\<rparr>"


text \<open>A world with one word of memory, and data found by its value.\<close>

definition wordWorld :: "u256 evm" where
  "wordWorld =
     \<lparr>ev_read = (\<lambda>i as w. 0),
      ev_write = (\<lambda>i as w.
        if i = i_MLOAD then ([w], w)
        else if i = i_CODECOPY then ([], as ! 1)
        else if i = i_MSTORE then ([], as ! 1)
        else ([], w)),
      ev_push = (\<lambda>t d. d)\<rparr>"

lemma wordWorld_laws: "memory_laws fromBigEndian wordWorld v w"
  by (simp add: memory_laws_def wordWorld_def toBigEndian256_def fromBigEndian_toBigEndian_id bytesRequired_256)


end
