(* ===== verification/CommonSubexpressionEliminator.thy ===== *)
theory CommonSubexpressionEliminator
  imports KnownState "HOL-Library.Product_Lexorder"
begin

section \<open>Common subexpression elimination (libevmasm/CommonSubexpressionEliminator)\<close>

text \<open>
  The eliminator feeds a block of items to a \<open>KnownState\<close> and generates code anew from the
  classes that have to be on the stack at the end and from the stores. The code generator
  keeps a symbolic stack. Its operations are functions on its state \<open>CSECodeGenerator\<close>;
  \<open>operator[]\<close> of \<open>std::map\<close>, which enters a default value where there is none, is
  \<open>stackRef\<close> for the stack and \<open>insertPosition\<close>, \<open>erasePosition\<close> and \<open>touchPositions\<close> for
  the positions of the classes.
\<close>

instantiation Target :: linorder
begin

definition targetValue :: "Target \<Rightarrow> nat" where
  "targetValue t = (case t of Invalid \<Rightarrow> 0 | Memory \<Rightarrow> 1 | Storage \<Rightarrow> 2)"

definition less_eq_Target :: "Target \<Rightarrow> Target \<Rightarrow> bool" where
  "less_eq_Target s t \<longleftrightarrow> targetValue s \<le> targetValue t"

definition less_Target :: "Target \<Rightarrow> Target \<Rightarrow> bool" where
  "less_Target s t \<longleftrightarrow> targetValue s < targetValue t"

instance
  by standard (auto simp: less_eq_Target_def less_Target_def targetValue_def split: Target.splits)

end

subsection \<open>State of the code generator\<close>

text \<open>
  \<open>g_neededBy\<close> is the multimap; \<open>g_classPositions\<close> maps a class to its positions on the
  stack, and to the empty set when it has been generated and removed.
\<close>

record CSECodeGenerator =
  g_generatedItems :: AssemblyItems
  g_stackHeight :: int
  g_neededBy :: "(Id \<times> Id) list"
  g_stack :: "(int \<times> Id) list"
  g_classPositions :: "(Id \<times> int set) list"
  g_storeOperations :: "((Target \<times> Id) \<times> StoreOperation list) list"
  g_finalClasses :: "Id set"
  g_targetStack :: "(int \<times> Id) list"

definition positions :: "CSECodeGenerator \<Rightarrow> Id \<Rightarrow> int set" where
  "positions g c = (case map_of (g_classPositions g) c of Some ps \<Rightarrow> ps | None \<Rightarrow> {})"

definition generated :: "CSECodeGenerator \<Rightarrow> Id \<Rightarrow> bool" where
  "generated g c \<longleftrightarrow> map_of (g_classPositions g) c \<noteq> None"

definition touchPositions :: "Id \<Rightarrow> CSECodeGenerator \<Rightarrow> CSECodeGenerator" where
  "touchPositions c g = g\<lparr>g_classPositions := omap_insert c {} (g_classPositions g)\<rparr>"

definition insertPosition :: "Id \<Rightarrow> int \<Rightarrow> CSECodeGenerator \<Rightarrow> CSECodeGenerator" where
  "insertPosition c p g =
     g\<lparr>g_classPositions := omap_put c (insert p (positions g c)) (g_classPositions g)\<rparr>"

definition erasePosition :: "Id \<Rightarrow> int \<Rightarrow> CSECodeGenerator \<Rightarrow> CSECodeGenerator" where
  "erasePosition c p g =
     g\<lparr>g_classPositions := omap_put c (positions g c - {p}) (g_classPositions g)\<rparr>"

text \<open>\<open>m_stack[p]\<close>.\<close>

definition stackRef :: "int \<Rightarrow> CSECodeGenerator \<Rightarrow> Id \<times> CSECodeGenerator" where
  "stackRef p g =
     (case map_of (g_stack g) p of
        Some c \<Rightarrow> (c, g)
      | None \<Rightarrow> (0, g\<lparr>g_stack := omap_put p 0 (g_stack g)\<rparr>))"

definition setStack :: "int \<Rightarrow> Id \<Rightarrow> CSECodeGenerator \<Rightarrow> CSECodeGenerator" where
  "setStack p c g = g\<lparr>g_stack := omap_put p c (g_stack g)\<rparr>"

definition eraseStack :: "int \<Rightarrow> CSECodeGenerator \<Rightarrow> CSECodeGenerator" where
  "eraseStack p g = g\<lparr>g_stack := filter (\<lambda>q. fst q \<noteq> p) (g_stack g)\<rparr>"

subsection \<open>Appending items\<close>

definition appendGenerated :: "AssemblyItem \<Rightarrow> CSECodeGenerator \<Rightarrow> CSECodeGenerator" where
  "appendGenerated it g =
     g\<lparr>g_generatedItems := g_generatedItems g @ [it],
       g_stackHeight := g_stackHeight g + item_deposit it\<rparr>"

definition c_invalidPosition :: int where
  "c_invalidPosition = - 0x7fffffff"

definition classElementPosition :: "Id \<Rightarrow> CSECodeGenerator \<Rightarrow> int result" where
  "classElementPosition c g =
     (if generated g c \<and> positions g c \<noteq> {} then Inr (Max (positions g c))
      else Inl (OptimizerException ''Element requested but is not present.''))"

text \<open>The default argument \<open>Id(-1)\<close> for the result is \<open>noId\<close>.\<close>

definition canBeRemoved :: "Id \<Rightarrow> Id \<Rightarrow> int \<Rightarrow> CSECodeGenerator \<Rightarrow> bool result" where
  "canBeRemoved element res fromPosition g =
     bindE (if fromPosition = c_invalidPosition then classElementPosition element g
            else Inr fromPosition) (\<lambda>from.
     case map_of (g_classPositions g) element of
       None \<Rightarrow> Inl OutOfRange
     | Some ps \<Rightarrow>
         let haveCopy = (1 < card ps) in
         if element \<in> g_finalClasses g
         then Inr (haveCopy \<and> map_of (g_targetStack g) from \<noteq> Some element)
         else if haveCopy then Inr True
         else Inr (list_all (\<lambda>(a, c). a = element \<longrightarrow> c = res \<or> generated g c) (g_neededBy g)))"

definition removeStackTopIfPossible :: "CSECodeGenerator \<Rightarrow> (bool \<times> CSECodeGenerator) result" where
  "removeStackTopIfPossible g =
     (if g_stack g = [] then Inr (False, g)
      else case map_of (g_stack g) (g_stackHeight g) of
          None \<Rightarrow> Inl (OptimizerException [])
        | Some t \<Rightarrow>
            bindE (canBeRemoved t noId (g_stackHeight g) g) (\<lambda>r.
            if \<not> r then Inr (False, g)
            else Inr (True, appendGenerated (opItem i_POP)
              (eraseStack (g_stackHeight g) (erasePosition t (g_stackHeight g) g)))))"

definition appendDup :: "int \<Rightarrow> SourceLocation \<Rightarrow> CSECodeGenerator \<Rightarrow> CSECodeGenerator result" where
  "appendDup from l g =
     (if from = c_invalidPosition then Inl (OptimizerException [])
      else
        let k = 1 + g_stackHeight g - from in
        if \<not> k \<le> 16 then Inl StackTooDeepException
        else if \<not> 1 \<le> k then Inl (OptimizerException ''Invalid stack access.'')
        else
          bindE (dupInstruction (word_of_int k)) (\<lambda>i.
          let g = appendGenerated (itemOp i l) g;
              (c, g) = stackRef from g
          in Inr (insertPosition c (g_stackHeight g) (setStack (g_stackHeight g) c g))))"

text \<open>\<open>SWAPi\<close> twice in a row is removed again.\<close>

definition dropDoubleSwap :: "CSECodeGenerator \<Rightarrow> CSECodeGenerator" where
  "dropDoubleSwap g =
     (let items = g_generatedItems g; n = length items in
      if 2 \<le> n \<and> itemIsSwap (items ! (n - 1)) \<and> item_eq (items ! (n - 2)) (items ! (n - 1))
      then g\<lparr>g_generatedItems := take (n - 2) items\<rparr> else g)"

definition appendOrRemoveSwap :: "int \<Rightarrow> SourceLocation \<Rightarrow> CSECodeGenerator \<Rightarrow> CSECodeGenerator result"
  where
  "appendOrRemoveSwap from l g =
     (if from = c_invalidPosition then Inl (OptimizerException [])
      else if from = g_stackHeight g then Inr g
      else
        let k = g_stackHeight g - from in
        if \<not> k \<le> 16 then Inl StackTooDeepException
        else if \<not> 1 \<le> k then Inl (OptimizerException ''Invalid stack access.'')
        else
          bindE (swapInstruction (word_of_int k)) (\<lambda>i.
          let g = appendGenerated (itemOp i l) g;
              h = g_stackHeight g;
              (a, g) = stackRef h g;
              (b, g) = stackRef from g;
              g = (if a \<noteq> b
                   then setStack from a (setStack h b
                     (insertPosition b h (erasePosition b from
                       (insertPosition a from (erasePosition a h g)))))
                   else g)
          in Inr (dropDoubleSwap g)))"

subsection \<open>Dependencies\<close>

fun foldCM :: "('a \<Rightarrow> 's \<Rightarrow> 's CM) \<Rightarrow> 'a list \<Rightarrow> 's \<Rightarrow> 's CM" where
  "foldCM f [] s = cmReturn s"
| "foldCM f (x # xs) s = cmBind (f x s) (foldCM f xs)"

definition needs :: "Id \<Rightarrow> Id \<Rightarrow> CSECodeGenerator \<Rightarrow> CSECodeGenerator" where
  "needs a c g = g\<lparr>g_neededBy := g_neededBy g @ [(a, c)]\<rparr>"

definition isLoad :: "AssemblyItem \<Rightarrow> bool" where
  "isLoad it \<longleftrightarrow> m_type it = Operation \<and>
     (m_instruction it = i_SLOAD \<or> m_instruction it = i_MLOAD \<or> m_instruction it = i_KECCAK256)"

text \<open>Whether a load is known not to depend on the stores to a slot.\<close>

definition knownToBeIndependent :: "nat \<Rightarrow> Expression \<Rightarrow> Id \<Rightarrow> bool CM" where
  "knownToBeIndependent f e slot =
     (let i = m_instruction (e_item e); start = e_arguments e ! 0 in
      if i = i_SLOAD then cmDifferent f slot start
      else if i = i_MLOAD then cmDifferentBy32 f slot start
      else if i = i_KECCAK256 then
        cmBind (cmFind f (itemOp i_SUB (m_location (e_item e))) [slot, start] 0) (\<lambda>offset.
        cmBind (cmQuery (\<lambda>cs. knownConstant cs offset)) (\<lambda>ofs.
        cmBind (cmQuery (\<lambda>cs. knownConstant cs (e_arguments e ! 1))) (\<lambda>len.
        cmReturn
          (if len = Some 0 then True
           else case ofs of
               None \<Rightarrow> False
             | Some d \<Rightarrow>
                 u2s d \<le> - 32 \<or> (case len of None \<Rightarrow> False | Some k \<Rightarrow> 0 \<le> u2s d \<and> k \<le> d)))))
      else cmReturn False)"

text \<open>The last store of a group before the sequence number \<open>s\<close>; the first one in any case.\<close>

definition latestStore :: "StoreOperation list \<Rightarrow> nat \<Rightarrow> Id" where
  "latestStore ops s =
     fold (\<lambda>op latest. if so_sequenceNumber op < s then so_expression op else latest) (tl ops)
       (so_expression (hd ops))"

primrec addDependenciesF :: "nat \<Rightarrow> nat \<Rightarrow> Id \<Rightarrow> CSECodeGenerator \<Rightarrow> CSECodeGenerator CM" where
  "addDependenciesF 0 f c g = (\<lambda>cs. None)"
| "addDependenciesF (Suc n) f c g =
     (if generated g c then cmReturn g
      else if c \<in> fst ` set (g_neededBy g) then cmReturn g
      else
        cmBind (cmQuery (\<lambda>cs. representative cs c)) (\<lambda>e.
        if m_type (e_item e) = UndefinedItem then cmThrow ItemNotAvailableException
        else
          cmBind (foldCM (\<lambda>a g. cmBind (addDependenciesF n f a g) (\<lambda>g. cmReturn (needs a c g)))
            (e_arguments e) g) (\<lambda>g.
          if \<not> isLoad (e_item e) then cmReturn g
          else
            let target = (if m_instruction (e_item e) = i_SLOAD then Storage else Memory) in
            foldCM (\<lambda>p g.
              if fst (fst p) \<noteq> target then cmReturn g
              else if so_sequenceNumber (hd (snd p)) > e_sequenceNumber e then cmReturn g
              else
                cmBind (knownToBeIndependent f e (snd (fst p))) (\<lambda>independent.
                if independent then cmReturn g
                else
                  let latest = latestStore (snd p) (e_sequenceNumber e) in
                  cmBind (addDependenciesF n f latest g) (\<lambda>g. cmReturn (needs latest c g))))
              (g_storeOperations g) g)))"

subsection \<open>Generating an element\<close>

definition cmLift :: "'a result \<Rightarrow> 'a CM" where
  "cmLift r = cmQuery (\<lambda>cs. r)"

text \<open>Bringing the arguments of \<open>c\<close> to the top of the stack, for each case by hand.\<close>

definition moveToTop :: "Id \<Rightarrow> SourceLocation \<Rightarrow> CSECodeGenerator \<Rightarrow> CSECodeGenerator result" where
  "moveToTop a l g = bindE (classElementPosition a g) (\<lambda>p. appendOrRemoveSwap p l g)"

definition copyToTop :: "Id \<Rightarrow> SourceLocation \<Rightarrow> CSECodeGenerator \<Rightarrow> CSECodeGenerator result" where
  "copyToTop a l g = bindE (classElementPosition a g) (\<lambda>p. appendDup p l g)"

definition arrangeOne :: "Id \<Rightarrow> Id \<Rightarrow> SourceLocation \<Rightarrow> CSECodeGenerator \<Rightarrow> CSECodeGenerator result" where
  "arrangeOne a c l g =
     bindE (canBeRemoved a c c_invalidPosition g) (\<lambda>r.
     if r then moveToTop a l g else copyToTop a l g)"

definition arrangeTwo :: "Id \<Rightarrow> Id \<Rightarrow> Id \<Rightarrow> SourceLocation \<Rightarrow> CSECodeGenerator \<Rightarrow> CSECodeGenerator result"
  where
  "arrangeTwo a0 a1 c l g =
     bindE (canBeRemoved a1 c c_invalidPosition g) (\<lambda>r1.
     if r1 then
       bindE (moveToTop a1 l g) (\<lambda>g.
       if a0 = a1 then appendDup (g_stackHeight g) l g
       else
         bindE (canBeRemoved a0 c c_invalidPosition g) (\<lambda>r0.
         if r0 then bindE (appendOrRemoveSwap (g_stackHeight g - 1) l g) (moveToTop a0 l)
         else copyToTop a0 l g))
     else if a0 = a1 then
       bindE (copyToTop a0 l g) (\<lambda>g. appendDup (g_stackHeight g) l g)
     else
       bindE (canBeRemoved a0 c c_invalidPosition g) (\<lambda>r0.
       if r0 then
         bindE (moveToTop a0 l g) (\<lambda>g.
         bindE (copyToTop a1 l g) (\<lambda>g.
         appendOrRemoveSwap (g_stackHeight g - 1) l g))
       else bindE (copyToTop a1 l g) (copyToTop a0 l)))"

definition arrangeArguments :: "Ids \<Rightarrow> Id \<Rightarrow> SourceLocation \<Rightarrow> CSECodeGenerator \<Rightarrow> CSECodeGenerator result"
  where
  "arrangeArguments args c l g =
     (case args of
        [] \<Rightarrow> Inr g
      | [a] \<Rightarrow> arrangeOne a c l g
      | [a0, a1] \<Rightarrow> arrangeTwo a0 a1 c l g
      | _ \<Rightarrow> Inl (OptimizerException ''Opcodes with more than two arguments not implemented yet.''))"

fun checkArguments :: "Ids \<Rightarrow> int \<Rightarrow> CSECodeGenerator \<Rightarrow> CSECodeGenerator result" where
  "checkArguments [] p g = Inr g"
| "checkArguments (a # as) p g =
     (case stackRef p g of (c, g) \<Rightarrow>
        if c = a then checkArguments as (p - 1) g
        else Inl (OptimizerException ''Expected arguments not present.''))"

text \<open>
  Removing the SWAP1 in front of a commutative operation. An append to a list that ends with
  SWAP1 removes an item, so the loop ends.
\<close>

fun dropSwaps :: "nat \<Rightarrow> AssemblyItem \<Rightarrow> CSECodeGenerator \<Rightarrow> CSECodeGenerator result option" where
  "dropSwaps 0 it g = None"
| "dropSwaps (Suc n) it g =
     (if isCommutativeOperation it \<and> g_generatedItems g \<noteq> [] \<and>
         item_eq (last (g_generatedItems g)) (opItem i_SWAP1)
      then case appendOrRemoveSwap (g_stackHeight g - 1) (m_location it) g of
          Inl x \<Rightarrow> Some (Inl x)
        | Inr g \<Rightarrow> dropSwaps n it g
      else Some (Inr g))"

fun consumeArguments :: "nat \<Rightarrow> int \<Rightarrow> CSECodeGenerator \<Rightarrow> CSECodeGenerator" where
  "consumeArguments 0 p g = g"
| "consumeArguments (Suc k) p g =
     (case stackRef p g of (c, g) \<Rightarrow> consumeArguments k (p - 1) (eraseStack p (erasePosition c p g)))"

text \<open>The item of the class, with its arguments on the top of the stack.\<close>

definition generateItem :: "Expression \<Rightarrow> Id \<Rightarrow> CSECodeGenerator \<Rightarrow> CSECodeGenerator result option" where
  "generateItem e c g =
     (let it = e_item e; args = e_arguments e in
      case bindE (arrangeArguments args c (m_location it) g) (\<lambda>g. checkArguments args (g_stackHeight g) g) of
        Inl x \<Rightarrow> Some (Inl x)
      | Inr g \<Rightarrow>
          map_option (\<lambda>r. bindE r (\<lambda>g.
            let g = appendGenerated it (consumeArguments (length args) (g_stackHeight g) g) in
            if m_type it \<noteq> Operation \<or> info_ret (instructionInfo (m_instruction it)) = 1
            then Inr (insertPosition c (g_stackHeight g) (setStack (g_stackHeight g) c g))
            else if info_ret (instructionInfo (m_instruction it)) \<noteq> 0
            then Inl (OptimizerException ''Invalid number of return values.'')
            else Inr (touchPositions c g)))
          (dropSwaps (Suc (length (g_generatedItems g))) it g))"

definition positionsValid :: "CSECodeGenerator \<Rightarrow> bool" where
  "positionsValid g \<longleftrightarrow> list_all (\<lambda>q. \<forall>p \<in> snd q. p \<le> g_stackHeight g) (g_classPositions g)"

fun generateClassElementF :: "nat \<Rightarrow> ExpressionClasses \<Rightarrow> Id \<Rightarrow> bool \<Rightarrow> CSECodeGenerator \<Rightarrow>
    CSECodeGenerator result option"
  and generateArgumentsF :: "nat \<Rightarrow> ExpressionClasses \<Rightarrow> Ids \<Rightarrow> CSECodeGenerator \<Rightarrow>
    CSECodeGenerator result option"
  where
  "generateClassElementF 0 cs c allowSequenced g = None"
| "generateClassElementF (Suc n) cs c allowSequenced g =
     (if \<not> positionsValid g then Some (Inl (OptimizerException []))
      else case removeStackTopIfPossible g of
        Inl x \<Rightarrow> Some (Inl x)
      | Inr (_, g) \<Rightarrow>
          if generated g c then
            Some (if positions g c = {}
                  then Inl (OptimizerException ''Element already removed but still needed.'') else Inr g)
          else case representative cs c of
              Inl x \<Rightarrow> Some (Inl x)
            | Inr e \<Rightarrow>
                if \<not> (allowSequenced \<or> e_sequenceNumber e = 0)
                then Some (Inl (OptimizerException ''Sequence constrained operation requested out of sequence.''))
                else if m_type (e_item e) = UndefinedItem
                then Some (Inl (OptimizerException ''Undefined item requested but not available.''))
                else case generateArgumentsF n cs (rev (e_arguments e)) g of
                    None \<Rightarrow> None
                  | Some (Inl x) \<Rightarrow> Some (Inl x)
                  | Some (Inr g) \<Rightarrow> generateItem e c g)"
| "generateArgumentsF n cs [] g = Some (Inr g)"
| "generateArgumentsF n cs (a # as) g =
     (case generateClassElementF n cs a False g of
        None \<Rightarrow> None
      | Some (Inl x) \<Rightarrow> Some (Inl x)
      | Some (Inr g) \<Rightarrow> generateArgumentsF n cs as g)"

subsection \<open>Generating the code\<close>

text \<open>The constructor: the stores, grouped by target and slot.\<close>

definition emptyGenerator :: CSECodeGenerator where
  "emptyGenerator =
     \<lparr>g_generatedItems = [], g_stackHeight = 0, g_neededBy = [], g_stack = [], g_classPositions = [],
      g_storeOperations = [], g_finalClasses = {}, g_targetStack = []\<rparr>"

definition addStore :: "StoreOperation \<Rightarrow> ((Target \<times> Id) \<times> StoreOperation list) list \<Rightarrow>
    ((Target \<times> Id) \<times> StoreOperation list) list" where
  "addStore op m =
     (let k = (so_target op, so_slot op) in
      omap_put k ((case map_of m k of Some ops \<Rightarrow> ops | None \<Rightarrow> []) @ [op]) m)"

definition makeGenerator :: "StoreOperation list \<Rightarrow> CSECodeGenerator" where
  "makeGenerator ops = emptyGenerator\<lparr>g_storeOperations := fold addStore ops []\<rparr>"

text \<open>The sequenced expressions that are needed, as a sorted set.\<close>

fun sequencedExpressions :: "ExpressionClasses \<Rightarrow> nat \<Rightarrow> Ids \<Rightarrow> (nat \<times> Id) list result" where
  "sequencedExpressions cs initial [] = Inr []"
| "sequencedExpressions cs initial (i # is) =
     bindE (representative cs i) (\<lambda>e.
     if e_sequenceNumber e \<noteq> 0 \<and> e_sequenceNumber e < initial then Inl StackTooDeepException
     else bindE (sequencedExpressions cs initial is) (\<lambda>r.
       Inr (if e_sequenceNumber e \<noteq> 0 then (e_sequenceNumber e, i) # r else r)))"

definition needIds :: "CSECodeGenerator \<Rightarrow> Ids" where
  "needIds g = concat (map (\<lambda>(a, c). [a, c]) (g_neededBy g))"

fun generateSequencedF :: "nat \<Rightarrow> ExpressionClasses \<Rightarrow> (nat \<times> Id) list \<Rightarrow> CSECodeGenerator \<Rightarrow>
    CSECodeGenerator result option" where
  "generateSequencedF n cs [] g = Some (Inr g)"
| "generateSequencedF n cs ((s, c) # es) g =
     (if generated g c then generateSequencedF n cs es g
      else case generateClassElementF n cs c True g of
          None \<Rightarrow> None
        | Some (Inl x) \<Rightarrow> Some (Inl x)
        | Some (Inr g) \<Rightarrow> generateSequencedF n cs es g)"

text \<open>One element of the target stack, and all of them.\<close>

definition placeTarget :: "ExpressionClasses \<Rightarrow> int \<Rightarrow> Id \<Rightarrow> CSECodeGenerator \<Rightarrow> CSECodeGenerator result"
  where
  "placeTarget cs p c g =
     (if positions g c = {} then Inl (OptimizerException [])
      else if p \<in> positions g c then Inr g
      else
        bindE (representative cs c) (\<lambda>e.
        bindE (classElementPosition c g) (\<lambda>position.
        bindE (if position < p then appendDup position (m_location (e_item e)) g
               else appendOrRemoveSwap position (m_location (e_item e)) g)
          (appendOrRemoveSwap p (m_location (e_item e))))))"

fun generateTargetsF :: "nat \<Rightarrow> ExpressionClasses \<Rightarrow> (int \<times> Id) list \<Rightarrow> CSECodeGenerator \<Rightarrow>
    CSECodeGenerator result option" where
  "generateTargetsF n cs [] g = Some (Inr g)"
| "generateTargetsF n cs ((p, c) # ts) g =
     (if map_of (g_stack g) p = Some c then generateTargetsF n cs ts g
      else case generateClassElementF n cs c False g of
          None \<Rightarrow> None
        | Some (Inl x) \<Rightarrow> Some (Inl x)
        | Some (Inr g) \<Rightarrow>
            (case placeTarget cs p c g of
               Inl x \<Rightarrow> Some (Inl x)
             | Inr g \<Rightarrow> generateTargetsF n cs ts g))"

fun removeSurplus :: "nat \<Rightarrow> CSECodeGenerator \<Rightarrow> CSECodeGenerator result option" where
  "removeSurplus 0 g = None"
| "removeSurplus (Suc n) g =
     (case removeStackTopIfPossible g of
        Inl x \<Rightarrow> Some (Inl x)
      | Inr (r, g) \<Rightarrow> if r then removeSurplus n g else Some (Inr g))"

definition finalHeight :: "int \<Rightarrow> (int \<times> Id) list \<Rightarrow> (int \<times> Id) list \<Rightarrow> int" where
  "finalHeight initialHeight initial target =
     (if target \<noteq> [] then fst (last target)
      else if initial \<noteq> [] then fst (hd initial) - 1
      else initialHeight)"

definition initialGenerator :: "int \<Rightarrow> (int \<times> Id) list \<Rightarrow> (int \<times> Id) list \<Rightarrow> CSECodeGenerator \<Rightarrow>
    CSECodeGenerator" where
  "initialGenerator height initial target g =
     fold (\<lambda>(p, c). insertPosition c p) initial
       (g\<lparr>g_stackHeight := height, g_stack := initial, g_targetStack := target\<rparr>)"

definition findDependencies :: "nat \<Rightarrow> nat \<Rightarrow> CSECodeGenerator \<Rightarrow> CSECodeGenerator CM" where
  "findDependencies n f g =
     cmBind (foldCM (\<lambda>p. addDependenciesF n f (so_expression (last (snd p)))) (g_storeOperations g) g) (\<lambda>g.
     foldCM (\<lambda>t g. addDependenciesF n f (snd t) (g\<lparr>g_finalClasses := insert (snd t) (g_finalClasses g)\<rparr>))
       (g_targetStack g) g)"

text \<open>After the dependencies are known: the sequenced expressions in order, then the stack.\<close>

definition generateAll :: "nat \<Rightarrow> ExpressionClasses \<Rightarrow> nat \<Rightarrow> CSECodeGenerator \<Rightarrow>
    CSECodeGenerator result option" where
  "generateAll n cs initialSequence g =
     (case sequencedExpressions cs initialSequence (needIds g) of
        Inl x \<Rightarrow> Some (Inl x)
      | Inr es \<Rightarrow>
          (case generateSequencedF n cs (sort (remdups es)) g of
             None \<Rightarrow> None
           | Some (Inl x) \<Rightarrow> Some (Inl x)
           | Some (Inr g) \<Rightarrow>
               (case generateTargetsF n cs (g_targetStack g) g of
                  None \<Rightarrow> None
                | Some (Inl x) \<Rightarrow> Some (Inl x)
                | Some (Inr g) \<Rightarrow> removeSurplus (Suc (length (g_stack g))) g)))"

definition generateCode :: "nat \<Rightarrow> nat \<Rightarrow> nat \<Rightarrow> int \<Rightarrow> (int \<times> Id) list \<Rightarrow> (int \<times> Id) list \<Rightarrow>
    StoreOperation list \<Rightarrow> AssemblyItems CM" where
  "generateCode n f initialSequence initialHeight initial target ops =
     cmBind (findDependencies n f (initialGenerator initialHeight initial target (makeGenerator ops))) (\<lambda>g cs.
       case generateAll n cs initialSequence g of
         None \<Rightarrow> None
       | Some (Inl x) \<Rightarrow> Some (Inl x)
       | Some (Inr g) \<Rightarrow>
           if finalHeight initialHeight initial target \<noteq> g_stackHeight g
           then Some (Inl (OptimizerException ''Incorrect final stack height.''))
           else Some (Inr (g_generatedItems g, cs)))"

subsection \<open>The eliminator\<close>

record Eliminator =
  c_initialState :: KnownState
  c_state :: KnownState
  c_storeOperations :: "StoreOperation list"
  c_breakingItem :: "AssemblyItem option"

definition newEliminator :: "KnownState \<Rightarrow> Eliminator" where
  "newEliminator ks =
     \<lparr>c_initialState = ks, c_state = ks, c_storeOperations = [], c_breakingItem = None\<rparr>"

definition eliminatorFeed :: "nat \<Rightarrow> AssemblyItem \<Rightarrow> Eliminator \<Rightarrow> Eliminator CM" where
  "eliminatorFeed f it el =
     cmBind (feedItem f it (c_state el)) (\<lambda>(op, ks).
     cmReturn (el\<lparr>c_state := ks,
       c_storeOperations := c_storeOperations el @ (if isValidOperation op then [op] else [])\<rparr>))"

text \<open>\<open>feedItems\<close>: the rest is what must be fed to a new eliminator.\<close>

fun feedLoop :: "nat \<Rightarrow> AssemblyItems \<Rightarrow> bool \<Rightarrow> Eliminator \<Rightarrow> (AssemblyItems \<times> Eliminator) CM" where
  "feedLoop f [] msizeImportant el = cmReturn ([], el)"
| "feedLoop f (it # its) msizeImportant el =
     (if breaksCSEAnalysisBlock it msizeImportant then cmReturn (its, el\<lparr>c_breakingItem := Some it\<rparr>)
      else cmBind (eliminatorFeed f it el) (feedLoop f its msizeImportant))"

definition feedItems :: "nat \<Rightarrow> AssemblyItems \<Rightarrow> bool \<Rightarrow> Eliminator \<Rightarrow> (AssemblyItems \<times> Eliminator) CM" where
  "feedItems f its msizeImportant el =
     (if c_breakingItem el \<noteq> None
      then cmThrow (OptimizerException ''Invalid use of CommonSubexpressionEliminator.'')
      else feedLoop f its msizeImportant el)"

definition eliminatorElement :: "nat \<Rightarrow> int \<Rightarrow> SourceLocation \<Rightarrow> Eliminator \<Rightarrow> (Id \<times> Eliminator) CM" where
  "eliminatorElement f h l el =
     cmBind (stackElement f h l (c_state el)) (\<lambda>(c, ks). cmReturn (c, el\<lparr>c_state := ks\<rparr>))"

definition optimizeBreakingItem :: "nat \<Rightarrow> Eliminator \<Rightarrow> Eliminator CM" where
  "optimizeBreakingItem f el =
     (case c_breakingItem el of
        None \<Rightarrow> cmReturn el
      | Some br \<Rightarrow>
          let l = m_location br; second = ks_stackHeight (c_state el) - 1 in
          if is_op br i_JUMPI then
            cmBind (eliminatorElement f second l el) (\<lambda>(condition, el).
            cmBind (\<lambda>cs. knownNonZeroF f cs condition) (\<lambda>nonZero.
            if nonZero then
              cmBind (eliminatorFeed f (itemOp i_SWAP1 l) el) (\<lambda>el.
              cmBind (eliminatorFeed f (itemOp i_POP l) el) (\<lambda>el.
              cmReturn (el\<lparr>c_breakingItem := Some ((itemOp i_JUMP l)\<lparr>m_jumpType := m_jumpType br\<rparr>)\<rparr>)))
            else
              cmBind (cmQuery (\<lambda>cs. knownZero cs condition)) (\<lambda>zero.
              if zero then
                cmBind (eliminatorFeed f (itemOp i_POP l) el) (\<lambda>el.
                cmBind (eliminatorFeed f (itemOp i_POP l) el) (\<lambda>el.
                cmReturn (el\<lparr>c_breakingItem := None\<rparr>)))
              else cmReturn el)))
          else if is_op br i_RETURN then
            cmBind (eliminatorElement f second l el) (\<lambda>(size, el).
            cmBind (cmQuery (\<lambda>cs. knownZero cs size)) (\<lambda>zero.
            if zero then
              cmBind (eliminatorFeed f (itemOp i_POP l) el) (\<lambda>el.
              cmBind (eliminatorFeed f (itemOp i_POP l) el) (\<lambda>el.
              cmReturn (el\<lparr>c_breakingItem := Some (itemOp i_STOP l)\<rparr>)))
            else cmReturn el))
          else cmReturn el)"

text \<open>The classes of the stack from \<open>h\<close> upwards, \<open>k\<close> of them.\<close>

fun stackContents :: "nat \<Rightarrow> nat \<Rightarrow> int \<Rightarrow> KnownState \<Rightarrow> ((int \<times> Id) list \<times> KnownState) CM" where
  "stackContents f 0 h ks = cmReturn ([], ks)"
| "stackContents f (Suc k) h ks =
     cmBind (stackElement f h noLocation ks) (\<lambda>(c, ks).
     cmBind (stackContents f k (h + 1) ks) (\<lambda>(m, ks).
     cmReturn ((h, c) # m, ks)))"

definition minHeight :: "KnownState \<Rightarrow> int" where
  "minHeight ks =
     (case ks_stackElements ks of
        [] \<Rightarrow> ks_stackHeight ks + 1
      | p # ps \<Rightarrow> min (ks_stackHeight ks + 1) (fst p))"

definition getOptimizedItems :: "nat \<Rightarrow> nat \<Rightarrow> Eliminator \<Rightarrow> (AssemblyItems \<times> Eliminator) CM" where
  "getOptimizedItems n f el =
     cmBind (optimizeBreakingItem f el) (\<lambda>el.
     cmBind
       (case c_breakingItem el of
          None \<Rightarrow> cmReturn (c_state el)
        | Some br \<Rightarrow> cmBind (feedItem f br (c_state el)) (\<lambda>(op, ks). cmReturn ks)) (\<lambda>next.
     let low = minHeight (c_state el);
         count = (\<lambda>ks. nat (ks_stackHeight ks - low + 1)) in
     cmBind (stackContents f (count (c_initialState el)) low (c_initialState el)) (\<lambda>(initial, ks0).
     cmBind (stackContents f (count (c_state el)) low (c_state el)) (\<lambda>(target, ks1).
     cmBind (generateCode n f (ks_sequenceNumber ks0) (ks_stackHeight ks0) initial target
         (c_storeOperations el)) (\<lambda>items.
     cmReturn
       (items @ (case c_breakingItem el of Some br \<Rightarrow> [br] | None \<Rightarrow> []),
        \<lparr>c_initialState = next, c_state = next, c_storeOperations = [], c_breakingItem = None\<rparr>))))))"

end
