(* ===== verification/AssemblyOptimiser.thy ===== *)
theory AssemblyOptimiser
  imports Assembly Peephole JumpdestRemover BlockDeduplicator ConstantOptimiser CommonSubexpressionEliminator
begin

section \<open>The optimiser of an assembly (libevmasm/Assembly)\<close>

text \<open>
  \<open>Assembly::optimise\<close>: the passes over the items, repeated until none of them changes
  anything, first for the sub-assemblies. The counter is an unsigned integer in the code that
  the assertion of the peephole pass keeps small. \<open>n\<close> is the fuel of the expression classes
  and of the outer loop.
\<close>

record OptimiserSettings =
  set_isCreation :: bool
  set_runJumpdestRemover :: bool
  set_runPeephole :: bool
  set_runDeduplicate :: bool
  set_runCSE :: bool
  set_runConstantOptimiser :: bool
  set_evmVersion :: EVMVersion
  set_expectedExecutions :: nat

subsection \<open>The common subexpression eliminator on all blocks\<close>

text \<open>One block: the items after it, what it becomes, and whether it was replaced.\<close>

definition optimiseChunk :: "nat \<Rightarrow> bool \<Rightarrow> AssemblyItems \<Rightarrow>
    (AssemblyItems \<times> AssemblyItems \<times> bool) result option" where
  "optimiseChunk n usesMSize its =
     (case feedItems n its usesMSize (newEliminator freshState) emptyClasses of
        None \<Rightarrow> None
      | Some (Inl e) \<Rightarrow> Some (Inl e)
      | Some (Inr ((rest, el), cs)) \<Rightarrow>
          let chunk = take (length its - length rest) its in
          (case getOptimizedItems n n el cs of
             None \<Rightarrow> None
           | Some (Inl e) \<Rightarrow>
               if e = StackTooDeepException \<or> e = ItemNotAvailableException
               then Some (Inr (rest, chunk, False))
               else Some (Inl e)
           | Some (Inr ((optimisedChunk, _), _)) \<Rightarrow>
               Some (Inr (if length optimisedChunk < length chunk
                          then (rest, optimisedChunk, True) else (rest, chunk, False)))))"

lemma feedLoop_rest:
  "feedLoop n its m el cs = Some (Inr ((rest, el'), cs')) \<Longrightarrow>
     \<exists>block. its = block @ rest \<and> (its \<noteq> [] \<longrightarrow> block \<noteq> [])"
proof (induction its arbitrary: el cs)
  case Nil
  then show ?case by (simp add: cmReturn_def)
next
  case (Cons it its)
  show ?case
  proof (cases "breaksCSEAnalysisBlock it m")
    case True
    then show ?thesis using Cons.prems by (intro exI [of _ "[it]"]) (simp add: cmReturn_def)
  next
    case False
    then obtain el1 cs1 where "feedLoop n its m el1 cs1 = Some (Inr ((rest, el'), cs'))"
      using Cons.prems by (auto simp: cmBind_def split: option.splits sum.splits)
    from Cons.IH [OF this] show ?thesis by auto
  qed
qed

lemma optimiseChunk_rest:
  assumes "optimiseChunk n m its = Some (Inr (rest, out, r))"
  obtains block where "its = block @ rest" and "its \<noteq> [] \<longrightarrow> block \<noteq> []"
    and "if r then length out < length block else out = block"
proof -
  obtain el cs where f: "feedLoop n its m (newEliminator freshState) emptyClasses = Some (Inr ((rest, el), cs))"
    using assms by (auto simp: optimiseChunk_def feedItems_def newEliminator_def Let_def
        split: option.splits sum.splits if_splits)
  obtain block where b: "its = block @ rest" "its \<noteq> [] \<longrightarrow> block \<noteq> []" using feedLoop_rest [OF f] by blast
  have "take (length its - length rest) its = block" using b(1) by simp
  then have "if r then length out < length block else out = block"
    using assms f by (auto simp: optimiseChunk_def feedItems_def newEliminator_def Let_def
        split: option.splits sum.splits if_splits)
  then show ?thesis using that b by blast
qed

text \<open>All blocks: the number of replaced ones and the items.\<close>

function optimiseChunks :: "nat \<Rightarrow> bool \<Rightarrow> AssemblyItems \<Rightarrow> (nat \<times> AssemblyItems) result option" where
  "optimiseChunks n usesMSize its =
     (if its = [] then Some (Inr (0, []))
      else case optimiseChunk n usesMSize its of
          None \<Rightarrow> None
        | Some (Inl e) \<Rightarrow> Some (Inl e)
        | Some (Inr (rest, out, r)) \<Rightarrow>
            map_option (\<lambda>res. bindE res (\<lambda>(k, outs). Inr ((if r then 1 else 0) + k, out @ outs)))
              (optimiseChunks n usesMSize rest))"
  by pat_completeness auto
termination
proof (relation "measure (\<lambda>(n, m, its). length its)")
  fix n :: nat and m its o1 r1 p rest q out r
  assume "its \<noteq> []" and "optimiseChunk n m its = Some o1" and "o1 = Inr p" and "(rest, q) = p" and "(out, r) = q"
  then have c: "optimiseChunk n m its = Some (Inr (rest, out, r))" and ne: "its \<noteq> []" by auto
  have "length rest < length its" by (rule optimiseChunk_rest [OF c]) (use ne in auto)
  then show "((n, m, rest), (n, m, its)) \<in> measure (\<lambda>(n, m, its). length its)" by simp
qed simp

declare optimiseChunks.simps [simp del]

definition usesMSize :: "AssemblyItems \<Rightarrow> bool" where
  "usesMSize its \<longleftrightarrow> list_ex (\<lambda>it. item_eq it (opItem i_MSIZE)) its"

subsection \<open>One round of the passes\<close>

text \<open>Each pass takes the counter, the items and the tag replacements found so far.\<close>

type_synonym OptState = "nat \<times> AssemblyItems \<times> TagMap"

definition jumpdestPass :: "OptimiserSettings \<Rightarrow> u64 set \<Rightarrow> OptState \<Rightarrow> OptState result" where
  "jumpdestPass s outside st =
     (case st of (count, its, reps) \<Rightarrow>
        if set_runJumpdestRemover s
        then bindE (jumpdestOptimise outside its) (\<lambda>(b, its'). Inr (if b then count + 1 else count, its', reps))
        else Inr st)"

text \<open>\<open>while (peepOpt.optimise())\<close> with the counter and its assertion.\<close>

function peepholeCounted :: "nat \<Rightarrow> AssemblyItems \<Rightarrow> (nat \<times> AssemblyItems) result" where
  "peepholeCounted count its =
     (case peepholeOptimise its of
        Inl e \<Rightarrow> Inl e
      | Inr (True, its') \<Rightarrow>
          if count + 1 < 64000 then peepholeCounted (count + 1) its'
          else Inl (OptimizerException ''Peephole optimizer seems to be stuck.'')
      | Inr (False, its') \<Rightarrow> Inr (count, its'))"
  by pat_completeness auto
termination
  by (relation "measure (\<lambda>(count, its). weight its)") (auto dest: peepholeOptimise_cases)

declare peepholeCounted.simps [simp del]

definition peepholePass :: "OptimiserSettings \<Rightarrow> OptState \<Rightarrow> OptState result" where
  "peepholePass s st =
     (case st of (count, its, reps) \<Rightarrow>
        if set_runPeephole s
        then bindE (peepholeCounted count its) (\<lambda>(count', its'). Inr (count', its', reps))
        else Inr st)"

text \<open>\<open>insert\<close> keeps the replacements that are known already.\<close>

definition deduplicatePass :: "OptimiserSettings \<Rightarrow> OptState \<Rightarrow> OptState result option" where
  "deduplicatePass s st =
     (case st of (count, its, reps) \<Rightarrow>
        if set_runDeduplicate s
        then map_option (\<lambda>r. bindE r (\<lambda>(b, its', new).
            Inr (if b then (count + 1, its', new ++ reps) else (count, its', reps)))) (deduplicate its)
        else Some (Inr st))"

definition csePass :: "nat \<Rightarrow> OptimiserSettings \<Rightarrow> OptState \<Rightarrow> OptState result option" where
  "csePass n s st =
     (case st of (count, its, reps) \<Rightarrow>
        if set_runCSE s
        then map_option (\<lambda>r. bindE r (\<lambda>(k, optimisedItems).
            Inr (if length optimisedItems < length its then (count + k + 1, optimisedItems, reps)
                 else (count + k, its, reps)))) (optimiseChunks n (usesMSize its) its)
        else Some (Inr st))"

definition thenPass :: "'a result option \<Rightarrow> ('a \<Rightarrow> 'b result option) \<Rightarrow> 'b result option" where
  "thenPass r f = (case r of None \<Rightarrow> None | Some (Inl e) \<Rightarrow> Some (Inl e) | Some (Inr a) \<Rightarrow> f a)"

definition optimiseRound :: "nat \<Rightarrow> OptimiserSettings \<Rightarrow> u64 set \<Rightarrow> AssemblyItems \<Rightarrow> TagMap \<Rightarrow>
    OptState result option" where
  "optimiseRound n s outside its reps =
     thenPass (Some (jumpdestPass s outside (0, its, reps))) (\<lambda>st.
     thenPass (Some (peepholePass s st)) (\<lambda>st.
     thenPass (deduplicatePass s st) (csePass n s)))"

text \<open>The loop, \<open>k\<close> rounds at most.\<close>

fun optimiseRounds :: "nat \<Rightarrow> nat \<Rightarrow> OptimiserSettings \<Rightarrow> u64 set \<Rightarrow> AssemblyItems \<Rightarrow> TagMap \<Rightarrow>
    (AssemblyItems \<times> TagMap) result option" where
  "optimiseRounds 0 n s outside its reps = None"
| "optimiseRounds (Suc k) n s outside its reps =
     thenPass (optimiseRound n s outside its reps) (\<lambda>(count, its', reps').
       if 0 < count then optimiseRounds k n s outside its' reps' else Some (Inr (its', reps')))"

subsection \<open>The constants\<close>

text \<open>The data that the copied constants add to the assembly.\<close>

definition addData :: "AssemblyItems \<Rightarrow> DataMap \<Rightarrow> (u256 \<times> bytes) list \<Rightarrow> (u256 \<times> bytes) list" where
  "addData its new old =
     fold (\<lambda>(it, _) m. let h = keccak256 (toBigEndian256 (m_data it)) in
         case new h of Some d \<Rightarrow> omap_put h d m | None \<Rightarrow> m)
       (countPushes its) old"

definition constantPass :: "OptimiserSettings \<Rightarrow> AssemblyState \<Rightarrow> AssemblyState result" where
  "constantPass s st =
     (if set_runConstantOptimiser s
      then bindE (optimiseConstants keccak256 (set_isCreation s)
          (if set_isCreation s then 1 else set_expectedExecutions s) (set_evmVersion s)
          (map_of (m_dataMap st)) (m_items st)) (\<lambda>(k, m, its).
        Inr (st\<lparr>m_items := its, m_dataMap := addData (m_items st) m (m_dataMap st)\<rparr>))
      else Inr st)"

subsection \<open>\<open>optimiseInternal\<close>\<close>

text \<open>The sub-assemblies first, each with the tags that the items refer to; \<open>k\<close> counts them.\<close>

fun optimiseInternal :: "nat \<Rightarrow> OptimiserSettings \<Rightarrow> u64 set \<Rightarrow> Assembly \<Rightarrow> (TagMap \<times> Assembly) result option"
  and optimiseSubs :: "nat \<Rightarrow> OptimiserSettings \<Rightarrow> u64 \<Rightarrow> Assembly list \<Rightarrow> AssemblyItems \<Rightarrow>
    (Assembly list \<times> AssemblyItems) result option" where
  "optimiseInternal n s outside (Assembly st subs) =
     thenPass (optimiseSubs n (s\<lparr>set_isCreation := False\<rparr>) 0 subs (m_items st)) (\<lambda>(subs', its).
     thenPass (optimiseRounds n n s outside its Map.empty) (\<lambda>(its', reps).
     thenPass (Some (constantPass s (st\<lparr>m_items := its'\<rparr>))) (\<lambda>st'.
     Some (Inr (reps, Assembly st' subs')))))"
| "optimiseSubs n s k [] its = Some (Inr ([], its))"
| "optimiseSubs n s k (sub # subs) its =
     thenPass (Some (referencedTags its k)) (\<lambda>refs.
     thenPass (optimiseInternal n s refs sub) (\<lambda>(reps, sub').
     thenPass (Some (applyTagReplacement its reps k)) (\<lambda>(_, its').
     thenPass (optimiseSubs n s (k + 1) subs its') (\<lambda>(subs', its'').
     Some (Inr (sub' # subs', its''))))))"

definition optimiseWith :: "nat \<Rightarrow> OptimiserSettings \<Rightarrow> Assembly \<Rightarrow> Assembly result option" where
  "optimiseWith n s a = thenPass (optimiseInternal n s {} a) (\<lambda>(_, a'). Some (Inr a'))"

definition optimiseSettings :: "bool \<Rightarrow> EVMVersion \<Rightarrow> bool \<Rightarrow> nat \<Rightarrow> OptimiserSettings" where
  "optimiseSettings enable version isCreation runs =
     \<lparr>set_isCreation = isCreation, set_runJumpdestRemover = True, set_runPeephole = True,
      set_runDeduplicate = enable, set_runCSE = enable, set_runConstantOptimiser = enable,
      set_evmVersion = version, set_expectedExecutions = runs\<rparr>"

definition optimise :: "nat \<Rightarrow> bool \<Rightarrow> EVMVersion \<Rightarrow> bool \<Rightarrow> nat \<Rightarrow> Assembly \<Rightarrow> Assembly result option"
  where
  "optimise n enable version isCreation runs a =
     optimiseWith n (optimiseSettings enable version isCreation runs) a"

subsection \<open>Tags referenced from outside\<close>

text \<open>A sub-assembly with two equal blocks, and its items after each pass.\<close>

definition twoBlocks :: AssemblyItems where
  "twoBlocks =
     [itemOfType Tag 1 noLocation, opItem i_CALLVALUE, opItem i_STOP,
      itemOfType Tag 2 noLocation, opItem i_CALLVALUE, opItem i_STOP]"

definition sharedCode :: AssemblyItems where
  "sharedCode = [itemOfType PushTag 1 noLocation, opItem i_POP, itemOfType PushTag 2 noLocation, opItem i_JUMP] @ twoBlocks"

definition sharedJump :: "u256 \<Rightarrow> AssemblyItems" where
  "sharedJump t = [itemOfType PushTag t noLocation, opItem i_JUMP] @ twoBlocks"

lemma jumpdest_steps:
  "jumpdestOptimise {2} sharedCode = Inr (False, sharedCode)"
  "jumpdestOptimise {2} (sharedJump 1) = Inr (False, sharedJump 1)"
  "jumpdestOptimise {2} twoBlocks = Inr (True, tl twoBlocks)"
  "jumpdestOptimise {2} (tl twoBlocks) = Inr (False, tl twoBlocks)"
  by code_simp+

lemma peephole_steps:
  "peepholeOptimise sharedCode = Inr (True, sharedJump 2)"
  "peepholeOptimise (sharedJump 2) = Inr (False, sharedJump 2)"
  "peepholeOptimise (sharedJump 1) = Inr (True, twoBlocks)"
  "peepholeOptimise twoBlocks = Inr (False, twoBlocks)"
  "peepholeOptimise (tl twoBlocks) = Inr (False, tl twoBlocks)"
  by code_simp+

lemma dedup_steps:
  "map_option (map_sum id (\<lambda>(b, its', reps). (b, its', reps 2))) (deduplicate (sharedJump 2)) =
     Some (Inr (True, sharedJump 1, Some 1))"
  "map_option (map_sum id (\<lambda>(b, its', reps). (b, its', ()))) (deduplicate twoBlocks) = Some (Inr (False, twoBlocks, ()))"
  "map_option (map_sum id (\<lambda>(b, its', reps). (b, its', ()))) (deduplicate (tl twoBlocks)) = Some (Inr (False, tl twoBlocks, ()))"
  by code_simp+

definition basicSettings :: "OptimiserSettings" where
  "basicSettings = (optimiseSettings False Constantinople False 200)\<lparr>set_runDeduplicate := True\<rparr>"

lemma basicSettings_simps [simp]:
  "set_runJumpdestRemover basicSettings" "set_runPeephole basicSettings" "set_runDeduplicate basicSettings"
  "\<not> set_runCSE basicSettings" "\<not> set_runConstantOptimiser basicSettings"
  "basicSettings\<lparr>set_isCreation := False\<rparr> = basicSettings"
  by (simp_all add: basicSettings_def optimiseSettings_def)

lemma thenPass_simps [simp]:
  "thenPass None f = None" "thenPass (Some (Inl e)) f = Some (Inl e)" "thenPass (Some (Inr a)) f = f a"
  by (simp_all add: thenPass_def)

lemma dedup_result:
  assumes "map_option (map_sum id (\<lambda>(b, its', reps). (b, its', f reps))) d = Some (Inr (b, its, x))"
  shows "\<exists>reps. d = Some (Inr (b, its, reps)) \<and> f reps = x"
proof (cases d)
  case (Some r)
  then show ?thesis using assms by (cases r) auto
qed (use assms in simp)

lemma dedup_results:
  "\<exists>reps. deduplicate (sharedJump 2) = Some (Inr (True, sharedJump 1, reps)) \<and> reps 2 = Some 1"
  "\<exists>reps. deduplicate twoBlocks = Some (Inr (False, twoBlocks, reps))"
  "\<exists>reps. deduplicate (tl twoBlocks) = Some (Inr (False, tl twoBlocks, reps))"
  using dedup_result [OF dedup_steps(1)] dedup_result [OF dedup_steps(2)] dedup_result [OF dedup_steps(3)] by auto

lemma counted:
  "peepholeOptimise its = Inr (False, its') \<Longrightarrow> peepholeCounted k its = Inr (k, its')"
  "peepholeOptimise its = Inr (True, its') \<Longrightarrow> k + 1 < 64000 \<Longrightarrow> peepholeCounted k its = peepholeCounted (k + 1) its'"
  by (simp_all add: peepholeCounted.simps)

lemma shared_rounds:
  "\<exists>reps. optimiseRounds (Suc (Suc (Suc (Suc k)))) n basicSettings {2} sharedCode Map.empty =
     Some (Inr (tl twoBlocks, reps)) \<and> reps 2 = Some 1"
proof -
  obtain r1 r2 r3 where d: "deduplicate (sharedJump 2) = Some (Inr (True, sharedJump 1, r1))" "r1 2 = Some 1"
    "deduplicate twoBlocks = Some (Inr (False, twoBlocks, r2))"
    "deduplicate (tl twoBlocks) = Some (Inr (False, tl twoBlocks, r3))"
    using dedup_results by blast
  note defs = optimiseRound_def jumpdestPass_def peepholePass_def deduplicatePass_def csePass_def
  have 1: "optimiseRound n basicSettings {2} sharedCode Map.empty = Some (Inr (2, sharedJump 1, r1))"
    by (simp add: defs jumpdest_steps counted(2) [OF peephole_steps(1)] counted(1) [OF peephole_steps(2)] d)
  have 2: "optimiseRound n basicSettings {2} (sharedJump 1) r1 = Some (Inr (1, twoBlocks, r1))"
    by (simp add: defs jumpdest_steps counted(2) [OF peephole_steps(3)] counted(1) [OF peephole_steps(4)] d)
  have 3: "optimiseRound n basicSettings {2} twoBlocks r1 = Some (Inr (1, tl twoBlocks, r1))"
    by (simp add: defs jumpdest_steps counted(1) [OF peephole_steps(5)] d)
  have 4: "optimiseRound n basicSettings {2} (tl twoBlocks) r1 = Some (Inr (0, tl twoBlocks, r1))"
    by (simp add: defs jumpdest_steps counted(1) [OF peephole_steps(5)] d)
  show ?thesis using d(2) by (simp add: 1 2 3 4)
qed

text \<open>A push of a tag of the first sub-assembly.\<close>

definition subPush :: "u256 \<Rightarrow> AssemblyItem" where
  "subPush t = itemOfType PushTag (push_bit 64 1 + t) noLocation"

definition sharedAssembly :: Assembly where
  "sharedAssembly = Assembly (emptyState\<lparr>m_items := [subPush 2]\<rparr>)
     [Assembly (emptyState\<lparr>m_items := sharedCode\<rparr>) []]"

lemma outer_steps:
  "referencedTags [subPush 2] 0 = Inr {2}"
  "jumpdestOptimise {} [subPush 1] = Inr (False, [subPush 1])"
  "peepholeOptimise [subPush 1] = Inr (False, [subPush 1])"
  "map_option (map_sum id (\<lambda>(b, its', reps). (b, its', ()))) (deduplicate [subPush 1]) =
    Some (Inr (False, [subPush 1], ()))"
  "referencedTags [subPush 1] 0 = Inr {1}"
  by code_simp+

lemma outer_replace:
  assumes "reps 2 = Some 1"
  shows "applyTagReplacement [subPush 2] reps 0 =
    Inr (True, [subPush 1])"
proof -
  have "splitForeignPushTag (subPush 2) = Inr (0, 2)" by code_simp
  moreover have "setPushTagSubIdAndTag (subPush 2) 0 1 =
    Inr (subPush 1)" by code_simp
  moreover have "m_type (subPush 2) = PushTag" by (simp add: subPush_def itemOfType_def)
  ultimately show ?thesis using assms by (simp add: replaceTag_def)
qed

text \<open>C38: A tag that is referenced from outside can get lost. The assembly pushes tag 2 of its
  sub-assembly, whose blocks 1 and 2 are equal. After optimisation the assembly pushes tag 1,
  to which the deduplicator redirected the push, but the sub-assembly only has tag 2: the set
  of tags referenced from outside is not updated by the replacements, so the jumpdest remover
  dropped tag 1 in a later round and kept tag 2, that nothing refers to any more.\<close>

theorem outside_tag_lost:
  "\<exists>st sub. optimiseWith (Suc (Suc (Suc (Suc n)))) basicSettings sharedAssembly =
       Some (Inr (Assembly st [Assembly sub []])) \<and>
     referencedTags (m_items st) 0 = Inr {1} \<and>
     filter isTagItem (m_items sub) = [itemOfType Tag 2 noLocation]"
proof -
  let ?n = "Suc (Suc (Suc (Suc n)))" and ?out = "[subPush 1]"
  obtain reps where r: "optimiseRounds ?n ?n basicSettings {2} sharedCode Map.empty = Some (Inr (tl twoBlocks, reps))" "reps 2 = Some 1"
    using shared_rounds by blast
  obtain r4 where d: "deduplicate ?out = Some (Inr (False, ?out, r4))"
    using dedup_result [OF outer_steps(4)] by blast
  have round: "optimiseRound ?n basicSettings {} ?out Map.empty = Some (Inr (0, ?out, Map.empty))"
    by (simp add: optimiseRound_def jumpdestPass_def peepholePass_def deduplicatePass_def csePass_def
        outer_steps(2) counted(1) [OF outer_steps(3)] d)
  have tags: "filter isTagItem (tl twoBlocks) = [itemOfType Tag 2 noLocation]"
    by (simp add: twoBlocks_def isTagItem_def itemOfType_def itemOp_def)
  note no = referencedTags.simps applyTagReplacement.simps optimiseRounds.simps
  let ?sub = "emptyState\<lparr>m_items := sharedCode\<rparr>"
  have inner: "optimiseInternal ?n basicSettings {2} (Assembly ?sub []) =
      Some (Inr (reps, Assembly (?sub\<lparr>m_items := tl twoBlocks\<rparr>) []))"
    by (simp add: r(1) constantPass_def del: optimiseRounds.simps)
  have subs: "optimiseSubs ?n basicSettings 0 [Assembly ?sub []] [subPush 2] =
      Some (Inr ([Assembly (?sub\<lparr>m_items := tl twoBlocks\<rparr>) []], [subPush 1]))"
    by (simp add: inner outer_steps(1) outer_replace [where reps = reps, OF r(2)] del: no optimiseInternal.simps)
  have rounds: "optimiseRounds ?n ?n basicSettings {} [subPush 1] Map.empty = Some (Inr ([subPush 1], Map.empty))"
    by (simp add: optimiseRounds.simps(2) round del: One_nat_def)
  have "optimiseWith ?n basicSettings sharedAssembly = Some (Inr (Assembly (emptyState\<lparr>m_items := [subPush 1]\<rparr>)
      [Assembly (?sub\<lparr>m_items := tl twoBlocks\<rparr>) []]))"
    by (simp add: optimiseWith_def sharedAssembly_def subs rounds constantPass_def del: no optimiseSubs.simps)
  then show ?thesis using tags outer_steps(5) by (simp del: no)
qed

end
