(* ===== verification/CSECodeGeneratorSound.thy ===== *)
theory CSECodeGeneratorSound
  imports CommonSubexpressionEliminator KnownStateFeed
begin

section \<open>The code generator keeps its symbolic stack\<close>

text \<open>
  The symbolic stack of the code generator is at every moment the stack that the items
  generated so far leave, and the positions it records are those of the symbolic stack. The
  elements that are in their final place are not moved any more.
\<close>

subsection \<open>Stacks as lists\<close>

text \<open>The map with the classes \<open>s\<close> at the heights from \<open>m\<close> on.\<close>

fun layout :: "int \<Rightarrow> 'a list \<Rightarrow> (int \<times> 'a) list" where
  "layout m [] = []"
| "layout m (c # s) = (m, c) # layout (m + 1) s"

lemma layout_append: "layout m (s @ t) = layout m s @ layout (m + int (length s)) t"
  by (induction s arbitrary: m) (simp_all add: algebra_simps)

lemma length_layout [simp]: "length (layout m s) = length s"
  by (induction s arbitrary: m) simp_all

lemma layout_Nil_iff [simp]: "layout m s = [] \<longleftrightarrow> s = []"
  by (cases s) simp_all

lemma fst_layout: "p \<in> set (layout m s) \<Longrightarrow> m \<le> fst p \<and> fst p < m + int (length s)"
  by (induction s arbitrary: m) fastforce+

lemma map_of_layout:
  "map_of (layout m s) p = (if m \<le> p \<and> p < m + int (length s) then Some (s ! nat (p - m)) else None)"
proof (induction s arbitrary: m)
  case (Cons c s)
  have "nat (p - m) = Suc (nat (p - (m + 1)))" if "m < p" using that by simp
  then show ?case using Cons by (auto simp: nth_Cons')
qed simp

lemma omap_ok_layout: "omap_ok (layout m s)"
  by (induction s arbitrary: m) (auto dest: fst_layout)

lemma layout_put_last: "omap_put (m + int (length s)) c (layout m s) = layout m (s @ [c])"
  by (subst omap_put_last) (auto simp: layout_append dest: fst_layout)

lemma layout_put:
  "i < length s \<Longrightarrow> omap_put (m + int i) c (layout m s) = layout m (s[i := c])"
proof (induction s arbitrary: m i)
  case (Cons x s)
  show ?case
  proof (cases i)
    case (Suc j)
    have "m + int i = (m + 1) + int j" using Suc by simp
    then show ?thesis using Cons.IH [of j "m + 1"] Cons.prems Suc by (simp add: add.assoc)
  qed simp
qed simp

lemma layout_erase_last:
  "filter (\<lambda>q. fst q \<noteq> m + int (length s)) (layout m (s @ [c])) = layout m s"
  by (auto simp: layout_append filter_id_conv dest: fst_layout)

lemma fst_last_layout: "s \<noteq> [] \<Longrightarrow> fst (last (layout m s)) = m + int (length s) - 1"
  by (cases s rule: rev_cases) (simp_all add: layout_append)

lemma fst_hd_layout: "s \<noteq> [] \<Longrightarrow> fst (hd (layout m s)) = m"
  by (cases s) simp_all

subsection \<open>The invariant\<close>

definition gen_positions :: "(int \<times> Id) list \<Rightarrow> CSECodeGenerator \<Rightarrow> bool" where
  "gen_positions l g \<longleftrightarrow> omap_ok (g_classPositions g) \<and> (\<forall>c. positions g c = {p. map_of l p = Some c})"

text \<open>
  \<open>s\<close> is the symbolic stack from height \<open>m\<close> on, bottom first, \<open>T\<close> the target; the items so
  far take the initial stack \<open>stk\<^sub>0\<close> to the values of \<open>s\<close> above \<open>base\<close> and leave the world.
\<close>

definition gen_rel :: "'w evm \<Rightarrow> (Id \<Rightarrow> u256) \<Rightarrow> int \<Rightarrow> Ids \<Rightarrow> u256 list \<Rightarrow> u256 list \<Rightarrow> 'w \<Rightarrow>
    CSECodeGenerator \<Rightarrow> Ids \<Rightarrow> bool" where
  "gen_rel E val m T base stk\<^sub>0 w g s \<longleftrightarrow>
     g_stack g = layout m s \<and> g_stackHeight g = m + int (length s) - 1 \<and>
     gen_positions (layout m s) g \<and>
     exec_block E (g_generatedItems g) stk\<^sub>0 w = Next (rev (map val s) @ base) w \<and>
     g_targetStack g = layout m T \<and> g_finalClasses g = set T"

lemma positions_insert:
  assumes "omap_ok (g_classPositions g)"
  shows "positions (insertPosition c p g) d = (if d = c then insert p (positions g c) else positions g d)"
    and "omap_ok (g_classPositions (insertPosition c p g))"
    and "generated (insertPosition c p g) d \<longleftrightarrow> d = c \<or> generated g d"
  using assms by (simp_all add: positions_def insertPosition_def generated_def omap_ok_put)

lemma positions_erase:
  assumes "omap_ok (g_classPositions g)"
  shows "positions (erasePosition c p g) d = (if d = c then positions g c - {p} else positions g d)"
    and "omap_ok (g_classPositions (erasePosition c p g))"
    and "generated (erasePosition c p g) d \<longleftrightarrow> d = c \<or> generated g d"
  using assms by (simp_all add: positions_def erasePosition_def generated_def omap_ok_put)

lemma position_fields [simp]:
  "g_stack (insertPosition c p g) = g_stack g" "g_stackHeight (insertPosition c p g) = g_stackHeight g"
  "g_generatedItems (insertPosition c p g) = g_generatedItems g"
  "g_targetStack (insertPosition c p g) = g_targetStack g" "g_finalClasses (insertPosition c p g) = g_finalClasses g"
  "g_stack (erasePosition c p g) = g_stack g" "g_stackHeight (erasePosition c p g) = g_stackHeight g"
  "g_generatedItems (erasePosition c p g) = g_generatedItems g"
  "g_targetStack (erasePosition c p g) = g_targetStack g" "g_finalClasses (erasePosition c p g) = g_finalClasses g"
  by (simp_all add: insertPosition_def erasePosition_def)

lemma position_cong [simp]:
  "positions (g\<lparr>g_stack := x\<rparr>) = positions g" "positions (g\<lparr>g_generatedItems := y\<rparr>) = positions g"
  "positions (g\<lparr>g_stackHeight := h\<rparr>) = positions g"
  "positions (setStack p c g) = positions g" "positions (eraseStack p g) = positions g"
  "positions (appendGenerated it g) = positions g"
  by (simp_all add: fun_eq_iff positions_def setStack_def eraseStack_def appendGenerated_def)

lemma stack_fields [simp]:
  "g_stack (setStack p c g) = omap_put p c (g_stack g)" "g_stackHeight (setStack p c g) = g_stackHeight g"
  "g_generatedItems (setStack p c g) = g_generatedItems g" "g_classPositions (setStack p c g) = g_classPositions g"
  "g_targetStack (setStack p c g) = g_targetStack g" "g_finalClasses (setStack p c g) = g_finalClasses g"
  "g_stack (eraseStack p g) = filter (\<lambda>q. fst q \<noteq> p) (g_stack g)" "g_stackHeight (eraseStack p g) = g_stackHeight g"
  "g_generatedItems (eraseStack p g) = g_generatedItems g" "g_classPositions (eraseStack p g) = g_classPositions g"
  "g_targetStack (eraseStack p g) = g_targetStack g" "g_finalClasses (eraseStack p g) = g_finalClasses g"
  "g_stack (appendGenerated it g) = g_stack g"
  "g_stackHeight (appendGenerated it g) = g_stackHeight g + item_deposit it"
  "g_generatedItems (appendGenerated it g) = g_generatedItems g @ [it]"
  "g_classPositions (appendGenerated it g) = g_classPositions g"
  "g_targetStack (appendGenerated it g) = g_targetStack g" "g_finalClasses (appendGenerated it g) = g_finalClasses g"
  by (simp_all add: setStack_def eraseStack_def appendGenerated_def)

lemma stackRef_in:
  assumes "g_stack g = layout m s" and "i < length s"
  shows "stackRef (m + int i) g = (s ! i, g)"
  using assms by (simp add: stackRef_def map_of_layout)

text \<open>The highest position of a class.\<close>

lemma classElementPosition_spec:
  assumes "gen_rel E val m T base stk\<^sub>0 w g s" and "classElementPosition c g = Inr p"
  obtains i where "p = m + int i" "i < length s" "s ! i = c" "\<forall>j < length s. s ! j = c \<longrightarrow> j \<le> i"
proof -
  have ps: "positions g c = {p. map_of (layout m s) p = Some c}" "positions g c \<noteq> {}" "p = Max (positions g c)"
    using assms by (auto simp: gen_rel_def gen_positions_def classElementPosition_def split: if_splits)
  have sub: "positions g c \<subseteq> fst ` set (layout m s)"
    using ps(1) by (auto simp: dom_map_of_conv_image_fst [symmetric])
  then have fin: "finite (positions g c)" by (rule finite_subset) simp
  have "p \<in> positions g c" using ps(2,3) fin by simp
  then have p: "m \<le> p" "p < m + int (length s)" "s ! nat (p - m) = c"
    using ps(1) by (auto simp: map_of_layout split: if_splits)
  have "j \<le> nat (p - m)" if "j < length s" "s ! j = c" for j
  proof -
    have "m + int j \<in> positions g c" using that ps(1) by (simp add: map_of_layout)
    then have "m + int j \<le> p" using ps(3) fin by simp
    then show ?thesis by simp
  qed
  then show thesis using that [of "nat (p - m)"] p by simp
qed

subsection \<open>DUP, SWAP and POP\<close>

lemma exec_dup:
  assumes "dupInstruction (word_of_int k) = Inr i" and "1 \<le> k" and "k \<le> 16" and "k \<le> int (length stk)"
  shows "exec_item E (itemOp i l) stk w = Next (stk ! nat (k - 1) # stk) w"
    and "item_deposit (itemOp i l) = 1"
proof -
  have d: "isDupInstruction i" "getDupNumber i = word_of_int k" using dupInstruction_inverse [OF assms(1)] by simp_all
  have "int (unat (word_of_int k :: u32)) = k" using assms(2,3) by (simp add: unsigned_of_int take_bit_int_eq_self)
  then have r: "info_args (instructionInfo i) = k" "info_ret (instructionInfo i) = k + 1"
    using dup_rows [OF d(1)] d(2) by simp_all
  have p: "\<not> isPushInstruction i" using d(1) by (auto simp: instr_class)
  have len: "\<not> length stk < nat k" using assms(4) by linarith
  have idx: "nat k - 1 = nat (k - 1)" using assms(2) by simp
  show "exec_item E (itemOp i l) stk w = Next (stk ! nat (k - 1) # stk) w"
    using d(1) family_valid(2) [OF d(1)] p r(1) len
    by (simp add: exec_item_def exec_op_def Let_def idx [symmetric])
  show "item_deposit (itemOp i l) = 1" by (simp add: item_deposit_op r)
qed

lemma exec_swap:
  assumes "swapInstruction (word_of_int k) = Inr i" and "1 \<le> k" and "k \<le> 16" and "k < int (length stk)"
  shows "exec_item E (itemOp i l) stk w = Next (stk[0 := stk ! nat k, nat k := stk ! 0]) w"
    and "item_deposit (itemOp i l) = 0" and "isSwapInstruction i"
proof -
  have d: "isSwapInstruction i" "getSwapNumber i = word_of_int k" using swapInstruction_inverse [OF assms(1)] by simp_all
  have "int (unat (word_of_int k :: u32)) = k" using assms(2,3) by (simp add: unsigned_of_int take_bit_int_eq_self)
  then have r: "info_args (instructionInfo i) = k + 1" "info_ret (instructionInfo i) = k + 1"
    using swap_rows [OF d(1)] d(2) by simp_all
  have p: "\<not> isPushInstruction i" "\<not> isDupInstruction i" using d(1) by (auto simp: instr_class)
  have len: "\<not> length stk < nat (k + 1)" using assms(4) by linarith
  have idx: "nat (k + 1) - Suc 0 = nat k" using assms(2) by simp
  show "exec_item E (itemOp i l) stk w = Next (stk[0 := stk ! nat k, nat k := stk ! 0]) w"
    using d(1) family_valid(3) [OF d(1)] p r(1) len
    by (simp add: exec_item_def exec_op_def Let_def idx)
  show "item_deposit (itemOp i l) = 0" by (simp add: item_deposit_op r)
  show "isSwapInstruction i" by (rule d(1))
qed

lemma exec_pop: "exec_item E (opItem i_POP) (x # stk) w = Next stk w" "item_deposit (opItem i_POP) = - 1"
  by (simp_all add: exec_item_def exec_op_def Let_def instr_class instr_table item_deposit_op)

lemma exec_snoc:
  assumes "exec_block E its stk\<^sub>0 w\<^sub>0 = Next stk w"
  shows "exec_block E (its @ [it]) stk\<^sub>0 w\<^sub>0 = exec_item E it stk w"
  using assms by (simp add: exec_block_append split: step.splits)

text \<open>Two equal SWAPs cancel.\<close>

lemma swap_swap:
  assumes "k < length s" and "0 < k" and "t = s[0 := s ! k, k := s ! 0]"
  shows "t[0 := t ! k, k := t ! 0] = s"
proof -
  obtain x s' j where s: "s = x # s'" "k = Suc j" using assms(1,2) by (cases s; cases k) auto
  then show ?thesis using assms by simp
qed

lemma item_eq_swap:
  assumes "item_eq a b" and "itemIsSwap b"
  shows "m_type a = Operation" "m_type b = Operation" "m_instruction a = m_instruction b"
    "isSwapInstruction (m_instruction b)"
  using assms by (auto simp: item_eq_def itemIsSwap_def split: if_splits)

lemma exec_double_swap:
  assumes "exec_block E (its @ [a, b]) stk\<^sub>0 w\<^sub>0 = Next stk w" and "item_eq a b" and "itemIsSwap b"
  shows "exec_block E its stk\<^sub>0 w\<^sub>0 = Next stk w"
proof -
  note ab = item_eq_swap [OF assms(2,3)]
  let ?i = "m_instruction b"
  define n where "n = nat (info_args (instructionInfo ?i)) - 1"
  obtain s1 w1 where 1: "exec_block E its stk\<^sub>0 w\<^sub>0 = Next s1 w1"
    and 2: "exec_block E [a, b] s1 w1 = Next stk w"
    using assms(1) by (auto simp: exec_block_append split: step.splits)
  obtain s2 w2 where a: "exec_op E ?i s1 w1 = Next s2 w2" and b: "exec_op E ?i s2 w2 = Next stk w"
    using 2 ab by (auto simp: exec_item_def split: step.splits)
  have nd: "\<not> isDupInstruction ?i" using ab(4) by (auto simp: instr_class)
  have n: "0 < n" using dup_swap_rows(2) [OF ab(4)] unfolding n_def by linarith
  have s2: "s2 = s1[0 := s1 ! n, n := s1 ! 0] \<and> w2 = w1 \<and> n < length s1"
    using a ab(4) nd n by (auto simp: exec_op_def Let_def n_def split: if_splits)
  have "stk = s2[0 := s2 ! n, n := s2 ! 0] \<and> w = w2"
    using b ab(4) nd by (auto simp: exec_op_def Let_def n_def split: if_splits)
  moreover have "s2[0 := s2 ! n, n := s2 ! 0] = s1" by (rule swap_swap [OF _ n]) (use s2 in simp_all)
  ultimately have "stk = s1" "w = w1" using s2 by simp_all
  then show ?thesis using 1 by simp
qed

lemma dropDoubleSwap_rel:
  assumes "gen_rel E val m T base stk\<^sub>0 w g s"
  shows "gen_rel E val m T base stk\<^sub>0 w (dropDoubleSwap g) s"
proof -
  let ?its = "g_generatedItems g" and ?n = "length (g_generatedItems g)"
  have "exec_block E (take (?n - 2) ?its) stk\<^sub>0 w = Next (rev (map val s) @ base) w"
    if "2 \<le> ?n" "itemIsSwap (?its ! (?n - 1))" "item_eq (?its ! (?n - 2)) (?its ! (?n - 1))"
  proof (rule exec_double_swap [OF _ that(3,2)])
    have "?its = take (?n - 2) ?its @ [?its ! (?n - 2), ?its ! (?n - 1)]"
    proof (rule nth_equalityI)
      show "?its ! i = (take (?n - 2) ?its @ [?its ! (?n - 2), ?its ! (?n - 1)]) ! i" if "i < ?n" for i
        using that \<open>2 \<le> ?n\<close> by (auto simp: nth_append nth_Cons' not_less intro!: arg_cong [of _ _ "(!) ?its"])
    qed (use that(1) in simp)
    then show "exec_block E (take (?n - 2) ?its @ [?its ! (?n - 2), ?its ! (?n - 1)]) stk\<^sub>0 w =
        Next (rev (map val s) @ base) w"
      using assms by (simp add: gen_rel_def)
  qed
  then show ?thesis
    using assms by (simp add: dropDoubleSwap_def Let_def gen_rel_def gen_positions_def)
qed

subsection \<open>The operations on the symbolic stack\<close>

lemma layout_snoc_positions:
  "{p. map_of (layout m (s @ [c])) p = Some d} =
     (if d = c then insert (m + int (length s)) {p. map_of (layout m s) p = Some d}
      else {p. map_of (layout m s) p = Some d})"
proof -
  have neg: "\<not> p - m < int (length s) \<Longrightarrow> p < 1 + (m + int (length s)) \<Longrightarrow> p = m + int (length s)" for p by linarith
  have nat: "m \<le> p \<Longrightarrow> p < m + int (length s) \<Longrightarrow> nat (p - m) < length s" for p by linarith
  show ?thesis
    by (auto simp: map_of_layout nth_append nat split: if_splits)
qed

lemma gen_rel_snoc:
  assumes "gen_rel E val m T base stk\<^sub>0 w g s"
    and "exec_item E it (rev (map val s) @ base) w = Next (val c # rev (map val s) @ base) w"
    and "item_deposit it = 1" and "h = m + int (length s)"
  shows "gen_rel E val m T base stk\<^sub>0 w (insertPosition c h (setStack h c (appendGenerated it g))) (s @ [c])"
proof -
  note g = assms(1) [unfolded gen_rel_def gen_positions_def]
  have ok: "omap_ok (g_classPositions (setStack p c (appendGenerated it g)))" for p using g by simp
  have "exec_block E (g_generatedItems g @ [it]) stk\<^sub>0 w = Next (val c # rev (map val s) @ base) w"
    using exec_snoc [of E "g_generatedItems g"] g assms(2) by simp
  then show ?thesis
    using g assms(3,4) layout_put_last [of m s c]
    by (simp add: gen_rel_def gen_positions_def positions_insert [OF ok] layout_snoc_positions)
qed

lemma appendDup_rel:
  assumes g: "gen_rel E val m T base stk\<^sub>0 w g s" and i: "i < length s"
    and run: "appendDup (m + int i) l g = Inr g'"
  shows "gen_rel E val m T base stk\<^sub>0 w g' (s @ [s ! i])"
proof -
  define k where "k = int (length s) - int i"
  have h: "g_stackHeight g = m + int (length s) - 1" and st: "g_stack g = layout m s"
    using g by (simp_all add: gen_rel_def)
  have keq: "1 + g_stackHeight g - (m + int i) = k" using h by (simp add: k_def)
  have inv: "m + int i \<noteq> c_invalidPosition"
    by (rule ccontr) (use run in \<open>simp add: appendDup_def\<close>)
  have k16: "k \<le> 16"
    by (rule ccontr) (use run inv in \<open>simp add: appendDup_def Let_def keq\<close>)
  have "1 \<le> k"
    by (rule ccontr) (use run inv k16 in \<open>simp add: appendDup_def Let_def keq\<close>)
  note k = this k16
  have run2: "bindE (dupInstruction (word_of_int k)) (\<lambda>d. case stackRef (m + int i) (appendGenerated (itemOp d l) g) of
      (c, g) \<Rightarrow> Inr (insertPosition c (g_stackHeight g) (setStack (g_stackHeight g) c g))) = Inr g'"
    using run k inv unfolding appendDup_def Let_def keq by simp
  then obtain d where d: "dupInstruction (word_of_int k) = Inr d" and g': "(case stackRef (m + int i)
      (appendGenerated (itemOp d l) g) of (c, g) \<Rightarrow>
        Inr (insertPosition c (g_stackHeight g) (setStack (g_stackHeight g) c g))) = (Inr g' :: CSECodeGenerator result)"
    unfolding bindE_Inr_iff by (elim exE conjE) (rule that; assumption)
  have len: "k \<le> int (length (rev (map val s) @ base))" using i by (simp add: k_def)
  note e = exec_dup [OF d k len]
  have "nat (k - 1) < length s" "length s - Suc (nat (k - 1)) = i" using i by (simp_all add: k_def)
  then have "(rev (map val s) @ base) ! nat (k - 1) = val (s ! i)"
    using i by (simp add: nth_append rev_nth)
  then have ex: "exec_item E (itemOp d l) (rev (map val s) @ base) w = Next (val (s ! i) # rev (map val s) @ base) w"
    using e(1) by simp
  have "stackRef (m + int i) (appendGenerated (itemOp d l) g) = (s ! i, appendGenerated (itemOp d l) g)"
    using stackRef_in [of "appendGenerated (itemOp d l) g" m s i] st i by simp
  then have "g' = insertPosition (s ! i) (m + int (length s))
      (setStack (m + int (length s)) (s ! i) (appendGenerated (itemOp d l) g))"
    using g' h e(2) by (simp add: algebra_simps)
  then show ?thesis using gen_rel_snoc [OF g ex e(2) refl] by simp
qed

text \<open>The exchange of an element with the top.\<close>

definition swapTop :: "nat \<Rightarrow> 'a list \<Rightarrow> 'a list" where
  "swapTop i s = s[i := last s, length s - 1 := s ! i]"

lemma length_swapTop [simp]: "length (swapTop i s) = length s"
  by (simp add: swapTop_def)

lemma swapTop_last [simp]: "s \<noteq> [] \<Longrightarrow> swapTop (length s - Suc 0) s = s"
  by (simp add: swapTop_def last_conv_nth)

lemma take_swapTop: "t \<le> i \<Longrightarrow> i < length s \<Longrightarrow> take t (swapTop i s) = take t s"
  by (simp add: swapTop_def)

lemma nth_swapTop:
  assumes "i < length s" and "j < length s"
  shows "swapTop i s ! j = (if j = length s - 1 then s ! i else if j = i then last s else s ! j)"
  using assms by (auto simp: swapTop_def nth_list_update)

lemma rev_swapTop:
  assumes "i < length s" and "k = length s - 1 - i"
  shows "(rev (map f s) @ base)[0 := (rev (map f s) @ base) ! k, k := (rev (map f s) @ base) ! 0] =
    rev (map f (swapTop i s)) @ base"
proof (rule nth_equalityI)
  fix j
  assume j: "j < length ((rev (map f s) @ base)[0 := (rev (map f s) @ base) ! k, k := (rev (map f s) @ base) ! 0])"
  have ne: "s \<noteq> []" using assms(1) by auto
  have idx: "length s - Suc j = length s - 1 \<longleftrightarrow> j = 0" "length s - Suc j = i \<longleftrightarrow> j = k" if "j < length s"
    using that assms by auto
  show "(rev (map f s) @ base)[0 := (rev (map f s) @ base) ! k, k := (rev (map f s) @ base) ! 0] ! j =
    (rev (map f (swapTop i s)) @ base) ! j"
    using assms j ne idx
    by (auto simp: nth_append rev_nth nth_swapTop last_conv_nth nth_list_update)
qed simp

lemma layout_swap_positions:
  assumes "i < length s"
  shows "map_of (layout m (swapTop i s)) p =
    (if p = m + int (length s) - 1 then Some (s ! i) else if p = m + int i then Some (last s)
     else map_of (layout m s) p)"
proof -
  have "nat (p - m) = length s - 1 \<longleftrightarrow> p = m + int (length s) - 1" "nat (p - m) = i \<longleftrightarrow> p = m + int i"
    if "m \<le> p" "p < m + int (length s)"
    using that assms by linarith+
  then show ?thesis using assms by (auto simp: map_of_layout nth_swapTop)
qed

lemma appendOrRemoveSwap_rel:
  assumes g: "gen_rel E val m T base stk\<^sub>0 w g s" and i: "i < length s"
    and run: "appendOrRemoveSwap (m + int i) l g = Inr g'"
  shows "gen_rel E val m T base stk\<^sub>0 w g' (swapTop i s)"
proof (cases "m + int i = g_stackHeight g")
  case True
  then have "i = length s - 1" "s \<noteq> []" "g' = g"
    using run g i by (auto simp: appendOrRemoveSwap_def gen_rel_def split: if_splits)
  then show ?thesis using g by simp
next
  case False
  define k where "k = int (length s) - 1 - int i"
  have h: "g_stackHeight g = m + int (length s) - 1" and st: "g_stack g = layout m s"
    using g by (simp_all add: gen_rel_def)
  have keq: "g_stackHeight g - (m + int i) = k" using h by (simp add: k_def)
  define change where "change a b h g = (if a \<noteq> b
     then setStack (m + int i) a (setStack h b
       (insertPosition b h (erasePosition b (m + int i)
         (insertPosition a (m + int i) (erasePosition a h g))))) else g)" for a b h g
  define sw where "sw d = itemOp d l" for d
  have inv: "m + int i \<noteq> c_invalidPosition"
    by (rule ccontr) (use run in \<open>simp add: appendOrRemoveSwap_def\<close>)
  have k16: "k \<le> 16"
    by (rule ccontr) (use run inv False in \<open>simp add: appendOrRemoveSwap_def Let_def keq\<close>)
  have "1 \<le> k"
    by (rule ccontr) (use run inv k16 False in \<open>simp add: appendOrRemoveSwap_def Let_def keq\<close>)
  note k = this k16
  have "bindE (swapInstruction (word_of_int k)) (\<lambda>d. let g = appendGenerated (sw d) g; h = g_stackHeight g in
      case stackRef h g of (a, g) \<Rightarrow> case stackRef (m + int i) g of (b, g) \<Rightarrow>
      Inr (dropDoubleSwap (change a b h g))) = Inr g'"
    using run k inv False unfolding appendOrRemoveSwap_def Let_def keq change_def sw_def by simp
  then obtain d where d: "swapInstruction (word_of_int k) = Inr d"
    and g': "(let g = appendGenerated (sw d) g; h = g_stackHeight g in
      case stackRef h g of (a, g) \<Rightarrow> case stackRef (m + int i) g of (b, g) \<Rightarrow>
      Inr (dropDoubleSwap (change a b h g))) = (Inr g' :: CSECodeGenerator result)"
    unfolding bindE_Inr_iff by (elim exE conjE) (rule that; assumption)
  have ne: "s \<noteq> []" using i by auto
  then have last: "last s = s ! (length s - 1)" by (rule last_conv_nth)
  have len: "k < int (length (rev (map val s) @ base))" using i by (simp add: k_def)
  note e = exec_swap [OF d k len]
  have nk: "nat k = length s - 1 - i" using i by (simp add: k_def)
  have ex: "exec_item E (sw d) (rev (map val s) @ base) w = Next (rev (map val (swapTop i s)) @ base) w"
    using e(1) rev_swapTop [OF i nk, of val base] by (simp add: sw_def)
  define g1 where "g1 = appendGenerated (sw d) g"
  have len1: "int (length s - 1) = int (length s) - 1" using ne by (cases s) simp_all
  have h1: "g_stackHeight g1 = m + int (length s - 1)" using h e(2) len1 by (simp add: g1_def sw_def)
  have st1: "g_stack g1 = layout m s" using st by (simp add: g1_def)
  have a: "stackRef (g_stackHeight g1) g1 = (last s, g1)" "stackRef (m + int i) g1 = (s ! i, g1)"
    unfolding h1 last by (rule stackRef_in [OF st1], use i in simp)+
  define g2 where "g2 = change (last s) (s ! i) (g_stackHeight g1) g1"
  have g'2: "g' = dropDoubleSwap g2"
    using g' unfolding g1_def [symmetric] Let_def a prod.case g2_def by simp
  have items: "exec_block E (g_generatedItems g2) stk\<^sub>0 w = Next (rev (map val (swapTop i s)) @ base) w"
    using exec_snoc [of E "g_generatedItems g"] g ex by (simp add: g2_def change_def g1_def gen_rel_def)
  have rest: "g_stackHeight g2 = m + int (length s) - 1" "g_targetStack g2 = layout m T" "g_finalClasses g2 = set T"
    using g h1 len1 by (simp_all add: g2_def change_def g1_def gen_rel_def)
  have "gen_rel E val m T base stk\<^sub>0 w g2 (swapTop i s)"
  proof (cases "last s = s ! i")
    case True
    have "swapTop i s = s" using True last i by (simp add: swapTop_def list_update_same_conv)
    then show ?thesis
      using True items rest g by (simp add: gen_rel_def gen_positions_def g2_def change_def g1_def)
  next
    case neq: False
    have ok: "omap_ok (g_classPositions g1)" and pos: "positions g1 c = {p. map_of (layout m s) p = Some c}" for c
      using g by (simp_all add: g1_def gen_rel_def gen_positions_def)
    have stack: "g_stack g2 = layout m (swapTop i s)"
      using neq st1 h1 i ne layout_put [of "length s - 1" s m "s ! i"]
        layout_put [of i "s[length s - 1 := s ! i]" m "last s"]
      by (simp add: g2_def change_def swapTop_def list_update_swap [of i] last)
        (metis list_update_swap neq last)
    have idx: "m + int i \<noteq> m + int (length s) - 1" using False h by simp
    have pi: "map_of (layout m s) (m + int i) = Some (s ! i)" "map_of (layout m s) (m + int (length s) - 1) = Some (last s)"
    proof -
      show "map_of (layout m s) (m + int i) = Some (s ! i)" using i by (simp add: map_of_layout)
      have "nat (int (length s) - 1) = length s - 1" by simp
      then show "map_of (layout m s) (m + int (length s) - 1) = Some (last s)"
        using ne i last by (simp add: map_of_layout)
    qed
    have hh: "g_stackHeight g1 = m + int (length s) - 1" using h1 len1 by simp
    have "positions g2 c = {p. map_of (layout m (swapTop i s)) p = Some c}" for c
      using neq idx pi
      by (auto simp: g2_def change_def positions_insert positions_erase ok pos layout_swap_positions [OF i] hh)
    moreover have "omap_ok (g_classPositions g2)"
      using ok by (simp add: g2_def change_def positions_insert positions_erase)
    ultimately show ?thesis
      using stack rest items by (simp add: gen_rel_def gen_positions_def)
  qed
  then show ?thesis unfolding g'2 by (rule dropDoubleSwap_rel)
qed

subsection \<open>Removing elements\<close>

lemma map_of_layout_snoc_top: "map_of (layout m s) (m + int (length s)) = None"
  by (simp add: map_of_layout)

definition gen_stack :: "int \<Rightarrow> Ids \<Rightarrow> CSECodeGenerator \<Rightarrow> bool" where
  "gen_stack m s g \<longleftrightarrow> g_stack g = layout m s \<and> gen_positions (layout m s) g"

lemma gen_rel_stack: "gen_rel E val m T base stk\<^sub>0 w g s \<Longrightarrow> gen_stack m s g"
  by (simp add: gen_rel_def gen_stack_def)

lemma gen_stack_pop:
  assumes "gen_stack m (s @ [c]) g" and "h = m + int (length s)"
  shows "gen_stack m s (eraseStack h (erasePosition c h g))"
proof -
  have ok: "omap_ok (g_classPositions g)"
    and pos: "positions g d = {p. map_of (layout m (s @ [c])) p = Some d}" for d
    using assms(1) by (simp_all add: gen_stack_def gen_positions_def)
  show ?thesis
    using assms layout_erase_last [of m s c]
    by (auto simp: gen_stack_def gen_positions_def positions_erase [OF ok] pos layout_snoc_positions
        map_of_layout_snoc_top)
qed

lemma canBeRemoved_position:
  assumes "canBeRemoved c res from g = Inr True"
  obtains p where "if from = c_invalidPosition then classElementPosition c g = Inr p else p = from"
    "c \<in> g_finalClasses g \<Longrightarrow> map_of (g_targetStack g) p \<noteq> Some c"
proof -
  from assms obtain p where "(if from = c_invalidPosition then classElementPosition c g else Inr from) = Inr p"
    and "c \<in> g_finalClasses g \<Longrightarrow> map_of (g_targetStack g) p \<noteq> Some c"
    by (auto simp: canBeRemoved_def bindE_Inr_iff Let_def split: option.splits if_splits)
  then show thesis using that by (auto split: if_splits)
qed

text \<open>An element that may be removed is not one that is in its final place.\<close>

lemma free_index:
  assumes "gen_rel E val m T base stk\<^sub>0 w g s" and "s ! i = c"
    and "c \<in> g_finalClasses g \<Longrightarrow> map_of (g_targetStack g) (m + int i) \<noteq> Some c"
    and "t \<le> length T" and "take t s = take t T"
  shows "t \<le> i"
proof (rule ccontr)
  assume "\<not> t \<le> i"
  then have "i < t" by simp
  then have "T ! i = c" "i < length T"
    using assms(2,4) nth_take [of i t s] nth_take [of i t T] assms(5) by simp_all
  then have "c \<in> set T" "map_of (layout m T) (m + int i) = Some c" by (auto simp: map_of_layout)
  then show False using assms(1,3) by (simp add: gen_rel_def)
qed

text \<open>The first \<open>t\<close> elements are in their final place, and there are \<open>k\<close> more.\<close>

definition placed :: "nat \<Rightarrow> nat \<Rightarrow> Ids \<Rightarrow> Ids \<Rightarrow> bool" where
  "placed t k T s \<longleftrightarrow> t + k \<le> length s \<and> t \<le> length T \<and> take t s = take t T"

lemma canBeRemoved_index:
  assumes g: "gen_rel E val m T base stk\<^sub>0 w g s" and "placed t 0 T s"
    and run: "canBeRemoved c res c_invalidPosition g = Inr True"
  obtains i where "i < length s" "t \<le> i" "s ! i = c" "\<forall>j < length s. s ! j = c \<longrightarrow> j \<le> i"
proof -
  obtain p where p: "classElementPosition c g = Inr p"
    "c \<in> g_finalClasses g \<Longrightarrow> map_of (g_targetStack g) p \<noteq> Some c"
    using canBeRemoved_position [OF run] by auto
  obtain i where i: "p = m + int i" "i < length s" "s ! i = c" "\<forall>j < length s. s ! j = c \<longrightarrow> j \<le> i"
    by (rule classElementPosition_spec [OF g p(1)])
  have "t \<le> i" using free_index [OF g i(3)] p(2) assms(2) by (simp add: i(1) placed_def)
  with i(2-4) that show thesis by blast
qed

lemma removeStackTop_rel:
  assumes g: "gen_rel E val m T base stk\<^sub>0 w g s" and pl: "placed t 0 T s"
    and run: "removeStackTopIfPossible g = Inr (r, g')"
  obtains s' where "gen_rel E val m T base stk\<^sub>0 w g' s'" "placed t 0 T s'"
proof (cases r)
  case False
  then have "g' = g"
    using run by (auto simp: removeStackTopIfPossible_def bindE_Inr_iff split: if_splits option.splits)
  then show thesis using that g pl by blast
next
  case True
  have st: "g_stack g = layout m s" and h: "g_stackHeight g = m + int (length s) - 1"
    and items: "exec_block E (g_generatedItems g) stk\<^sub>0 w = Next (rev (map val s) @ base) w"
    using g by (simp_all add: gen_rel_def)
  have "s \<noteq> []" using run True st by (auto simp: removeStackTopIfPossible_def)
  then obtain s0 c where s: "s = s0 @ [c]" by (cases s rule: rev_cases) auto
  have h0: "g_stackHeight g = m + int (length s0)" using h s by simp
  have cl: "map_of (g_stack g) (g_stackHeight g) = Some c" by (simp add: st h0 s map_of_layout)
  have rem: "canBeRemoved c noId (g_stackHeight g) g = Inr True"
    and g': "g' = appendGenerated (opItem i_POP) (eraseStack (g_stackHeight g) (erasePosition c (g_stackHeight g) g))"
    using run True \<open>s \<noteq> []\<close> cl st
    by (auto simp: removeStackTopIfPossible_def bindE_Inr_iff split: if_splits)
  obtain p where p: "if g_stackHeight g = c_invalidPosition then classElementPosition c g = Inr p else p = g_stackHeight g"
    "c \<in> g_finalClasses g \<Longrightarrow> map_of (g_targetStack g) p \<noteq> Some c"
    using canBeRemoved_position [OF rem] by blast
  have top: "p = m + int (length s0)"
  proof (cases "g_stackHeight g = c_invalidPosition")
    case True
    then obtain i where i: "p = m + int i" "i < length s" "\<forall>j < length s. s ! j = c \<longrightarrow> j \<le> i"
      using p(1) classElementPosition_spec [OF g] by (metis (no_types, lifting))
    have "length s0 \<le> i" using i(3) s by simp
    then show ?thesis using i(1,2) s by simp
  qed (use p(1) h0 in simp)
  have "s ! length s0 = c" using s by simp
  then have "t \<le> length s0" using free_index [OF g] p(2) top pl by (simp add: placed_def)
  then have pl': "placed t 0 T s0" using pl s by (simp add: placed_def)
  have "gen_stack m s0 g'"
    using gen_stack_pop [of m s0 c g] gen_rel_stack [OF g] s h0
    by (simp add: g' gen_stack_def gen_positions_def)
  then have "gen_rel E val m T base stk\<^sub>0 w g' s0"
    using g items h0 exec_pop exec_snoc [OF items, of "opItem i_POP"] s
    by (simp add: g' gen_rel_def gen_stack_def)
  then show thesis using pl' that by blast
qed

subsection \<open>Bringing the arguments to the top\<close>

lemma moveToTop_rel:
  assumes g: "gen_rel E val m T base stk\<^sub>0 w g s" and run: "moveToTop a l g = Inr g'"
  obtains i where "i < length s" "s ! i = a" "\<forall>j < length s. s ! j = a \<longrightarrow> j \<le> i"
    "gen_rel E val m T base stk\<^sub>0 w g' (swapTop i s)"
proof -
  obtain p where p: "classElementPosition a g = Inr p" and r: "appendOrRemoveSwap p l g = Inr g'"
    using run by (auto simp: moveToTop_def bindE_Inr_iff)
  obtain i where i: "p = m + int i" "i < length s" "s ! i = a" "\<forall>j < length s. s ! j = a \<longrightarrow> j \<le> i"
    by (rule classElementPosition_spec [OF g p])
  show thesis by (rule that [OF i(2-4) appendOrRemoveSwap_rel [OF g i(2) r [unfolded i(1)]]])
qed

lemma copyToTop_rel:
  assumes g: "gen_rel E val m T base stk\<^sub>0 w g s" and run: "copyToTop a l g = Inr g'"
  shows "gen_rel E val m T base stk\<^sub>0 w g' (s @ [a])" and "s \<noteq> []"
proof -
  obtain p where p: "classElementPosition a g = Inr p" and r: "appendDup p l g = Inr g'"
    using run by (auto simp: copyToTop_def bindE_Inr_iff)
  obtain i where i: "p = m + int i" "i < length s" "s ! i = a"
    by (rule classElementPosition_spec [OF g p])
  show "gen_rel E val m T base stk\<^sub>0 w g' (s @ [a])"
    using appendDup_rel [OF g i(2) r [unfolded i(1)]] i(3) by simp
  show "s \<noteq> []" using i(2) by auto
qed

lemma dupTop_rel:
  assumes g: "gen_rel E val m T base stk\<^sub>0 w g s" and "s \<noteq> []" and run: "appendDup (g_stackHeight g) l g = Inr g'"
  shows "gen_rel E val m T base stk\<^sub>0 w g' (s @ [last s])"
proof -
  have i: "length s - 1 < length s" "int (length s - 1) = int (length s) - 1" using assms(2) by (cases s; simp)+
  have "g_stackHeight g = m + int (length s - 1)" using g by (simp only: gen_rel_def i(2))
  then show ?thesis using appendDup_rel [OF g i(1)] run last_conv_nth [OF assms(2)] by simp
qed

lemma swapSecond_rel:
  assumes g: "gen_rel E val m T base stk\<^sub>0 w g s" and "2 \<le> length s"
    and run: "appendOrRemoveSwap (g_stackHeight g - 1) l g = Inr g'"
  shows "gen_rel E val m T base stk\<^sub>0 w g' (swapTop (length s - 2) s)"
proof -
  have i: "length s - 2 < length s" "int (length s - 2) = int (length s) - 2" using assms(2) by linarith+
  have "g_stackHeight g - 1 = m + int (length s - 2)" using g by (simp only: gen_rel_def i(2))
  then show ?thesis using appendOrRemoveSwap_rel [OF g i(1)] run by simp
qed

end
