(* ===== verification/CSEGenerateSound.thy ===== *)
theory CSEGenerateSound
  imports CSECodeGeneratorSound
begin

section \<open>The generated code leaves the target stack\<close>

text \<open>
  The recursion of the code generator: with its arguments on the stack an element is computed
  by its item, so every operation keeps the symbolic stack and the values equal, never moves an
  element from its final place, and the final test of the height makes the symbolic stack the
  target. Enough fuel is shown to give a result.
\<close>

subsection \<open>Arranging the arguments\<close>

lemma nth_swapTop_last: "i < length s \<Longrightarrow> swapTop i s ! (length s - 1) = s ! i"
  by (simp add: nth_swapTop)

lemma placed_swapTop: "placed t 0 T s \<Longrightarrow> t \<le> i \<Longrightarrow> i < length s \<Longrightarrow> t + k \<le> length s \<Longrightarrow>
    placed t k T (swapTop i s)"
  by (simp add: placed_def take_swapTop)

lemma placed_snoc: "placed t k T s \<Longrightarrow> placed t (Suc k) T (s @ [a])"
  by (simp add: placed_def)

lemma placed_mono: "placed t k T s \<Longrightarrow> j \<le> k \<Longrightarrow> placed t j T s"
  by (simp add: placed_def)

lemma placed_free: "placed t 0 T s \<Longrightarrow> t \<le> i \<Longrightarrow> i < length s \<Longrightarrow> placed t 1 T s"
  by (simp add: placed_def)

lemma moveToTop_placed:
  assumes g: "gen_rel E val m T base stk\<^sub>0 w g s" and pl: "placed t 0 T s"
    and r: "canBeRemoved a c c_invalidPosition g = Inr True" and run: "moveToTop a l g = Inr g'"
  obtains s' where "gen_rel E val m T base stk\<^sub>0 w g' s'" "placed t 1 T s'" "last s' = a" "length s' = length s"
proof -
  obtain i where i: "i < length s" "t \<le> i" "s ! i = a" "\<forall>j < length s. s ! j = a \<longrightarrow> j \<le> i"
    by (rule canBeRemoved_index [OF g pl r])
  obtain i' where i': "i' < length s" "s ! i' = a" "\<forall>j < length s. s ! j = a \<longrightarrow> j \<le> i'"
    "gen_rel E val m T base stk\<^sub>0 w g' (swapTop i' s)"
    by (rule moveToTop_rel [OF g run])
  have "i' \<le> i" "i \<le> i'" using i(1,3,4) i'(1-3) by simp_all
  then have eq: "i' = i" by simp
  have "0 < length (swapTop i s)" using i(1) by (cases s) simp_all
  then have "swapTop i s \<noteq> []" by blast
  then have "last (swapTop i s) = a"
    using i(3) nth_swapTop_last [OF i(1)] last_conv_nth [of "swapTop i s"] by simp
  moreover have "placed t 1 T (swapTop i s)" using placed_swapTop [OF pl i(2,1)] i by simp
  ultimately show thesis using that [of "swapTop i s"] i'(4) eq by simp
qed

lemma arrangeOne_rel:
  assumes g: "gen_rel E val m T base stk\<^sub>0 w g s" and pl: "placed t 0 T s"
    and run: "arrangeOne a c l g = Inr g'"
  obtains s' where "gen_rel E val m T base stk\<^sub>0 w g' s'" "placed t 1 T s'"
proof -
  obtain r where r: "canBeRemoved a c c_invalidPosition g = Inr r"
    and run2: "(if r then moveToTop a l g else copyToTop a l g) = Inr g'"
    using run by (auto simp: arrangeOne_def bindE_Inr_iff)
  show thesis
  proof (cases r)
    case True
    with run2 have "moveToTop a l g = Inr g'" by simp
    with r True show thesis by (auto elim: moveToTop_placed [OF g pl] intro: that)
  next
    case False
    with run2 have "copyToTop a l g = Inr g'" by simp
    from copyToTop_rel(1) [OF g this] placed_snoc [OF pl] show thesis by (rule that [unfolded One_nat_def])
  qed
qed

lemma arrangeTwo_removed:
  assumes g: "gen_rel E val m T base stk\<^sub>0 w g s" and pl: "placed t 1 T s" and top: "last s = a1"
    and run: "(if a0 = a1 then appendDup (g_stackHeight g) l g
       else bindE (canBeRemoved a0 c c_invalidPosition g) (\<lambda>r0.
         if r0 then bindE (appendOrRemoveSwap (g_stackHeight g - 1) l g) (moveToTop a0 l)
         else copyToTop a0 l g)) = Inr g'"
  obtains s' where "gen_rel E val m T base stk\<^sub>0 w g' s'" "placed t 2 T s'"
proof -
  have ne: "s \<noteq> []" using pl by (auto simp: placed_def)
  have up: "placed t 2 T (s @ [a])" for a using placed_snoc [OF pl] by (simp add: numeral_2_eq_2)
  consider (dup) "a0 = a1" "appendDup (g_stackHeight g) l g = Inr g'"
    | (copy) "copyToTop a0 l g = Inr g'"
    | (move) g2 where "a0 \<noteq> a1" "canBeRemoved a0 c c_invalidPosition g = Inr True"
        "appendOrRemoveSwap (g_stackHeight g - 1) l g = Inr g2" "moveToTop a0 l g2 = Inr g'"
    using run by (auto simp: bindE_Inr_iff split: if_splits)
  then show thesis
  proof cases
    case dup
    show thesis by (rule that [OF dupTop_rel [OF g ne dup(2)] up])
  next
    case copy
    show thesis by (rule that [OF copyToTop_rel(1) [OF g copy] up])
  next
    case move
    obtain j where j: "j < length s" "t \<le> j" "s ! j = a0"
      by (rule canBeRemoved_index [OF g placed_mono [OF pl] move(2)]) simp_all
    have "j \<noteq> length s - 1" using j(3) top move(1) last_conv_nth [OF ne] by auto
    then have j2: "j \<le> length s - 2" "2 \<le> length s" using j(1) by linarith+
    define s2 where "s2 = swapTop (length s - 2) s"
    have g2: "gen_rel E val m T base stk\<^sub>0 w g2 s2"
      unfolding s2_def by (rule swapSecond_rel [OF g j2(2) move(3)])
    have p2: "placed t 0 T s2"
      unfolding s2_def by (rule placed_swapTop [OF placed_mono [OF pl]]) (use j2 j pl in \<open>simp_all add: placed_def\<close>)
    obtain i where i: "i < length s2" "s2 ! i = a0" "\<forall>j < length s2. s2 ! j = a0 \<longrightarrow> j \<le> i"
      "gen_rel E val m T base stk\<^sub>0 w g' (swapTop i s2)"
      by (rule moveToTop_rel [OF g2 move(4)])
    have "s2 ! (if j = length s - 2 then length s - 1 else j) = a0"
      using j j2 by (auto simp: s2_def nth_swapTop)
    then have "(if j = length s - 2 then length s - 1 else j) \<le> i"
      using i(3) j(1) by (simp add: s2_def split: if_splits)
    then have "t \<le> i" using j(2) by (simp split: if_splits)
    then have "placed t 2 T (swapTop i s2)"
      using placed_swapTop [OF p2 _ i(1), of 2] j2 j(2) by (simp add: s2_def)
    with i(4) show thesis by (rule that)
  qed
qed

lemma arrangeTwo_rel:
  assumes g: "gen_rel E val m T base stk\<^sub>0 w g s" and pl: "placed t 0 T s"
    and run: "arrangeTwo a0 a1 c l g = Inr g'"
  obtains s' where "gen_rel E val m T base stk\<^sub>0 w g' s'" "placed t 2 T s'"
proof -
  define rest where "rest g1 = (if a0 = a1 then appendDup (g_stackHeight g1) l g1
        else bindE (canBeRemoved a0 c c_invalidPosition g1) (\<lambda>r0.
          if r0 then bindE (appendOrRemoveSwap (g_stackHeight g1 - 1) l g1) (moveToTop a0 l)
          else copyToTop a0 l g1))" for g1
  have "bindE (canBeRemoved a1 c c_invalidPosition g) (\<lambda>r1.
     if r1 then bindE (moveToTop a1 l g) (\<lambda>g1. rest g1)
     else if a0 = a1 then bindE (copyToTop a0 l g) (\<lambda>g. appendDup (g_stackHeight g) l g)
     else
       bindE (canBeRemoved a0 c c_invalidPosition g) (\<lambda>r0.
       if r0 then
         bindE (moveToTop a0 l g) (\<lambda>g.
         bindE (copyToTop a1 l g) (\<lambda>g.
         appendOrRemoveSwap (g_stackHeight g - 1) l g))
       else bindE (copyToTop a1 l g) (copyToTop a0 l))) = Inr g'"
    using run unfolding arrangeTwo_def rest_def .
  then consider (removed) g1 where "canBeRemoved a1 c c_invalidPosition g = Inr True" "moveToTop a1 l g = Inr g1"
      "rest g1 = Inr g'"
    | (twice) g1 where "copyToTop a0 l g = Inr g1" "appendDup (g_stackHeight g1) l g1 = Inr g'"
    | (move) g1 g2 where "canBeRemoved a0 c c_invalidPosition g = Inr True" "moveToTop a0 l g = Inr g1"
        "copyToTop a1 l g1 = Inr g2" "appendOrRemoveSwap (g_stackHeight g2 - 1) l g2 = Inr g'"
    | (copy) g1 where "copyToTop a1 l g = Inr g1" "copyToTop a0 l g1 = Inr g'"
    by (auto simp: bindE_Inr_iff split: if_splits)
  then show thesis
  proof cases
    case removed
    obtain s1 where s1: "gen_rel E val m T base stk\<^sub>0 w g1 s1" "placed t 1 T s1" "last s1 = a1"
      by (rule moveToTop_placed [OF g pl removed(1,2)])
    show thesis by (rule arrangeTwo_removed [OF s1 removed(3) [unfolded rest_def]]) (rule that)
  next
    case twice
    have g1: "gen_rel E val m T base stk\<^sub>0 w g1 (s @ [a0])" by (rule copyToTop_rel(1) [OF g twice(1)])
    have "gen_rel E val m T base stk\<^sub>0 w g' ((s @ [a0]) @ [a0])"
      using dupTop_rel [OF g1 _ twice(2)] by simp
    then show thesis
      using placed_snoc [OF placed_snoc [OF pl]] by (intro that) (simp_all add: numeral_2_eq_2)
  next
    case move
    obtain s1 where s1: "gen_rel E val m T base stk\<^sub>0 w g1 s1" "placed t 1 T s1"
      by (rule moveToTop_placed [OF g pl move(1,2)])
    have g2: "gen_rel E val m T base stk\<^sub>0 w g2 (s1 @ [a1])" by (rule copyToTop_rel(1) [OF s1(1) move(3)])
    have l2: "2 \<le> length (s1 @ [a1])" using s1(2) by (auto simp: placed_def)
    have "placed t 2 T (swapTop (length (s1 @ [a1]) - 2) (s1 @ [a1]))"
      by (rule placed_swapTop) (use s1(2) in \<open>auto simp: placed_def\<close>)
    with swapSecond_rel [OF g2 l2 move(4)] show thesis by (rule that)
  next
    case copy
    have g1: "gen_rel E val m T base stk\<^sub>0 w g1 (s @ [a1])" by (rule copyToTop_rel(1) [OF g copy(1)])
    show thesis
      using copyToTop_rel(1) [OF g1 copy(2)] placed_snoc [OF placed_snoc [OF pl]]
      by (intro that) (simp_all add: numeral_2_eq_2)
  qed
qed

lemma arrangeArguments_rel:
  assumes g: "gen_rel E val m T base stk\<^sub>0 w g s" and pl: "placed t 0 T s"
    and run: "arrangeArguments args c l g = Inr g'"
  obtains s' where "gen_rel E val m T base stk\<^sub>0 w g' s'" "placed t (length args) T s'" "length args \<le> 2"
proof -
  consider "args = []" "g' = g" | a where "args = [a]" "arrangeOne a c l g = Inr g'"
    | a0 a1 where "args = [a0, a1]" "arrangeTwo a0 a1 c l g = Inr g'"
    using run by (auto simp: arrangeArguments_def split: list.splits)
  then show thesis
  proof cases
    case 1
    then show thesis using that [of s] g pl by simp
  next
    case (2 a)
    obtain s' where "gen_rel E val m T base stk\<^sub>0 w g' s'" "placed t 1 T s'"
      by (rule arrangeOne_rel [OF g pl 2(2)])
    then show thesis using that [of s'] 2 by simp
  next
    case (3 a0 a1)
    obtain s' where "gen_rel E val m T base stk\<^sub>0 w g' s'" "placed t 2 T s'"
      by (rule arrangeTwo_rel [OF g pl 3(2)])
    then show thesis using that [of s'] 3 by (simp add: numeral_2_eq_2)
  qed
qed

subsection \<open>Computing an element from its arguments\<close>

lemma checkArguments_rel:
  assumes "g_stack g = layout m s"
  shows "n \<le> length s \<Longrightarrow> length as \<le> n \<Longrightarrow> checkArguments as (m + int n - 1) g = Inr g' \<Longrightarrow>
    g' = g \<and> take n s = take (n - length as) s @ rev as"
proof (induction as arbitrary: n)
  case (Cons a as)
  obtain k where n: "n = Suc k" using Cons.prems(2) by (cases n) auto
  have k: "k < length s" "length as \<le> k" using Cons.prems(1,2) n by simp_all
  have p: "m + int n - 1 = m + int k" by (simp add: n)
  have "s ! k = a" "checkArguments as (m + int k - 1) g = Inr g'"
    using Cons.prems(3) stackRef_in [OF assms k(1)] by (simp_all add: p split: if_splits)
  then have "g' = g \<and> take k s = take (k - length as) s @ rev as"
    using Cons.IH [of k] k by simp
  then show ?case using \<open>s ! k = a\<close> k(1) by (simp add: n take_Suc_conv_app_nth)
qed simp

lemma swapTop_two: "swapTop (length (s @ [x, y]) - 2) (s @ [x, y]) = s @ [y, x]"
  by (simp add: swapTop_def list_update_append nth_append)

lemma commutative_item: "isCommutativeOperation it \<Longrightarrow>
    m_type it = Operation \<and> info_args (instructionInfo (m_instruction it)) = 2 \<and> info_ret (instructionInfo (m_instruction it)) = 1"
  by (auto simp: isCommutativeOperation_iff instr_table)

lemma exec_op_arithmetic:
  assumes "i \<in> set evm_ariths" and "length as = nat (info_args (instructionInfo i))"
  shows "exec_op E i (as @ rest) w = Next (the (evm_arith i as) # rest) w"
proof -
  have plain: "isValidInstruction i \<and> \<not> isPushInstruction i \<and> \<not> isDupInstruction i \<and>
      \<not> isSwapInstruction i \<and> i \<notin> set evm_halts \<and> i \<noteq> i_POP \<and> i \<noteq> i_JUMPDEST \<and> i \<noteq> i_JUMP \<and>
      i \<noteq> i_JUMPI"
    using assms(1) by (auto simp: evm_ariths_def evm_halts_def instr_class instr_table)
  obtain v where "evm_arith i as = Some v" using evm_arith_total [OF assms] by blast
  then show ?thesis using plain assms(2) by (simp add: exec_op_def Let_def)
qed

lemma commutative_arith:
  assumes "i \<in> set [i_ADD, i_MUL, i_EQ, i_AND, i_OR, i_XOR]"
  shows "i \<in> set evm_ariths" and "nat (info_args (instructionInfo i)) = 2"
    and "evm_arith i [x, y] = evm_arith i [y, x]"
proof -
  show "i \<in> set evm_ariths" using assms by (auto simp: evm_ariths_def)
  show "nat (info_args (instructionInfo i)) = 2" using assms by (auto simp: instr_table)
  show "evm_arith i [x, y] = evm_arith i [y, x]"
    using evm_arith2_commutes [OF assms, of x y] by (simp add: evm_arith_def)
qed

lemma exec_commutative:
  assumes "isCommutativeOperation it"
  shows "exec_item E it (x # y # stk) w = exec_item E it (y # x # stk) w"
proof -
  have i: "m_type it = Operation" "m_instruction it \<in> set [i_ADD, i_MUL, i_EQ, i_AND, i_OR, i_XOR]"
    using assms isCommutativeOperation_iff by blast+
  note c = commutative_arith [OF i(2)]
  have "exec_op E (m_instruction it) ([a, b] @ stk) w = Next (the (evm_arith (m_instruction it) [a, b]) # stk) w" for a b
    by (rule exec_op_arithmetic) (simp_all add: c(1,2))
  from this [of x y] this [of y x] show ?thesis using i(1) c(3) [of x y] by (simp add: exec_item_def)
qed

lemma dropSwaps_rel:
  assumes args: "isCommutativeOperation it \<Longrightarrow> length args = 2"
  shows "gen_rel E val m T base stk\<^sub>0 w g (s @ xs) \<Longrightarrow> xs = args \<or> isCommutativeOperation it \<and> xs = rev args \<Longrightarrow>
    dropSwaps n it g = Some (Inr g') \<Longrightarrow>
    \<exists>ys. gen_rel E val m T base stk\<^sub>0 w g' (s @ ys) \<and> (ys = args \<or> isCommutativeOperation it \<and> ys = rev args)"
proof (induction n arbitrary: g xs)
  case (Suc n)
  show ?case
  proof (cases "isCommutativeOperation it \<and> g_generatedItems g \<noteq> [] \<and>
         item_eq (last (g_generatedItems g)) (opItem i_SWAP1)")
    case True
    then obtain g1 where g1: "appendOrRemoveSwap (g_stackHeight g - 1) (m_location it) g = Inr g1"
      and rest: "dropSwaps n it g1 = Some (Inr g')"
      using Suc.prems(3) by (auto split: sum.splits)
    obtain a b where ab: "args = [a, b]" using args True by (auto simp: numeral_2_eq_2 length_Suc_conv)
    obtain x y where xs: "xs = [x, y]" "{[x, y], [y, x]} = {[a, b], [b, a]}"
      using Suc.prems(2) ab by auto
    have "gen_rel E val m T base stk\<^sub>0 w g1 (s @ [y, x])"
      using swapSecond_rel [OF Suc.prems(1) _ g1] xs(1) swapTop_two [of s x y] by simp
    moreover have "[y, x] = args \<or> isCommutativeOperation it \<and> [y, x] = rev args"
      using True Suc.prems(2) ab xs(1) by auto
    ultimately show ?thesis by (rule Suc.IH [OF _ _ rest])
  next
    case False
    then have "g' = g" using Suc.prems(3) by (simp split: if_splits)
    then show ?thesis using Suc.prems(1,2) by blast
  qed
qed simp

lemma consumeArguments_rel:
  "gen_stack m (s @ xs) g \<Longrightarrow>
     gen_stack m s (consumeArguments (length xs) (m + int (length (s @ xs)) - 1) g) \<and>
     g_stackHeight (consumeArguments (length xs) (m + int (length (s @ xs)) - 1) g) = g_stackHeight g \<and>
     g_generatedItems (consumeArguments (length xs) (m + int (length (s @ xs)) - 1) g) = g_generatedItems g \<and>
     g_targetStack (consumeArguments (length xs) (m + int (length (s @ xs)) - 1) g) = g_targetStack g \<and>
     g_finalClasses (consumeArguments (length xs) (m + int (length (s @ xs)) - 1) g) = g_finalClasses g"
proof (induction xs arbitrary: g rule: rev_induct)
  case (snoc x xs)
  let ?h = "m + int (length (s @ xs))"
  have h: "m + int (length (s @ xs @ [x])) - 1 = ?h" by simp
  have st: "g_stack g = layout m (s @ xs @ [x])" using snoc.prems by (simp add: gen_stack_def)
  have r: "stackRef ?h g = (x, g)"
    using stackRef_in [OF st, of "length (s @ xs)"] by (simp add: nth_append)
  have "gen_stack m (s @ xs) (eraseStack ?h (erasePosition x ?h g))"
    using gen_stack_pop [of m "s @ xs" x g ?h] snoc.prems by simp
  from snoc.IH [OF this] show ?case
    unfolding h by (simp only: length_append_singleton consumeArguments.simps r prod.case) simp
qed simp

definition computable :: "'w evm \<Rightarrow> 'w \<Rightarrow> (Id \<Rightarrow> u256) \<Rightarrow> Expression \<Rightarrow> bool" where
  "computable E w val e \<longleftrightarrow>
     (m_type (e_item e) \<noteq> Operation \<or> info_ret (instructionInfo (m_instruction (e_item e))) = 1) \<and>
     item_deposit (e_item e) = 1 - int (length (e_arguments e)) \<and>
     (\<forall>rest. exec_item E (e_item e) (map val (e_arguments e) @ rest) w = Next (val (e_id e) # rest) w)"

lemma gen_rel_push:
  assumes st: "gen_stack m s g" and h: "g_stackHeight g = m + int (length s) - 1 + int k"
    and items: "exec_block E (g_generatedItems g) stk\<^sub>0 w = Next stk w"
    and ex: "exec_item E it stk w = Next (val c # rev (map val s) @ base) w"
    and d: "item_deposit it = 1 - int k"
    and rest: "g_targetStack g = layout m T" "g_finalClasses g = set T"
  shows "gen_rel E val m T base stk\<^sub>0 w (let g = appendGenerated it g in
    insertPosition c (g_stackHeight g) (setStack (g_stackHeight g) c g)) (s @ [c])"
proof -
  have h': "g_stackHeight (appendGenerated it g) = m + int (length s)" using h d by simp
  have ok: "omap_ok (g_classPositions (setStack p c (appendGenerated it g)))" for p
    using st by (simp add: gen_stack_def gen_positions_def)
  show ?thesis
    unfolding Let_def h'
    using st exec_snoc [OF items, of it] ex rest layout_put_last [of m s c] h'
    by (simp add: gen_rel_def gen_stack_def gen_positions_def positions_insert [OF ok] layout_snoc_positions)
qed

lemma placed_append: "placed t (length ys) T (s @ xs) \<Longrightarrow> length xs = length ys \<Longrightarrow> placed t 0 T s"
  by (auto simp: placed_def)

lemma generateItem_rel:
  assumes g: "gen_rel E val m T base stk\<^sub>0 w g s" and pl: "placed t 0 T s"
    and comp: "computable E w val e" and id: "e_id e = c"
    and comm: "isCommutativeOperation (e_item e) \<Longrightarrow> length (e_arguments e) = 2"
    and run: "generateItem e c g = Some (Inr g')"
  obtains s' where "gen_rel E val m T base stk\<^sub>0 w g' s'" "placed t 0 T s'"
proof -
  let ?it = "e_item e" and ?args = "e_arguments e"
  define fin where "fin g = (let g = appendGenerated ?it (consumeArguments (length ?args) (g_stackHeight g) g) in
      if m_type ?it \<noteq> Operation \<or> info_ret (instructionInfo (m_instruction ?it)) = 1
      then Inr (insertPosition c (g_stackHeight g) (setStack (g_stackHeight g) c g))
      else if info_ret (instructionInfo (m_instruction ?it)) \<noteq> 0
      then Inl (OptimizerException ''Invalid number of return values.'')
      else Inr (touchPositions c g))" for g
  define drop where "drop g = dropSwaps (Suc (length (g_generatedItems g))) ?it g" for g
  have "(case bindE (arrangeArguments ?args c (m_location ?it) g) (\<lambda>g. checkArguments ?args (g_stackHeight g) g) of
        Inl x \<Rightarrow> Some (Inl x) | Inr g \<Rightarrow> map_option (\<lambda>r. bindE r (\<lambda>g. fin g)) (drop g)) = Some (Inr g')"
    using run unfolding generateItem_def Let_def fin_def drop_def .
  then obtain g1 g2 g3 where arr: "arrangeArguments ?args c (m_location ?it) g = Inr g1"
    and chk: "checkArguments ?args (g_stackHeight g1) g1 = Inr g2"
    and g3: "drop g2 = Some (Inr g3)" and fin: "fin g3 = Inr g'"
    by (auto simp: bindE_Inr_iff split: sum.splits)
  obtain s1 where s1: "gen_rel E val m T base stk\<^sub>0 w g1 s1" "placed t (length ?args) T s1"
    by (rule arrangeArguments_rel [OF g pl arr])
  define s0 where "s0 = take (length s1 - length ?args) s1"
  have st1: "g_stack g1 = layout m s1" and h1: "g_stackHeight g1 = m + int (length s1) - 1"
    using s1(1) by (simp_all add: gen_rel_def)
  have len: "length ?args \<le> length s1" using s1(2) by (simp add: placed_def)
  have g2: "g2 = g1" "s1 = s0 @ rev ?args"
    using checkArguments_rel [OF st1 order_refl len chk [unfolded h1]] by (simp_all add: s0_def)
  have g': "g' = (let g = appendGenerated ?it (consumeArguments (length ?args) (g_stackHeight g3) g3) in
       insertPosition c (g_stackHeight g) (setStack (g_stackHeight g) c g))"
    using fin comp by (auto simp: computable_def Let_def fin_def)
  obtain ys where ys: "gen_rel E val m T base stk\<^sub>0 w g3 (s0 @ ys)"
    "ys = rev ?args \<or> isCommutativeOperation ?it \<and> ys = rev (rev ?args)"
    using dropSwaps_rel [OF _ s1(1) [unfolded g2(2), folded g2(1)] _ g3 [unfolded drop_def], of "rev ?args"] comm by auto
  have ly: "length ys = length ?args" using ys(2) by auto
  have "exec_item E ?it (rev (map val (s0 @ ys)) @ base) w = Next (val c # rev (map val s0) @ base) w"
  proof (cases "ys = rev ?args")
    case True
    then show ?thesis using comp id by (simp add: computable_def rev_map)
  next
    case False
    then have c: "isCommutativeOperation ?it" and y: "ys = ?args" using ys(2) by auto
    obtain a b where ab: "?args = [a, b]" using comm [OF c] by (auto simp: numeral_2_eq_2 length_Suc_conv)
    have "exec_item E ?it (map val ?args @ rev (map val s0) @ base) w = Next (val c # rev (map val s0) @ base) w"
      using comp id by (simp add: computable_def)
    then show ?thesis using exec_commutative [OF c, of E "val a" "val b"] y ab by simp
  qed
  note ex = this
  note cons = consumeArguments_rel [OF gen_rel_stack [OF ys(1)]]
  have h3: "g_stackHeight g3 = m + int (length (s0 @ ys)) - 1" using ys(1) by (simp add: gen_rel_def)
  define g4 where "g4 = consumeArguments (length ?args) (g_stackHeight g3) g3"
  have c4: "gen_stack m s0 g4" "g_stackHeight g4 = g_stackHeight g3" "g_generatedItems g4 = g_generatedItems g3"
    "g_targetStack g4 = g_targetStack g3" "g_finalClasses g4 = g_finalClasses g3"
    unfolding g4_def h3 using cons ly h3 by simp_all
  have "gen_rel E val m T base stk\<^sub>0 w g' (s0 @ [c])"
    unfolding g' g4_def [symmetric]
  proof (rule gen_rel_push [OF c4(1) _ _ ex])
    show "g_stackHeight g4 = m + int (length s0) - 1 + int (length ?args)" using c4(2) h3 ly by simp
    show "exec_block E (g_generatedItems g4) stk\<^sub>0 w = Next (rev (map val (s0 @ ys)) @ base) w"
      using c4(3) ys(1) by (simp add: gen_rel_def)
    show "item_deposit ?it = 1 - int (length ?args)" using comp by (simp add: computable_def)
    show "g_targetStack g4 = layout m T" "g_finalClasses g4 = set T" using c4(4,5) ys(1) by (simp_all add: gen_rel_def)
  qed
  moreover have "placed t 0 T (s0 @ [c])"
    using placed_snoc [OF placed_append [of t ?args T s0 "rev ?args"]] s1(2) g2(2) by (auto simp: placed_def)
  ultimately show thesis by (rule that)
qed

subsection \<open>The recursion\<close>

definition all_computable :: "'w evm \<Rightarrow> 'w \<Rightarrow> (Id \<Rightarrow> u256) \<Rightarrow> ExpressionClasses \<Rightarrow> bool" where
  "all_computable E w val cs \<longleftrightarrow>
     (\<forall>c < classCount cs. let e = m_representatives cs ! c in
        m_type (e_item e) = UndefinedItem \<or>
        computable E w val e \<and> e_id e = c \<and>
        (isCommutativeOperation (e_item e) \<longrightarrow> length (e_arguments e) = 2))"

lemma representative_Inr: "representative cs c = Inr e \<longleftrightarrow> c < classCount cs \<and> e = m_representatives cs ! c"
  by (auto simp: representative_def)

lemma generateClassElement_rel:
  "generateClassElementF n cs c b g = Some (Inr g') \<Longrightarrow> all_computable E w val cs \<Longrightarrow>
     gen_rel E val m T base stk\<^sub>0 w g s \<Longrightarrow> placed t 0 T s \<Longrightarrow>
     \<exists>s'. gen_rel E val m T base stk\<^sub>0 w g' s' \<and> placed t 0 T s'"
  "generateArgumentsF n cs as g = Some (Inr g') \<Longrightarrow> all_computable E w val cs \<Longrightarrow>
     gen_rel E val m T base stk\<^sub>0 w g s \<Longrightarrow> placed t 0 T s \<Longrightarrow>
     \<exists>s'. gen_rel E val m T base stk\<^sub>0 w g' s' \<and> placed t 0 T s'"
proof (induction n cs c b g and n cs as g arbitrary: g' s and g' s
    rule: generateClassElementF_generateArgumentsF.induct)
  case (2 n cs c b g)
  obtain r g1 where r: "removeStackTopIfPossible g = Inr (r, g1)"
    using 2(2) by (auto split: if_splits sum.splits)
  have valid: "positionsValid g" using 2(2) by (auto split: if_splits)
  obtain s1 where s1: "gen_rel E val m T base stk\<^sub>0 w g1 s1" "placed t 0 T s1"
    by (rule removeStackTop_rel [OF 2(4,5) r])
  show ?case
  proof (cases "generated g1 c")
    case True
    then have "g' = g1" using 2(2) r valid by (auto split: if_splits)
    then show ?thesis using s1 by blast
  next
    case False
    obtain e where e: "representative cs c = Inr e" "m_type (e_item e) \<noteq> UndefinedItem"
      "\<not> \<not> (b \<or> e_sequenceNumber e = 0)"
      using 2(2) r valid False by (auto split: if_splits sum.splits)
    then obtain g2 where g2: "generateArgumentsF n cs (rev (e_arguments e)) g1 = Some (Inr g2)"
      "generateItem e c g2 = Some (Inr g')"
      using 2(2) r valid False by (auto split: if_splits sum.splits option.splits)
    obtain s2 where s2: "gen_rel E val m T base stk\<^sub>0 w g2 s2" "placed t 0 T s2"
      using 2(1) [OF _ r refl False e(1) e(3,2) g2(1) 2(3) s1] valid by blast
    have comp: "computable E w val e" "e_id e = c" "isCommutativeOperation (e_item e) \<Longrightarrow> length (e_arguments e) = 2"
      using 2(3) e(1,2) by (auto simp: all_computable_def representative_Inr Let_def)
    obtain s' where "gen_rel E val m T base stk\<^sub>0 w g' s'" "placed t 0 T s'"
      by (rule generateItem_rel [OF s2 comp g2(2)])
    then show ?thesis by blast
  qed
next
  case (4 n cs a as g)
  obtain g1 where g1: "generateClassElementF n cs a False g = Some (Inr g1)" "generateArgumentsF n cs as g1 = Some (Inr g')"
    using 4(3) by (auto split: option.splits sum.splits)
  obtain s1 where "gen_rel E val m T base stk\<^sub>0 w g1 s1" "placed t 0 T s1"
    using 4(1) [OF g1(1) 4(4-6)] by blast
  with 4(2) [OF g1(1) refl g1(2) 4(4)] show ?case by blast
qed auto

subsection \<open>From the initial stack to the target\<close>

lemma generateSequenced_rel:
  "generateSequencedF n cs es g = Some (Inr g') \<Longrightarrow> all_computable E w val cs \<Longrightarrow>
     gen_rel E val m T base stk\<^sub>0 w g s \<Longrightarrow> placed 0 0 T s \<Longrightarrow>
     \<exists>s'. gen_rel E val m T base stk\<^sub>0 w g' s' \<and> placed 0 0 T s'"
proof (induction n cs es g arbitrary: s rule: generateSequencedF.induct)
  case (2 n cs q c es g)
  show ?case
  proof (cases "generated g c")
    case True
    then show ?thesis using 2 by simp
  next
    case False
    then obtain g1 where g1: "generateClassElementF n cs c True g = Some (Inr g1)"
      "generateSequencedF n cs es g1 = Some (Inr g')"
      using 2(3) by (auto split: option.splits sum.splits)
    obtain s1 where "gen_rel E val m T base stk\<^sub>0 w g1 s1" "placed 0 0 T s1"
      using generateClassElement_rel(1) [OF g1(1) 2(4-6)] by blast
    then show ?thesis using 2(2) [OF False g1(1) refl g1(2) 2(4)] by blast
  qed
qed auto

lemma placed_Suc:
  assumes "placed t 0 T s" and "t < length s" and "t < length T" and "s ! t = T ! t"
  shows "placed (Suc t) 0 T s"
  using assms by (simp add: placed_def take_Suc_conv_app_nth)

lemma swap_in_range:
  assumes "gen_rel E val m T base stk\<^sub>0 w g s" and "appendOrRemoveSwap (m + int t) l g = Inr g'"
  shows "t < length s"
proof (rule ccontr)
  assume "\<not> t < length s"
  then have "\<not> 1 \<le> g_stackHeight g - (m + int t)" "m + int t \<noteq> g_stackHeight g" "g_stackHeight g - (m + int t) \<le> 16"
    using assms(1) by (auto simp: gen_rel_def)
  then show False using assms(2) by (auto simp: appendOrRemoveSwap_def Let_def split: if_splits)
qed

lemma placeTarget_rel:
  assumes g: "gen_rel E val m T base stk\<^sub>0 w g s" and pl: "placed t 0 T s" and t: "t < length T" "T ! t = c"
    and run: "placeTarget cs (m + int t) c g = Inr g'"
  obtains s' where "gen_rel E val m T base stk\<^sub>0 w g' s'" "placed (Suc t) 0 T s'"
proof (cases "m + int t \<in> positions g c")
  case True
  then have "g' = g" using run by (auto simp: placeTarget_def split: if_splits)
  moreover have "t < length s" "s ! t = c"
    using True g by (auto simp: gen_rel_def gen_positions_def map_of_layout split: if_splits)
  ultimately show thesis using that [OF _ placed_Suc [OF pl]] g t by simp
next
  case False
  have "positions g c \<noteq> {}" by (rule ccontr) (use run in \<open>simp add: placeTarget_def\<close>)
  then have "bindE (representative cs c) (\<lambda>e.
        bindE (classElementPosition c g) (\<lambda>position.
        bindE (if position < m + int t then appendDup position (m_location (e_item e)) g
               else appendOrRemoveSwap position (m_location (e_item e)) g)
          (appendOrRemoveSwap (m + int t) (m_location (e_item e))))) = Inr g'"
    using run False unfolding placeTarget_def by simp
  then obtain e :: Expression and p g1 where p: "classElementPosition c g = Inr p"
    and g1: "(if p < m + int t then appendDup p (m_location (e_item e)) g
               else appendOrRemoveSwap p (m_location (e_item e)) g) = Inr g1"
    and g': "appendOrRemoveSwap (m + int t) (m_location (e_item e)) g1 = Inr g'"
    unfolding bindE_Inr_iff by blast
  obtain i where i: "p = m + int i" "i < length s" "s ! i = c" by (rule classElementPosition_spec [OF g p])
  have "\<exists>s1. gen_rel E val m T base stk\<^sub>0 w g1 s1 \<and> placed t 0 T s1 \<and> last s1 = c"
  proof (cases "i < t")
    case True
    then have "gen_rel E val m T base stk\<^sub>0 w g1 (s @ [c])"
      using appendDup_rel [OF g i(2)] g1 i by simp
    then show ?thesis using placed_mono [OF placed_snoc [OF pl, of c]] by (intro exI [of _ "s @ [c]"]) simp
  next
    case False
    then have "gen_rel E val m T base stk\<^sub>0 w g1 (swapTop i s)"
      using appendOrRemoveSwap_rel [OF g i(2)] g1 i by simp
    moreover have "placed t 0 T (swapTop i s)"
      using placed_swapTop [OF pl _ i(2)] False i(2) by simp
    moreover have "last (swapTop i s) = c"
    proof -
      have "swapTop i s \<noteq> []" using i(2) length_swapTop [of i s] by (metis list.size(3) not_less_zero)
      then show ?thesis using nth_swapTop_last [OF i(2)] i(3) by (simp add: last_conv_nth)
    qed
    ultimately show ?thesis by blast
  qed
  then obtain s1 where s1: "gen_rel E val m T base stk\<^sub>0 w g1 s1" "placed t 0 T s1" "last s1 = c" by blast
  have r: "t < length s1" by (rule swap_in_range [OF s1(1) g'])
  have "last s1 = s1 ! (length s1 - 1)" using r by (intro last_conv_nth) auto
  then have "swapTop t s1 ! t = T ! t"
    using nth_swapTop [OF r r] s1(3) t(2) by (auto split: if_splits)
  then have "placed (Suc t) 0 T (swapTop t s1)"
    using placed_Suc [OF placed_swapTop [OF s1(2) order_refl r]] r t(1) by simp
  then show thesis using that appendOrRemoveSwap_rel [OF s1(1) r g'] by blast
qed

lemma generateTargets_rel:
  assumes comp: "all_computable E w val cs"
  shows "generateTargetsF n cs (layout (m + int t) (drop t T)) g = Some (Inr g') \<Longrightarrow>
     gen_rel E val m T base stk\<^sub>0 w g s \<Longrightarrow> placed t 0 T s \<Longrightarrow>
     \<exists>s'. gen_rel E val m T base stk\<^sub>0 w g' s' \<and> placed (length T) 0 T s'"
proof (induction "length T - t" arbitrary: t g s)
  case 0
  then have "drop t T = []" "t = length T" by (simp_all add: placed_def)
  then show ?case using 0 by auto
next
  case (Suc k)
  have t: "t < length T" and k: "k = length T - Suc t" using Suc.hyps(2) by simp_all
  have d: "layout (m + int t) (drop t T) = (m + int t, T ! t) # layout (m + int (Suc t)) (drop (Suc t) T)"
    using t by (simp add: Cons_nth_drop_Suc [symmetric] ac_simps)
  show ?case
  proof (cases "map_of (g_stack g) (m + int t) = Some (T ! t)")
    case True
    then have "t < length s" "s ! t = T ! t"
      using Suc.prems(2) by (auto simp: gen_rel_def map_of_layout split: if_splits)
    then have pl: "placed (Suc t) 0 T s" using placed_Suc [OF Suc.prems(3) _ t] by simp
    have "generateTargetsF n cs (layout (m + int (Suc t)) (drop (Suc t) T)) g = Some (Inr g')"
      using Suc.prems(1) True unfolding d by simp
    from Suc.hyps(1) [OF k this Suc.prems(2) pl] show ?thesis .
  next
    case False
    then obtain g1 g2 where g1: "generateClassElementF n cs (T ! t) False g = Some (Inr g1)"
      and g2: "placeTarget cs (m + int t) (T ! t) g1 = Inr g2"
      and rest: "generateTargetsF n cs (layout (m + int (Suc t)) (drop (Suc t) T)) g2 = Some (Inr g')"
      using Suc.prems(1) unfolding d by (auto split: option.splits sum.splits)
    obtain s1 where s1: "gen_rel E val m T base stk\<^sub>0 w g1 s1" "placed t 0 T s1"
      using generateClassElement_rel(1) [OF g1 comp Suc.prems(2,3)] by blast
    obtain s2 where s2: "gen_rel E val m T base stk\<^sub>0 w g2 s2" "placed (Suc t) 0 T s2"
      by (rule placeTarget_rel [OF s1 t refl g2])
    from Suc.hyps(1) [OF k rest s2] show ?thesis .
  qed
qed

lemma removeSurplus_rel:
  "removeSurplus n g = Some (Inr g') \<Longrightarrow> gen_rel E val m T base stk\<^sub>0 w g s \<Longrightarrow> placed t 0 T s \<Longrightarrow>
     \<exists>s'. gen_rel E val m T base stk\<^sub>0 w g' s' \<and> placed t 0 T s'"
proof (induction n arbitrary: g s)
  case (Suc n)
  obtain r g1 where r: "removeStackTopIfPossible g = Inr (r, g1)"
    and rest: "(if r then removeSurplus n g1 else Some (Inr g1)) = Some (Inr g')"
    using Suc.prems(1) by (auto split: sum.splits)
  obtain s1 where s1: "gen_rel E val m T base stk\<^sub>0 w g1 s1" "placed t 0 T s1"
    by (rule removeStackTop_rel [OF Suc.prems(2,3) r])
  show ?case using Suc.IH [OF _ s1] rest s1 by (cases r) auto
qed simp

lemma generateAll_rel:
  assumes comp: "all_computable E w val cs" and g: "gen_rel E val m T base stk\<^sub>0 w g s"
    and run: "generateAll n cs q g = Some (Inr g')"
  obtains s' where "gen_rel E val m T base stk\<^sub>0 w g' s'" "placed (length T) 0 T s'"
proof -
  obtain es g1 g2 where g1: "generateSequencedF n cs (sort (remdups es)) g = Some (Inr g1)"
    and g2: "generateTargetsF n cs (g_targetStack g1) g1 = Some (Inr g2)"
    and g3: "removeSurplus (Suc (length (g_stack g2))) g2 = Some (Inr g')"
    using run by (auto simp: generateAll_def split: sum.splits option.splits simp del: removeSurplus.simps)
  obtain s1 where s1: "gen_rel E val m T base stk\<^sub>0 w g1 s1" "placed 0 0 T s1"
    using generateSequenced_rel [OF g1 comp g] by (auto simp: placed_def)
  have "g_targetStack g1 = layout (m + int 0) (drop 0 T)" using s1(1) by (simp add: gen_rel_def)
  then obtain s2 where s2: "gen_rel E val m T base stk\<^sub>0 w g2 s2" "placed (length T) 0 T s2"
    using generateTargets_rel [OF comp _ s1] g2 by metis
  show thesis using removeSurplus_rel [OF g3 s2] that by blast
qed

text \<open>When the height is right the symbolic stack is the target.\<close>

lemma final_stack:
  assumes "gen_rel E val m T base stk\<^sub>0 w g s" and "placed (length T) 0 T s"
    and "finalHeight (m + int (length S) - 1) (layout m S) (layout m T) = g_stackHeight g"
  shows "s = T"
proof -
  have h: "g_stackHeight g = m + int (length s) - 1" using assms(1) by (simp add: gen_rel_def)
  have "length s = length T"
  proof (cases "T = []")
    case True
    then show ?thesis using assms(3) h fst_hd_layout [of S m] by (cases "S = []") (simp_all add: finalHeight_def)
  next
    case False
    then show ?thesis using assms(3) h fst_last_layout [of T m] by (simp add: finalHeight_def)
  qed
  then show ?thesis using assms(2) by (simp add: placed_def)
qed

lemma fold_insertPosition:
  assumes "omap_ok (g_classPositions g)"
  shows "omap_ok (g_classPositions (fold (\<lambda>(p, c). insertPosition c p) l g)) \<and>
    positions (fold (\<lambda>(p, c). insertPosition c p) l g) d = positions g d \<union> {p. (p, d) \<in> set l}"
  using assms
proof (induction l arbitrary: g)
  case (Cons q l)
  obtain p c where q: "q = (p, c)" by (cases q)
  show ?case
    using Cons.IH [of "insertPosition c p g"] positions_insert [OF Cons.prems, of c p] by (auto simp: q)
qed simp

lemma fold_insertPosition_fields:
  "g_stack (fold (\<lambda>(p, c). insertPosition c p) l g) = g_stack g \<and>
   g_stackHeight (fold (\<lambda>(p, c). insertPosition c p) l g) = g_stackHeight g \<and>
   g_generatedItems (fold (\<lambda>(p, c). insertPosition c p) l g) = g_generatedItems g \<and>
   g_targetStack (fold (\<lambda>(p, c). insertPosition c p) l g) = g_targetStack g \<and>
   g_storeOperations (fold (\<lambda>(p, c). insertPosition c p) l g) = g_storeOperations g \<and>
   g_neededBy (fold (\<lambda>(p, c). insertPosition c p) l g) = g_neededBy g \<and>
   g_finalClasses (fold (\<lambda>(p, c). insertPosition c p) l g) = g_finalClasses g"
  by (induction l arbitrary: g) (auto simp: insertPosition_def)

lemma initialGenerator_stack:
  "gen_stack m S (initialGenerator h (layout m S) (layout m T) (makeGenerator []))"
proof -
  let ?g = "emptyGenerator\<lparr>g_stackHeight := h, g_stack := layout m S, g_targetStack := layout m T\<rparr>"
  have g: "initialGenerator h (layout m S) (layout m T) (makeGenerator []) = fold (\<lambda>(p, c). insertPosition c p) (layout m S) ?g"
    by (simp add: initialGenerator_def makeGenerator_def emptyGenerator_def)
  have ok: "omap_ok (g_classPositions ?g)" and none: "positions ?g d = {}" for d
    by (simp_all add: emptyGenerator_def positions_def)
  have "map_of (layout m S) p = Some d \<longleftrightarrow> (p, d) \<in> set (layout m S)" for p d
    by (rule map_of_eq_Some_iff) (rule omap_ok_distinct [OF omap_ok_layout])
  then show ?thesis
    using fold_insertPosition [OF ok, of "layout m S"] fold_insertPosition_fields [of "layout m S" ?g]
    by (simp add: gen_stack_def gen_positions_def g none)
qed

lemma initialGenerator_fields:
  "g_stackHeight (initialGenerator h S T (makeGenerator [])) = h"
  "g_generatedItems (initialGenerator h S T (makeGenerator [])) = []"
  "g_targetStack (initialGenerator h S T (makeGenerator [])) = T"
  "g_storeOperations (initialGenerator h S T (makeGenerator [])) = []"
  "g_finalClasses (initialGenerator h S T (makeGenerator [])) = {}"
  by (simp_all add: initialGenerator_def fold_insertPosition_fields makeGenerator_def emptyGenerator_def)

subsection \<open>Enough fuel gives a result\<close>

lemma swap_shrinks:
  assumes "g_generatedItems g \<noteq> []" and "item_eq (last (g_generatedItems g)) (opItem i_SWAP1)"
    and "appendOrRemoveSwap (g_stackHeight g - 1) l g = Inr g'"
  shows "length (g_generatedItems g') < length (g_generatedItems g)"
proof -
  define g1 where "g1 = appendGenerated (itemOp i_SWAP1 l) g"
  have one: "swapInstruction (word_of_int 1) = Inr i_SWAP1" by (simp add: swapInstruction_def)
  have inv: "g_stackHeight g - 1 \<noteq> c_invalidPosition"
    by (rule ccontr) (use assms(3) in \<open>simp add: appendOrRemoveSwap_def\<close>)
  obtain g2 where g2: "g' = dropDoubleSwap g2" "g_generatedItems g2 = g_generatedItems g1"
    using assms(3) inv one
    by (auto simp: appendOrRemoveSwap_def Let_def g1_def stackRef_def split: option.splits if_splits)
  obtain xs x where xs: "g_generatedItems g = xs @ [x]" using assms(1) by (cases "g_generatedItems g" rule: rev_cases) auto
  have items: "g_generatedItems g2 = xs @ [x, itemOp i_SWAP1 l]" using g2(2) xs by (simp add: g1_def)
  have "item_eq x (itemOp i_SWAP1 l)" using assms(2) xs by (auto simp: item_eq_def itemOp_def split: if_splits)
  moreover have "itemIsSwap (itemOp i_SWAP1 l)" by (simp add: itemIsSwap_def instr_class itemOp_def)
  ultimately show ?thesis
    using g2(1) by (simp add: dropDoubleSwap_def Let_def items xs nth_append)
qed

lemma dropSwaps_total: "length (g_generatedItems g) < n \<Longrightarrow> dropSwaps n it g \<noteq> None"
proof (induction n arbitrary: g)
  case (Suc n)
  show ?case
  proof (cases "isCommutativeOperation it \<and> g_generatedItems g \<noteq> [] \<and>
         item_eq (last (g_generatedItems g)) (opItem i_SWAP1)")
    case True
    have "dropSwaps n it g1 \<noteq> None"
      if "appendOrRemoveSwap (g_stackHeight g - 1) (m_location it) g = Inr g1" for g1
      by (rule Suc.IH) (use swap_shrinks [OF _ _ that] True Suc.prems in simp)
    then show ?thesis using True by (auto split: sum.splits)
  next
    case False
    then show ?thesis by auto
  qed
qed simp

lemma generateItem_total: "generateItem e c g \<noteq> None"
  using dropSwaps_total by (auto simp: generateItem_def Let_def simp del: dropSwaps.simps split: sum.splits)

text \<open>The operands of a class are lighter than the class.\<close>

lemma arguments_lighter:
  assumes "sane cs" and "weighted cs wt" and "representative cs c = Inr e" and "a \<in> set (e_arguments e)"
  shows "wt a < wt c"
proof -
  have c: "c < classCount cs" "e = m_representatives cs ! c" using assms(3) by (simp_all add: representative_Inr)
  have wf: "expr_wf (classCount cs) e" using assms(1) c by (simp add: sane_def Let_def)
  have ws: "list_all (\<lambda>x. 1 \<le> x) (map wt (e_arguments e))"
    using wf assms(2) by (auto simp: expr_wf_def list_all_iff weighted_def)
  have op: "m_type (e_item e) = Operation" using wf assms(4) by (auto simp: expr_wf_def split: if_splits)
  have "wt c = exprWeight wt e" using assms(2) c by (simp add: weighted_def)
  then show ?thesis
    using opWeight_gt_operand ws op assms(4) by (auto simp: exprWeight_def)
qed

definition fuel_covers :: "nat \<Rightarrow> ExpressionClasses \<Rightarrow> (Id \<Rightarrow> nat) \<Rightarrow> Id \<Rightarrow> bool" where
  "fuel_covers n cs wt c \<longleftrightarrow> (c < classCount cs \<longrightarrow> wt c < n)"

lemma generateArguments_total:
  assumes "\<And>a g. a \<in> set as \<Longrightarrow> generateClassElementF n cs a False g \<noteq> None"
  shows "generateArgumentsF n cs as g \<noteq> None"
  using assms
proof (induction as arbitrary: g)
  case (Cons a as)
  have "generateClassElementF n cs a False g \<noteq> None" using Cons.prems by simp
  moreover have "generateArgumentsF n cs as g1 \<noteq> None" for g1 using Cons by simp
  ultimately show ?case by (auto split: option.splits sum.splits)
qed simp

lemma generateClassElement_total:
  assumes "sane cs" and "weighted cs wt"
  shows "0 < n \<Longrightarrow> fuel_covers n cs wt c \<Longrightarrow> generateClassElementF n cs c b g \<noteq> None"
proof (induction n arbitrary: c b g)
  case (Suc n)
  have "generateArgumentsF n cs (rev (e_arguments e)) g1 \<noteq> None" if "representative cs c = Inr e" for e g1
  proof (rule generateArguments_total)
    fix a g
    assume "a \<in> set (rev (e_arguments e))"
    then have "wt a < wt c" using arguments_lighter [OF assms that] by simp
    moreover have "wt c < Suc n" using Suc.prems(2) that by (simp add: fuel_covers_def representative_Inr)
    ultimately show "generateClassElementF n cs a False g \<noteq> None"
      by (intro Suc.IH) (auto simp: fuel_covers_def)
  qed
  then show ?case
    using generateItem_total by (auto simp del: not_None_eq split: sum.splits option.splits if_splits)
qed simp

lemma removeSurplus_total: "length (g_stack g) < n \<Longrightarrow> removeSurplus n g \<noteq> None"
proof (induction n arbitrary: g)
  case (Suc n)
  have "removeSurplus n g1 \<noteq> None" if r: "removeStackTopIfPossible g = Inr (True, g1)" for g1
  proof (rule Suc.IH)
    obtain c where c: "map_of (g_stack g) (g_stackHeight g) = Some c"
      and g1: "g_stack g1 = filter (\<lambda>q. fst q \<noteq> g_stackHeight g) (g_stack g)"
      using r by (auto simp: removeStackTopIfPossible_def bindE_Inr_iff split: if_splits option.splits)
    have "length (g_stack g1) < length (g_stack g)"
      unfolding g1 by (rule length_filter_less [OF map_of_SomeD [OF c]]) simp
    then show "length (g_stack g1) < n" using Suc.prems by simp
  qed
  then show ?case by (auto split: sum.splits)
qed simp

lemma generateAll_total:
  assumes "sane cs" and "weighted cs wt" and "0 < n" and "\<And>c. fuel_covers n cs wt c"
  shows "generateAll n cs q g \<noteq> None"
proof -
  note gce = generateClassElement_total [OF assms(1-3) assms(4)]
  have seq: "generateSequencedF n cs es g \<noteq> None" for es g
  proof (induction es arbitrary: g)
    case (Cons e es)
    show ?case
      using Cons gce [where c = "snd e" and b = True and g = g]
      by (cases e; cases "generateClassElementF n cs (snd e) True g"; cases "the (generateClassElementF n cs (snd e) True g)")
        (simp_all del: not_None_eq)
  qed simp
  have tgt: "generateTargetsF n cs ts g \<noteq> None" for ts g
  proof (induction ts arbitrary: g)
    case (Cons e ts)
    show ?case
      using Cons gce [where c = "snd e" and b = False and g = g]
      by (cases e; cases "generateClassElementF n cs (snd e) False g"; cases "the (generateClassElementF n cs (snd e) False g)")
        (simp_all del: not_None_eq split: sum.split)
  qed simp
  show ?thesis
    using removeSurplus_total seq tgt
    by (auto simp: generateAll_def simp del: removeSurplus.simps not_None_eq split: option.splits sum.splits)
qed

subsection \<open>The dependencies of a block without stores\<close>

definition keeps :: "ExpressionClasses \<Rightarrow> ('a \<Rightarrow> bool) \<Rightarrow> 'a CM \<Rightarrow> bool" where
  "keeps cs P F \<longleftrightarrow> (\<exists>r. F cs = Some r \<and> (\<forall>a cs'. r = Inr (a, cs') \<longrightarrow> cs' = cs \<and> P a))"

lemma keeps_return: "P a \<Longrightarrow> keeps cs P (cmReturn a)"
  by (simp add: keeps_def cmReturn_def)

lemma keeps_throw: "keeps cs P (cmThrow x)"
  by (simp add: keeps_def cmThrow_def)

lemma keeps_query: "(\<And>a. q cs = Inr a \<Longrightarrow> P a) \<Longrightarrow> keeps cs P (cmQuery q)"
  by (auto simp: keeps_def cmQuery_def split: sum.splits)

lemma keeps_bind:
  assumes "keeps cs P F" and "\<And>a. P a \<Longrightarrow> keeps cs Q (G a)"
  shows "keeps cs Q (cmBind F G)"
  using assms by (fastforce simp: keeps_def cmBind_def split: sum.splits)

lemma keeps_fold:
  assumes "\<And>x s. x \<in> set xs \<Longrightarrow> I s \<Longrightarrow> keeps cs I (f x s)" and "I s"
  shows "keeps cs I (foldCM f xs s)"
  using assms
proof (induction xs arbitrary: s)
  case Nil
  then show ?case by (simp add: keeps_return)
next
  case (Cons x xs)
  show ?case
    unfolding foldCM.simps
    by (rule keeps_bind [where P = I]) (use Cons in simp_all)
qed

definition only_needs :: "CSECodeGenerator \<Rightarrow> CSECodeGenerator \<Rightarrow> bool" where
  "only_needs g g' \<longleftrightarrow>
     g_generatedItems g' = g_generatedItems g \<and> g_stackHeight g' = g_stackHeight g \<and>
     g_stack g' = g_stack g \<and> g_classPositions g' = g_classPositions g \<and>
     g_storeOperations g' = g_storeOperations g \<and> g_targetStack g' = g_targetStack g"

lemma only_needs_needs [simp]: "only_needs g (needs a c h) \<longleftrightarrow> only_needs g h"
  by (simp add: only_needs_def needs_def)

lemma addDependencies_plain:
  assumes "sane cs" and "weighted cs wt"
  shows "0 < n \<Longrightarrow> fuel_covers n cs wt c \<Longrightarrow> only_needs g\<^sub>0 g \<Longrightarrow> g_storeOperations g\<^sub>0 = [] \<Longrightarrow>
    keeps cs (\<lambda>g'. only_needs g\<^sub>0 g' \<and> g_finalClasses g' = g_finalClasses g) (addDependenciesF n f c g)"
proof (induction n arbitrary: c g)
  case (Suc n)
  let ?I = "\<lambda>g'. only_needs g\<^sub>0 g' \<and> g_finalClasses g' = g_finalClasses g"
  have step: "keeps cs ?I (foldCM (\<lambda>a g. cmBind (addDependenciesF n f a g) (\<lambda>g. cmReturn (needs a c g))) (e_arguments e) g)"
    if e: "representative cs c = Inr e" for e
  proof (rule keeps_fold)
    fix a g1
    assume a: "a \<in> set (e_arguments e)" and I: "?I g1"
    have "wt a < wt c" by (rule arguments_lighter [OF assms e a])
    moreover have "wt c < Suc n" using Suc.prems(2) e by (simp add: fuel_covers_def representative_Inr)
    ultimately have "keeps cs (\<lambda>g'. only_needs g\<^sub>0 g' \<and> g_finalClasses g' = g_finalClasses g1) (addDependenciesF n f a g1)"
      using I Suc.prems(4) by (intro Suc.IH) (auto simp: fuel_covers_def)
    then show "keeps cs ?I (cmBind (addDependenciesF n f a g1) (\<lambda>g. cmReturn (needs a c g)))"
      by (rule keeps_bind) (rule keeps_return, use I in \<open>simp add: needs_def only_needs_def\<close>)
  qed (use Suc.prems(3) in simp)
  obtain L where eq: "addDependenciesF (Suc n) f c g =
     (if generated g c then cmReturn g
      else if c \<in> fst ` set (g_neededBy g) then cmReturn g
      else
        cmBind (cmQuery (\<lambda>cs. representative cs c)) (\<lambda>e.
        if m_type (e_item e) = UndefinedItem then cmThrow ItemNotAvailableException
        else
          cmBind (foldCM (\<lambda>a g. cmBind (addDependenciesF n f a g) (\<lambda>g. cmReturn (needs a c g)))
            (e_arguments e) g) (\<lambda>g. L e g)))"
    and L: "\<And>e g. g_storeOperations g = [] \<Longrightarrow> L e g = cmReturn g"
    by (rule that, rule addDependenciesF.simps(2)) (simp add: Let_def)
  have "keeps cs ?I (if m_type (e_item e) = UndefinedItem then cmThrow ItemNotAvailableException
        else cmBind (foldCM (\<lambda>a g. cmBind (addDependenciesF n f a g) (\<lambda>g. cmReturn (needs a c g)))
            (e_arguments e) g) (\<lambda>g. L e g))" if "representative cs c = Inr e" for e
  proof (cases "m_type (e_item e) = UndefinedItem")
    case False
    have "keeps cs ?I (L e g1)" if "?I g1" for g1
      using that Suc.prems(4) L [of g1 e] keeps_return [of ?I g1 cs] by (simp add: only_needs_def)
    then show ?thesis unfolding if_not_P [OF False] by (rule keeps_bind [OF step [OF that]])
  qed (simp add: keeps_throw)
  then have "keeps cs ?I (cmBind (cmQuery (\<lambda>cs. representative cs c)) (\<lambda>e.
        if m_type (e_item e) = UndefinedItem then cmThrow ItemNotAvailableException
        else cmBind (foldCM (\<lambda>a g. cmBind (addDependenciesF n f a g) (\<lambda>g. cmReturn (needs a c g)))
            (e_arguments e) g) (\<lambda>g. L e g)))"
    by (rule keeps_bind [OF keeps_query])
  moreover have "keeps cs ?I (cmReturn g)" using Suc.prems(3) by (simp add: keeps_return)
  ultimately show ?case unfolding eq by (cases "generated g c"; cases "c \<in> fst ` set (g_neededBy g)") simp_all
qed simp

lemma cmBind_return: "cmBind (cmReturn a) F = F a"
  by (simp add: fun_eq_iff cmBind_def cmReturn_def)

lemma findDependencies_plain:
  assumes "sane cs" and "weighted cs wt" and "0 < n" and "\<And>c. fuel_covers n cs wt c"
    and "g_storeOperations g = []" and "g_finalClasses g = {}"
  shows "keeps cs (\<lambda>g'. only_needs g g' \<and> g_finalClasses g' = snd ` set (g_targetStack g)) (findDependencies n f g)"
proof -
  note dep = addDependencies_plain [OF assms(1-4) _ assms(5)]
  have fold: "keeps cs (\<lambda>g'. only_needs g g' \<and> g_finalClasses g' = snd ` set ts \<union> F)
      (foldCM (\<lambda>t g. addDependenciesF n f (snd t) (g\<lparr>g_finalClasses := insert (snd t) (g_finalClasses g)\<rparr>)) ts g1)"
    if "only_needs g g1" "g_finalClasses g1 = F" for ts g1 F
    using that
  proof (induction ts arbitrary: g1 F)
    case Nil
    then show ?case by (simp add: keeps_return)
  next
    case (Cons t ts)
    let ?g = "g1\<lparr>g_finalClasses := insert (snd t) (g_finalClasses g1)\<rparr>"
    have g: "only_needs g ?g" using Cons.prems(1) by (simp add: only_needs_def)
    have eq: "snd ` set (t # ts) \<union> F = snd ` set ts \<union> insert (snd t) F" by auto
    show ?case
      unfolding foldCM.simps eq
    proof (rule keeps_bind [OF dep [OF g]])
      fix g2
      assume "only_needs g g2 \<and> g_finalClasses g2 = g_finalClasses ?g"
      then show "keeps cs (\<lambda>g'. only_needs g g' \<and> g_finalClasses g' = snd ` set ts \<union> insert (snd t) F)
         (foldCM (\<lambda>t g. addDependenciesF n f (snd t) (g\<lparr>g_finalClasses := insert (snd t) (g_finalClasses g)\<rparr>)) ts g2)"
        using Cons.prems(2) by (intro Cons.IH) simp_all
    qed
  qed
  have "only_needs g g" by (simp add: only_needs_def)
  from fold [OF this assms(6)] show ?thesis
    by (simp add: findDependencies_def assms(5) cmBind_return)
qed

text \<open>
  The code generated from the stack \<open>S\<close> for the target \<open>T\<close>, both above the same untouched
  elements, in a world in which every class but the undefined ones is computed by its item.
\<close>

lemma generateCode_plain:
  assumes "sane cs" and "weighted cs wt" and comp: "all_computable E w val cs"
    and stk: "stk = rev (map val S) @ base" and fuel: "sum_list (map wt [0..<classCount cs]) < n"
  shows "keeps cs (\<lambda>items. exec_block E items stk w = Next (rev (map val T) @ base) w)
    (generateCode n f q (m + int (length S) - 1) (layout m S) (layout m T) [])"
proof -
  have n: "0 < n" using fuel by simp
  have cover: "fuel_covers n cs wt c" for c
  proof -
    have "wt c \<le> sum_list (map wt [0..<classCount cs])" if "c < classCount cs"
      using that by (intro member_le_sum_list) auto
    then show ?thesis using fuel by (auto simp: fuel_covers_def)
  qed
  let ?h = "m + int (length S) - 1"
  define g\<^sub>0 where "g\<^sub>0 = initialGenerator ?h (layout m S) (layout m T) (makeGenerator [])"
  have st: "gen_stack m S g\<^sub>0" unfolding g\<^sub>0_def by (rule initialGenerator_stack)
  note fields = initialGenerator_fields [of ?h "layout m S" "layout m T", folded g\<^sub>0_def]
  have targets: "snd ` set (layout m T) = set T"
    by (induction T arbitrary: m) auto
  have dep: "keeps cs (\<lambda>g'. only_needs g\<^sub>0 g' \<and> g_finalClasses g' = set T) (findDependencies n f g\<^sub>0)"
    using findDependencies_plain [OF assms(1,2) n cover fields(4,5), of f] by (simp add: fields(3) targets)
  define fin where "fin g cs = (case generateAll n cs q g of
         None \<Rightarrow> None
       | Some (Inl x) \<Rightarrow> Some (Inl x)
       | Some (Inr g) \<Rightarrow>
           if finalHeight ?h (layout m S) (layout m T) \<noteq> g_stackHeight g
           then Some (Inl (OptimizerException ''Incorrect final stack height.''))
           else Some (Inr (g_generatedItems g, cs)))" for g cs
  have gc: "generateCode n f q ?h (layout m S) (layout m T) [] = cmBind (findDependencies n f g\<^sub>0) (\<lambda>g cs. fin g cs)"
    unfolding generateCode_def g\<^sub>0_def fin_def ..
  show ?thesis
    unfolding gc
  proof (rule keeps_bind [OF dep])
    fix g1
    assume g1: "only_needs g\<^sub>0 g1 \<and> g_finalClasses g1 = set T"
    have "gen_stack m S g1"
      using st g1 by (simp add: gen_stack_def gen_positions_def only_needs_def positions_def)
    then have rel: "gen_rel E val m T base stk w g1 S"
      using g1 fields stk by (simp add: gen_rel_def gen_stack_def only_needs_def)
    have "exec_block E (g_generatedItems g2) stk w = Next (rev (map val T) @ base) w"
      if r: "generateAll n cs q g1 = Some (Inr g2)" and h: "finalHeight ?h (layout m S) (layout m T) = g_stackHeight g2" for g2
    proof -
      obtain s where s: "gen_rel E val m T base stk w g2 s" "placed (length T) 0 T s"
        by (rule generateAll_rel [OF comp rel r])
      have "s = T" by (rule final_stack [OF s h])
      then show ?thesis using s(1) by (simp add: gen_rel_def)
    qed
    then show "keeps cs (\<lambda>items. exec_block E items stk w = Next (rev (map val T) @ base) w) (\<lambda>cs. fin g1 cs)"
      using generateAll_total [OF assms(1,2) n cover, of q g1]
      by (auto simp: keeps_def fin_def simp del: not_None_eq split: option.splits sum.splits)
  qed
qed

end
