(* ===== verification/PlainClasses.thy ===== *)
theory PlainClasses
  imports CSEGenerateSound
begin

section \<open>Blocks that only compute\<close>

text \<open>
  In a block of pushes, stack operations, arithmetic, constant reads and loads from storage,
  every class that \<open>KnownState\<close> makes, the simplification rules included, is one of these
  again, no store operation is recorded and the sequence number stays. So every class is
  computed by its item in the world of the block.
\<close>

subsection \<open>The rules make only pushes and arithmetic\<close>

definition wf_action :: "SimplificationRule \<Rightarrow> bool" where
  "wf_action r \<longleftrightarrow> (\<forall>mg q. r_action r mg = Inr q \<longrightarrow> pat_wf q)"

lemma wf_action_intros:
  "pat_wf q \<Longrightarrow> wf_action (mkRule p (returns q) b)"
  "(\<And>x. pat_wf (f x)) \<Longrightarrow> wf_action (mkRule p (withD A f) b)"
  "(\<And>x y. pat_wf (g x y)) \<Longrightarrow> wf_action (mkRule p (withD2 A B g) b)"
  "(\<And>x y z. pat_wf (h x y z)) \<Longrightarrow> wf_action (mkRule p (withD3 A B C h) b)"
  by (auto simp: wf_action_def mkRule_def returns_def withD_def withD2_def withD3_def bindE_Inr_iff)

lemma constantRules_action: "list_all wf_action (constantRules patA patB patC)"
  unfolding constantRules_def list.pred_inject
  by (intro conjI list.pred_inject(1); rule wf_action_intros) (simp_all add: op_args)

lemma knownConstantRules_action: "list_all wf_action (knownConstantRules patX)"
  unfolding knownConstantRules_def list.pred_inject
  by (intro conjI list.pred_inject(1); rule wf_action_intros) (simp_all add: op_args)

lemma selfRules_action: "list_all wf_action (selfRules patX)"
  unfolding selfRules_def list.pred_inject
  by (intro conjI list.pred_inject(1); rule wf_action_intros) (simp_all add: op_args)

lemma logicalRules_action: "list_all wf_action (logicalRules patX patY)"
  unfolding logicalRules_def list.pred_inject
  by (intro conjI list.pred_inject(1); rule wf_action_intros) (simp_all add: op_args)

lemma modRules_action: "list_all wf_action (modRules patX)"
  unfolding modRules_def list_all_iff
  by (auto simp: Let_def op_args intro!: wf_action_intros)

lemma addressMaskRules_action: "list_all wf_action addressMaskRules"
  unfolding addressMaskRules_def list_all_iff
  by (auto simp: Let_def op_args intro!: wf_action_intros)

lemma doubleNegationRules_action: "list_all wf_action (doubleNegationRules patX patY)"
  unfolding doubleNegationRules_def list_all_iff
  by (auto simp: op_args intro!: wf_action_intros)

lemma subtractionRules_action: "list_all wf_action (subtractionRules patA patX patY)"
  unfolding subtractionRules_def list.pred_inject
  by (intro conjI list.pred_inject(1); rule wf_action_intros) (simp_all add: op_args)

lemma associativeRulesFor_action:
  assumes "p \<in> set associativeOps"
  shows "list_all wf_action (associativeRulesFor patA patB patX patY p)"
proof -
  obtain i f where p: "p = (i, f)" by (cases p)
  have i: "info_args (instructionInfo i) = 2" "i \<in> set ruleOps"
    using assms p by (auto simp: associativeOps_def op_args)
  show ?thesis
    unfolding associativeRulesFor_def p prod.case list.map concat.simps append.simps list.pred_inject
    by (intro conjI list.pred_inject(1); rule wf_action_intros) (simp_all add: i)
qed

lemma allRules_action: "list_all wf_action allRules"
proof -
  have "list_all wf_action (concat (map (associativeRulesFor patA patB patX patY) associativeOps))"
    using associativeRulesFor_action by (auto simp: list_all_iff)
  then show ?thesis
    using constantRules_action knownConstantRules_action selfRules_action logicalRules_action modRules_action
      addressMaskRules_action doubleNegationRules_action subtractionRules_action
    by (auto simp: allRules_def simplificationRuleList_def simplificationRuleListPart1_def
        simplificationRuleListPart2_def list_all_iff)
qed

definition rule_item :: "AssemblyItem \<Rightarrow> bool" where
  "rule_item it \<longleftrightarrow> m_type it = Push \<or> m_type it = Operation \<and> m_instruction it \<in> set ruleOps"

fun rule_template :: "ExpressionTemplate \<Rightarrow> bool" where
  "rule_template (ExpressionTemplate h i it ts) \<longleftrightarrow> (h \<or> rule_item it) \<and> list_all rule_template ts"

lemma bindE_InrE:
  assumes "bindE m f = Inr y"
  obtains x where "m = Inr x" "f x = Inr y"
  using assms by (cases m) auto

lemma toTemplate_rule:
  "toTemplate q mg l = Inr t \<Longrightarrow> pat_wf q \<Longrightarrow> rule_template t"
  "toTemplates qs mg l = Inr ts \<Longrightarrow> list_all pat_wf qs \<Longrightarrow> list_all rule_template ts"
proof (induction q mg l and qs mg l arbitrary: t and ts rule: toTemplate_toTemplates.induct)
  case (1 ty r i d args g mg l)
  let ?p = "Pattern ty r i d args g"
  have args: "list_all pat_wf args" and base: "g = 0 \<Longrightarrow> ty = Operation \<and> i \<in> set ruleOps \<or> ty = Push"
    using 1(3) by (auto simp: pat_wf.simps)
  obtain x where x: "(if g \<noteq> 0 then bindE (patId ?p mg) (\<lambda>n. Inr (True, n, itemOfType UndefinedItem 0 noLocation))
      else bindE (toAssemblyItem ?p l) (\<lambda>it. Inr (False, noId, it))) = Inr x"
    and rest: "(case x of (h, n, it) \<Rightarrow> bindE (toTemplates args mg l) (\<lambda>ts. Inr (ExpressionTemplate h n it ts))) = Inr t"
    by (rule bindE_InrE [OF 1(2) [unfolded toTemplate.simps]])
  have item: "fst x \<or> rule_item (snd (snd x))"
  proof (cases "g = 0")
    case True
    then obtain it where "x = (False, noId, it)" "toAssemblyItem ?p l = Inr it"
      using x by (auto simp: bindE_Inr_iff)
    then show ?thesis
      using base [OF True] by (auto simp: toAssemblyItem_def bindE_Inr_iff rule_item_def itemOp_def itemOfType_def)
  next
    case False
    then show ?thesis using x by (auto simp: bindE_Inr_iff)
  qed
  obtain ts where ts: "toTemplates args mg l = Inr ts" "t = ExpressionTemplate (fst x) (fst (snd x)) (snd (snd x)) ts"
    using rest by (cases x) (auto simp: bindE_Inr_iff)
  show ?case using 1(1) [OF _ _ _ ts(1) args] item x by (cases x) (auto simp: ts(2))
qed (auto simp: bindE_Inr_iff)

lemma firstMatch_mem: "firstMatch rs e cs = Inr (Some (r, mg)) \<Longrightarrow> r \<in> set rs"
  by (induction rs) (auto simp: bindE_Inr_iff split: if_splits)

lemma simplifiedTemplate_rule:
  assumes "simplifiedTemplate cs e = Inr (Some t)"
  shows "rule_template t"
proof -
  obtain r mg q where r: "firstMatch (ruleTable (m_instruction (e_item e))) e cs = Inr (Some (r, mg))"
    and q: "r_action r mg = Inr q" and t: "toTemplate q mg (m_location (e_item e)) = Inr t"
    using assms
    by (auto simp: simplifiedTemplate_def makeRules_table findFirstMatch_def instructionOf_def bindE_Inr_iff
        split: if_splits option.splits prod.splits)
  have "r \<in> set allRules" using firstMatch_mem [OF r] by (simp add: ruleTable_def)
  then have "pat_wf q" using allRules_action q by (auto simp: list_all_iff wf_action_def)
  then show ?thesis using toTemplate_rule(1) [OF t] by blast
qed

subsection \<open>Plain classes\<close>

definition plain_item :: "nat \<Rightarrow> AssemblyItem \<Rightarrow> nat \<Rightarrow> bool" where
  "plain_item q it s \<longleftrightarrow>
     m_type it \<noteq> Tag \<and>
     (m_type it = Operation \<longrightarrow>
        m_instruction it \<in> set evm_ariths \<union> set constant_reads \<and> s = 0 \<or> m_instruction it = i_SLOAD \<and> s = q)"

definition plain_classes :: "nat \<Rightarrow> ExpressionClasses \<Rightarrow> bool" where
  "plain_classes q cs \<longleftrightarrow> list_all (\<lambda>e. plain_item q (e_item e) (e_sequenceNumber e)) (m_representatives cs)"

lemma plain_rule_item: "rule_item it \<Longrightarrow> plain_item q it 0"
  by (auto simp: rule_item_def plain_item_def ruleOps_def constant_reads_def)

lemma enterExpression_plain:
  assumes "plain_classes q cs" and "plain_item q (e_item e) (e_sequenceNumber e)" and "enterExpression cs e f = (i, cs')"
  shows "plain_classes q cs'"
  using assms by (auto simp: enterExpression_def plain_classes_def Let_def split: option.splits if_splits)

lemma find_plain:
  "findF n cs it args s = Some (Inr (i, cs')) \<Longrightarrow> plain_classes q cs \<Longrightarrow> plain_item q it s \<Longrightarrow> plain_classes q cs'"
  "tryToSimplifyF n cs e = Some (Inr (r, cs')) \<Longrightarrow> plain_classes q cs \<Longrightarrow> plain_classes q cs'"
  "rebuildF n cs t = Some (Inr (i, cs')) \<Longrightarrow> plain_classes q cs \<Longrightarrow> rule_template t \<Longrightarrow> plain_classes q cs'"
  "rebuildsF n cs ts = Some (Inr (ids, cs')) \<Longrightarrow> plain_classes q cs \<Longrightarrow> list_all rule_template ts \<Longrightarrow> plain_classes q cs'"
proof (induction n cs it args s and n cs e and n cs t and n cs ts
    arbitrary: i cs' and r cs' and i cs' and ids cs'
    rule: findF_tryToSimplifyF_rebuildF_rebuildsF.induct)
  case (2 n cs it args s)
  have e: "e_sequenceNumber (mkExpression it args s) = s" "e_item (mkExpression it args s) = it"
    by (simp_all add: mkExpression_def)
  from 2 show ?case
    by (force simp: Let_def e split: option.splits sum.splits if_splits intro: enterExpression_plain)
next
  case (3 n cs e)
  then show ?case using simplifiedTemplate_rule [of cs e] by (auto split: option.splits sum.splits)
next
  case (4 n cs h i it args)
  then show ?case using plain_rule_item by (force split: option.splits sum.splits if_splits)
next
  case (6 n cs t ts)
  then show ?case by (force split: option.splits sum.splits)
qed (auto)

lemma exec_op_read:
  assumes "i \<in> set evm_reads" and "length as = nat (info_args (instructionInfo i))"
  shows "exec_op E i (as @ rest) w = Next (ev_read E i as w # rest) w"
proof -
  have "list_all (\<lambda>i. isValidInstruction i \<and> \<not> isPushInstruction i \<and> \<not> isDupInstruction i \<and>
      \<not> isSwapInstruction i \<and> i \<notin> set evm_halts \<and> i \<noteq> i_POP \<and> i \<noteq> i_JUMPDEST \<and> i \<noteq> i_JUMP \<and>
      i \<noteq> i_JUMPI \<and> i \<notin> set evm_ariths) evm_reads"
    unfolding evm_reads_def list.pred_inject by (simp add: evm_halts_def evm_ariths_def instr_class instr_table)
  then have plain: "isValidInstruction i \<and> \<not> isPushInstruction i \<and> \<not> isDupInstruction i \<and>
      \<not> isSwapInstruction i \<and> i \<notin> set evm_halts \<and> i \<noteq> i_POP \<and> i \<noteq> i_JUMPDEST \<and> i \<noteq> i_JUMP \<and>
      i \<noteq> i_JUMPI \<and> i \<notin> set evm_ariths"
    unfolding list_all_iff by (rule bspec [OF _ assms(1)])
  have "evm_arith i as = None" using plain evm_arith_operation by (cases "evm_arith i as") auto
  then show ?thesis using plain assms by (simp add: exec_op_def Let_def)
qed

lemma constant_reads_facts:
  assumes "i \<in> set constant_reads"
  shows "i \<in> set evm_reads" and "i \<notin> set evm_ariths" and "isDeterministic it \<or> m_instruction it \<noteq> i"
proof -
  show "i \<in> set evm_reads" using assms by (auto simp: constant_reads_def evm_reads_def)
  show "i \<notin> set evm_ariths" using assms by (auto simp: constant_reads_def evm_ariths_def)
  show "isDeterministic it \<or> m_instruction it \<noteq> i" using assms by (auto simp: constant_reads_def isDeterministic_def)
qed

lemma arith_deterministic: "m_instruction it \<in> set evm_ariths \<Longrightarrow> isDeterministic it"
  by (auto simp: evm_ariths_def isDeterministic_def)

lemma plain_rows:
  assumes "i \<in> set evm_ariths \<or> i \<in> set constant_reads \<or> i = i_SLOAD"
  shows "info_ret (instructionInfo i) = 1" and "0 \<le> info_args (instructionInfo i)"
proof -
  have v: "isValidInstruction i"
    using assms by (auto simp: evm_ariths_def constant_reads_def instr_table)
  have r: "i \<in> set evm_ariths \<or> i \<in> set evm_reads"
    using assms constant_reads_facts(1) by (auto simp: evm_reads_def)
  show "info_ret (instructionInfo i) = 1" "0 \<le> info_args (instructionInfo i)"
    using opcode_facts [OF v] r by (simp_all add: opcode_facts_def)
qed

lemma plain_computable:
  assumes "sane cs" and "models env cs val" and "env_sees E env q w" and "plain_classes q cs"
  shows "all_computable E w val cs"
  unfolding all_computable_def Let_def
proof (intro allI impI)
  fix c
  assume c: "c < classCount cs"
  let ?e = "m_representatives cs ! c" and ?it = "e_item (m_representatives cs ! c)"
    and ?args = "e_arguments (m_representatives cs ! c)"
  have e: "e_id ?e = c" "expr_wf (classCount cs) ?e" using sane_representative [OF assms(1) c] by simp_all
  have pl: "plain_item q ?it (e_sequenceNumber ?e)" using assms(4) c by (simp add: plain_classes_def list_all_length)
  have holds: "expr_holds env val ?e" using assms(2) c by (simp add: models_def list_all_length)
  have v: "val c = item_sem env ?it (map val ?args) (e_sequenceNumber ?e)" if "isDeterministic ?it"
    using holds that e(1) by (simp add: expr_holds_def opaque_item_def expr_sem_def)
  have comm: "isCommutativeOperation ?it \<longrightarrow> length ?args = 2"
    using e(2) commutative_item by (auto simp: expr_wf_def)
  show "m_type ?it = UndefinedItem \<or> computable E w val ?e \<and> e_id ?e = c \<and> (isCommutativeOperation ?it \<longrightarrow> length ?args = 2)"
  proof (cases "m_type ?it = Operation")
    case op: True
    let ?i = "m_instruction ?it"
    have len: "length ?args = nat (info_args (instructionInfo ?i))" using e(2) op by (simp add: expr_wf_def)
    have kind: "?i \<in> set evm_ariths \<or> ?i \<in> set constant_reads \<or> ?i = i_SLOAD" using pl op by (auto simp: plain_item_def)
    note rows = plain_rows [OF kind]
    have d: "item_deposit ?it = 1 - int (length ?args)" using item_deposit_op [OF op] rows len by simp
    have "exec_op E ?i (map val ?args @ rest) w = Next (val c # rest) w" for rest
    proof (cases "?i \<in> set evm_ariths")
      case True
      have l: "length (map val ?args) = nat (info_args (instructionInfo ?i))" using len by simp
      obtain x where "evm_arith ?i (map val ?args) = Some x" using evm_arith_total [OF True l] by blast
      then have "val c = x" using v [OF arith_deterministic [OF True]] op by (simp add: item_sem_def)
      then show ?thesis
        using exec_op_arithmetic [OF True l] \<open>evm_arith ?i (map val ?args) = Some x\<close> by simp
    next
      case False
      then have read: "?i \<in> set evm_reads" using kind constant_reads_facts(1) by (auto simp: evm_reads_def)
      have none: "evm_arith ?i (map val ?args) = None"
        using False evm_arith_operation by (cases "evm_arith ?i (map val ?args)") auto
      have det: "isDeterministic ?it" using kind False constant_reads_facts(3) [of ?i ?it] by (auto simp: isDeterministic_def)
      have "val c = ev_read E ?i (map val ?args) w"
      proof (cases "?i = i_SLOAD")
        case True
        then have s: "e_sequenceNumber ?e = q" using pl op by (auto simp: plain_item_def constant_reads_def evm_ariths_def)
        obtain a where "?args = [a]" using len True by (auto simp: instr_table length_Suc_conv)
        then show ?thesis using v [OF det] none op True s assms(3) by (simp add: item_sem_def env_sees_def sload_def)
      next
        case no: False
        then have "?i \<in> set constant_reads" "e_sequenceNumber ?e = 0" using pl op False by (auto simp: plain_item_def)
        then show ?thesis using v [OF det] none op assms(3) by (simp add: item_sem_def env_sees_def)
      qed
      then show ?thesis using exec_op_read [OF read, of "map val ?args"] len by simp
    qed
    then have "computable E w val ?e"
      using op rows(1) d e(1) by (simp add: computable_def exec_item_def)
    then show ?thesis using e(1) comm by simp
  next
    case False
    have det: "isDeterministic ?it" using False by (simp add: isDeterministic_def)
    have "?args = []" using e(2) False by (simp add: expr_wf_def)
    moreover have "m_type ?it = UndefinedItem \<or> item_deposit ?it = 1 \<and>
        (\<forall>rest. exec_item E ?it rest w = Next (val c # rest) w)"
      using False pl v [OF det] assms(3)
      by (cases "m_type ?it") (simp_all add: plain_item_def item_deposit_def item_returnValues_def item_arguments_def
          exec_item_def item_sem_def env_sees_def)
    ultimately show ?thesis using False e(1) comm by (auto simp: computable_def)
  qed
qed

subsection \<open>Feeding a plain item\<close>

text \<open>Partial correctness: what holds of every result of an operation on the classes.\<close>

definition cm_inv :: "(ExpressionClasses \<Rightarrow> bool) \<Rightarrow> 'a CM \<Rightarrow> ('a \<Rightarrow> bool) \<Rightarrow> bool" where
  "cm_inv I F P \<longleftrightarrow> (\<forall>cs a cs'. I cs \<longrightarrow> F cs = Some (Inr (a, cs')) \<longrightarrow> I cs' \<and> P a)"

lemma cm_inv_return: "P a \<Longrightarrow> cm_inv I (cmReturn a) P"
  by (simp add: cm_inv_def cmReturn_def)

lemma cm_inv_throw: "cm_inv I (cmThrow x) P"
  by (simp add: cm_inv_def cmThrow_def)

lemma cm_inv_bind:
  assumes "cm_inv I F P" and "\<And>a. P a \<Longrightarrow> cm_inv I (G a) Q"
  shows "cm_inv I (cmBind F G) Q"
  unfolding cm_inv_def
proof (intro allI impI)
  fix cs b cs''
  assume I: "I cs" and r: "cmBind F G cs = Some (Inr (b, cs''))"
  obtain a cs' where f: "F cs = Some (Inr (a, cs'))" and g: "G a cs' = Some (Inr (b, cs''))"
    using r by (auto simp: cmBind_def split: option.splits sum.splits)
  have "I cs'" "P a" using assms(1) I f unfolding cm_inv_def by blast+
  then show "I cs'' \<and> Q b" using assms(2) g unfolding cm_inv_def by blast
qed

lemma cm_inv_bind_pair:
  assumes "cm_inv I F (\<lambda>(a, b). P a b)" and "\<And>a b. P a b \<Longrightarrow> cm_inv I (G a b) Q"
  shows "cm_inv I (cmBind F (\<lambda>(a, b). G a b)) Q"
  using assms(2) by (intro cm_inv_bind [OF assms(1)]) auto

lemma cm_inv_find: "plain_item q it s \<Longrightarrow> cm_inv (plain_classes q) (cmFind n it args s) (\<lambda>c. True)"
  using find_plain(1) by (fastforce simp: cm_inv_def cmFind_def)

lemma plain_undefined: "plain_item q (itemOfType UndefinedItem d l) 0"
  by (simp add: plain_item_def itemOfType_def)

definition same_seq :: "KnownState \<Rightarrow> KnownState \<Rightarrow> bool" where
  "same_seq ks ks' \<longleftrightarrow> ks_sequenceNumber ks' = ks_sequenceNumber ks"

lemma same_seq_simps [simp]:
  "same_seq ks ks" "same_seq ks (ks'\<lparr>ks_stackElements := x\<rparr>) = same_seq ks ks'"
  "same_seq ks (ks'\<lparr>ks_storageContent := y\<rparr>) = same_seq ks ks'"
  "same_seq ks (ks'\<lparr>ks_stackHeight := h\<rparr>) = same_seq ks ks'"
  "same_seq ks (setStackElement p c ks') = same_seq ks ks'"
  "same_seq ks (adjustHeight d ks') = same_seq ks ks'"
  by (simp_all add: same_seq_def setStackElement_def adjustHeight_def Let_def)

lemma stackElement_inv:
  assumes "same_seq ks\<^sub>0 ks"
  shows "cm_inv (plain_classes q) (stackElement n h l ks) (\<lambda>(c, ks'). same_seq ks\<^sub>0 ks')"
proof (cases "map_of (ks_stackElements ks) h")
  case None
  then show ?thesis
    unfolding stackElement_def None option.case
    by (intro cm_inv_bind [OF cm_inv_find [OF plain_undefined]] cm_inv_return) (use assms in simp)
next
  case (Some c)
  then show ?thesis unfolding stackElement_def using assms by (simp add: cm_inv_return)
qed

lemma stackArguments_inv:
  "same_seq ks\<^sub>0 ks \<Longrightarrow> cm_inv (plain_classes q) (stackArguments n k h l ks) (\<lambda>(as, ks'). same_seq ks\<^sub>0 ks')"
proof (induction k arbitrary: h ks)
  case (Suc k)
  show ?case
    unfolding stackArguments.simps
    by (intro cm_inv_bind_pair [OF stackElement_inv [OF Suc.prems]] cm_inv_bind_pair [OF Suc.IH] cm_inv_return) simp_all
qed (simp add: cm_inv_return)

definition computes :: "AssemblyItem \<Rightarrow> bool" where
  "computes it \<longleftrightarrow>
     (m_type it = Operation \<longrightarrow> itemIsDup it \<or> itemIsSwap it \<or> m_instruction it = i_POP \<or> m_instruction it = i_SLOAD \<or>
        m_instruction it \<in> set evm_ariths \<union> set constant_reads)"

lemma swapStackElements_inv:
  assumes "same_seq ks\<^sub>0 ks"
  shows "cm_inv (plain_classes q) (swapStackElements n a b l ks) (same_seq ks\<^sub>0)"
  unfolding swapStackElements_def
  by (cases "a = b")
    (simp_all add: cm_inv_throw cm_inv_return cm_inv_bind_pair [OF stackElement_inv [OF assms]] cm_inv_bind_pair [OF stackElement_inv])

lemma computes_cases:
  assumes "computes it" and "m_type it = Operation" and "\<not> itemIsDup it" and "\<not> itemIsSwap it"
    and "m_instruction it \<noteq> i_POP"
  shows "m_instruction it = i_SLOAD \<or>
    m_instruction it \<notin> {i_SLOAD, i_SSTORE, i_MSTORE, i_MLOAD, i_KECCAK256} \<and>
    m_instruction it \<in> set evm_ariths \<union> set constant_reads \<and>
    \<not> invalidatesMemory (m_instruction it) \<and> \<not> invalidatesStorage (m_instruction it)"
proof -
  have "list_all (\<lambda>i. i \<notin> {i_SLOAD, i_SSTORE, i_MSTORE, i_MLOAD, i_KECCAK256} \<and>
      \<not> invalidatesMemory i \<and> \<not> invalidatesStorage i) (evm_ariths @ constant_reads)"
    unfolding evm_ariths_def constant_reads_def append.simps list.pred_inject
    by (simp add: invalidatesMemory_def invalidatesStorage_def)
  then show ?thesis using assms unfolding computes_def list_all_iff set_append by metis
qed

lemma feedOperation_plain:
  assumes "computes it" and op: "m_type it = Operation" and q: "q = ks_sequenceNumber ks"
  shows "cm_inv (plain_classes q) (feedOperation n it ks) (\<lambda>(op, ks'). \<not> isValidOperation op \<and> same_seq ks ks')"
proof -
  have inv: "\<not> isValidOperation invalidOperation" by (simp add: isValidOperation_def invalidOperation_def)
  consider (dup) "itemIsDup it" | (swap) "\<not> itemIsDup it" "itemIsSwap it"
    | (pop) "\<not> itemIsDup it" "\<not> itemIsSwap it" "m_instruction it = i_POP"
    | (other) "\<not> itemIsDup it" "\<not> itemIsSwap it" "m_instruction it \<noteq> i_POP" by blast
  then show ?thesis
  proof cases
    case dup
    then show ?thesis
      unfolding feedOperation_def Let_def if_P [OF dup]
      by (intro cm_inv_bind_pair [OF stackElement_inv] cm_inv_return) (simp_all add: inv)
  next
    case swap
    show ?thesis
      unfolding feedOperation_def Let_def if_not_P [OF swap(1)] if_P [OF swap(2)]
      by (intro cm_inv_bind [OF swapStackElements_inv] cm_inv_return) (simp_all add: inv)
  next
    case pop
    then show ?thesis by (simp add: feedOperation_def cm_inv_return inv)
  next
    case other
    have "cm_inv (plain_classes q) (feedSwitch n it h args ks') (\<lambda>(op, ks'). \<not> isValidOperation op \<and> same_seq ks ks')"
      if same: "same_seq ks ks'" for h args ks'
    proof (cases "m_instruction it = i_SLOAD")
      case True
      have load: "plain_item q (itemOp i_SLOAD l) (ks_sequenceNumber ks')" for l
        using same q by (simp add: plain_item_def same_seq_def itemOp_def)
      have "cm_inv (plain_classes q) (loadFromStorage n a l ks') (\<lambda>(c, ks'). same_seq ks ks')" for a l
        by (cases "map_of (ks_storageContent ks') a")
          (auto simp: loadFromStorage_def same intro!: cm_inv_return cm_inv_bind [OF cm_inv_find [OF load]])
      then show ?thesis
        unfolding feedSwitch_def Let_def True
        by (simp, intro cm_inv_bind_pair [where P = "\<lambda>c ks'. same_seq ks ks'"] cm_inv_return) (simp_all add: inv)
    next
      case False
      then have i: "m_instruction it \<notin> {i_SLOAD, i_SSTORE, i_MSTORE, i_MLOAD, i_KECCAK256}"
        "m_instruction it \<in> set evm_ariths \<union> set constant_reads"
        "\<not> invalidatesMemory (m_instruction it)" "\<not> invalidatesStorage (m_instruction it)"
        using computes_cases [OF assms(1) op other] by blast+
      have ret: "info_ret (instructionInfo (m_instruction it)) = 1" using plain_rows(1) i(2) by blast
      have pl: "plain_item q it 0" using i(2) op by (simp add: plain_item_def)
      have "cm_inv (plain_classes q) (feedOther n it args ks') (same_seq ks)"
        using i(3,4) ret by (simp add: feedOther_def cm_inv_bind [OF cm_inv_find [OF pl]] cm_inv_return same)
      then have "cm_inv (plain_classes q) (cmBind (feedOther n it args ks') (\<lambda>ks. cmReturn (invalidOperation, ks)))
          (\<lambda>(op, ks'). \<not> isValidOperation op \<and> same_seq ks ks')"
        by (rule cm_inv_bind) (simp add: cm_inv_return inv)
      then show ?thesis using i(1) by (simp add: feedSwitch_def Let_def)
    qed
    then show ?thesis
      unfolding feedOperation_def Let_def if_not_P [OF other(1)] if_not_P [OF other(2)] if_not_P [OF other(3)]
      by (intro cm_inv_bind_pair [OF stackArguments_inv [where ks\<^sub>0 = ks]]) simp_all
  qed
qed

lemma feedItem_plain:
  assumes "computes it" and "m_type it \<noteq> Tag" and q: "q = ks_sequenceNumber ks"
  shows "cm_inv (plain_classes q) (feedItem n it ks) (\<lambda>(op, ks'). \<not> isValidOperation op \<and> same_seq ks ks')"
proof (cases "m_type it = Operation")
  case True
  then show ?thesis
    unfolding feedItem_def using assms(2)
    by (simp, intro cm_inv_bind_pair [OF feedOperation_plain [OF assms(1) True q]] cm_inv_return) simp
next
  case False
  have inv: "\<not> isValidOperation invalidOperation" by (simp add: isValidOperation_def invalidOperation_def)
  have "plain_item q it 0" "plain_item q (pushItem v) 0" for v
    using False assms(2) by (simp_all add: plain_item_def itemPush_def itemOfType_def)
  then have "cm_inv (plain_classes q) (case m_pushedValue it of Some v \<Rightarrow> cmFind n (pushItem v) [] 0
      | None \<Rightarrow> cmFind n it [] 0) (\<lambda>c. True)"
    using cm_inv_find by (cases "m_pushedValue it") simp_all
  then have "cm_inv (plain_classes q) (cmBind (case m_pushedValue it of Some v \<Rightarrow> cmFind n (pushItem v) [] 0
      | None \<Rightarrow> cmFind n it [] 0) (\<lambda>c. cmReturn (invalidOperation,
        setStackElement (ks_stackHeight ks + 1) c (ks\<lparr>ks_stackHeight := ks_stackHeight ks + 1\<rparr>))))
      (\<lambda>(op, ks'). \<not> isValidOperation op \<and> same_seq ks ks')"
    by (rule cm_inv_bind) (simp add: cm_inv_return inv)
  then show ?thesis
    using False assms(2) by (simp add: feedItem_def Let_def cm_inv_throw)
qed

end
