(* ===== verification/CSESound.thy ===== *)
theory CSESound
  imports PlainClasses KnownStateProps
begin

section \<open>Common subexpression elimination keeps the behaviour of a block\<close>

text \<open>
  The eliminator as a whole on a block of computing items, with the item that ends the block:
  feeding is total and sound, the classes of the initial and the final stack are read off, the
  code generated runs from one to the other, and the ending item is replaced only by one with
  the same effect.
\<close>

subsection \<open>Feeding the block\<close>

lemma computes_next:
  assumes "computes it" and "m_type it \<noteq> Tag" and "exec_item E it stk w \<noteq> Fail"
  obtains stk' where "exec_item E it stk w = Next stk' w"
proof (cases "m_type it = Operation")
  case True
  let ?i = "m_instruction it" and ?n = "nat (info_args (instructionInfo (m_instruction it)))"
  have ex: "exec_item E it stk w = exec_op E ?i stk w" using True by (simp add: exec_item_def)
  then have "exec_op E ?i stk w \<noteq> Fail" using assms(3) by simp
  then have "?n \<le> length stk" by (auto simp: exec_op_def Let_def split: if_splits)
  then have l: "length (take ?n stk) = ?n" by simp
  have "i_SLOAD \<in> set evm_reads" by (simp add: evm_reads_def)
  then have "isDupInstruction ?i \<or> isSwapInstruction ?i \<or> ?i = i_POP \<or> ?i \<in> set evm_ariths \<or> ?i \<in> set evm_reads"
    using assms(1) True constant_reads_facts(1) unfolding computes_def itemIsDup_op [OF True] itemIsSwap_op [OF True] by (metis Un_iff)
  then consider "isDupInstruction ?i" | "\<not> isDupInstruction ?i" "isSwapInstruction ?i"
    | "\<not> isDupInstruction ?i" "\<not> isSwapInstruction ?i" "?i = i_POP" | "?i \<in> set evm_ariths" | "?i \<in> set evm_reads"
    by blast
  then have "\<exists>stk'. exec_op E ?i stk w = Next stk' w"
  proof cases
    case 4
    then show ?thesis using exec_op_arithmetic [OF 4 l, of E "drop ?n stk" w] by simp
  next
    case 5
    then show ?thesis using exec_op_read [OF 5 l, of E "drop ?n stk" w] by simp
  qed (use assms(3) ex in \<open>auto simp: exec_op_def Let_def split: if_splits\<close>)
  then show ?thesis using that ex by metis
next
  case False
  then have "\<exists>stk'. exec_item E it stk w = Next stk' w"
    using assms(2,3) by (simp add: exec_item_def split: AssemblyItemType.splits)
  then show ?thesis using that by blast
qed

lemma computes_world:
  assumes "computes it" and "m_type it \<noteq> Tag" and "exec_item E it stk w = Next stk' w'"
  shows "w' = w"
proof -
  have "exec_item E it stk w \<noteq> Fail" using assms(3) by simp
  then obtain s where "exec_item E it stk w = Next s w" by (rule computes_next [OF assms(1,2)])
  then show ?thesis using assms(3) by simp
qed

text \<open>The symbolic state of the block, and the machine that it describes.\<close>

definition block_inv :: "'w evm \<Rightarrow> u256 list \<Rightarrow> 'w \<Rightarrow> environment \<Rightarrow> ExpressionClasses \<Rightarrow> (Id \<Rightarrow> u256) \<Rightarrow> KnownState \<Rightarrow>
    u256 list \<Rightarrow> bool" where
  "block_inv E stk\<^sub>0 w env cs val ks stk \<longleftrightarrow>
     explained E env 1 cs val w \<and> state_true E env (int (length stk\<^sub>0)) cs val ks stk w \<and>
     ks_sequenceNumber ks = 1 \<and> plain_classes 1 cs \<and> env_push env = env_push (initial_env E stk\<^sub>0 w)"

definition plain_block :: "'w evm \<Rightarrow> bool \<Rightarrow> AssemblyItems \<Rightarrow> bool" where
  "plain_block E msize its \<longleftrightarrow>
     list_all (\<lambda>it. \<not> breaksCSEAnalysisBlock it msize \<and> computes it \<and> pushed_ok E it) its"

lemma computes_keccak_free: "computes it \<Longrightarrow> keccak_free it"
proof -
  have "\<not> isDupInstruction i_KECCAK256" "\<not> isSwapInstruction i_KECCAK256" by (simp_all add: instr_class)
  moreover have "i_KECCAK256 \<notin> set evm_ariths" "i_KECCAK256 \<notin> set constant_reads"
    by (simp_all add: evm_ariths_def constant_reads_def)
  ultimately show "computes it \<Longrightarrow> keccak_free it"
    unfolding computes_def keccak_free_def itemIsDup_def itemIsSwap_def by auto
qed

lemma block_inv_initial:
  assumes "evm_laws E" and "length stk < 2 ^ 255"
  shows "block_inv E stk w (initial_env E stk w) emptyClasses val freshState stk"
  using initial_explained [OF assms(1)] initial_true [OF assms(2)]
  by (simp add: block_inv_def freshState_def plain_classes_def emptyClasses_def)

lemma feedItem_block:
  assumes laws: "evm_laws E" and inv: "block_inv E stk\<^sub>0 w env cs val ks stk"
    and it: "computes it" "m_type it \<noteq> Tag" "pushed_ok E it" and run: "exec_item E it stk w = Next stk' w'"
  obtains n\<^sub>0 op ks' cs' val' env' where
    "\<forall>n > n\<^sub>0. feedItem n it ks cs = Some (Inr ((op, ks'), cs'))" "\<not> isValidOperation op"
    "block_inv E stk\<^sub>0 w env' cs' val' ks' stk'" "w' = w" "extends cs val cs' val'"
proof -
  note b = inv [unfolded block_inv_def]
  have w: "w' = w" by (rule computes_world [OF it(1,2) run])
  have ex: "explained E env (ks_sequenceNumber ks) cs val w" using b by simp
  have st: "state_true E env (int (length stk\<^sub>0)) cs val ks stk w" using b by simp
  have run': "after (exec_item E it stk w) stk' w" using run w by (simp add: after_def)
  obtain n\<^sub>0 op ks' cs' val' env' where f: "\<forall>n > n\<^sub>0. feedItem n it ks cs = Some (Inr ((op, ks'), cs'))"
    and r: "explained E env' (ks_sequenceNumber ks') cs' val' w" "state_true E env' (int (length stk\<^sub>0)) cs' val' ks' stk' w"
      "env_agree (ks_sequenceNumber ks) env env'" "extends cs val cs' val'"
    using feedItem_sound [OF laws ex st computes_keccak_free [OF it(1)] it(3) run'] by blast
  have q: "1 = ks_sequenceNumber ks" using b by simp
  have fn: "feedItem (Suc n\<^sub>0) it ks cs = Some (Inr ((op, ks'), cs'))" using f by blast
  have "cm_inv (plain_classes 1) (feedItem (Suc n\<^sub>0) it ks) (\<lambda>(op, ks'). \<not> isValidOperation op \<and> same_seq ks ks')"
    by (rule feedItem_plain [OF it(1,2) q])
  then have p: "plain_classes 1 cs'" "\<not> isValidOperation op" "same_seq ks ks'"
    using b fn unfolding cm_inv_def by blast+
  have "block_inv E stk\<^sub>0 w env' cs' val' ks' stk'"
    using r p b by (simp add: block_inv_def same_seq_def env_agree_def)
  then show thesis using that [of n\<^sub>0 op ks' cs' env' val'] f p(2) w r(4) by blast
qed

lemma breaks_Tag: "\<not> breaksCSEAnalysisBlock it m \<Longrightarrow> m_type it \<noteq> Tag"
  by (auto simp: breaksCSEAnalysisBlock_def)

lemma feedLoop_block:
  assumes laws: "evm_laws E"
  shows "plain_block E msize its \<Longrightarrow> block_inv E stk\<^sub>0 w env cs val (c_state el) stk \<Longrightarrow>
    exec_block E its stk w = Next stk' w' \<Longrightarrow>
    \<exists>n\<^sub>0 ks' cs' val' env'. (\<forall>n > n\<^sub>0. feedLoop n (its @ tail) msize el cs = feedLoop n tail msize (el\<lparr>c_state := ks'\<rparr>) cs') \<and>
      block_inv E stk\<^sub>0 w env' cs' val' ks' stk' \<and> w' = w"
proof (induction its arbitrary: env cs val el stk)
  case Nil
  have "el\<lparr>c_state := c_state el\<rparr> = el" by simp
  with Nil show ?case
    by (intro exI [of _ 0] exI [of _ "c_state el"] exI [of _ cs] exI [of _ val] exI [of _ env]) simp
next
  case (Cons it its)
  have it: "\<not> breaksCSEAnalysisBlock it msize" "computes it" "pushed_ok E it" and its: "plain_block E msize its"
    using Cons.prems(1) by (simp_all add: plain_block_def)
  obtain stk1 w1 where run: "exec_item E it stk w = Next stk1 w1" "exec_block E its stk1 w1 = Next stk' w'"
    using Cons.prems(3) by (auto split: step.splits)
  obtain n1 op ks1 cs1 v1 e1 where f1: "\<forall>n > n1. feedItem n it (c_state el) cs = Some (Inr ((op, ks1), cs1))"
    and op: "\<not> isValidOperation op" and b1: "block_inv E stk\<^sub>0 w e1 cs1 v1 ks1 stk1" and w1: "w1 = w"
    by (rule feedItem_block [OF laws Cons.prems(2) it(2) breaks_Tag [OF it(1)] it(3) run(1)])
  have b1': "block_inv E stk\<^sub>0 w e1 cs1 v1 (c_state (el\<lparr>c_state := ks1\<rparr>)) stk1" using b1 by simp
  obtain n2 ks2 cs2 v2 e2 where f2: "\<forall>n > n2. feedLoop n (its @ tail) msize (el\<lparr>c_state := ks1\<rparr>) cs1 =
      feedLoop n tail msize (el\<lparr>c_state := ks2\<rparr>) cs2" and b2: "block_inv E stk\<^sub>0 w e2 cs2 v2 ks2 stk'" "w' = w"
    using Cons.IH [OF its b1' run(2) [unfolded w1]] by auto
  have "feedLoop n ((it # its) @ tail) msize el cs = feedLoop n tail msize (el\<lparr>c_state := ks2\<rparr>) cs2"
    if n: "max n1 n2 < n" for n
  proof -
    have "eliminatorFeed n it el cs = Some (Inr (el\<lparr>c_state := ks1\<rparr>, cs1))"
      using f1 op n by (simp add: eliminatorFeed_def cmBind_def cmReturn_def)
    then show ?thesis using f2 n it(1) by (simp add: cmBind_def)
  qed
  then show ?case using b2 by blast
qed

subsection \<open>The initial and the final stack\<close>

lemma stackContents_total:
  assumes "env_ok env"
  shows "classes_ok env q cs val \<Longrightarrow>
    stack_ok (env_push env UndefinedItem) b (classCount cs) val H (ks_stackElements ks) stk \<Longrightarrow>
    - b < h \<Longrightarrow> h + int k \<le> H + 1 \<Longrightarrow>
    cm_total (\<lambda>n. stackContents n k h ks) env q cs val
    (\<lambda>(l, ks') cs' val'. \<exists>s els. l = layout h s \<and> length s = k \<and>
       (\<forall>j < k. s ! j < classCount cs' \<and> val' (s ! j) = stk ! nat (H - h - int j)) \<and>
       ks' = ks\<lparr>ks_stackElements := els\<rparr>)"
proof (induction k arbitrary: h ks cs val)
  case 0
  show ?case
    unfolding stackContents.simps
    by (rule cm_return [OF 0(1)]) (simp, intro exI [of _ "ks_stackElements ks"], simp)
next
  case (Suc k)
  have h: "h \<le> H" using Suc.prems(4) by simp
  show ?case
    unfolding stackContents.simps
  proof (rule cm_bind_pair [OF stackElement_total [OF assms Suc.prems(1,2,3) h]], elim conjE exE)
    fix c ks1 cs1 v1 els1
    assume ok1: "classes_ok env q cs1 v1" and c: "c < classCount cs1" "v1 c = stk ! nat (H - h)"
      and ks1: "ks1 = ks\<lparr>ks_stackElements := els1\<rparr>"
      and els1: "stack_ok (env_push env UndefinedItem) b (classCount cs1) v1 H els1 stk"
    have st1: "stack_ok (env_push env UndefinedItem) b (classCount cs1) v1 H (ks_stackElements ks1) stk"
      using els1 ks1 by simp
    have b1: "- b < h + 1" "h + 1 + int k \<le> H + 1" using Suc.prems(3,4) by simp_all
    show "cm_total (\<lambda>n. cmBind (stackContents n k (h + 1) ks1) (\<lambda>(m, ks). cmReturn ((h, c) # m, ks))) env q cs1 v1
      (\<lambda>(l, ks') cs' val'. \<exists>s els. l = layout h s \<and> length s = Suc k \<and>
         (\<forall>j < Suc k. s ! j < classCount cs' \<and> val' (s ! j) = stk ! nat (H - h - int j)) \<and>
         ks' = ks\<lparr>ks_stackElements := els\<rparr>)"
    proof (rule cm_bind_pair [OF Suc.IH [OF ok1 st1 b1]], rule cm_return, assumption, unfold prod.case, elim exE conjE)
      fix m ks2 cs2 v2 s els
      assume ext: "extends cs1 v1 cs2 v2" and m: "m = layout (h + 1) s" "length s = k"
        and v: "\<forall>j < k. s ! j < classCount cs2 \<and> v2 (s ! j) = stk ! nat (H - (h + 1) - int j)"
        and ks2: "ks2 = ks1\<lparr>ks_stackElements := els\<rparr>"
      have c2: "c < classCount cs2" "v2 c = stk ! nat (H - h)" using c ext by (auto simp: extends_def)
      have "(c # s) ! j < classCount cs2 \<and> v2 ((c # s) ! j) = stk ! nat (H - h - int j)" if "j < Suc k" for j
      proof (cases j)
        case (Suc i)
        have "H - (h + 1) - int i = H - h - int j" using Suc by simp
        then show ?thesis using v that Suc by (simp add: algebra_simps)
      qed (use c2 in simp)
      then show "\<exists>s els. (h, c) # m = layout h s \<and> length s = Suc k \<and>
         (\<forall>j < Suc k. s ! j < classCount cs2 \<and> v2 (s ! j) = stk ! nat (H - h - int j)) \<and>
         ks2 = ks\<lparr>ks_stackElements := els\<rparr>"
        using m ks1 ks2 by (intro exI [of _ "c # s"] exI [of _ els] conjI) simp_all
    qed
  qed
qed

lemma stackContents_inv:
  "cm_inv (plain_classes q) (stackContents n k h ks) (\<lambda>x. True)"
proof (induction k arbitrary: h ks)
  case (Suc k)
  show ?case
    unfolding stackContents.simps
    by (intro cm_inv_bind_pair [OF stackElement_inv [where ks\<^sub>0 = ks]] cm_inv_bind [OF Suc.IH])
      (auto simp: cm_inv_return)
qed (simp add: cm_inv_return)

lemma minHeight_bounds:
  assumes "stack_ok S b n val (ks_stackHeight ks) (ks_stackElements ks) stk"
  shows "- b < minHeight ks" and "minHeight ks \<le> 1" and "minHeight ks \<le> ks_stackHeight ks + 1"
    and "h < minHeight ks \<Longrightarrow> map_of (ks_stackElements ks) h = None"
proof -
  let ?H = "ks_stackHeight ks" and ?els = "ks_stackElements ks"
  note s = assms [unfolded stack_ok_def]
  have H: "- b \<le> ?H" using s by linarith
  have one: "map_of ?els 1 \<noteq> None" if "1 \<le> ?H" using s that by (metis zero_less_one)
  show "- b < minHeight ks"
    using s H by (auto simp: minHeight_def split: list.splits)
  show "minHeight ks \<le> ?H + 1" by (auto simp: minHeight_def split: list.splits)
  have key: "minHeight ks \<le> fst p" if "p \<in> set ?els" for p
  proof (cases ?els)
    case (Cons x xs)
    have "fst x \<le> fst p" using that s Cons by (auto dest: less_imp_le)
    then show ?thesis using Cons by (simp add: minHeight_def)
  qed (use that in simp)
  show "minHeight ks \<le> 1"
  proof (cases "1 \<le> ?H")
    case True
    then obtain c where "map_of ?els 1 = Some c" using one by blast
    then show ?thesis using key [OF map_of_SomeD] by fastforce
  next
    case False
    then show ?thesis using \<open>minHeight ks \<le> ?H + 1\<close> by simp
  qed
  show "map_of ?els h = None" if "h < minHeight ks"
    using key that by (force simp: map_of_eq_None_iff)
qed

text \<open>The elements from a height on, and what is below them.\<close>

lemma stack_split:
  assumes "length s = k" and "\<forall>j < k. val (s ! j) = stk ! nat (H - h - int j)"
    and "int k = H - h + 1" and "k \<le> length stk"
  shows "stk = rev (map val s) @ drop k stk"
proof -
  have "rev (map val s) = take k stk"
  proof (rule nth_equalityI)
    fix j
    assume "j < length (rev (map val s))"
    then have j: "j < k" using assms(1) by simp
    then have i: "k - Suc j < k" "nat (H - h - int (k - Suc j)) = j" using assms(3) by linarith+
    have "rev (map val s) ! j = val (s ! (k - Suc j))" using j assms(1) by (simp add: rev_nth)
    then show "rev (map val s) ! j = take k stk ! j" using assms(2) i j by simp
  qed (use assms(1,4) in simp)
  then show ?thesis by simp
qed

lemma untouched_elements:
  assumes "stack_ok S b n val 0 [] stk" and "stack_ok S b n' val' H els stk'"
    and "\<And>h. h < low \<Longrightarrow> map_of els h = None" and "low \<le> 1" and "low \<le> H + 1" and "- b < low"
  shows "drop (nat (H - low + 1)) stk' = drop (nat (1 - low)) stk"
proof (rule nth_equalityI)
  note s = assms(1) [unfolded stack_ok_def] and s' = assms(2) [unfolded stack_ok_def]
  have len: "int (length stk) = b" "int (length stk') = H + b" using s s' by simp_all
  show "length (drop (nat (H - low + 1)) stk') = length (drop (nat (1 - low)) stk)"
    using len assms(4-6) by simp
  fix j
  assume j: "j < length (drop (nat (H - low + 1)) stk')"
  let ?h = "low - 1 - int j"
  have jl: "int j < H + b - (H - low + 1)" using j len assms(5) by simp
  then have h: "- b < ?h" "?h \<le> 0" "?h \<le> H" "?h < low" using assms(4,5) by linarith+
  have i: "nat (H - low + 1) + j = nat (H - ?h)" "nat (1 - low) + j = nat (0 - ?h)" using assms(4,5) by linarith+
  have "stk' ! nat (H - ?h) = S (word_of_int ?h)" using s' h assms(3) [OF h(4)] by (metis option.case(1))
  moreover have n: "nat (H - low + 1) \<le> length stk'" "nat (1 - low) \<le> length stk"
    using len assms(4-6) by linarith+
  moreover have "stk ! nat (0 - ?h) = S (word_of_int ?h)" using s h by (metis map_of.simps(1) option.case(1))
  ultimately show "drop (nat (H - low + 1)) stk' ! j = drop (nat (1 - low)) stk ! j"
    using i nth_drop [OF n(1), of j] nth_drop [OF n(2), of j] by simp
qed

definition chunkCode :: "nat \<Rightarrow> KnownState \<Rightarrow> KnownState \<Rightarrow> AssemblyItems CM" where
  "chunkCode n ks\<^sub>0 ks =
     (let low = minHeight ks; count = (\<lambda>ks. nat (ks_stackHeight ks - low + 1)) in
      cmBind (stackContents n (count ks\<^sub>0) low ks\<^sub>0) (\<lambda>(initial, ks0).
      cmBind (stackContents n (count ks) low ks) (\<lambda>(target, ks1).
      generateCode n n (ks_sequenceNumber ks0) (ks_stackHeight ks0) initial target [])))"

text \<open>For all large fuels there is a result, and every result that is no exception satisfies \<open>Q\<close>.\<close>

definition cm_partial :: "(nat \<Rightarrow> 'a CM) \<Rightarrow> ExpressionClasses \<Rightarrow> ('a \<Rightarrow> bool) \<Rightarrow> bool" where
  "cm_partial F cs Q \<longleftrightarrow>
     (\<exists>n\<^sub>0. \<forall>n > n\<^sub>0. \<exists>r. F n cs = Some r \<and> (\<forall>a cs'. r = Inr (a, cs') \<longrightarrow> Q a))"

lemma chunkCode_sound:
  assumes inv: "block_inv E stk w env cs val ks stk'" and len0: "length stk < 2 ^ 255"
  shows "cm_partial (\<lambda>n. chunkCode n freshState ks) cs (\<lambda>items. exec_block E items stk w = Next stk' w)"
proof -
  define low where "low = minHeight ks"
  define H where "H = ks_stackHeight ks"
  define b where "b = int (length stk)"
  define S where "S = env_push env UndefinedItem"
  define k\<^sub>0 where "k\<^sub>0 = nat (ks_stackHeight freshState - low + 1)"
  define k\<^sub>1 where "k\<^sub>1 = nat (H - low + 1)"
  note i = inv [unfolded block_inv_def]
  have ex: "env_ok env" "classes_ok env 1 cs val" "env_sees E env 1 w" using i by (simp_all add: explained_def)
  have st: "stack_ok S b (classCount cs) val H (ks_stackElements ks) stk'"
    using i unfolding state_true_def S_def b_def H_def by blast
  have fresh: "ks_stackHeight freshState = 0" "ks_stackElements freshState = []" "ks_sequenceNumber freshState = 1"
    by (simp_all add: freshState_def)
  note low = minHeight_bounds [OF st [unfolded H_def], folded low_def H_def]
  have st0: "stack_ok S b n v 0 (ks_stackElements freshState) stk" for n v
  proof -
    have "env_push env = env_push (initial_env E stk w)" using i by simp
    then show ?thesis
      using initial_true [OF len0, of E w val] by (simp add: state_true_def S_def b_def fresh stack_ok_def)
  qed
  have k: "int k\<^sub>0 = 0 - low + 1" "int k\<^sub>1 = H - low + 1" using low fresh by (simp_all add: k\<^sub>0_def k\<^sub>1_def)
  have len: "int (length stk) = b" "int (length stk') = H + b" using st st0 by (simp_all add: stack_ok_def)
  have b0: "low + int k\<^sub>0 \<le> 0 + 1" and b1: "low + int k\<^sub>1 \<le> H + 1" using k by simp_all
  obtain n\<^sub>0 S0 els0 cs1 v1 where c0: "\<forall>n > n\<^sub>0. stackContents n k\<^sub>0 low freshState cs =
      Some (Inr ((layout low S0, freshState\<lparr>ks_stackElements := els0\<rparr>), cs1))"
    and ok1: "classes_ok env 1 cs1 v1" and ext1: "extends cs val cs1 v1" and l0: "length S0 = k\<^sub>0"
    and v0: "\<forall>j < k\<^sub>0. S0 ! j < classCount cs1 \<and> v1 (S0 ! j) = stk ! nat (0 - low - int j)"
    using stackContents_total [OF ex(1,2) st0 [unfolded S_def] low(1) b0] unfolding cm_total_def by auto
  have st1: "stack_ok S b (classCount cs1) v1 H (ks_stackElements ks) stk'" by (rule stack_ok_extends [OF st ext1])
  obtain n\<^sub>1 T els1 cs2 v2 where c1: "\<forall>n > n\<^sub>1. stackContents n k\<^sub>1 low ks cs1 =
      Some (Inr ((layout low T, ks\<lparr>ks_stackElements := els1\<rparr>), cs2))"
    and ok2: "classes_ok env 1 cs2 v2" and ext2: "extends cs1 v1 cs2 v2" and lT: "length T = k\<^sub>1"
    and vT: "\<forall>j < k\<^sub>1. T ! j < classCount cs2 \<and> v2 (T ! j) = stk' ! nat (H - low - int j)"
    using stackContents_total [OF ex(1) ok1 st1 [unfolded S_def] low(1) b1] unfolding cm_total_def by auto
  have p1: "plain_classes 1 cs1"
    using stackContents_inv [of 1 "Suc n\<^sub>0" k\<^sub>0 low freshState] c0 i unfolding cm_inv_def by blast
  have p2: "plain_classes 1 cs2"
    using stackContents_inv [of 1 "Suc n\<^sub>1" k\<^sub>1 low ks] c1 p1 unfolding cm_inv_def by blast
  have r2: "reachable cs2" "models env cs2 v2" using ok2 by (simp_all add: classes_ok_def)
  obtain wt where wt: "sane cs2" "weighted cs2 wt" using reachable_ok [OF r2(1)] by blast
  have comp: "all_computable E w v2 cs2" by (rule plain_computable [OF wt(1) r2(2) ex(3) p2])
  define base where "base = drop k\<^sub>0 stk"
  have "\<forall>j < k\<^sub>0. v2 (S0 ! j) = stk ! nat (0 - low - int j)" using v0 ext2 by (simp add: extends_def)
  then have s0: "stk = rev (map v2 S0) @ base"
    unfolding base_def using stack_split [OF l0, of v2 stk 0 low] k len low by simp
  have "drop k\<^sub>1 stk' = base"
    using untouched_elements [OF st0 [unfolded fresh(2)] st low(4,2,3,1)]
    by (simp add: base_def k\<^sub>0_def k\<^sub>1_def fresh(1) add.commute)
  then have s1: "stk' = rev (map v2 T) @ base"
    using stack_split [OF lT, of v2 stk' H low] vT k len low by simp
  have h: "low + int (length S0) - 1 = ks_stackHeight (freshState\<lparr>ks_stackElements := els0\<rparr>)"
    using l0 k fresh by simp
  have q: "ks_sequenceNumber (freshState\<lparr>ks_stackElements := els0\<rparr>) = 1" using fresh by simp
  have "\<exists>r. chunkCode n freshState ks cs = Some r \<and> (\<forall>a cs'. r = Inr (a, cs') \<longrightarrow> exec_block E a stk w = Next stk' w)"
    if n: "max (max n\<^sub>0 n\<^sub>1) (sum_list (map wt [0..<classCount cs2])) < n" for n
  proof -
    have "keeps cs2 (\<lambda>items. exec_block E items stk w = Next (rev (map v2 T) @ base) w)
      (generateCode n n 1 (low + int (length S0) - 1) (layout low S0) (layout low T) [])"
      by (rule generateCode_plain [OF wt comp s0]) (use n in simp)
    moreover have "chunkCode n freshState ks cs =
        generateCode n n 1 (low + int (length S0) - 1) (layout low S0) (layout low T) [] cs2"
      using c0 c1 n unfolding chunkCode_def Let_def low_def [symmetric] k\<^sub>0_def [symmetric]
        k\<^sub>1_def [unfolded H_def, symmetric]
      by (simp add: cmBind_def h q)
    ultimately show ?thesis using s1 by (auto simp: keeps_def)
  qed
  then show ?thesis unfolding cm_partial_def by blast
qed

end
