(* ===== verification/BreakingItem.thy ===== *)
theory BreakingItem
  imports CSESound
begin

section \<open>The item that ends a block\<close>

text \<open>
  What \<open>optimizeBreakingItem\<close> makes of the item that ends a block: a conditional jump whose
  condition is known becomes a jump or disappears, a return of nothing becomes a stop. With
  it the whole of \<open>getOptimizedItems\<close> is proved for blocks of computing items.
\<close>

subsection \<open>Steps of the symbolic execution that keep the invariant\<close>

lemma block_inv_extends:
  assumes "block_inv E stk\<^sub>0 w env cs val ks stk" and "classes_ok env 1 cs' val'"
    and ext: "extends cs val cs' val'" and "plain_classes 1 cs'"
  shows "block_inv E stk\<^sub>0 w env cs' val' ks stk"
proof -
  have i: "explained E env 1 cs val w" "state_true E env (int (length stk\<^sub>0)) cs val ks stk w"
    "ks_sequenceNumber ks = 1" "env_push env = env_push (initial_env E stk\<^sub>0 w)"
    using assms(1) unfolding block_inv_def by blast+
  have ex: "explained E env 1 cs' val' w" by (rule explained_extends [OF i(1) assms(2)])
  have st: "state_true E env (int (length stk\<^sub>0)) cs' val' ks stk w"
    using i(2) stack_ok_extends [OF _ ext] content_ok_extends [OF _ ext] unfolding state_true_def by blast
  show ?thesis unfolding block_inv_def by (intro conjI ex st i(3) i(4) assms(4))
qed

lemma block_inv_ok:
  assumes "block_inv E stk\<^sub>0 w env cs val ks stk"
  shows "env_ok env" and "classes_ok env 1 cs val" and "plain_classes 1 cs"
    and "stack_ok (env_push env UndefinedItem) (int (length stk\<^sub>0)) (classCount cs) val (ks_stackHeight ks)
      (ks_stackElements ks) stk"
    and "int (length stk) = ks_stackHeight ks + int (length stk\<^sub>0)"
proof -
  note i = assms [unfolded block_inv_def state_true_def explained_def]
  show "env_ok env" "classes_ok env 1 cs val" "plain_classes 1 cs"
    "stack_ok (env_push env UndefinedItem) (int (length stk\<^sub>0)) (classCount cs) val (ks_stackHeight ks)
      (ks_stackElements ks) stk" using i by blast+
  then show "int (length stk) = ks_stackHeight ks + int (length stk\<^sub>0)" by (simp add: stack_ok_def)
qed

text \<open>Reading one element of the stack.\<close>

lemma block_element:
  assumes inv: "block_inv E stk\<^sub>0 w env cs val ks stk" and j: "j < length stk"
  shows "\<exists>n\<^sub>0 c ks' cs' val'. (\<forall>n > n\<^sub>0. stackElement n (ks_stackHeight ks - int j) l ks cs = Some (Inr ((c, ks'), cs'))) \<and>
    block_inv E stk\<^sub>0 w env cs' val' ks' stk \<and> c < classCount cs' \<and> val' c = stk ! j \<and>
    ks_stackHeight ks' = ks_stackHeight ks"
proof -
  note ok = block_inv_ok [OF inv]
  have h: "- int (length stk\<^sub>0) < ks_stackHeight ks - int j" using j ok(5) by linarith
  obtain n\<^sub>0 c cs' val' els where f: "\<forall>n > n\<^sub>0. stackElement n (ks_stackHeight ks - int j) l ks cs =
      Some (Inr ((c, ks\<lparr>ks_stackElements := els\<rparr>), cs'))"
    and r: "classes_ok env 1 cs' val'" "extends cs val cs' val'" "c < classCount cs'"
      "val' c = stk ! nat (ks_stackHeight ks - (ks_stackHeight ks - int j))"
    and st: "stack_ok (env_push env UndefinedItem) (int (length stk\<^sub>0)) (classCount cs') val' (ks_stackHeight ks) els stk"
    using stackElement_total [OF ok(1,2,4) h, of l] unfolding cm_total_def by auto
  have fn: "stackElement (Suc n\<^sub>0) (ks_stackHeight ks - int j) l ks cs =
      Some (Inr ((c, ks\<lparr>ks_stackElements := els\<rparr>), cs'))" using f by blast
  have "cm_inv (plain_classes 1) (stackElement (Suc n\<^sub>0) (ks_stackHeight ks - int j) l ks) (\<lambda>(c, ks'). same_seq ks ks')"
    by (rule stackElement_inv) simp
  then have p: "plain_classes 1 cs'" using fn ok(3) unfolding cm_inv_def by blast
  have b: "block_inv E stk\<^sub>0 w env cs' val' ks stk" by (rule block_inv_extends [OF inv r(1,2) p])
  have "block_inv E stk\<^sub>0 w env cs' val' (ks\<lparr>ks_stackElements := els\<rparr>) stk"
    using b st unfolding block_inv_def state_true_def by simp
  then show ?thesis using f r by (intro exI conjI) (assumption | simp)+
qed

lemma knownNonZero_plain:
  assumes "knownNonZeroF n cs c = Some (Inr (d, cs'))" and "plain_classes q cs"
  shows "plain_classes q cs'"
proof -
  obtain i where f: "findF n cs (opItem i_ISZERO) [c] 0 = Some (Inr (i, cs'))"
    using assms(1) by (auto simp: knownNonZeroF_def bindE_Inr_iff)
  have "plain_item q (opItem i_ISZERO) 0"
    by (simp add: plain_item_def itemOp_def evm_ariths_def)
  then show ?thesis using find_plain(1) [OF f assms(2)] by blast
qed

lemma block_nonZero:
  assumes inv: "block_inv E stk\<^sub>0 w env cs val ks stk" and c: "c < classCount cs"
  shows "\<exists>n\<^sub>0 d cs' val'. (\<forall>n > n\<^sub>0. knownNonZeroF n cs c = Some (Inr (d, cs'))) \<and>
    block_inv E stk\<^sub>0 w env cs' val' ks stk \<and> extends cs val cs' val' \<and> (d \<longrightarrow> val c \<noteq> 0)"
proof -
  note ok = block_inv_ok [OF inv]
  obtain n\<^sub>0 d cs' val' where f: "\<forall>n > n\<^sub>0. knownNonZeroF n cs c = Some (Inr (d, cs'))"
    and r: "classes_ok env 1 cs' val'" "extends cs val cs' val'" "d \<longrightarrow> val c \<noteq> 0"
    using cm_nonZero [OF ok(1,2) c] unfolding cm_total_def by blast
  have "knownNonZeroF (Suc n\<^sub>0) cs c = Some (Inr (d, cs'))" using f by blast
  then have "plain_classes 1 cs'" by (rule knownNonZero_plain [OF _ ok(3)])
  then have "block_inv E stk\<^sub>0 w env cs' val' ks stk" by (rule block_inv_extends [OF inv r(1,2)])
  then show ?thesis using f r by blast
qed

lemma block_zero:
  assumes inv: "block_inv E stk\<^sub>0 w env cs val ks stk" and c: "c < classCount cs"
  shows "\<exists>d. cmQuery (\<lambda>cs. knownZero cs c) cs = Some (Inr (d, cs)) \<and> (d \<longrightarrow> val c = 0)"
proof -
  note ok = block_inv_ok [OF inv]
  obtain n\<^sub>0 d cs' val' where f: "\<forall>n > (n\<^sub>0 :: nat). cmQuery (\<lambda>cs. knownZero cs c) cs = Some (Inr (d, cs'))" "d \<longrightarrow> val c = 0"
    using cm_zero [OF ok(2) c] unfolding cm_total_def by blast
  have "cmQuery (\<lambda>cs. knownZero cs c) cs = Some (Inr (d, cs'))" using f(1) by blast
  moreover from this have "cs' = cs" by (auto simp: cmQuery_def split: sum.splits)
  ultimately show ?thesis using f(2) by blast
qed

text \<open>Feeding a further item to the eliminator.\<close>

lemma block_feed:
  assumes laws: "evm_laws E" and inv: "block_inv E stk\<^sub>0 w env cs val (c_state el) stk"
    and it: "computes it" "m_type it \<noteq> Tag" "pushed_ok E it" and run: "exec_item E it stk w = Next stk' w'"
  shows "\<exists>n\<^sub>0 ks' cs' val' env'. (\<forall>n > n\<^sub>0. eliminatorFeed n it el cs = Some (Inr (el\<lparr>c_state := ks'\<rparr>, cs'))) \<and>
    block_inv E stk\<^sub>0 w env' cs' val' ks' stk'"
proof -
  obtain n\<^sub>0 op ks' cs' val' env' where f: "\<forall>n > n\<^sub>0. feedItem n it (c_state el) cs = Some (Inr ((op, ks'), cs'))"
    and op: "\<not> isValidOperation op" and b: "block_inv E stk\<^sub>0 w env' cs' val' ks' stk'"
    by (rule feedItem_block [OF laws inv it run])
  have "\<forall>n > n\<^sub>0. eliminatorFeed n it el cs = Some (Inr (el\<lparr>c_state := ks'\<rparr>, cs'))"
    using f op by (simp add: eliminatorFeed_def cmBind_def cmReturn_def)
  then show ?thesis using b by blast
qed

text \<open>
  The items that may end a block here: tags, computing items and operations that leave
  nothing on the stack (jumps, halts, logs, copies to memory and the like).
\<close>

definition quiet_end :: "'w evm \<Rightarrow> AssemblyItem \<Rightarrow> bool" where
  "quiet_end E br \<longleftrightarrow>
     m_type br = Tag \<or> (computes br \<and> pushed_ok E br) \<or>
     (m_type br = Operation \<and> info_ret (instructionInfo (m_instruction br)) = 0)"

lemma quiet_operation:
  assumes "m_type br = Operation" and "info_ret (instructionInfo (m_instruction br)) = 0"
    and "exec_item E br stk w \<noteq> Fail" and "m_instruction br \<noteq> i_SSTORE" "m_instruction br \<noteq> i_MSTORE"
    and inv: "block_inv E stk\<^sub>0 w env cs val ks stk"
  shows "\<exists>n\<^sub>0 op nxt cs' val'. (\<forall>n > n\<^sub>0. feedItem n br ks cs = Some (Inr ((op, nxt), cs'))) \<and>
    block_inv E stk\<^sub>0 w env cs' val' ks stk"
proof -
  let ?i = "m_instruction br" and ?k = "nat (info_args (instructionInfo (m_instruction br)))"
  note ok = block_inv_ok [OF inv]
  have ex: "exec_op E ?i stk w \<noteq> Fail" using assms(1,3) by (simp add: exec_item_def)
  then have k: "int 0 + int ?k \<le> int (length stk)" and v: "isValidInstruction ?i"
    by (auto simp: exec_op_def Let_def split: if_splits)
  have r: "\<not> isDupInstruction ?i" "\<not> isSwapInstruction ?i"
    using dup_swap_rows [of ?i] assms(2) by auto
  have i: "?i \<noteq> i_SLOAD" "?i \<noteq> i_MLOAD" "?i \<noteq> i_KECCAK256" using assms(2) by (auto simp: instr_table)
  have t: "m_type br \<noteq> Tag" using assms(1) by simp
  show ?thesis
  proof (cases "?i = i_POP")
    case True
    have "feedItem n br ks cs = Some (Inr ((invalidOperation, adjustHeight (item_deposit br) ks), cs))" for n
      using True r t assms(1)
      by (simp add: feedItem_def feedOperation_def itemIsDup_def itemIsSwap_def cmBind_def cmReturn_def Let_def)
    then show ?thesis using inv by blast
  next
    case False
    obtain n\<^sub>0 as ks1 cs' val' where f: "\<forall>n > n\<^sub>0. stackArguments n ?k (ks_stackHeight ks) (m_location br) ks cs =
        Some (Inr ((as, ks1), cs'))" and c: "classes_ok env 1 cs' val'" "extends cs val cs' val'"
      using stackArguments_total [OF ok(1,2,4) k, of "m_location br"] unfolding cm_total_def by auto
    have fn: "stackArguments (Suc n\<^sub>0) ?k (ks_stackHeight ks) (m_location br) ks cs = Some (Inr ((as, ks1), cs'))"
      using f by blast
    have "cm_inv (plain_classes 1) (stackArguments (Suc n\<^sub>0) ?k (ks_stackHeight ks) (m_location br) ks)
        (\<lambda>(as, ks'). same_seq ks ks')"
      by (rule stackArguments_inv) simp
    then have "plain_classes 1 cs'" using fn ok(3) unfolding cm_inv_def by blast
    then have b: "block_inv E stk\<^sub>0 w env cs' val' ks stk" by (rule block_inv_extends [OF inv c])
    define nxt where "nxt = (let
        ks = (if invalidatesMemory ?i then resetMemory ks1 else ks1);
        ks = (if invalidatesStorage ?i then resetStorage ks else ks)
      in (if invalidatesMemory ?i \<or> invalidatesStorage ?i
          then ks\<lparr>ks_sequenceNumber := ks_sequenceNumber ks + 2\<rparr> else ks))"
    have o: "feedOther n br as ks1 cs' = Some (Inr (nxt, cs'))" for n
      unfolding feedOther_def Let_def nxt_def using assms(2) by (simp add: cmReturn_def)
    have "feedItem n br ks cs = Some (Inr ((invalidOperation, adjustHeight (item_deposit br) nxt), cs'))" if "n\<^sub>0 < n" for n
      using False r i t assms(1,4,5) f that o
      by (simp add: feedItem_def feedOperation_def feedSwitch_def itemIsDup_def itemIsSwap_def cmBind_def cmReturn_def Let_def)
    then show ?thesis using b by blast
  qed
qed

lemma breaking_feed:
  assumes laws: "evm_laws E" and inv: "block_inv E stk\<^sub>0 w env cs val ks stk"
    and br: "breaksCSEAnalysisBlock br msize" "quiet_end E br" and run: "exec_item E br stk w \<noteq> Fail"
  shows "\<exists>n\<^sub>0 op nxt cs' val' env'. (\<forall>n > n\<^sub>0. feedItem n br ks cs = Some (Inr ((op, nxt), cs'))) \<and>
    block_inv E stk\<^sub>0 w env' cs' val' ks stk"
proof -
  consider (tag) "m_type br = Tag" | (computes) "computes br" "m_type br \<noteq> Tag" "pushed_ok E br"
    | (op) "m_type br = Operation" "info_ret (instructionInfo (m_instruction br)) = 0"
    using br(2) unfolding quiet_end_def by blast
  then show ?thesis
  proof cases
    case tag
    have "feedItem n br ks cs = Some (Inr ((invalidOperation, ks), cs))" for n
      using tag by (simp add: feedItem_def cmReturn_def)
    then show ?thesis using inv by blast
  next
    case computes
    obtain stk1 where nx: "exec_item E br stk w = Next stk1 w" by (rule computes_next [OF computes(1,2) run])
    obtain n\<^sub>0 op ks' cs' val' env' where f: "\<forall>n > n\<^sub>0. feedItem n br ks cs = Some (Inr ((op, ks'), cs'))"
      and b: "block_inv E stk\<^sub>0 w env' cs' val' ks' stk1" and ext: "extends cs val cs' val'"
      by (rule feedItem_block [OF laws inv computes nx])
    have e: "explained E env' 1 cs' val' w" "env_push env' = env_push env" "ks_sequenceNumber ks = 1"
      "plain_classes 1 cs'" "env_push env' = env_push (initial_env E stk\<^sub>0 w)"
      using b inv unfolding block_inv_def by simp_all
    have "state_true E env (int (length stk\<^sub>0)) cs val ks stk w" using inv unfolding block_inv_def by blast
    then have "state_true E env' (int (length stk\<^sub>0)) cs' val' ks stk w"
      using stack_ok_extends [OF _ ext] content_ok_extends [OF _ ext] unfolding state_true_def e(2) by blast
    then have "block_inv E stk\<^sub>0 w env' cs' val' ks stk" unfolding block_inv_def by (intro conjI e(1) e(3) e(4) e(5))
    then show ?thesis using f by blast
  next
    case op
    have "m_instruction br \<noteq> i_SSTORE" "m_instruction br \<noteq> i_MSTORE"
      using br(1) op(1) by (auto simp: breaksCSEAnalysisBlock_def Let_def itemIsDup_def itemIsSwap_def instr_class split: if_splits)
    then show ?thesis using quiet_operation [OF op run _ _ inv] by blast
  qed
qed

text \<open>What follows a block: nothing, or its ending item.\<close>

definition end_step :: "'w evm \<Rightarrow> AssemblyItem option \<Rightarrow> u256 list \<Rightarrow> 'w \<Rightarrow> 'w step" where
  "end_step E br stk w = (case br of None \<Rightarrow> Next stk w | Some it \<Rightarrow> exec_item E it stk w)"

text \<open>Stopping is the same as returning no data.\<close>

definition same_effect :: "'w step \<Rightarrow> 'w step \<Rightarrow> bool" where
  "same_effect r s \<longleftrightarrow> s = r \<or> (\<exists>p w. r = Halt i_RETURN [p, 0] w \<and> s = Halt i_STOP [] w)"

lemma exec_ends:
  "exec_item E (itemOp i_SWAP1 l) (a # b # r) w = Next (b # a # r) w"
  "exec_item E (itemOp i_POP l) (a # r) w = Next r w"
  "exec_item E (itemOp i_JUMP l\<lparr>m_jumpType := t\<rparr>) (a # r) w = JumpTo a r w"
  "exec_item E (itemOp i_STOP l) r w = Halt i_STOP [] w"
  by (simp_all add: exec_item_def itemOp_def exec_op_def instr_table instr_class evm_halts_def Let_def)

lemma ends_computes:
  "computes (itemOp i_SWAP1 l)" "computes (itemOp i_POP l)"
  "pushed_ok E (itemOp i l)" "m_type (itemOp i l) \<noteq> Tag"
  by (simp_all add: computes_def itemIsSwap_def itemIsDup_def itemOp_def instr_class pushed_ok_def)

lemma JUMPI_step:
  assumes "is_op br i_JUMPI" and "exec_item E br stk w \<noteq> Fail"
  obtains a b r where "stk = a # b # r"
    "exec_item E br stk w = (if b \<noteq> 0 then JumpTo a r w else Next r w)"
proof -
  have ex: "exec_item E br stk w = exec_op E i_JUMPI stk w" using assms(1) by (simp add: exec_item_def is_op_iff)
  then have "2 \<le> length stk" using assms(2) by (auto simp: exec_op_def instr_table Let_def split: if_splits)
  then obtain a b r where s: "stk = a # b # r" by (metis Suc_le_length_iff numeral_2_eq_2)
  show ?thesis
    by (rule that [OF s], unfold ex) (simp add: s exec_op_def instr_table instr_class Let_def)
qed

lemma RETURN_step:
  assumes "is_op br i_RETURN" and "exec_item E br stk w \<noteq> Fail"
  obtains a b r where "stk = a # b # r" "exec_item E br stk w = Halt i_RETURN [a, b] w"
proof -
  have ex: "exec_item E br stk w = exec_op E i_RETURN stk w" using assms(1) by (simp add: exec_item_def is_op_iff)
  then have "2 \<le> length stk" using assms(2) by (auto simp: exec_op_def instr_table Let_def split: if_splits)
  then obtain a b r where s: "stk = a # b # r" by (metis Suc_le_length_iff numeral_2_eq_2)
  show ?thesis
    by (rule that [OF s], unfold ex) (simp add: s exec_op_def instr_table instr_class evm_halts_def Let_def)
qed

lemma block_feed2:
  assumes laws: "evm_laws E" and inv: "block_inv E stk\<^sub>0 w env cs val (c_state el) stk"
    and p: "computes p" "m_type p \<noteq> Tag" "pushed_ok E p" and q: "computes q" "m_type q \<noteq> Tag" "pushed_ok E q"
    and run: "exec_item E p stk w = Next stk1 w" "exec_item E q stk1 w = Next stk2 w"
  shows "\<exists>n\<^sub>0 ks' cs' val' env'. (\<forall>n > n\<^sub>0. \<forall>G :: Eliminator \<Rightarrow> Eliminator CM. cmBind (eliminatorFeed n p el) (\<lambda>el. cmBind (eliminatorFeed n q el) G) cs =
      G (el\<lparr>c_state := ks'\<rparr>) cs') \<and> block_inv E stk\<^sub>0 w env' cs' val' ks' stk2"
proof -
  obtain n1 ks1 cs1 v1 e1 where f1: "\<forall>n > n1. eliminatorFeed n p el cs = Some (Inr (el\<lparr>c_state := ks1\<rparr>, cs1))"
    and b1: "block_inv E stk\<^sub>0 w e1 cs1 v1 ks1 stk1"
    using block_feed [OF laws inv p run(1)] by blast
  have b1': "block_inv E stk\<^sub>0 w e1 cs1 v1 (c_state (el\<lparr>c_state := ks1\<rparr>)) stk1" using b1 by simp
  obtain n2 ks2 cs2 v2 e2 where f2: "\<forall>n > n2. eliminatorFeed n q (el\<lparr>c_state := ks1\<rparr>) cs1 = Some (Inr (el\<lparr>c_state := ks2\<rparr>, cs2))"
    and b2: "block_inv E stk\<^sub>0 w e2 cs2 v2 ks2 stk2"
    using block_feed [OF laws b1' q run(2)] by auto
  have "\<forall>n > max n1 n2. \<forall>G :: Eliminator \<Rightarrow> Eliminator CM. cmBind (eliminatorFeed n p el) (\<lambda>el. cmBind (eliminatorFeed n q el) G) cs =
      G (el\<lparr>c_state := ks2\<rparr>) cs2"
    using f1 f2 by (simp add: cmBind_def)
  then show ?thesis using b2 by blast
qed

text \<open>What \<open>optimizeBreakingItem\<close> returns, and the machine at that point.\<close>

definition ends_well :: "'w evm \<Rightarrow> bool \<Rightarrow> u256 list \<Rightarrow> 'w \<Rightarrow> 'w step \<Rightarrow> Eliminator \<Rightarrow> Eliminator \<Rightarrow>
    ExpressionClasses \<Rightarrow> bool" where
  "ends_well E msize stk\<^sub>0 w r el el' cs' \<longleftrightarrow>
     (\<exists>env' val' stk'. block_inv E stk\<^sub>0 w env' cs' val' (c_state el') stk' \<and>
        same_effect r (end_step E (c_breakingItem el') stk' w)) \<and>
     c_initialState el' = c_initialState el \<and> c_storeOperations el' = c_storeOperations el \<and>
     (\<forall>b. c_breakingItem el' = Some b \<longrightarrow> breaksCSEAnalysisBlock b msize \<and> quiet_end E b)"

lemma ends_wellI:
  assumes "block_inv E stk\<^sub>0 w env' cs' val' (c_state el') stk'"
    and "same_effect r (end_step E (c_breakingItem el') stk' w)"
    and "c_initialState el' = c_initialState el" and "c_storeOperations el' = c_storeOperations el"
    and "\<And>b. c_breakingItem el' = Some b \<Longrightarrow> breaksCSEAnalysisBlock b msize \<and> quiet_end E b"
  shows "ends_well E msize stk\<^sub>0 w r el el' cs'"
  using assms unfolding ends_well_def by blast

lemma new_ends:
  "breaksCSEAnalysisBlock (itemOp i_JUMP l\<lparr>m_jumpType := t\<rparr>) msize"
  "quiet_end E (itemOp i_JUMP l\<lparr>m_jumpType := t\<rparr>)"
  "breaksCSEAnalysisBlock (itemOp i_STOP l) msize" "quiet_end E (itemOp i_STOP l)"
  by (simp_all add: breaksCSEAnalysisBlock_def quiet_end_def itemOp_def itemIsSwap_def itemIsDup_def instr_class instr_table Let_def)

lemma optimizeBreakingItem_JUMPI:
  assumes laws: "evm_laws E" and inv: "block_inv E stk\<^sub>0 w env cs val (c_state el) stk"
    and br: "c_breakingItem el = Some br" "is_op br i_JUMPI" "breaksCSEAnalysisBlock br msize" "quiet_end E br"
    and run: "exec_item E br stk w \<noteq> Fail"
  shows "\<exists>n\<^sub>0 el' cs'. (\<forall>n > n\<^sub>0. optimizeBreakingItem n el cs = Some (Inr (el', cs'))) \<and>
    ends_well E msize stk\<^sub>0 w (exec_item E br stk w) el el' cs'"
proof -
  let ?l = "m_location br"
  obtain a b r where stk: "stk = a # b # r"
    and step: "exec_item E br stk w = (if b \<noteq> 0 then JumpTo a r w else Next r w)"
    by (rule JUMPI_step [OF br(2) run])
  have len: "1 < length stk" using stk by simp
  obtain n1 c ks1 cs1 v1 where f1: "\<forall>n > n1. stackElement n (ks_stackHeight (c_state el) - int 1) ?l (c_state el) cs =
      Some (Inr ((c, ks1), cs1))" and b1: "block_inv E stk\<^sub>0 w env cs1 v1 ks1 stk" and c: "c < classCount cs1" "v1 c = stk ! 1"
    using block_element [OF inv len, of ?l] by blast
  obtain n2 nz cs2 v2 where f2: "\<forall>n > n2. knownNonZeroF n cs1 c = Some (Inr (nz, cs2))"
    and b2: "block_inv E stk\<^sub>0 w env cs2 v2 ks1 stk" and ext: "extends cs1 v1 cs2 v2" and nz: "nz \<longrightarrow> v1 c \<noteq> 0"
    using block_nonZero [OF b1 c(1)] by blast
  have c2: "c < classCount cs2" "v2 c = b" using c ext stk by (auto simp: extends_def)
  obtain z where z: "cmQuery (\<lambda>cs. knownZero cs c) cs2 = Some (Inr (z, cs2))" "z \<longrightarrow> b = 0"
    using block_zero [OF b2 c2(1)] c2(2) by blast
  have nz': "nz \<longrightarrow> b \<noteq> 0" using nz c stk by simp
  let ?el = "el\<lparr>c_state := ks1\<rparr>"
  have b2': "block_inv E stk\<^sub>0 w env cs2 v2 (c_state ?el) stk" using b2 by simp
  have swap: "exec_item E (itemOp i_SWAP1 ?l) stk w = Next (b # a # r) w" unfolding stk by (rule exec_ends)
  have pop: "exec_item E (itemOp i_POP ?l) stk w = Next (b # r) w" unfolding stk by (rule exec_ends)
  obtain n3 ks3 cs3 v3 e3 where f3: "\<forall>n > n3. \<forall>G :: Eliminator \<Rightarrow> Eliminator CM. cmBind (eliminatorFeed n (itemOp i_SWAP1 ?l) ?el)
      (\<lambda>el. cmBind (eliminatorFeed n (itemOp i_POP ?l) el) G) cs2 = G (?el\<lparr>c_state := ks3\<rparr>) cs3"
    and b3: "block_inv E stk\<^sub>0 w e3 cs3 v3 ks3 (a # r)"
    using block_feed2 [OF laws b2' ends_computes(1,4,3) ends_computes(2,4,3) swap exec_ends(2)]
    by blast
  obtain n4 ks4 cs4 v4 e4 where f4: "\<forall>n > n4. \<forall>G :: Eliminator \<Rightarrow> Eliminator CM. cmBind (eliminatorFeed n (itemOp i_POP ?l) ?el)
      (\<lambda>el. cmBind (eliminatorFeed n (itemOp i_POP ?l) el) G) cs2 = G (?el\<lparr>c_state := ks4\<rparr>) cs4"
    and b4: "block_inv E stk\<^sub>0 w e4 cs4 v4 ks4 r"
    using block_feed2 [OF laws b2' ends_computes(2,4,3) ends_computes(2,4,3) pop exec_ends(2)]
    by blast
  define el' where "el' =
    (if nz then ?el\<lparr>c_state := ks3, c_breakingItem := Some (itemOp i_JUMP ?l\<lparr>m_jumpType := m_jumpType br\<rparr>)\<rparr>
     else if z then ?el\<lparr>c_state := ks4, c_breakingItem := None\<rparr> else ?el)"
  define cs' where "cs' = (if nz then cs3 else if z then cs4 else cs2)"
  have f: "optimizeBreakingItem n el cs = Some (Inr (el', cs'))" if n: "max (max n1 n2) (max n3 n4) < n" for n
  proof -
    have e: "eliminatorElement n (ks_stackHeight (c_state el) - 1) ?l el cs = Some (Inr ((c, ?el), cs1))"
      using f1 n by (simp add: eliminatorElement_def cmBind_def cmReturn_def)
    have "optimizeBreakingItem n el cs =
      (if nz then Some (Inr (?el\<lparr>c_state := ks3, c_breakingItem := Some (itemOp i_JUMP ?l\<lparr>m_jumpType := m_jumpType br\<rparr>)\<rparr>, cs3))
       else if z then Some (Inr (?el\<lparr>c_state := ks4, c_breakingItem := None\<rparr>, cs4))
       else Some (Inr (?el, cs2)))"
      using br(1,2) e f2 f3 f4 z(1) n
      by (simp add: optimizeBreakingItem_def Let_def cmBind_def [of "eliminatorElement n x y z" for x y z]
          cmBind_def [of "\<lambda>cs. knownNonZeroF n cs c"] cmBind_def [of "cmQuery q" for q] cmReturn_def)
    then show ?thesis by (simp add: el'_def cs'_def)
  qed
  have "ends_well E msize stk\<^sub>0 w (exec_item E br stk w) el el' cs'"
  proof (cases nz)
    case True
    then show ?thesis
      by (intro ends_wellI [where env' = e3 and val' = v3 and stk' = "a # r"])
        (use b3 nz' step in \<open>auto simp: new_ends exec_ends el'_def cs'_def end_step_def same_effect_def\<close>)
  next
    case no: False
    show ?thesis
    proof (cases z)
      case True
      then show ?thesis
        using no by (intro ends_wellI [where env' = e4 and val' = v4 and stk' = r])
          (use b4 z(2) step in \<open>auto simp: el'_def cs'_def end_step_def same_effect_def\<close>)
    next
      case False
      then show ?thesis
        using no by (intro ends_wellI [where env' = env and val' = v2 and stk' = stk])
          (use b2 br in \<open>auto simp: el'_def cs'_def end_step_def same_effect_def\<close>)
    qed
  qed
  then show ?thesis using f by blast
qed

lemma optimizeBreakingItem_RETURN:
  assumes laws: "evm_laws E" and inv: "block_inv E stk\<^sub>0 w env cs val (c_state el) stk"
    and br: "c_breakingItem el = Some br" "is_op br i_RETURN" "breaksCSEAnalysisBlock br msize" "quiet_end E br"
    and run: "exec_item E br stk w \<noteq> Fail"
  shows "\<exists>n\<^sub>0 el' cs'. (\<forall>n > n\<^sub>0. optimizeBreakingItem n el cs = Some (Inr (el', cs'))) \<and>
    ends_well E msize stk\<^sub>0 w (exec_item E br stk w) el el' cs'"
proof -
  let ?l = "m_location br"
  have no: "\<not> is_op br i_JUMPI" using br(2) by (simp add: is_op_iff)
  obtain a b r where stk: "stk = a # b # r" and step: "exec_item E br stk w = Halt i_RETURN [a, b] w"
    by (rule RETURN_step [OF br(2) run])
  have len: "1 < length stk" using stk by simp
  obtain n1 c ks1 cs1 v1 where f1: "\<forall>n > n1. stackElement n (ks_stackHeight (c_state el) - int 1) ?l (c_state el) cs =
      Some (Inr ((c, ks1), cs1))" and b1: "block_inv E stk\<^sub>0 w env cs1 v1 ks1 stk" and c: "c < classCount cs1" "v1 c = stk ! 1"
    using block_element [OF inv len, of ?l] by blast
  obtain z where z: "cmQuery (\<lambda>cs. knownZero cs c) cs1 = Some (Inr (z, cs1))" "z \<longrightarrow> b = 0"
    using block_zero [OF b1 c(1)] c(2) stk by auto
  let ?el = "el\<lparr>c_state := ks1\<rparr>"
  have b1': "block_inv E stk\<^sub>0 w env cs1 v1 (c_state ?el) stk" using b1 by simp
  have pop: "exec_item E (itemOp i_POP ?l) stk w = Next (b # r) w" unfolding stk by (rule exec_ends)
  obtain n4 ks4 cs4 v4 e4 where f4: "\<forall>n > n4. \<forall>G :: Eliminator \<Rightarrow> Eliminator CM. cmBind (eliminatorFeed n (itemOp i_POP ?l) ?el)
      (\<lambda>el. cmBind (eliminatorFeed n (itemOp i_POP ?l) el) G) cs1 = G (?el\<lparr>c_state := ks4\<rparr>) cs4"
    and b4: "block_inv E stk\<^sub>0 w e4 cs4 v4 ks4 r"
    using block_feed2 [OF laws b1' ends_computes(2,4,3) ends_computes(2,4,3) pop exec_ends(2)] by blast
  define el' where "el' = (if z then ?el\<lparr>c_state := ks4, c_breakingItem := Some (itemOp i_STOP ?l)\<rparr> else ?el)"
  define cs' where "cs' = (if z then cs4 else cs1)"
  have f: "optimizeBreakingItem n el cs = Some (Inr (el', cs'))" if n: "max n1 n4 < n" for n
  proof -
    have e: "eliminatorElement n (ks_stackHeight (c_state el) - 1) ?l el cs = Some (Inr ((c, ?el), cs1))"
      using f1 n by (simp add: eliminatorElement_def cmBind_def cmReturn_def)
    have "optimizeBreakingItem n el cs =
      (if z then Some (Inr (?el\<lparr>c_state := ks4, c_breakingItem := Some (itemOp i_STOP ?l)\<rparr>, cs4)) else Some (Inr (?el, cs1)))"
      using br(1,2) no e f4 z(1) n
      by (simp add: optimizeBreakingItem_def Let_def cmBind_def [of "eliminatorElement n x y z" for x y z]
          cmBind_def [of "cmQuery q" for q] cmReturn_def)
    then show ?thesis by (simp add: el'_def cs'_def)
  qed
  have "ends_well E msize stk\<^sub>0 w (exec_item E br stk w) el el' cs'"
  proof (cases z)
    case True
    then show ?thesis
      by (intro ends_wellI [where env' = e4 and val' = v4 and stk' = r])
        (use b4 z(2) step in \<open>auto simp: new_ends exec_ends el'_def cs'_def end_step_def same_effect_def\<close>)
  next
    case False
    then show ?thesis
      by (intro ends_wellI [where env' = env and val' = v1 and stk' = stk])
        (use b1 br in \<open>auto simp: el'_def cs'_def end_step_def same_effect_def\<close>)
  qed
  then show ?thesis using f by blast
qed

lemma optimizeBreakingItem_block:
  assumes laws: "evm_laws E" and inv: "block_inv E stk\<^sub>0 w env cs val (c_state el) stk"
    and br: "\<forall>br. c_breakingItem el = Some br \<longrightarrow> breaksCSEAnalysisBlock br msize \<and> quiet_end E br"
    and run: "end_step E (c_breakingItem el) stk w \<noteq> Fail"
  shows "\<exists>n\<^sub>0 el' cs'. (\<forall>n > n\<^sub>0. optimizeBreakingItem n el cs = Some (Inr (el', cs'))) \<and>
    ends_well E msize stk\<^sub>0 w (end_step E (c_breakingItem el) stk w) el el' cs'"
proof -
  have same: "ends_well E msize stk\<^sub>0 w (end_step E (c_breakingItem el) stk w) el el cs"
    by (rule ends_wellI [OF inv]) (use br in \<open>auto simp: same_effect_def\<close>)
  show ?thesis
  proof (cases "c_breakingItem el")
    case None
    then have "optimizeBreakingItem n el cs = Some (Inr (el, cs))" for n
      by (simp add: optimizeBreakingItem_def cmReturn_def)
    then show ?thesis using same by blast
  next
    case (Some it)
    have b: "breaksCSEAnalysisBlock it msize" "quiet_end E it" using br Some by blast+
    have e: "end_step E (c_breakingItem el) stk w = exec_item E it stk w" using Some by (simp add: end_step_def)
    note r = run [unfolded e]
    consider "is_op it i_JUMPI" | "is_op it i_RETURN" | "\<not> is_op it i_JUMPI" "\<not> is_op it i_RETURN" by blast
    then show ?thesis
    proof cases
      case 1
      show ?thesis unfolding e by (rule optimizeBreakingItem_JUMPI [OF laws inv Some 1 b r])
    next
      case 2
      show ?thesis unfolding e by (rule optimizeBreakingItem_RETURN [OF laws inv Some 2 b r])
    next
      case 3
      then have "optimizeBreakingItem n el cs = Some (Inr (el, cs))" for n
        using Some by (simp add: optimizeBreakingItem_def cmReturn_def Let_def)
      then show ?thesis using same by blast
    qed
  qed
qed

subsection \<open>The optimised block\<close>

lemma getOptimizedItems_chunk:
  assumes "optimizeBreakingItem n el cs = Some (Inr (el', cs'))"
    and "case c_breakingItem el' of None \<Rightarrow> cs'' = cs' \<and> nxt = c_state el'
       | Some br \<Rightarrow> \<exists>op. feedItem n br (c_state el') cs' = Some (Inr ((op, nxt), cs''))"
    and "c_storeOperations el' = []"
  shows "getOptimizedItems n n el cs =
    cmBind (chunkCode n (c_initialState el') (c_state el')) (\<lambda>items.
      cmReturn (items @ (case c_breakingItem el' of Some br \<Rightarrow> [br] | None \<Rightarrow> []),
        \<lparr>c_initialState = nxt, c_state = nxt, c_storeOperations = [], c_breakingItem = None\<rparr>)) cs''"
proof -
  have nx: "(case c_breakingItem el' of None \<Rightarrow> cmReturn (c_state el')
        | Some br \<Rightarrow> cmBind (feedItem n br (c_state el')) (\<lambda>(op, ks). cmReturn ks)) cs' = Some (Inr (nxt, cs''))"
    using assms(2) by (cases "c_breakingItem el'") (auto simp: cmBind_def cmReturn_def)
  have assoc: "cmBind (cmBind F G) H = cmBind F (\<lambda>x. cmBind (G x) H)" for F :: "'a CM" and G :: "'a \<Rightarrow> 'b CM" and H :: "'b \<Rightarrow> 'c CM"
    by (auto simp: cmBind_def fun_eq_iff split: option.splits sum.splits)
  show ?thesis
    unfolding getOptimizedItems_def cmBind_def [of "optimizeBreakingItem n el"] assms(1)
    unfolding option.case sum.case prod.case
    unfolding cmBind_def [of "case c_breakingItem el' of None \<Rightarrow> x | Some br \<Rightarrow> y br" for x y] nx
    unfolding option.case sum.case prod.case assms(3) chunkCode_def Let_def
    by (simp add: assoc split_def)
qed

abbreviation endItems :: "AssemblyItem option \<Rightarrow> AssemblyItems" where
  "endItems br \<equiv> (case br of Some it \<Rightarrow> [it] | None \<Rightarrow> [])"

lemma exec_ending:
  assumes "exec_block E its stk w = Next stk' w'"
  shows "exec_block E (its @ endItems br) stk w = end_step E br stk' w'"
  using assms by (cases br) (simp_all add: exec_block_append end_step_def split: step.split)

lemma getOptimizedItems_block:
  assumes laws: "evm_laws E" and inv: "block_inv E stk w env cs val (c_state el) stk'"
    and el: "c_initialState el = freshState" "c_storeOperations el = []"
    and br: "\<forall>br. c_breakingItem el = Some br \<longrightarrow> breaksCSEAnalysisBlock br msize \<and> quiet_end E br"
    and run: "end_step E (c_breakingItem el) stk' w \<noteq> Fail" and len: "length stk < 2 ^ 255"
  shows "cm_partial (\<lambda>n. getOptimizedItems n n el) cs
    (\<lambda>(items, el'). same_effect (end_step E (c_breakingItem el) stk' w) (exec_block E items stk w))"
proof -
  let ?r = "end_step E (c_breakingItem el) stk' w"
  obtain n1 el1 cs1 where f1: "\<forall>n > n1. optimizeBreakingItem n el cs = Some (Inr (el1, cs1))"
    and e1: "ends_well E msize stk w ?r el el1 cs1"
    using optimizeBreakingItem_block [OF laws inv br run] by blast
  obtain env1 v1 stk1 where b1: "block_inv E stk w env1 cs1 v1 (c_state el1) stk1"
    and s1: "same_effect ?r (end_step E (c_breakingItem el1) stk1 w)"
    and el1: "c_initialState el1 = freshState" "c_storeOperations el1 = []"
    and br1: "\<forall>b. c_breakingItem el1 = Some b \<longrightarrow> breaksCSEAnalysisBlock b msize \<and> quiet_end E b"
    using e1 el unfolding ends_well_def by auto
  have ok: "end_step E (c_breakingItem el1) stk1 w \<noteq> Fail" using s1 run by (auto simp: same_effect_def)
  have "\<exists>n2 nxt cs2 v2 env2. (\<forall>n > n2. case c_breakingItem el1 of None \<Rightarrow> cs2 = cs1 \<and> nxt = c_state el1
      | Some br \<Rightarrow> \<exists>op. feedItem n br (c_state el1) cs1 = Some (Inr ((op, nxt), cs2))) \<and>
    block_inv E stk w env2 cs2 v2 (c_state el1) stk1"
  proof (cases "c_breakingItem el1")
    case None
    then show ?thesis
      using b1 by (intro exI [of _ "0::nat"] exI [of _ "c_state el1"] exI [of _ cs1] exI [of _ v1] exI [of _ env1]) simp
  next
    case (Some b)
    then show ?thesis using breaking_feed [OF laws b1, of b msize] br1 ok by (simp add: end_step_def) blast
  qed
  then obtain n2 nxt cs2 v2 env2 where f2: "\<forall>n > n2. case c_breakingItem el1 of None \<Rightarrow> cs2 = cs1 \<and> nxt = c_state el1
      | Some br \<Rightarrow> \<exists>op. feedItem n br (c_state el1) cs1 = Some (Inr ((op, nxt), cs2))"
    and b2: "block_inv E stk w env2 cs2 v2 (c_state el1) stk1" by blast
  obtain n3 where f3: "\<forall>n > n3. \<exists>r. chunkCode n freshState (c_state el1) cs2 = Some r \<and>
      (\<forall>a cs'. r = Inr (a, cs') \<longrightarrow> exec_block E a stk w = Next stk1 w)"
    using chunkCode_sound [OF b2 len] unfolding cm_partial_def by blast
  have "\<exists>r. getOptimizedItems n n el cs = Some r \<and> (\<forall>p cs'. r = Inr (p, cs') \<longrightarrow>
      same_effect ?r (exec_block E (fst p) stk w))" if n: "max n1 (max n2 n3) < n" for n
  proof -
    obtain r where r: "chunkCode n freshState (c_state el1) cs2 = Some r"
      "\<forall>a cs'. r = Inr (a, cs') \<longrightarrow> exec_block E a stk w = Next stk1 w"
      using f3 n by auto
    have o: "optimizeBreakingItem n el cs = Some (Inr (el1, cs1))" using f1 n by simp
    have c: "case c_breakingItem el1 of None \<Rightarrow> cs2 = cs1 \<and> nxt = c_state el1
      | Some br \<Rightarrow> \<exists>op. feedItem n br (c_state el1) cs1 = Some (Inr ((op, nxt), cs2))" using f2 n by simp
    note g = getOptimizedItems_chunk [OF o c el1(2), unfolded el1(1)]
    show ?thesis
    proof (cases r)
      case (Inl e)
      then show ?thesis using g r(1) by (simp add: cmBind_def)
    next
      case (Inr p)
      obtain a cs' where p: "p = (a, cs')" by (cases p)
      have "exec_block E (a @ endItems (c_breakingItem el1)) stk w = end_step E (c_breakingItem el1) stk1 w"
        by (rule exec_ending) (use r(2) Inr p in blast)
      then show ?thesis using g r(1) Inr p s1 by (simp add: cmBind_def cmReturn_def)
    qed
  qed
  then show ?thesis
    unfolding cm_partial_def by (intro exI [of _ "max n1 (max n2 n3)"]) (auto simp: split_beta)
qed

end
