(* ===== verification/OptimiserSound.thy ===== *)
theory OptimiserSound
  imports AssemblyOptimiser BreakingItem
begin

section \<open>What the optimiser of an assembly keeps\<close>

text \<open>
  The common subexpression eliminator as the assembly runs it: block by block, a block being
  replaced only when the new one is shorter.
\<close>

subsection \<open>One block\<close>

fun splitBlock :: "bool \<Rightarrow> AssemblyItems \<Rightarrow> AssemblyItems \<times> AssemblyItem option \<times> AssemblyItems" where
  "splitBlock m [] = ([], None, [])"
| "splitBlock m (it # its) =
     (if breaksCSEAnalysisBlock it m then ([], Some it, its)
      else (case splitBlock m its of (b, br, rest) \<Rightarrow> (it # b, br, rest)))"

lemma splitBlock_items:
  "splitBlock m its = (b, br, rest) \<Longrightarrow> its = b @ endItems br @ rest \<and> (br = None \<longrightarrow> rest = []) \<and>
     (\<forall>it. br = Some it \<longrightarrow> breaksCSEAnalysisBlock it m) \<and> list_all (\<lambda>it. \<not> breaksCSEAnalysisBlock it m) b"
  by (induction its arbitrary: b br rest) (auto split: if_splits prod.splits)

text \<open>The blocks that the theorem covers.\<close>

definition plain_chunk :: "'w evm \<Rightarrow> AssemblyItems \<Rightarrow> AssemblyItem option \<Rightarrow> bool" where
  "plain_chunk E b br \<longleftrightarrow>
     list_all (\<lambda>it. computes it \<and> pushed_ok E it) b \<and> (\<forall>it. br = Some it \<longrightarrow> quiet_end E it)"

lemma feedItems_chunk:
  assumes laws: "evm_laws E" and split: "splitBlock m its = (b, br, rest)" and plain: "plain_chunk E b br"
    and run: "exec_block E b stk w = Next stk' w'" and len: "length stk < 2 ^ 255"
  shows "\<exists>n\<^sub>0 el cs env val. (\<forall>n > n\<^sub>0. feedItems n its m (newEliminator freshState) emptyClasses = Some (Inr ((rest, el), cs))) \<and>
    block_inv E stk w env cs val (c_state el) stk' \<and> w' = w \<and> c_initialState el = freshState \<and>
    c_storeOperations el = [] \<and> c_breakingItem el = br"
proof -
  note s = splitBlock_items [OF split]
  have p: "plain_block E m b" using plain s by (simp add: plain_chunk_def plain_block_def list_all_iff)
  let ?el = "newEliminator freshState"
  have i0: "block_inv E stk w (initial_env E stk w) emptyClasses (\<lambda>_. 0) (c_state ?el) stk"
    using block_inv_initial [OF laws len] by (simp add: newEliminator_def)
  obtain n\<^sub>0 ks' cs' val' env' where f: "\<forall>n > n\<^sub>0. feedLoop n (b @ (endItems br @ rest)) m ?el emptyClasses =
      feedLoop n (endItems br @ rest) m (?el\<lparr>c_state := ks'\<rparr>) cs'"
    and inv: "block_inv E stk w env' cs' val' ks' stk'" "w' = w"
    using feedLoop_block [OF laws p i0 run] by blast
  define el where "el = ?el\<lparr>c_state := ks', c_breakingItem := br\<rparr>"
  have nb: "c_breakingItem ?el = None" by (simp add: newEliminator_def)
  have e: "?el\<lparr>c_state := ks'\<rparr> = el" if "br = None" using that by (simp add: el_def newEliminator_def)
  have fi: "feedItems n its m ?el emptyClasses = Some (Inr ((rest, el), cs'))" if n: "n\<^sub>0 < n" for n
  proof -
    have "its = b @ endItems br @ rest" using s by simp
    then have "feedItems n its m ?el emptyClasses = feedLoop n (endItems br @ rest) m (?el\<lparr>c_state := ks'\<rparr>) cs'"
      unfolding feedItems_def using nb f n by simp
    also have "\<dots> = Some (Inr ((rest, el), cs'))"
    proof (cases br)
      case None
      then show ?thesis using s e by (simp add: cmReturn_def)
    next
      case (Some it)
      then show ?thesis using s by (simp add: cmReturn_def el_def)
    qed
    finally show ?thesis .
  qed
  have "block_inv E stk w env' cs' val' (c_state el) stk'" "c_initialState el = freshState"
    "c_storeOperations el = []" "c_breakingItem el = br"
    using inv by (simp_all add: el_def newEliminator_def)
  then show ?thesis using fi inv(2) by blast
qed

lemma same_effect_refl [simp]: "same_effect r r"
  by (simp add: same_effect_def)

text \<open>Tests on a block with no result, for which there is nothing to show.\<close>

lemma exec_block_append_ok:
  assumes "exec_block E (b @ endItems br) stk w \<noteq> Fail" and "plain_chunk E b br" and "list_all (\<lambda>it. m_type it \<noteq> Tag) b"
  obtains stk' where "exec_block E b stk w = Next stk' w" "exec_block E (b @ endItems br) stk w = end_step E br stk' w"
proof -
  have "\<exists>stk'. exec_block E b stk w = Next stk' w" if "exec_block E b stk w \<noteq> Fail" "list_all computes b" "list_all (\<lambda>it. m_type it \<noteq> Tag) b"
    using that
  proof (induction b arbitrary: stk)
    case (Cons it b)
    have c: "computes it" "m_type it \<noteq> Tag" "exec_item E it stk w \<noteq> Fail" using Cons.prems by auto
    obtain stk1 where n: "exec_item E it stk w = Next stk1 w" by (rule computes_next [OF c])
    then show ?case using Cons by simp
  qed simp
  moreover have "exec_block E b stk w \<noteq> Fail" using assms(1) by (auto simp: exec_block_append)
  moreover have "list_all computes b" using assms(2) by (simp add: plain_chunk_def list_all_iff)
  ultimately obtain stk' where n: "exec_block E b stk w = Next stk' w" using assms(3) by blast
  show ?thesis by (rule that [OF n exec_ending [OF n]])
qed

lemma optimiseChunk_effect:
  assumes laws: "evm_laws E" and split: "splitBlock m its = (b, br, rest)" and plain: "plain_chunk E b br"
    and len: "length stk < 2 ^ 255" and run: "exec_block E (b @ endItems br) stk w \<noteq> Fail"
  shows "\<exists>n\<^sub>0. \<forall>n > n\<^sub>0. \<exists>r. optimiseChunk n m its = Some r \<and>
    (\<forall>rest' out c. r = Inr (rest', out, c) \<longrightarrow> rest' = rest \<and> length out \<le> length (b @ endItems br) \<and>
       same_effect (exec_block E (b @ endItems br) stk w) (exec_block E out stk w))"
proof -
  note s = splitBlock_items [OF split]
  have nt: "list_all (\<lambda>it. m_type it \<noteq> Tag) b" using s breaks_Tag by (auto simp: list_all_iff)
  obtain stk' where b: "exec_block E b stk w = Next stk' w"
    and e: "exec_block E (b @ endItems br) stk w = end_step E br stk' w"
    by (rule exec_block_append_ok [OF run plain nt])
  obtain n\<^sub>1 el cs env val where f: "\<forall>n > n\<^sub>1. feedItems n its m (newEliminator freshState) emptyClasses = Some (Inr ((rest, el), cs))"
    and inv: "block_inv E stk w env cs val (c_state el) stk'"
    and el: "c_initialState el = freshState" "c_storeOperations el = []" "c_breakingItem el = br"
    using feedItems_chunk [OF laws split plain b len] by blast
  have br: "\<forall>it. c_breakingItem el = Some it \<longrightarrow> breaksCSEAnalysisBlock it m \<and> quiet_end E it"
    using s plain el(3) by (auto simp: plain_chunk_def)
  have ok: "end_step E (c_breakingItem el) stk' w \<noteq> Fail" using run e el(3) by simp
  obtain n\<^sub>2 where g: "\<forall>n > n\<^sub>2. \<exists>r. getOptimizedItems n n el cs = Some r \<and> (\<forall>p cs'. r = Inr (p, cs') \<longrightarrow>
      (case p of (items, el') \<Rightarrow> same_effect (end_step E br stk' w) (exec_block E items stk w)))"
    using getOptimizedItems_block [OF laws inv el(1,2) br ok len] el(3) unfolding cm_partial_def by auto
  have chunk: "take (length its - length rest) its = b @ endItems br" using s by simp
  have "\<exists>r. optimiseChunk n m its = Some r \<and>
    (\<forall>rest' out c. r = Inr (rest', out, c) \<longrightarrow> rest' = rest \<and> length out \<le> length (b @ endItems br) \<and>
       same_effect (exec_block E (b @ endItems br) stk w) (exec_block E out stk w))" if n: "max n\<^sub>1 n\<^sub>2 < n" for n
  proof -
    obtain r where r: "getOptimizedItems n n el cs = Some r"
      and q: "\<forall>p cs'. r = Inr (p, cs') \<longrightarrow>
        (case p of (items, el') \<Rightarrow> same_effect (end_step E br stk' w) (exec_block E items stk w))"
      using g n by auto
    have o': "optimiseChunk n m its = (case r of
          Inl e \<Rightarrow> if e = StackTooDeepException \<or> e = ItemNotAvailableException
            then Some (Inr (rest, take (length its - length rest) its, False)) else Some (Inl e)
        | Inr ((opt, _), _) \<Rightarrow> Some (Inr (if length opt < length (take (length its - length rest) its)
            then (rest, opt, True) else (rest, take (length its - length rest) its, False))))"
      unfolding optimiseChunk_def Let_def using f n r by simp
    have o: "optimiseChunk n m its = (case r of
          Inl e \<Rightarrow> if e = StackTooDeepException \<or> e = ItemNotAvailableException
            then Some (Inr (rest, b @ endItems br, False)) else Some (Inl e)
        | Inr ((opt, _), _) \<Rightarrow> Some (Inr (if length opt < length (b @ endItems br)
            then (rest, opt, True) else (rest, b @ endItems br, False))))"
      using o' unfolding chunk .
    show ?thesis
    proof (cases r)
      case (Inl x)
      then show ?thesis using o by auto
    next
      case (Inr p)
      obtain opt el' cs' where p: "p = ((opt, el'), cs')" by (cases p) auto
      show ?thesis using o q e Inr p by (cases "length opt < length (b @ endItems br)") auto
    qed
  qed
  then show ?thesis by blast
qed

text \<open>C37: The common subexpression eliminator keeps the effect of a block. For every machine that
  obeys the laws, a block that computes (arithmetic, reads of the environment and of storage,
  pushes, duplications, swaps), with the tag, jump, halt or other operation that ends it, and
  a stack on which it does not fail: with enough fuel \<open>optimiseInternal\<close> has a result for
  the block, and if that is no exception it goes on with the items after the block, and the
  items put in place of the block are no more and have its effect, except that returning no
  data may have become stopping.\<close>

theorem optimiseChunk_sound:
  assumes "evm_laws E" and "splitBlock m its = (b, br, rest)" and "plain_chunk E b br"
    and "length stk < 2 ^ 255" and "exec_block E (b @ endItems br) stk w \<noteq> Fail"
  shows "\<exists>n\<^sub>0. \<forall>n > n\<^sub>0. \<exists>r. optimiseChunk n m its = Some r \<and>
    (\<forall>rest' out c. r = Inr (rest', out, c) \<longrightarrow> rest' = rest \<and> length out \<le> length (b @ endItems br) \<and>
       same_effect (exec_block E (b @ endItems br) stk w) (exec_block E out stk w))"
  by (rule optimiseChunk_effect [OF assms])

text \<open>An instance: an addition, and a return of what it computes.\<close>

definition additionBlock :: AssemblyItems where
  "additionBlock = [opItem i_DUP1, opItem i_ADD, opItem i_RETURN, opItem i_STOP]"

lemma additionBlock_split:
  "splitBlock False additionBlock = ([opItem i_DUP1, opItem i_ADD], Some (opItem i_RETURN), [opItem i_STOP])"
  by (simp add: additionBlock_def breaksCSEAnalysisBlock_def itemOp_def itemIsSwap_def itemIsDup_def instr_class
      instr_table Let_def)

lemma additionBlock_plain: "plain_chunk E [opItem i_DUP1, opItem i_ADD] (Some (opItem i_RETURN))"
  by (simp add: plain_chunk_def quiet_end_def computes_def pushed_ok_def itemOp_def itemIsDup_def instr_class instr_table
      evm_ariths_def)

lemma additionBlock_exec:
  "exec_block E ([opItem i_DUP1, opItem i_ADD] @ endItems (Some (opItem i_RETURN))) [3, 5] w = Halt i_RETURN [6, 5] w"
  by (simp add: exec_item_def itemOp_def exec_op_def instr_table instr_class evm_halts_def evm_arith_def Let_def)

theorem optimiseChunk_sound_witness:
  "\<exists>n\<^sub>0. \<forall>n > n\<^sub>0. \<exists>r. optimiseChunk n False additionBlock = Some r \<and>
    (\<forall>rest out c. r = Inr (rest, out, c) \<longrightarrow> rest = [opItem i_STOP] \<and>
       same_effect (Halt i_RETURN [6, 5] zeroWorld) (exec_block memoryMachine out [3, 5] zeroWorld))"
proof -
  have "exec_block memoryMachine ([opItem i_DUP1, opItem i_ADD] @ endItems (Some (opItem i_RETURN))) [3, 5] zeroWorld \<noteq> Fail"
    unfolding additionBlock_exec by simp
  from optimiseChunk_sound [OF memoryMachine_laws additionBlock_split additionBlock_plain _ this]
  show ?thesis unfolding additionBlock_exec by fastforce
qed

end
