(* ===== verification/AddressChecksum.thy ===== *)
theory AddressChecksum
  imports Keccak256 LinkerObject
begin

section \<open>Address checksums (libdevcore/CommonData)\<close>

text \<open>
  The mixed-case checksum of addresses. The hash is taken of the lower-case digits, so a
  checksummed address is its own checksummed form.
\<close>

definition isUpperHex :: "char \<Rightarrow> bool" where
  "isUpperHex c \<longleftrightarrow> c \<in> set ''ABCDEF''"

definition isLowerHex :: "char \<Rightarrow> bool" where
  "isLowerHex c \<longleftrightarrow> c \<in> set ''abcdef''"

definition checksumChar :: "bytes \<Rightarrow> string \<Rightarrow> nat \<Rightarrow> char" where
  "checksumChar h s i =
     (let nibble = drop_bit (4 * (1 - i mod 2)) (ucast (h ! (i div 2)) :: u32) AND 0xf
      in if nibble \<ge> 8 then toupper (s ! i) else tolower (s ! i))"

definition getChecksummedAddress :: "string \<Rightarrow> string result" where
  "getChecksummedAddress addr =
     (let s = (if take 2 addr = ''0x'' then drop 2 addr else addr) in
      if length s \<noteq> 40 then Inl InvalidAddress
      else if \<not> list_all isHexChar s then Inl InvalidAddress
      else let h = keccak256_bytes (asBytes (map tolower s))
           in Inr (''0x'' @ map (checksumChar h s) [0..<40]))"

definition passesAddressChecksum :: "string \<Rightarrow> bool \<Rightarrow> bool result" where
  "passesAddressChecksum str strict =
     (let s = (if take 2 str = ''0x'' then str else ''0x'' @ str) in
      if length s \<noteq> 42 then Inr False
      else if \<not> strict \<and> (\<not> list_ex isLowerHex s \<or> \<not> list_ex isUpperHex s) then Inr True
      else bindE (getChecksummedAddress s) (\<lambda>r. Inr (s = r)))"

lemma tolower_cases: "tolower (tolower c) = tolower c" "tolower (toupper c) = tolower c"
  "toupper (tolower c) = toupper c" "toupper (toupper c) = toupper c"
proof -
  have le: "(of_char c :: nat) < 256" by simp
  show "tolower (tolower c) = tolower c" "tolower (toupper c) = tolower c"
    "toupper (tolower c) = toupper c" "toupper (toupper c) = toupper c"
    using le by (auto simp: tolower_def toupper_def Let_def)
qed

lemma isHexChar_case: "isHexChar c \<Longrightarrow> isHexChar (tolower c) \<and> isHexChar (toupper c)"
proof -
  have "list_all (\<lambda>c. isHexChar (tolower c) \<and> isHexChar (toupper c)) ''0123456789abcdefABCDEF''"
    by code_simp
  then show "isHexChar c \<Longrightarrow> isHexChar (tolower c) \<and> isHexChar (toupper c)"
    unfolding list_all_iff isHexChar_def [of c] by blast
qed

lemma tolower_0x: "map tolower ''0x'' = ''0x''"
  by code_simp

lemma isHexChar_tolowerD:
  assumes "isHexChar (tolower c)"
  shows "isHexChar c"
proof -
  have "c = tolower c \<or> c = toupper c" by (auto simp: tolower_def toupper_def Let_def)
  then show ?thesis using assms isHexChar_case tolower_cases(3) by metis
qed

lemma tolower_checksumChar: "tolower (checksumChar h s i) = tolower (s ! i)"
  by (simp add: checksumChar_def Let_def tolower_cases)

lemma checksumChar_case:
  "map tolower s = map tolower t \<Longrightarrow> i < length s \<Longrightarrow> checksumChar h s i = checksumChar h t i"
proof -
  assume a: "map tolower s = map tolower t" "i < length s"
  then have l: "tolower (s ! i) = tolower (t ! i)"
    using map_eq_imp_length_eq [OF a(1)] by (metis nth_map)
  then have "toupper (s ! i) = toupper (t ! i)" using tolower_cases(3) by metis
  with l show "checksumChar h s i = checksumChar h t i" by (simp add: checksumChar_def)
qed

lemma isHexChar_checksumChar: "isHexChar (s ! i) \<Longrightarrow> isHexChar (checksumChar h s i)"
  using isHexChar_case by (simp add: checksumChar_def Let_def)

text \<open>C31: the checksummed form of an address differs from it only in the case of its letters, passes
  the strict check, and is the only form with these digits that does.\<close>

theorem getChecksummedAddress_passes:
  assumes "getChecksummedAddress addr = Inr r"
  shows "passesAddressChecksum r True = Inr True \<and>
     map tolower r = ''0x'' @ map tolower (if take 2 addr = ''0x'' then drop 2 addr else addr) \<and>
     (\<forall>t. map tolower t = map tolower (drop 2 r) \<longrightarrow>
        passesAddressChecksum (''0x'' @ t) True = Inr (''0x'' @ t = r))"
proof -
  let ?s = "if take 2 addr = ''0x'' then drop 2 addr else addr"
  let ?h = "keccak256_bytes (asBytes (map tolower ?s))"
  have s: "length ?s = 40" "list_all isHexChar ?s" and r: "r = ''0x'' @ map (checksumChar ?h ?s) [0..<40]"
    using assms by (auto simp: getChecksummedAddress_def Let_def split: if_splits)
  have low: "map tolower (drop 2 r) = map tolower ?s"
    using s(1) by (intro nth_equalityI) (auto simp: r tolower_checksumChar)
  have key: "passesAddressChecksum (''0x'' @ t) True = Inr (''0x'' @ t = r)"
    if t: "map tolower t = map tolower (drop 2 r)" for t
  proof -
    have len: "length t = 40" using map_eq_imp_length_eq [OF t] s(1) by (simp add: r)
    have tl: "map tolower t = map tolower ?s" using t low by simp
    have "isHexChar (t ! i)" if "i < 40" for i
    proof -
      have "isHexChar (tolower (?s ! i))"
        using s that isHexChar_case by (simp add: list_all_length)
      moreover have "tolower (t ! i) = tolower (?s ! i)"
        using tl len s(1) that by (metis nth_map)
      ultimately show ?thesis using isHexChar_tolowerD by metis
    qed
    then have hex: "list_all isHexChar t" by (simp add: list_all_length len)
    have "map (checksumChar ?h t) [0..<40] = map (checksumChar ?h ?s) [0..<40]"
      using checksumChar_case [OF tl] len by simp
    then have "getChecksummedAddress (''0x'' @ t) = Inr r"
      by (simp add: getChecksummedAddress_def hex len tl r del: map_map map_eq_conv if_split)
    then show ?thesis using len by (simp add: passesAddressChecksum_def)
  qed
  have split: "''0x'' @ drop 2 r = r" by (simp add: r)
  then have "map tolower r = ''0x'' @ map tolower ?s"
    using low by (metis map_append tolower_0x)
  moreover have "passesAddressChecksum r True = Inr True"
    using key [OF refl] unfolding split by simp
  ultimately show ?thesis using key by blast
qed

theorem getChecksummedAddress_passes_witness:
  "\<exists>r. getChecksummedAddress (replicate 40 (CHR ''a'')) = Inr r \<and> passesAddressChecksum r True = Inr True"
proof -
  have "list_all isHexChar (replicate 40 (CHR ''a''))" by code_simp
  moreover have "take 2 (replicate 40 (CHR ''a'')) \<noteq> ''0x''" by code_simp
  ultimately obtain r where r: "getChecksummedAddress (replicate 40 (CHR ''a'')) = Inr r"
    by (auto simp: getChecksummedAddress_def)
  then show ?thesis using getChecksummedAddress_passes [OF r] by blast
qed

end
