(* ===== verification/Assembler.thy ===== *)
theory Assembler
  imports Assembly
begin

section \<open>The assembler (libevmasm/Assembly, \<open>assemble\<close>)\<close>

text \<open>
  The byte code is built in the assembled object of the state, as the code does; an assembly
  whose object has code is returned as it is. Positions in the code are \<open>nat\<close>, and are stored
  as 64-bit words where the code stores them.
\<close>

subsection \<open>Emitting the items\<close>

record Emission =
  e_ret :: LinkerObject
  e_positions :: "u64 list"
  e_items :: AssemblyItems
  e_tagRef :: "(nat \<times> (u64 \<times> u64)) list"
  e_dataRef :: "(u256 \<times> nat) list"
  e_subRef :: "(u64 \<times> nat) list"
  e_sizeRef :: "nat list"

definition e_size :: "Emission \<Rightarrow> nat" where
  "e_size e = length (bytecode (e_ret e))"

definition pushBytes :: "bytes \<Rightarrow> Emission \<Rightarrow> Emission" where
  "pushBytes bs e = e\<lparr>e_ret := (e_ret e)\<lparr>bytecode := bytecode (e_ret e) @ bs\<rparr>\<rparr>"

text \<open>The push opcode for a number of bytes, in \<open>uint8_t\<close>.\<close>

definition pushOpcode :: "nat \<Rightarrow> u8" where
  "pushOpcode n = i_PUSH1 - 1 + of_nat n"

definition markInvalid :: "AssemblyItem \<Rightarrow> Emission \<Rightarrow> Emission result" where
  "markInvalid it e =
     (if m_type it \<noteq> Tag
      then case e_positions e of
          [] \<Rightarrow> Inl OutOfRange
        | p # ps \<Rightarrow> Inr (if p = - 1 then e\<lparr>e_positions := of_nat (e_size e) # ps\<rparr> else e)
      else Inr e)"

definition map_at :: "('k \<times> 'v) list \<Rightarrow> 'k \<Rightarrow> 'v result" where
  "map_at m k = (case map_of m k of Some v \<Rightarrow> Inr v | None \<Rightarrow> Inl OutOfRange)"

definition nth_at :: "'a list \<Rightarrow> u64 \<Rightarrow> 'a result" where
  "nth_at xs i = (if unat i < length xs then Inr (xs ! unat i) else Inl OutOfRange)"

definition stringBytes :: "string \<Rightarrow> bytes" where
  "stringBytes s = take 32 (asBytes s) @ replicate (32 - length s) 0"

definition subCodeSize :: "Assembly \<Rightarrow> u64" where
  "subCodeSize s = of_nat (length (bytecode (m_assembledObject (asmState s))))"

definition placeTag :: "AssemblyItem \<Rightarrow> Emission \<Rightarrow> Emission result" where
  "placeTag it e =
     bindE (dataOf it) (\<lambda>d.
     if d = 0 then Inl (AssemblyException ''Invalid tag position.'')
     else bindE (splitForeignPushTag it) (\<lambda>(sub, tag).
       if sub \<noteq> - 1 then Inl (AssemblyException ''Foreign tag.'')
       else if \<not> e_size e < 0xffffffff then Inl (AssemblyException ''Tag too large.'')
       else bindE (nth_at (e_positions e) (ucast d)) (\<lambda>p.
         if p \<noteq> - 1 then Inl (AssemblyException ''Duplicate tag position.'')
         else Inr (pushBytes [i_JUMPDEST]
                (e\<lparr>e_positions := (e_positions e)[unat (ucast d :: u64) := of_nat (e_size e)]\<rparr>)))))"

definition emitItem :: "AssemblyState \<Rightarrow> Assembly list \<Rightarrow> nat \<Rightarrow> nat \<Rightarrow> AssemblyItem \<Rightarrow> Emission \<Rightarrow>
    Emission result" where
  "emitItem st subs bytesPerTag bytesPerDataRef it e =
     bindE (markInvalid it e) (\<lambda>e.
     let e = e\<lparr>e_items := e_items e @ [it]\<rparr> in
     case m_type it of
       Operation \<Rightarrow> Inr (pushBytes [m_instruction it] e)
     | PushString \<Rightarrow>
         bindE (map_at (m_strings st) (m_data it)) (\<lambda>s.
         Inr (pushBytes (i_PUSH32 # stringBytes s) e))
     | Push \<Rightarrow>
         let b = max 1 (bytesRequired (m_data it)) in
         Inr (pushBytes (pushOpcode b # toBigEndian b (m_data it)) e)
     | PushTag \<Rightarrow>
         bindE (splitForeignPushTag it) (\<lambda>t.
         Inr (pushBytes (pushOpcode bytesPerTag # replicate bytesPerTag 0)
           (e\<lparr>e_tagRef := e_tagRef e @ [(e_size e + 1, t)]\<rparr>)))
     | PushData \<Rightarrow>
         Inr (pushBytes (pushOpcode bytesPerDataRef # replicate bytesPerDataRef 0)
           (e\<lparr>e_dataRef := e_dataRef e @ [(m_data it, e_size e + 1)]\<rparr>))
     | PushSub \<Rightarrow>
         Inr (pushBytes (pushOpcode bytesPerDataRef # replicate bytesPerDataRef 0)
           (e\<lparr>e_subRef := e_subRef e @ [(ucast (m_data it), e_size e + 1)]\<rparr>))
     | PushSubSize \<Rightarrow>
         bindE (nth_at subs (ucast (m_data it))) (\<lambda>sub.
         let s = subCodeSize sub; b = max 1 (bytesRequired s) in
         Inr (pushBytes (pushOpcode b # toBigEndian b s)
           (e\<lparr>e_items := butlast (e_items e) @ [it\<lparr>m_pushedValue := Some (ucast s)\<rparr>]\<rparr>)))
     | PushProgramSize \<Rightarrow>
         Inr (pushBytes (pushOpcode bytesPerDataRef # replicate bytesPerDataRef 0)
           (e\<lparr>e_sizeRef := e_sizeRef e @ [e_size e + 1]\<rparr>))
     | PushLibraryAddress \<Rightarrow>
         bindE (map_at (m_libraries st) (m_data it)) (\<lambda>lib.
         Inr (pushBytes (i_PUSH20 # replicate 20 0)
           (e\<lparr>e_ret := (e_ret e)\<lparr>linkReferences := omap_put (e_size e + 1) lib (linkReferences (e_ret e))\<rparr>\<rparr>)))
     | PushDeployTimeAddress \<Rightarrow> Inr (pushBytes (i_PUSH20 # replicate 20 0) e)
     | Tag \<Rightarrow> placeTag it e
     | UndefinedItem \<Rightarrow> Inl InvalidOpcode)"

fun emitItems :: "AssemblyState \<Rightarrow> Assembly list \<Rightarrow> nat \<Rightarrow> nat \<Rightarrow> AssemblyItems \<Rightarrow> Emission \<Rightarrow>
    Emission result" where
  "emitItems st subs bytesPerTag bytesPerDataRef [] e = Inr e"
| "emitItems st subs bytesPerTag bytesPerDataRef (it # its) e =
     bindE (emitItem st subs bytesPerTag bytesPerDataRef it e)
       (emitItems st subs bytesPerTag bytesPerDataRef its)"

subsection \<open>Filling in the references\<close>

text \<open>Writing the same bytes at several positions.\<close>

fun patchAll :: "nat list \<Rightarrow> bytes \<Rightarrow> bytes \<Rightarrow> bytes result" where
  "patchAll [] bs code = Inr code"
| "patchAll (p # ps) bs code = bindE (copyTo bs p code) (patchAll ps bs)"

text \<open>\<open>equal_range\<close> of a key.\<close>

definition referencesTo :: "'k \<Rightarrow> ('k \<times> nat) list \<Rightarrow> nat list" where
  "referencesTo k refs = map snd (filter (\<lambda>r. fst r = k) refs)"

definition codePosition :: "LinkerObject \<Rightarrow> u64" where
  "codePosition ret = of_nat (length (bytecode ret))"

fun placeSubs :: "nat \<Rightarrow> Assembly list \<Rightarrow> nat \<Rightarrow> (u64 \<times> nat) list \<Rightarrow> LinkerObject \<Rightarrow> LinkerObject result" where
  "placeSubs i [] width subRef ret = Inr ret"
| "placeSubs i (s # ss) width subRef ret =
     (let refs = referencesTo (of_nat i) subRef in
      if refs = [] then placeSubs (i + 1) ss width subRef ret
      else bindE (patchAll refs (toBigEndian width (codePosition ret)) (bytecode ret)) (\<lambda>code.
        placeSubs (i + 1) ss width subRef
          (object_append (ret\<lparr>bytecode := code\<rparr>) (m_assembledObject (asmState s)))))"

definition resolveTag :: "u64 list \<Rightarrow> Assembly list \<Rightarrow> nat \<Rightarrow> u64 \<times> u64 \<Rightarrow> u64 result" where
  "resolveTag positions subs bytesPerTag ref =
     (case ref of (subId, tag) \<Rightarrow>
        if \<not> (subId = - 1 \<or> unat subId < length subs) then Inl (AssemblyException ''Invalid sub id'')
        else
          let tagPositions = (if subId = - 1 then positions
                              else m_tagPositionsInBytecode (asmState (subs ! unat subId))) in
          if \<not> unat tag < length tagPositions then Inl (AssemblyException ''Reference to non-existing tag.'')
          else
            let pos = tagPositions ! unat tag in
            if pos = - 1 then Inl (AssemblyException ''Reference to tag without position.'')
            else if \<not> bytesRequired pos \<le> bytesPerTag
              then Inl (AssemblyException ''Tag too large for reserved space.'')
            else Inr pos)"

fun placeTags :: "u64 list \<Rightarrow> Assembly list \<Rightarrow> nat \<Rightarrow> (nat \<times> (u64 \<times> u64)) list \<Rightarrow> bytes \<Rightarrow> bytes result" where
  "placeTags positions subs bytesPerTag [] code = Inr code"
| "placeTags positions subs bytesPerTag ((p, ref) # refs) code =
     bindE (resolveTag positions subs bytesPerTag ref) (\<lambda>pos.
     bindE (copyTo (toBigEndian bytesPerTag pos) p code) (placeTags positions subs bytesPerTag refs))"

fun placeData :: "(u256 \<times> bytes) list \<Rightarrow> nat \<Rightarrow> (u256 \<times> nat) list \<Rightarrow> bytes \<Rightarrow> bytes result" where
  "placeData [] width dataRef code = Inr code"
| "placeData ((h, d) # ds) width dataRef code =
     (let refs = referencesTo h dataRef in
      if refs = [] then placeData ds width dataRef code
      else bindE (patchAll refs (toBigEndian width (of_nat (length code) :: u64)) code) (\<lambda>code.
        placeData ds width dataRef (code @ d)))"

subsection \<open>\<open>assemble\<close>\<close>

definition subTagSize :: "Assembly list \<Rightarrow> u64" where
  "subTagSize subs =
     fold (\<lambda>s. fold (\<lambda>pos size. if pos \<noteq> - 1 \<and> size < pos then pos else size)
       (m_tagPositionsInBytecode (asmState s))) subs 1"

definition assembleState :: "AssemblyState \<Rightarrow> Assembly list \<Rightarrow> AssemblyState result" where
  "assembleState st subs =
     bindE (assembly_bytesRequired st (ucast (subTagSize subs))) (\<lambda>bytesRequiredForCode.
     let bytesPerTag = bytesRequired (ucast bytesRequiredForCode :: u64);
         bytesRequiredIncludingData =
           bytesRequiredForCode + 1 + of_nat (length (m_auxiliaryData st)) +
           sum_list (map (\<lambda>s. ucast (subCodeSize s)) subs);
         bytesPerDataRef = bytesRequired bytesRequiredIncludingData
     in
     bindE (emitItems st subs bytesPerTag bytesPerDataRef (m_items st)
         \<lparr>e_ret = m_assembledObject st, e_positions = replicate (unat (m_usedTags st)) (- 1),
          e_items = [], e_tagRef = [], e_dataRef = [], e_subRef = [], e_sizeRef = []\<rparr>) (\<lambda>e.
     let e = (if subs \<noteq> [] \<or> m_dataMap st \<noteq> [] \<or> m_auxiliaryData st \<noteq> []
              then pushBytes [i_INVALID] e else e) in
     bindE (placeSubs 0 subs bytesPerDataRef (e_subRef e) (e_ret e)) (\<lambda>ret.
     bindE (placeTags (e_positions e) subs bytesPerTag (e_tagRef e) (bytecode ret)) (\<lambda>code.
     bindE (placeData (m_dataMap st) bytesPerDataRef (e_dataRef e) code) (\<lambda>code.
     let code = code @ m_auxiliaryData st in
     bindE (patchAll (e_sizeRef e) (toBigEndian bytesPerDataRef (of_nat (length code) :: u64)) code) (\<lambda>code.
     Inr (st\<lparr>m_items := e_items e, m_tagPositionsInBytecode := e_positions e,
             m_assembledObject := ret\<lparr>bytecode := code\<rparr>\<rparr>)))))))"

fun assemble :: "Assembly \<Rightarrow> Assembly result"
and assembleSubs :: "Assembly list \<Rightarrow> Assembly list result" where
  "assemble (Assembly st subs) =
     (if bytecode (m_assembledObject st) \<noteq> [] then Inr (Assembly st subs)
      else bindE (assembleSubs subs) (\<lambda>subs.
        bindE (assembleState st subs) (\<lambda>st. Inr (Assembly st subs))))"
| "assembleSubs [] = Inr []"
| "assembleSubs (s # ss) =
     bindE (assemble s) (\<lambda>s. bindE (assembleSubs ss) (\<lambda>ss. Inr (s # ss)))"

end
