(* ===== verification/AssemblerCorrect.thy ===== *)
theory AssemblerCorrect
  imports Assembler JumpdestRemover
begin

section \<open>What the assembler emits\<close>

text \<open>
  The items have a template each, the bytes they emit before the references are filled in.
  The lemmas follow one item through the phases: no phase but its own writes to its bytes.
\<close>

subsection \<open>Templates\<close>

definition itemBytes :: "AssemblyState \<Rightarrow> Assembly list \<Rightarrow> nat \<Rightarrow> nat \<Rightarrow> AssemblyItem \<Rightarrow> bytes" where
  "itemBytes st subs bytesPerTag bytesPerDataRef it =
     (case m_type it of
        Operation \<Rightarrow> [m_instruction it]
      | PushString \<Rightarrow> i_PUSH32 # stringBytes (the (map_of (m_strings st) (m_data it)))
      | Push \<Rightarrow>
          let b = max 1 (bytesRequired (m_data it)) in pushOpcode b # toBigEndian b (m_data it)
      | PushTag \<Rightarrow> pushOpcode bytesPerTag # replicate bytesPerTag 0
      | PushData \<Rightarrow> pushOpcode bytesPerDataRef # replicate bytesPerDataRef 0
      | PushSub \<Rightarrow> pushOpcode bytesPerDataRef # replicate bytesPerDataRef 0
      | PushSubSize \<Rightarrow>
          let s = subCodeSize (subs ! unat (ucast (m_data it) :: u64)); b = max 1 (bytesRequired s)
          in pushOpcode b # toBigEndian b s
      | PushProgramSize \<Rightarrow> pushOpcode bytesPerDataRef # replicate bytesPerDataRef 0
      | PushLibraryAddress \<Rightarrow> i_PUSH20 # replicate 20 0
      | PushDeployTimeAddress \<Rightarrow> i_PUSH20 # replicate 20 0
      | Tag \<Rightarrow> [i_JUMPDEST]
      | UndefinedItem \<Rightarrow> [])"

text \<open>The references an item leaves at its offset.\<close>

definition tagRefAt :: "nat \<Rightarrow> AssemblyItem \<Rightarrow> (nat \<times> (u64 \<times> u64)) list" where
  "tagRefAt n it =
     (if m_type it = PushTag then [(n + 1, (ucast (drop_bit 64 (m_data it) - 1), tagId it))] else [])"

definition dataRefAt :: "nat \<Rightarrow> AssemblyItem \<Rightarrow> (u256 \<times> nat) list" where
  "dataRefAt n it = (if m_type it = PushData then [(m_data it, n + 1)] else [])"

definition subRefAt :: "nat \<Rightarrow> AssemblyItem \<Rightarrow> (u64 \<times> nat) list" where
  "subRefAt n it = (if m_type it = PushSub then [(ucast (m_data it), n + 1)] else [])"

definition sizeRefAt :: "nat \<Rightarrow> AssemblyItem \<Rightarrow> nat list" where
  "sizeRefAt n it = (if m_type it = PushProgramSize then [n + 1] else [])"

lemmas refAt_defs = tagRefAt_def dataRefAt_def subRefAt_def sizeRefAt_def

text \<open>The tag positions after an item at an offset.\<close>

definition positionsAfter :: "nat \<Rightarrow> AssemblyItem \<Rightarrow> u64 list \<Rightarrow> u64 list" where
  "positionsAfter n it ps =
     (if m_type it = Tag then ps[unat (tagId it) := of_nat n]
      else case ps of [] \<Rightarrow> [] | p # qs \<Rightarrow> if p = - 1 then of_nat n # qs else ps)"

lemma ucast_tagId: "(ucast (m_data it) :: u64) = tagId it"
proof -
  have m: "(0xffffffffffffffff :: u256) = mask 64" by (simp add: mask_eq_exp_minus_1)
  show ?thesis unfolding tagId_def m by (rule bit_word_eqI) (auto simp: bit_simps)
qed

lemma e_size_simps [simp]:
  "e_size (e\<lparr>e_positions := ps\<rparr>) = e_size e" "e_size (e\<lparr>e_items := its\<rparr>) = e_size e"
  by (simp_all add: e_size_def)

lemma markInvalid_Inr:
  "markInvalid it e = Inr e' \<Longrightarrow>
     e' = e\<lparr>e_positions := (if m_type it = Tag then e_positions e
                            else positionsAfter (e_size e) it (e_positions e))\<rparr>"
  by (auto simp: markInvalid_def positionsAfter_def split: list.splits if_splits)

lemma placeTag_Inr:
  assumes "placeTag it e = Inr e'" and "m_type it = Tag"
  shows "e' = pushBytes [i_JUMPDEST] (e\<lparr>e_positions := positionsAfter (e_size e) it (e_positions e)\<rparr>) \<and>
    localTag it \<and> unat (tagId it) < length (e_positions e) \<and> e_positions e ! unat (tagId it) = - 1 \<and>
    e_size e < 0xffffffff"
  using assms
  by (auto simp: placeTag_def bindE_Inr_iff dataOf_def split_tag localTag_def nth_at_def positionsAfter_def
      ucast_tagId split: if_splits)

lemma emitItem_Inr:
  assumes "emitItem st subs bytesPerTag bytesPerDataRef it e = Inr e'"
  shows "bytecode (e_ret e') = bytecode (e_ret e) @ itemBytes st subs bytesPerTag bytesPerDataRef it \<and>
    e_tagRef e' = e_tagRef e @ tagRefAt (e_size e) it \<and>
    e_dataRef e' = e_dataRef e @ dataRefAt (e_size e) it \<and>
    e_subRef e' = e_subRef e @ subRefAt (e_size e) it \<and>
    e_sizeRef e' = e_sizeRef e @ sizeRefAt (e_size e) it \<and>
    e_positions e' = positionsAfter (e_size e) it (e_positions e) \<and>
    m_type it \<noteq> UndefinedItem \<and>
    (m_type it = Tag \<longrightarrow> localTag it \<and> unat (tagId it) < length (e_positions e) \<and>
       e_positions e ! unat (tagId it) = - 1 \<and> e_size e < 0xffffffff)"
proof -
  obtain e1 where m: "markInvalid it e = Inr e1"
    using assms by (auto simp: emitItem_def bindE_Inr_iff)
  note e1 = markInvalid_Inr [OF m]
  show ?thesis
  proof (cases "m_type it = Tag")
    case True
    then have "placeTag it (e1\<lparr>e_items := e_items e1 @ [it]\<rparr>) = Inr e'"
      using assms m by (simp add: emitItem_def Let_def)
    from placeTag_Inr [OF this True] True e1 show ?thesis
      by (simp add: pushBytes_def itemBytes_def refAt_defs)
  next
    case False
    then show ?thesis
      using assms m e1
      by (cases "m_type it")
        (auto simp: emitItem_def Let_def bindE_Inr_iff pushBytes_def itemBytes_def refAt_defs split_tag
          map_at_def nth_at_def e_size_def split: option.splits if_splits)
  qed
qed

subsection \<open>Items at their offsets\<close>

fun placed :: "(AssemblyItem \<Rightarrow> bytes) \<Rightarrow> nat \<Rightarrow> AssemblyItems \<Rightarrow> (nat \<times> AssemblyItem) list" where
  "placed ib n [] = []"
| "placed ib n (it # its) = (n, it) # placed ib (n + length (ib it)) its"

lemma placed_bounds: "(k, it) \<in> set (placed ib n its) \<Longrightarrow> n \<le> k \<and> k + length (ib it) \<le> n + length (concat (map ib its))"
  by (induction its arbitrary: n) fastforce+

lemma placed_item: "(k, it) \<in> set (placed ib n its) \<Longrightarrow> it \<in> set its"
  by (induction its arbitrary: n) auto

lemma placed_disjoint:
  "(k, it) \<in> set (placed ib n its) \<Longrightarrow> (k', it') \<in> set (placed ib n its) \<Longrightarrow>
   (k, it) = (k', it') \<or> k + length (ib it) \<le> k' \<or> k' + length (ib it') \<le> k"
proof (induction its arbitrary: n)
  case (Cons i its)
  then show ?case using placed_bounds [of _ _ ib "n + length (ib i)" its] by fastforce
qed simp

lemma placed_content:
  "(k, it) \<in> set (placed ib n its) \<Longrightarrow> j < length (ib it) \<Longrightarrow>
   (concat (map ib its)) ! (k - n + j) = ib it ! j"
proof (induction its arbitrary: n)
  case (Cons i its)
  show ?case
  proof (cases "(k, it) = (n, i)")
    case True
    then show ?thesis using Cons.prems by (simp add: nth_append)
  next
    case False
    then have p: "(k, it) \<in> set (placed ib (n + length (ib i)) its)" using Cons.prems by auto
    then have "n + length (ib i) \<le> k" using placed_bounds by blast
    then have "k - n + j = length (ib i) + (k - (n + length (ib i)) + j)" by simp
    then show ?thesis using Cons.IH [OF p Cons.prems(2)] by (simp add: nth_append)
  qed
qed simp

lemma emitItems_Inr:
  assumes "emitItems st subs bytesPerTag bytesPerDataRef its e = Inr e'"
  defines "ib \<equiv> itemBytes st subs bytesPerTag bytesPerDataRef"
  defines "ps \<equiv> placed ib (e_size e) its"
  shows "bytecode (e_ret e') = bytecode (e_ret e) @ concat (map ib its) \<and>
    e_tagRef e' = e_tagRef e @ concat (map (\<lambda>(n, it). tagRefAt n it) ps) \<and>
    e_dataRef e' = e_dataRef e @ concat (map (\<lambda>(n, it). dataRefAt n it) ps) \<and>
    e_subRef e' = e_subRef e @ concat (map (\<lambda>(n, it). subRefAt n it) ps) \<and>
    e_sizeRef e' = e_sizeRef e @ concat (map (\<lambda>(n, it). sizeRefAt n it) ps) \<and>
    e_positions e' = fold (\<lambda>(n, it). positionsAfter n it) ps (e_positions e) \<and>
    list_all (\<lambda>it. m_type it \<noteq> UndefinedItem) its"
  using assms(1) unfolding ps_def
proof (induction its arbitrary: e)
  case (Cons it its)
  then obtain e1 where e1: "emitItem st subs bytesPerTag bytesPerDataRef it e = Inr e1"
    "emitItems st subs bytesPerTag bytesPerDataRef its e1 = Inr e'"
    by (auto simp: bindE_Inr_iff)
  note it = emitItem_Inr [OF e1(1), folded ib_def]
  have "e_size e1 = e_size e + length (ib it)" using it by (simp add: e_size_def)
  then show ?case using Cons.IH [OF e1(2)] it by simp
qed simp

subsection \<open>Positions of the tags\<close>

lemma positionsAfter_Tag: "m_type it = Tag \<Longrightarrow> positionsAfter n it ps = ps[unat (tagId it) := of_nat n]"
  by (simp add: positionsAfter_def)

lemma positionsAfter_other:
  "m_type it \<noteq> Tag \<Longrightarrow> positionsAfter n it ps = (if ps \<noteq> [] \<and> ps ! 0 = - 1 then ps[0 := of_nat n] else ps)"
  by (simp add: positionsAfter_def split: list.split)

lemma positionsAfter_old:
  "t < length ps \<Longrightarrow> ps ! t \<noteq> - 1 \<Longrightarrow> (m_type it = Tag \<Longrightarrow> ps ! unat (tagId it) = - 1) \<Longrightarrow>
   positionsAfter n it ps ! t = ps ! t"
  by (cases "m_type it = Tag"; cases "unat (tagId it) = t")
    (auto simp: positionsAfter_Tag positionsAfter_other nth_list_update)

lemma length_positionsAfter [simp]: "length (positionsAfter n it ps) = length ps"
  by (simp add: positionsAfter_def split: list.split)

lemma positionsAfter_new:
  "t < length ps \<Longrightarrow> positionsAfter n it ps ! t \<noteq> ps ! t \<Longrightarrow>
   positionsAfter n it ps ! t = of_nat n \<and> (if m_type it = Tag then t = unat (tagId it) else t = 0)"
  by (cases "m_type it = Tag"; cases "unat (tagId it) = t")
    (auto simp: positionsAfter_Tag positionsAfter_other nth_list_update split: if_splits)

lemma of_nat_position:
  assumes "n < 0xffffffff"
  shows "(of_nat n :: u64) \<noteq> - 1"
proof
  assume "(of_nat n :: u64) = - 1"
  then have "(of_nat (n + 1) :: u64) = 0" by simp
  then have "2 ^ 64 dvd n + 1" by (simp only: word_of_nat_eq_0_iff) simp
  then show False using assms by (auto dest: dvd_imp_le)
qed

lemma emitItems_positions:
  assumes "emitItems st subs bytesPerTag bytesPerDataRef its e = Inr e'"
  defines "ps \<equiv> placed (itemBytes st subs bytesPerTag bytesPerDataRef) (e_size e) its"
  shows "length (e_positions e') = length (e_positions e) \<and>
    (\<forall>t < length (e_positions e). e_positions e ! t \<noteq> - 1 \<longrightarrow> e_positions e' ! t = e_positions e ! t) \<and>
    (\<forall>n it. (n, it) \<in> set ps \<longrightarrow> m_type it = Tag \<longrightarrow> localTag it \<and> n < 0xffffffff \<and>
       unat (tagId it) < length (e_positions e) \<and> e_positions e' ! unat (tagId it) = of_nat n) \<and>
    (\<forall>t < length (e_positions e). e_positions e ! t = - 1 \<longrightarrow> e_positions e' ! t \<noteq> - 1 \<longrightarrow>
       (\<exists>n it. (n, it) \<in> set ps \<and> e_positions e' ! t = of_nat n \<and>
          (if m_type it = Tag then t = unat (tagId it) else t = 0)))"
  using assms(1) unfolding ps_def
proof (induction its arbitrary: e)
  case (Cons it its)
  then obtain e1 where e1: "emitItem st subs bytesPerTag bytesPerDataRef it e = Inr e1"
    "emitItems st subs bytesPerTag bytesPerDataRef its e1 = Inr e'"
    by (auto simp: bindE_Inr_iff)
  note it = emitItem_Inr [OF e1(1)]
  let ?ib = "itemBytes st subs bytesPerTag bytesPerDataRef"
  have size: "e_size e1 = e_size e + length (?ib it)" using it by (simp add: e_size_def)
  have pos: "e_positions e1 = positionsAfter (e_size e) it (e_positions e)" using it by simp
  note IH = Cons.IH [OF e1(2), unfolded size]
  have len: "length (e_positions e1) = length (e_positions e)" by (simp add: pos)
  have old: "e_positions e1 ! t = e_positions e ! t" if "t < length (e_positions e)" "e_positions e ! t \<noteq> - 1" for t
    unfolding pos by (rule positionsAfter_old) (use that it in auto)
  have tag: "e_positions e' ! unat (tagId it) = of_nat (e_size e)" if "m_type it = Tag"
  proof -
    have "e_positions e1 ! unat (tagId it) = of_nat (e_size e)"
      using it that by (simp add: pos positionsAfter_def)
    then show ?thesis using IH it that len of_nat_position by metis
  qed
  show ?case
  proof (intro conjI allI impI)
    show "length (e_positions e') = length (e_positions e)" using IH len by simp
    fix t assume t: "t < length (e_positions e)"
    show "e_positions e' ! t = e_positions e ! t" if "e_positions e ! t \<noteq> - 1"
      using IH old [OF t that] t that len by simp
    show "\<exists>n it'. (n, it') \<in> set (placed ?ib (e_size e) (it # its)) \<and> e_positions e' ! t = of_nat n \<and>
        (if m_type it' = Tag then t = unat (tagId it') else t = 0)"
      if new: "e_positions e ! t = - 1" "e_positions e' ! t \<noteq> - 1"
    proof (cases "e_positions e1 ! t = - 1")
      case True
      then show ?thesis using IH t new len by fastforce
    next
      case False
      then have "e_positions e1 ! t = of_nat (e_size e) \<and> (if m_type it = Tag then t = unat (tagId it) else t = 0)"
        using positionsAfter_new [OF t] new(1) pos by metis
      moreover have "e_positions e' ! t = e_positions e1 ! t" using IH False t len by simp
      ultimately show ?thesis by (intro exI [of _ "e_size e"] exI [of _ it]) simp
    qed
  next
    fix n it'
    assume p: "(n, it') \<in> set (placed ?ib (e_size e) (it # its))" and ty: "m_type it' = Tag"
    have "localTag it' \<and> n < 0xffffffff \<and> unat (tagId it') < length (e_positions e) \<and>
        e_positions e' ! unat (tagId it') = of_nat n"
    proof (cases "n = e_size e \<and> it' = it")
      case True
      then show ?thesis using it ty tag by simp
    next
      case False
      then have "(n, it') \<in> set (placed ?ib (e_size e + length (?ib it)) its)" using p by auto
      then show ?thesis using IH ty len by auto
    qed
    then show "localTag it'" "n < 0xffffffff" "unat (tagId it') < length (e_positions e)"
      "e_positions e' ! unat (tagId it') = of_nat n" by auto
  qed
qed simp

subsection \<open>Filling in keeps the other bytes\<close>

definition keeps :: "nat set \<Rightarrow> nat \<Rightarrow> bytes \<Rightarrow> bytes \<Rightarrow> bool" where
  "keeps ps w code code' \<longleftrightarrow> length code \<le> length code' \<and>
     (\<forall>i < length code. (\<forall>p \<in> ps. i < p \<or> p + w \<le> i) \<longrightarrow> code' ! i = code ! i)"

lemma keeps_refl [simp]: "keeps ps w code code"
  by (simp add: keeps_def)

lemma keeps_append: "keeps ps w code (code @ xs)"
  by (simp add: keeps_def nth_append)

lemma keeps_trans: "keeps ps w a b \<Longrightarrow> keeps ps w b c \<Longrightarrow> keeps ps w a c"
  by (fastforce simp: keeps_def)

lemma keeps_mono: "keeps ps w a b \<Longrightarrow> ps \<subseteq> qs \<Longrightarrow> keeps qs w a b"
  by (fastforce simp: keeps_def)

lemma keepsD:
  "keeps ps w a b \<Longrightarrow> i < length a \<Longrightarrow> (\<And>p. p \<in> ps \<Longrightarrow> i < p \<or> p + w \<le> i) \<Longrightarrow> b ! i = a ! i"
  by (auto simp: keeps_def)

lemma keeps_length: "keeps ps w a b \<Longrightarrow> length a \<le> length b"
  by (simp add: keeps_def)

lemma copyTo_Inr:
  assumes "copyTo bs p code = Inr code'"
  shows "length code' = length code \<and> p + length bs \<le> length code \<and>
    keeps {p} (length bs) code code' \<and> (\<forall>k < length bs. code' ! (p + k) = bs ! k)"
proof -
  have le: "p + length bs \<le> length code" using assms by (auto simp: copyTo_def split: if_splits)
  from copyTo_spec [OF this] assms show ?thesis by (auto simp: keeps_def le)
qed

lemma patchAll_Inr:
  "patchAll ps bs code = Inr code' \<Longrightarrow> length code' = length code \<and> keeps (set ps) (length bs) code code'"
proof (induction ps bs code rule: patchAll.induct)
  case (2 p ps bs code)
  then obtain d where d: "copyTo bs p code = Inr d" "patchAll ps bs d = Inr code'"
    by (auto simp: bindE_Inr_iff)
  have "length code' = length d" "keeps (set ps) (length bs) d code'" using 2(1) d by auto
  moreover have "length d = length code" "keeps {p} (length bs) code d" using copyTo_Inr [OF d(1)] by auto
  ultimately show ?case by (auto intro: keeps_trans keeps_mono)
qed simp

text \<open>Positions whose blocks are equal or apart.\<close>

definition apart :: "nat set \<Rightarrow> nat \<Rightarrow> bool" where
  "apart ps w \<longleftrightarrow> (\<forall>p \<in> ps. \<forall>q \<in> ps. p = q \<or> p + w \<le> q \<or> q + w \<le> p)"

lemma apart_mono: "apart qs w \<Longrightarrow> ps \<subseteq> qs \<Longrightarrow> apart ps w"
  by (auto simp: apart_def)

lemma keeps_block:
  assumes "keeps ps w a b" "p + w \<le> length a" "\<And>q. q \<in> ps \<Longrightarrow> p + w \<le> q \<or> q + w \<le> p" "k < w"
  shows "b ! (p + k) = a ! (p + k)"
  by (rule keepsD [OF assms(1)]) (use assms in \<open>fastforce+\<close>)

lemma patchAll_written:
  "patchAll ps bs code = Inr code' \<Longrightarrow> apart (set ps) (length bs) \<Longrightarrow> p \<in> set ps \<Longrightarrow> k < length bs \<Longrightarrow>
   code' ! (p + k) = bs ! k"
proof (induction ps bs code rule: patchAll.induct)
  case (2 q ps bs code)
  then obtain d where d: "copyTo bs q code = Inr d" "patchAll ps bs d = Inr code'"
    by (auto simp: bindE_Inr_iff)
  show ?case
  proof (cases "p \<in> set ps")
    case True
    then show ?thesis using 2 d by (auto intro: apart_mono)
  next
    case False
    then have "p = q" using 2(4) by simp
    have "code' ! (q + k) = d ! (q + k)"
    proof (rule keeps_block)
      show "keeps (set ps) (length bs) d code'" using patchAll_Inr [OF d(2)] by blast
      show "q + length bs \<le> length d" using copyTo_Inr [OF d(1)] by simp
      show "q + length bs \<le> q' \<or> q' + length bs \<le> q" if "q' \<in> set ps" for q'
        using 2(3) that False \<open>p = q\<close> by (auto simp: apart_def)
    qed (fact 2(5))
    then show ?thesis using copyTo_Inr [OF d(1)] 2(5) \<open>p = q\<close> by simp
  qed
qed simp

subsection \<open>The phases\<close>

lemma referencesTo_subset: "set (referencesTo k refs) \<subseteq> snd ` set refs"
  by (auto simp: referencesTo_def)

lemma placeSubs_keeps:
  "placeSubs i ss w refs ret = Inr ret' \<Longrightarrow> keeps (snd ` set refs) w (bytecode ret) (bytecode ret')"
proof (induction i ss w refs ret rule: placeSubs.induct)
  case (2 i s ss w refs ret)
  show ?case
  proof (cases "referencesTo (of_nat i) refs = []")
    case True
    then show ?thesis using 2 by (simp add: Let_def)
  next
    case False
    obtain code where c: "patchAll (referencesTo (of_nat i) refs) (toBigEndian w (codePosition ret)) (bytecode ret) = Inr code"
      "placeSubs (i + 1) ss w refs (object_append (ret\<lparr>bytecode := code\<rparr>) (m_assembledObject (asmState s))) = Inr ret'"
      using 2(3) False by (auto simp: Let_def bindE_Inr_iff)
    have "keeps (snd ` set refs) w (bytecode ret) code"
      using patchAll_Inr [OF c(1)] keeps_mono [OF _ referencesTo_subset] by (metis length_toBigEndian)
    moreover have "keeps (snd ` set refs) w code (code @ bytecode (m_assembledObject (asmState s)))"
      by (rule keeps_append)
    moreover have "keeps (snd ` set refs) w (code @ bytecode (m_assembledObject (asmState s))) (bytecode ret')"
      using 2(2) [OF refl False c(1) c(2)] by (simp add: object_append_def)
    ultimately show ?thesis by (blast intro: keeps_trans)
  qed
qed simp

lemma placeTags_keeps:
  "placeTags positions subs w refs code = Inr code' \<Longrightarrow>
     length code' = length code \<and> keeps (fst ` set refs) w code code'"
proof (induction positions subs w refs code rule: placeTags.induct)
  case (2 positions subs w p ref refs code)
  then obtain pos d where d: "resolveTag positions subs w ref = Inr pos"
    "copyTo (toBigEndian w pos) p code = Inr d" "placeTags positions subs w refs d = Inr code'"
    by (auto simp: bindE_Inr_iff)
  have "keeps {p} w code d" "length d = length code" using copyTo_Inr [OF d(2)] by auto
  moreover have "keeps (fst ` set refs) w d code'" "length code' = length d" using 2(1) [OF d] by auto
  ultimately show ?case by (auto intro: keeps_trans keeps_mono)
qed simp

lemma placeTags_written:
  "placeTags positions subs w refs code = Inr code' \<Longrightarrow> (p, ref) \<in> set refs \<Longrightarrow>
   \<forall>(p, ref) \<in> set refs. \<forall>(q, ref') \<in> set refs. (p, ref) = (q, ref') \<or> p + w \<le> q \<or> q + w \<le> p \<Longrightarrow>
   \<exists>pos. resolveTag positions subs w ref = Inr pos \<and> (\<forall>k < w. code' ! (p + k) = toBigEndian w pos ! k)"
proof (induction positions subs w refs code rule: placeTags.induct)
  case (2 positions subs w q ref' refs code)
  then obtain pos d where d: "resolveTag positions subs w ref' = Inr pos"
    "copyTo (toBigEndian w pos) q code = Inr d" "placeTags positions subs w refs d = Inr code'"
    by (auto simp: bindE_Inr_iff)
  show ?case
  proof (cases "(p, ref) \<in> set refs")
    case True
    then show ?thesis by (rule 2(1) [OF d]) (use 2(4) in auto)
  next
    case False
    then have pq: "p = q" "ref = ref'" using 2(3) by auto
    have ap: "q + w \<le> q' \<or> q' + w \<le> q" if "q' \<in> fst ` set refs" for q'
      using 2(4) that False pq by fastforce
    have "code' ! (q + k) = toBigEndian w pos ! k" if "k < w" for k
    proof -
      have "code' ! (q + k) = d ! (q + k)"
        by (rule keeps_block [OF _ _ ap that])
          (use placeTags_keeps [OF d(3)] copyTo_Inr [OF d(2)] in auto)
      then show ?thesis using copyTo_Inr [OF d(2)] that by simp
    qed
    then show ?thesis using d(1) pq by blast
  qed
qed simp

lemma placeData_keeps:
  "placeData ds w refs code = Inr code' \<Longrightarrow> keeps (snd ` set refs) w code code'"
proof (induction ds w refs code rule: placeData.induct)
  case (2 h d ds w refs code)
  show ?case
  proof (cases "referencesTo h refs = []")
    case True
    then show ?thesis using 2 by (simp add: Let_def)
  next
    case False
    obtain c where c: "patchAll (referencesTo h refs) (toBigEndian w (of_nat (length code) :: u64)) code = Inr c"
      "placeData ds w refs (c @ d) = Inr code'"
      using 2(3) False by (auto simp: Let_def bindE_Inr_iff)
    have "keeps (snd ` set refs) w code c"
      using patchAll_Inr [OF c(1)] keeps_mono [OF _ referencesTo_subset] by (metis length_toBigEndian)
    moreover have "keeps (snd ` set refs) w (c @ d) code'" using 2(2) [OF refl False c(1) c(2)] .
    ultimately show ?thesis by (blast intro: keeps_trans keeps_append)
  qed
qed simp

subsection \<open>The code of an item\<close>

lemma length_itemBytes:
  "m_type it = PushTag \<Longrightarrow> length (itemBytes st subs bT bD it) = bT + 1"
  "m_type it = PushData \<or> m_type it = PushSub \<or> m_type it = PushProgramSize \<Longrightarrow>
     length (itemBytes st subs bT bD it) = bD + 1"
  by (auto simp: itemBytes_def)

lemma other_item:
  assumes "(n, it) \<in> set (placed ib 0 its)" "(n', it') \<in> set (placed ib 0 its)"
    and "m_type it' \<noteq> m_type it" "j < length (ib it)" "length (ib it') = w + 1"
  shows "n + j < n' + 1 \<or> n' + 1 + w \<le> n + j"
  using placed_disjoint [OF assms(1,2)] assms(3-5) by fastforce

text \<open>The phases of a call that returns: the emission, and the code after each phase.\<close>

definition emptyEmission :: "AssemblyState \<Rightarrow> Emission" where
  "emptyEmission st =
     \<lparr>e_ret = m_assembledObject st, e_positions = replicate (unat (m_usedTags st)) (- 1),
      e_items = [], e_tagRef = [], e_dataRef = [], e_subRef = [], e_sizeRef = []\<rparr>"

definition assembledAs :: "AssemblyState \<Rightarrow> Assembly list \<Rightarrow> nat \<Rightarrow> nat \<Rightarrow> Emission \<Rightarrow> bytes \<Rightarrow> bytes \<Rightarrow> bytes \<Rightarrow> bytes \<Rightarrow> bool" where
  "assembledAs st subs bT bD e c1 c2 c3 c4 \<longleftrightarrow>
     emitItems st subs bT bD (m_items st) (emptyEmission st) = Inr e \<and>
     bytecode (m_assembledObject st) = [] \<and>
     keeps (snd ` set (e_subRef e)) bD (bytecode (e_ret e)) c1 \<and>
     placeTags (e_positions e) subs bT (e_tagRef e) c1 = Inr c2 \<and>
     keeps (snd ` set (e_dataRef e)) bD c2 c3 \<and>
     keeps (set (e_sizeRef e)) bD c3 c4"

abbreviation placedItems :: "AssemblyState \<Rightarrow> Assembly list \<Rightarrow> nat \<Rightarrow> nat \<Rightarrow> (nat \<times> AssemblyItem) list" where
  "placedItems st subs bT bD \<equiv> placed (itemBytes st subs bT bD) 0 (m_items st)"

definition withInvalid :: "AssemblyState \<Rightarrow> Assembly list \<Rightarrow> Emission \<Rightarrow> Emission" where
  "withInvalid st subs e =
     (if subs \<noteq> [] \<or> m_dataMap st \<noteq> [] \<or> m_auxiliaryData st \<noteq> [] then pushBytes [i_INVALID] e else e)"

lemma withInvalid_sel [simp]:
  "e_positions (withInvalid st subs e) = e_positions e" "e_tagRef (withInvalid st subs e) = e_tagRef e"
  "e_dataRef (withInvalid st subs e) = e_dataRef e" "e_subRef (withInvalid st subs e) = e_subRef e"
  "e_sizeRef (withInvalid st subs e) = e_sizeRef e" "e_items (withInvalid st subs e) = e_items e"
  by (simp_all add: withInvalid_def pushBytes_def)

definition fillReferences :: "AssemblyState \<Rightarrow> Assembly list \<Rightarrow> nat \<Rightarrow> nat \<Rightarrow> Emission \<Rightarrow> AssemblyState result" where
  "fillReferences st subs bT bD e =
     bindE (placeSubs 0 subs bD (e_subRef e) (e_ret (withInvalid st subs e))) (\<lambda>ret.
     bindE (placeTags (e_positions e) subs bT (e_tagRef e) (bytecode ret)) (\<lambda>code.
     bindE (placeData (m_dataMap st) bD (e_dataRef e) code) (\<lambda>code.
     bindE (patchAll (e_sizeRef e) (toBigEndian bD (of_nat (length (code @ m_auxiliaryData st)) :: u64))
        (code @ m_auxiliaryData st)) (\<lambda>code.
     Inr (st\<lparr>m_items := e_items e, m_tagPositionsInBytecode := e_positions e,
             m_assembledObject := ret\<lparr>bytecode := code\<rparr>\<rparr>)))))"

lemma assembleState_eq:
  assumes "assembly_bytesRequired st (ucast (subTagSize subs)) = Inr req"
    and "bT = bytesRequired (ucast req :: u64)"
    and "bD = bytesRequired (req + 1 + of_nat (length (m_auxiliaryData st)) +
      sum_list (map (\<lambda>s. ucast (subCodeSize s)) subs))"
  shows "assembleState st subs =
    bindE (emitItems st subs bT bD (m_items st) (emptyEmission st)) (fillReferences st subs bT bD)"
  unfolding assembleState_def assms bindE_simps Let_def withInvalid_def [symmetric]
    emptyEmission_def [symmetric] withInvalid_sel fillReferences_def [symmetric]
  by (rule refl)

lemma assembleState_phases:
  assumes "assembleState st subs = Inr st'" and "bytecode (m_assembledObject st) = []"
  shows "\<exists>bT bD e c1 c2 c3. assembledAs st subs bT bD e c1 c2 c3 (bytecode (m_assembledObject st')) \<and>
    m_tagPositionsInBytecode st' = e_positions e"
proof -
  obtain req where req: "assembly_bytesRequired st (ucast (subTagSize subs)) = Inr req"
    using assms(1) by (auto simp: assembleState_def bindE_Inr_iff)
  let ?bT = "bytesRequired (ucast req :: u64)" and ?bD = "bytesRequired (req + 1 +
    of_nat (length (m_auxiliaryData st)) + sum_list (map (\<lambda>s. ucast (subCodeSize s)) subs))"
  obtain e where e: "emitItems st subs ?bT ?bD (m_items st) (emptyEmission st) = Inr e"
    "fillReferences st subs ?bT ?bD e = Inr st'"
    using assms(1) assembleState_eq [OF req refl refl] by (auto simp: bindE_Inr_iff)
  then obtain ret c2 c3 c4 where ph:
    "placeSubs 0 subs ?bD (e_subRef e) (e_ret (withInvalid st subs e)) = Inr ret"
    "placeTags (e_positions e) subs ?bT (e_tagRef e) (bytecode ret) = Inr c2"
    "placeData (m_dataMap st) ?bD (e_dataRef e) c2 = Inr c3"
    "patchAll (e_sizeRef e) (toBigEndian ?bD (of_nat (length (c3 @ m_auxiliaryData st)) :: u64))
       (c3 @ m_auxiliaryData st) = Inr c4"
    "bytecode (m_assembledObject st') = c4" "m_tagPositionsInBytecode st' = e_positions e"
    unfolding fillReferences_def bindE_Inr_iff by auto
  have "keeps (snd ` set (e_dataRef e)) ?bD c2 (c3 @ m_auxiliaryData st)"
    using placeData_keeps [OF ph(3)] keeps_append by (rule keeps_trans)
  moreover have "keeps P w (bytecode (e_ret e)) (bytecode (e_ret (withInvalid st subs e)))" for P w
    by (simp add: withInvalid_def pushBytes_def keeps_append)
  then have "keeps (snd ` set (e_subRef e)) ?bD (bytecode (e_ret e)) (bytecode ret)"
    using placeSubs_keeps [OF ph(1)] by (rule keeps_trans)
  moreover have "keeps (set (e_sizeRef e)) ?bD (c3 @ m_auxiliaryData st) c4"
    using patchAll_Inr [OF ph(4)] by simp
  ultimately show ?thesis
    using e(1) ph(2,5,6) assms(2) unfolding assembledAs_def by blast
qed

lemma assembled_refs:
  assumes "assembledAs st subs bT bD e c1 c2 c3 c4"
  shows "bytecode (e_ret e) = concat (map (itemBytes st subs bT bD) (m_items st))"
    and "(p, r) \<in> set (e_tagRef e) \<longleftrightarrow>
      (\<exists>n it. (n, it) \<in> set (placedItems st subs bT bD) \<and> m_type it = PushTag \<and> p = n + 1 \<and>
         r = (ucast (drop_bit 64 (m_data it) - 1), tagId it))"
    and "p \<in> snd ` set (e_subRef e) \<longleftrightarrow>
      (\<exists>n it. (n, it) \<in> set (placedItems st subs bT bD) \<and> m_type it = PushSub \<and> p = n + 1)"
    and "p \<in> snd ` set (e_dataRef e) \<longleftrightarrow>
      (\<exists>n it. (n, it) \<in> set (placedItems st subs bT bD) \<and> m_type it = PushData \<and> p = n + 1)"
    and "p \<in> set (e_sizeRef e) \<longleftrightarrow>
      (\<exists>n it. (n, it) \<in> set (placedItems st subs bT bD) \<and> m_type it = PushProgramSize \<and> p = n + 1)"
proof -
  have "e_size (emptyEmission st) = 0" "bytecode (e_ret (emptyEmission st)) = []"
    using assms by (simp_all add: assembledAs_def emptyEmission_def e_size_def)
  moreover have "emitItems st subs bT bD (m_items st) (emptyEmission st) = Inr e"
    using assms by (simp add: assembledAs_def)
  note emitItems_Inr [OF this]
  ultimately have em: "bytecode (e_ret e) = concat (map (itemBytes st subs bT bD) (m_items st))"
    "e_tagRef e = concat (map (\<lambda>(n, it). tagRefAt n it) (placedItems st subs bT bD))"
    "e_dataRef e = concat (map (\<lambda>(n, it). dataRefAt n it) (placedItems st subs bT bD))"
    "e_subRef e = concat (map (\<lambda>(n, it). subRefAt n it) (placedItems st subs bT bD))"
    "e_sizeRef e = concat (map (\<lambda>(n, it). sizeRefAt n it) (placedItems st subs bT bD))"
    by (simp_all add: emptyEmission_def)
  show "bytecode (e_ret e) = concat (map (itemBytes st subs bT bD) (m_items st))" by (rule em)
  show "(p, r) \<in> set (e_tagRef e) \<longleftrightarrow>
      (\<exists>n it. (n, it) \<in> set (placedItems st subs bT bD) \<and> m_type it = PushTag \<and> p = n + 1 \<and>
         r = (ucast (drop_bit 64 (m_data it) - 1), tagId it))"
    unfolding em(2) by (auto simp: tagRefAt_def split: if_splits)
  show "p \<in> snd ` set (e_subRef e) \<longleftrightarrow>
      (\<exists>n it. (n, it) \<in> set (placedItems st subs bT bD) \<and> m_type it = PushSub \<and> p = n + 1)"
    unfolding em(4) by (force simp: subRefAt_def split: if_splits)
  show "p \<in> snd ` set (e_dataRef e) \<longleftrightarrow>
      (\<exists>n it. (n, it) \<in> set (placedItems st subs bT bD) \<and> m_type it = PushData \<and> p = n + 1)"
    unfolding em(3) by (force simp: dataRefAt_def split: if_splits)
  show "p \<in> set (e_sizeRef e) \<longleftrightarrow>
      (\<exists>n it. (n, it) \<in> set (placedItems st subs bT bD) \<and> m_type it = PushProgramSize \<and> p = n + 1)"
    unfolding em(5) by (force simp: sizeRefAt_def split: if_splits)
qed

text \<open>A byte of an item is not in the operand of an item of another type, and the first byte of an
  item is in no operand.\<close>

lemma not_in_operand:
  assumes "(n, it) \<in> set (placed ib 0 its)" "(n', it') \<in> set (placed ib 0 its)"
    and "j < length (ib it)" "length (ib it') = w + 1" "j = 0 \<or> m_type it' \<noteq> m_type it"
  shows "n + j < n' + 1 \<or> n' + 1 + w \<le> n + j"
  using placed_disjoint [OF assms(1,2)] assms(3-5) by auto

lemma assembled_lengths:
  assumes "assembledAs st subs bT bD e c1 c2 c3 c4" "(n, it) \<in> set (placedItems st subs bT bD)"
  shows "n + length (itemBytes st subs bT bD it) \<le> length c1" "length c1 = length c2"
    "length c2 \<le> length c3" "length c3 \<le> length c4"
proof -
  have k: "keeps (snd ` set (e_subRef e)) bD (bytecode (e_ret e)) c1"
    "placeTags (e_positions e) subs bT (e_tagRef e) c1 = Inr c2"
    "keeps (snd ` set (e_dataRef e)) bD c2 c3" "keeps (set (e_sizeRef e)) bD c3 c4"
    using assms(1) by (simp_all add: assembledAs_def)
  show "n + length (itemBytes st subs bT bD it) \<le> length c1"
    using placed_bounds [OF assms(2)] keeps_length [OF k(1)] assembled_refs(1) [OF assms(1)] by simp
  show "length c1 = length c2" using placeTags_keeps [OF k(2)] by simp
  show "length c2 \<le> length c3" "length c3 \<le> length c4" using keeps_length k(3,4) by auto
qed

lemma assembled_early:
  assumes "assembledAs st subs bT bD e c1 c2 c3 c4" "(n, it) \<in> set (placedItems st subs bT bD)"
    and "j < length (itemBytes st subs bT bD it)" "j = 0 \<or> m_type it \<noteq> PushSub"
  shows "c1 ! (n + j) = itemBytes st subs bT bD it ! j"
proof -
  have "c1 ! (n + j) = bytecode (e_ret e) ! (n + j)"
  proof (rule keepsD)
    show "keeps (snd ` set (e_subRef e)) bD (bytecode (e_ret e)) c1" using assms(1) by (simp add: assembledAs_def)
    show "n + j < length (bytecode (e_ret e))"
      using placed_bounds [OF assms(2)] assms(3) assembled_refs(1) [OF assms(1)] by simp
    fix p assume "p \<in> snd ` set (e_subRef e)"
    then obtain n' it' where "(n', it') \<in> set (placedItems st subs bT bD)" "m_type it' = PushSub" "p = n' + 1"
      using assembled_refs(3) [OF assms(1)] by blast
    then show "n + j < p \<or> p + bD \<le> n + j"
      using not_in_operand [OF assms(2) _ assms(3)] length_itemBytes(2) assms(4) by metis
  qed
  then show ?thesis
    using placed_content [OF assms(2,3)] assembled_refs(1) [OF assms(1)] by simp
qed

lemma assembled_late:
  assumes "assembledAs st subs bT bD e c1 c2 c3 c4" "(n, it) \<in> set (placedItems st subs bT bD)"
    and "j < length (itemBytes st subs bT bD it)"
    and "j = 0 \<or> m_type it \<noteq> PushData \<and> m_type it \<noteq> PushProgramSize"
  shows "c4 ! (n + j) = c2 ! (n + j)"
proof -
  note len = assembled_lengths [OF assms(1,2)]
  have "c4 ! (n + j) = c3 ! (n + j)"
  proof (rule keepsD)
    show "keeps (set (e_sizeRef e)) bD c3 c4" using assms(1) by (simp add: assembledAs_def)
    show "n + j < length c3" using len assms(3) by linarith
    fix p assume "p \<in> set (e_sizeRef e)"
    then obtain n' it' where "(n', it') \<in> set (placedItems st subs bT bD)" "m_type it' = PushProgramSize" "p = n' + 1"
      using assembled_refs(5) [OF assms(1)] by blast
    then show "n + j < p \<or> p + bD \<le> n + j"
      using not_in_operand [OF assms(2) _ assms(3)] length_itemBytes(2) assms(4) by metis
  qed
  also have "\<dots> = c2 ! (n + j)"
  proof (rule keepsD)
    show "keeps (snd ` set (e_dataRef e)) bD c2 c3" using assms(1) by (simp add: assembledAs_def)
    show "n + j < length c2" using len assms(3) by linarith
    fix p assume "p \<in> snd ` set (e_dataRef e)"
    then obtain n' it' where "(n', it') \<in> set (placedItems st subs bT bD)" "m_type it' = PushData" "p = n' + 1"
      using assembled_refs(4) [OF assms(1)] by blast
    then show "n + j < p \<or> p + bD \<le> n + j"
      using not_in_operand [OF assms(2) _ assms(3)] length_itemBytes(2) assms(4) by metis
  qed
  finally show ?thesis .
qed

lemma assembled_fixed:
  assumes "assembledAs st subs bT bD e c1 c2 c3 c4" "(n, it) \<in> set (placedItems st subs bT bD)"
    and "j < length (itemBytes st subs bT bD it)"
    and "j = 0 \<or> m_type it \<notin> {PushTag, PushSub, PushData, PushProgramSize}"
  shows "c4 ! (n + j) = itemBytes st subs bT bD it ! j"
proof -
  have "c4 ! (n + j) = c2 ! (n + j)"
    by (rule assembled_late [OF assms(1,2,3)]) (use assms(4) in auto)
  also have "\<dots> = c1 ! (n + j)"
  proof (rule keepsD)
    show "keeps (fst ` set (e_tagRef e)) bT c1 c2"
      using assms(1) placeTags_keeps by (auto simp: assembledAs_def)
    show "n + j < length c1" using assembled_lengths [OF assms(1,2)] assms(3) by linarith
    fix p assume "p \<in> fst ` set (e_tagRef e)"
    then obtain n' it' where "(n', it') \<in> set (placedItems st subs bT bD)" "m_type it' = PushTag" "p = n' + 1"
      using assembled_refs(2) [OF assms(1)] by force
    then show "n + j < p \<or> p + bT \<le> n + j"
      using not_in_operand [OF assms(2) _ assms(3)] length_itemBytes(1) assms(4) by (metis insertCI)
  qed
  also have "\<dots> = itemBytes st subs bT bD it ! j"
    by (rule assembled_early [OF assms(1,2,3)]) (use assms(4) in auto)
  finally show ?thesis .
qed

lemma assembled_tag:
  assumes "assembledAs st subs bT bD e c1 c2 c3 c4" "(n, it) \<in> set (placedItems st subs bT bD)" "m_type it = PushTag"
  shows "\<exists>pos. resolveTag (e_positions e) subs bT (ucast (drop_bit 64 (m_data it) - 1), tagId it) = Inr pos \<and>
    (\<forall>k < bT. c4 ! (n + 1 + k) = toBigEndian bT pos ! k)"
proof -
  let ?ref = "(ucast (drop_bit 64 (m_data it) - 1) :: u64, tagId it)"
  have "(n + 1, ?ref) \<in> set (e_tagRef e)" using assembled_refs(2) [OF assms(1)] assms(2,3) by blast
  moreover have "placeTags (e_positions e) subs bT (e_tagRef e) c1 = Inr c2"
    using assms(1) by (simp add: assembledAs_def)
  moreover have "(p, ref) = (q, ref') \<or> p + bT \<le> q \<or> q + bT \<le> p"
    if pq: "(p, ref) \<in> set (e_tagRef e)" "(q, ref') \<in> set (e_tagRef e)" for p q ref ref'
  proof -
    obtain m i m' i' where "(m, i) \<in> set (placedItems st subs bT bD)" "m_type i = PushTag" "p = m + 1"
      "(m', i') \<in> set (placedItems st subs bT bD)" "m_type i' = PushTag" "q = m' + 1"
      "ref = (ucast (drop_bit 64 (m_data i) - 1), tagId i)" "ref' = (ucast (drop_bit 64 (m_data i') - 1), tagId i')"
      using pq assembled_refs(2) [OF assms(1)] by metis
    then show ?thesis
      using placed_disjoint [of m i "itemBytes st subs bT bD" 0 "m_items st" m' i']
        length_itemBytes(1) [of i st subs bT bD] length_itemBytes(1) [of i' st subs bT bD] by auto
  qed
  ultimately obtain pos where pos: "resolveTag (e_positions e) subs bT ?ref = Inr pos"
    "\<forall>k < bT. c2 ! (n + 1 + k) = toBigEndian bT pos ! k"
    using placeTags_written [of "e_positions e" subs bT "e_tagRef e" c1 c2 "n + 1" ?ref] by blast
  have "c4 ! (n + 1 + k) = toBigEndian bT pos ! k" if "k < bT" for k
    using assembled_late [OF assms(1,2), of "k + 1"] assms(3) that pos(2) length_itemBytes(1) [OF assms(3)]
    by (simp add: add.assoc)
  then show ?thesis using pos(1) by blast
qed

subsection \<open>The byte code of an assembly\<close>

text \<open>The position that a push of a tag gets: the tag of this assembly or of a sub-assembly, at which
  the code has a jump destination.\<close>

lemma resolveTag_Inr:
  "resolveTag positions subs bT (subId, tag) = Inr pos \<Longrightarrow>
   bytesRequired pos \<le> bT \<and> pos \<noteq> - 1 \<and>
   (if subId = - 1 then unat tag < length positions \<and> pos = positions ! unat tag
    else unat subId < length subs \<and> unat tag < length (m_tagPositionsInBytecode (asmState (subs ! unat subId))) \<and>
      pos = m_tagPositionsInBytecode (asmState (subs ! unat subId)) ! unat tag)"
  by (auto simp: resolveTag_def Let_def split: if_splits)

lemma assembled_positions:
  assumes "assembledAs st subs bT bD e c1 c2 c3 c4"
    and "t < length (e_positions e)" "e_positions e ! t \<noteq> - 1"
  shows "\<exists>n it. (n, it) \<in> set (placedItems st subs bT bD) \<and> e_positions e ! t = of_nat n \<and>
    (if m_type it = Tag then t = unat (tagId it) \<and> n < 0xffffffff else t = 0)"
proof -
  have size: "e_size (emptyEmission st) = 0"
    using assms(1) by (simp add: assembledAs_def emptyEmission_def e_size_def)
  have "emitItems st subs bT bD (m_items st) (emptyEmission st) = Inr e"
    using assms(1) by (simp add: assembledAs_def)
  from emitItems_positions [OF this, unfolded size] assms(2,3)
  show ?thesis by (auto simp: emptyEmission_def split: if_splits) metis
qed

lemma assemble_Inr:
  assumes "assemble (Assembly st subs) = Inr (Assembly st' subs')" and "bytecode (m_assembledObject st) = []"
  shows "assembleSubs subs = Inr subs' \<and> assembleState st subs' = Inr st'"
  using assms by (auto simp: bindE_Inr_iff)

text \<open>C32: the assembled code jumps where the assembly says: there are offsets for the items such that
  the bytes of a tag are a jump destination, and the operand of a push of a tag of this assembly, which
  is not the tag 0, is in big-endian order the offset of that tag.\<close>

theorem assemble_tags:
  assumes "assemble (Assembly st subs) = Inr (Assembly st' subs')"
    and "bytecode (m_assembledObject st) = []"
  shows "\<exists>bT bD. \<forall>n it. (n, it) \<in> set (placedItems st subs' bT bD) \<longrightarrow>
     (m_type it = Tag \<longrightarrow> bytecode (m_assembledObject st') ! n = i_JUMPDEST) \<and>
     (m_type it = PushTag \<longrightarrow> localTag it \<longrightarrow> tagId it \<noteq> 0 \<longrightarrow>
        bytecode (m_assembledObject st') ! n = pushOpcode bT \<and>
        (\<exists>p tag. (p, tag) \<in> set (placedItems st subs' bT bD) \<and> m_type tag = Tag \<and> tagId tag = tagId it \<and>
           take bT (drop (n + 1) (bytecode (m_assembledObject st'))) = toBigEndian bT (of_nat p :: u64) \<and>
           unat (fromBigEndian (take bT (drop (n + 1) (bytecode (m_assembledObject st')))) :: u64) = p))"
proof -
  have "assembleState st subs' = Inr st'" using assemble_Inr [OF assms] by blast
  from assembleState_phases [OF this assms(2)] obtain bT bD e c1 c2 c3 where
    a: "assembledAs st subs' bT bD e c1 c2 c3 (bytecode (m_assembledObject st'))" by blast
  let ?code = "bytecode (m_assembledObject st')"
  have tag: "?code ! n = i_JUMPDEST" if "(n, it) \<in> set (placedItems st subs' bT bD)" "m_type it = Tag" for n it
    using assembled_fixed [OF a that(1), of 0] that(2) by (simp add: itemBytes_def)
  have push: "?code ! n = pushOpcode bT \<and> (\<exists>p tag. (p, tag) \<in> set (placedItems st subs' bT bD) \<and>
      m_type tag = Tag \<and> tagId tag = tagId it \<and>
      take bT (drop (n + 1) ?code) = toBigEndian bT (of_nat p :: u64) \<and>
      unat (fromBigEndian (take bT (drop (n + 1) ?code)) :: u64) = p)"
    if it: "(n, it) \<in> set (placedItems st subs' bT bD)" "m_type it = PushTag" "localTag it" "tagId it \<noteq> 0" for n it
  proof -
    obtain pos where pos: "resolveTag (e_positions e) subs' bT (- 1, tagId it) = Inr pos"
      "\<forall>k < bT. ?code ! (n + 1 + k) = toBigEndian bT pos ! k"
      using assembled_tag [OF a it(1,2)] it(3) by (auto simp: localTag_def)
    note r = resolveTag_Inr [OF pos(1), simplified]
    have "unat (tagId it) \<noteq> 0" using it(4) by (simp add: unat_eq_zero)
    then obtain p tag where p: "(p, tag) \<in> set (placedItems st subs' bT bD)" "pos = of_nat p"
      "m_type tag = Tag" "tagId tag = tagId it" "p < 0xffffffff"
      using assembled_positions [OF a, of "unat (tagId it)"] r
      by (auto simp: word_unat_eq_iff split: if_splits)
    have len: "length (itemBytes st subs' bT bD it) = bT + 1" by (rule length_itemBytes(1) [OF it(2)])
    then have "n + 1 + bT \<le> length ?code" using assembled_lengths [OF a it(1)] by linarith
    then have op: "take bT (drop (n + 1) ?code) = toBigEndian bT pos"
      using pos(2) by (intro nth_equalityI) auto
    moreover have "fromBigEndian (toBigEndian bT pos) = pos"
      using r by (intro fromBigEndian_toBigEndian_id) blast
    moreover have "unat (of_nat p :: u64) = p" using p(5) by (simp add: unat_of_nat)
    ultimately show ?thesis
      using p assembled_fixed [OF a it(1), of 0] it(2) len by (auto simp: itemBytes_def)
  qed
  show ?thesis using tag push by blast
qed

definition tagAssembly :: AssemblyState where
  "tagAssembly = emptyState\<lparr>m_usedTags := 2, m_items :=
     [itemOfType PushTag 1 noLocation, opItem i_JUMP, itemOfType Tag 1 noLocation, opItem i_STOP]\<rparr>"

lemma ucast_minus_1 [simp]: "(ucast (- 1 :: u256) :: u64) = - 1"
  by code_simp

lemma tag_1: "localTag (itemOfType t 1 l)" "tagId (itemOfType t 1 l) = 1" if "t \<noteq> Operation"
  using that by (simp_all add: localTag_def tagId_def itemOfType_def)

lemma tagAssembly_size: "assembly_bytesRequired tagAssembly 1 = Inr 6"
  by (simp add: assembly_bytesRequired_def, subst codeSizeLoop.simps)
    (simp add: codeSize_def tagAssembly_def emptyState_def itemOfType_def itemOp_def item_bytesRequired_def
      bytesRequired.simps)

lemma subTagSize_Nil [simp]: "subTagSize [] = 1"
  by (simp add: subTagSize_def)

lemma bytesRequired_small: "v \<noteq> 0 \<Longrightarrow> unat v < 256 \<Longrightarrow> bytesRequired v = 1"
  using bytesRequired_le_iff [of v 1] bytesRequired_eq_0 [of v] by (simp add: le_Suc_eq)

text \<open>The emission of single items, for concrete assemblies.\<close>

definition emitted :: "AssemblyItem \<Rightarrow> bytes \<Rightarrow> Emission \<Rightarrow> Emission" where
  "emitted it bs e =
     e\<lparr>e_ret := (e_ret e)\<lparr>bytecode := bytecode (e_ret e) @ bs\<rparr>,
       e_positions := positionsAfter (e_size e) it (e_positions e), e_items := e_items e @ [it],
       e_tagRef := e_tagRef e @ tagRefAt (e_size e) it, e_subRef := e_subRef e @ subRefAt (e_size e) it\<rparr>"

lemma emitItem_emitted:
  assumes "e_positions e \<noteq> []"
  shows "m_type it = Operation \<Longrightarrow> emitItem st subs bT bD it e = Inr (emitted it [m_instruction it] e)"
    and "m_type it = PushTag \<Longrightarrow>
      emitItem st subs bT bD it e = Inr (emitted it (pushOpcode bT # replicate bT 0) e)"
    and "m_type it = PushSub \<Longrightarrow>
      emitItem st subs bT bD it e = Inr (emitted it (pushOpcode bD # replicate bD 0) e)"
    and "m_type it = Tag \<Longrightarrow> localTag it \<Longrightarrow> m_data it \<noteq> 0 \<Longrightarrow> e_size e < 0xffffffff \<Longrightarrow>
      unat (tagId it) < length (e_positions e) \<Longrightarrow> e_positions e ! unat (tagId it) = - 1 \<Longrightarrow>
      emitItem st subs bT bD it e = Inr (emitted it [i_JUMPDEST] e)"
  using assms
  by (cases "e_positions e";
      simp add: emitItem_def markInvalid_def emitted_def positionsAfter_def pushBytes_def refAt_defs split_tag
        placeTag_def dataOf_def localTag_def nth_at_def ucast_tagId Let_def e_size_def)+

lemma emitted_sel [simp]:
  "bytecode (e_ret (emitted it bs e)) = bytecode (e_ret e) @ bs"
  "linkReferences (e_ret (emitted it bs e)) = linkReferences (e_ret e)"
  "e_size (emitted it bs e) = e_size e + length bs"
  "e_positions (emitted it bs e) = positionsAfter (e_size e) it (e_positions e)"
  "e_tagRef (emitted it bs e) = e_tagRef e @ tagRefAt (e_size e) it"
  "e_subRef (emitted it bs e) = e_subRef e @ subRefAt (e_size e) it"
  "e_dataRef (emitted it bs e) = e_dataRef e" "e_sizeRef (emitted it bs e) = e_sizeRef e"
  by (simp_all add: emitted_def e_size_def)

lemma itemOf_sel [simp]:
  "t \<noteq> Operation \<Longrightarrow> m_type (itemOfType t d l) = t" "t \<noteq> Operation \<Longrightarrow> m_data (itemOfType t d l) = d"
  "m_type (itemOp i l) = Operation" "m_instruction (itemOp i l) = i"
  by (simp_all add: itemOfType_def itemOp_def)

lemma emptyEmission_sel [simp]:
  "e_ret (emptyEmission st) = m_assembledObject st"
  "e_positions (emptyEmission st) = replicate (unat (m_usedTags st)) (- 1)"
  "e_tagRef (emptyEmission st) = []" "e_subRef (emptyEmission st) = []"
  "e_dataRef (emptyEmission st) = []" "e_sizeRef (emptyEmission st) = []"
  "e_size (emptyEmission st) = length (bytecode (m_assembledObject st))"
  by (simp_all add: emptyEmission_def e_size_def)

lemma positionsAfter_eval:
  "m_type it = Tag \<Longrightarrow> positionsAfter n it ps = ps[unat (tagId it) := of_nat n]"
  "m_type it \<noteq> Tag \<Longrightarrow> positionsAfter n it (p # ps) = (if p = - 1 then of_nat n # ps else p # ps)"
  by (simp_all add: positionsAfter_def)

lemma assemble_tagAssembly:
  "\<exists>st'. assemble (Assembly tagAssembly []) = Inr (Assembly st' []) \<and>
     bytecode (m_assembledObject st') = [i_PUSH1, 3, i_JUMP, i_JUMPDEST, i_STOP]"
proof -
  let ?tag = "\<lambda>t. itemOfType t 1 noLocation"
  let ?e1 = "emitted (?tag PushTag) (pushOpcode 1 # replicate 1 0) (emptyEmission tagAssembly)"
  let ?e2 = "emitted (opItem i_JUMP) [i_JUMP] ?e1"
  let ?e3 = "emitted (?tag Tag) [i_JUMPDEST] ?e2"
  let ?e = "emitted (opItem i_STOP) [i_STOP] ?e3"
  have st: "m_items tagAssembly = [?tag PushTag, opItem i_JUMP, ?tag Tag, opItem i_STOP]"
    "unat (m_usedTags tagAssembly) = 2" "m_assembledObject tagAssembly = emptyObject"
    "m_dataMap tagAssembly = []" "m_auxiliaryData tagAssembly = []"
    by (simp_all add: tagAssembly_def emptyState_def)
  have one: "unat (1 :: u64) = 1" by simp
  have e: "emitItems tagAssembly [] 1 1 (m_items tagAssembly) (emptyEmission tagAssembly) = Inr ?e"
    unfolding st(1) emitItems.simps
    by (simp add: emitItem_emitted tag_1 st positionsAfter_eval emptyObject_def numeral_2_eq_2)
  have pos: "e_positions ?e = [0, 3]" "e_tagRef ?e = [(1, (- 1, 1))]" "bytecode (e_ret ?e) =
      [pushOpcode 1, 0, i_JUMP, i_JUMPDEST, i_STOP]"
    using tag_1 by (simp_all add: st positionsAfter_eval emptyObject_def numeral_2_eq_2 tagRefAt_def localTag_def)
  have size: "bytesRequired (6 :: u64) = 1" "bytesRequired (7 :: u32) = 1" "bytesRequired (3 :: u64) = 1"
    by (simp_all add: bytesRequired_small)
  have fill: "placeTags [0, 3] [] 1 [(1, (- 1, 1))] [pushOpcode 1, 0, i_JUMP, i_JUMPDEST, i_STOP] =
      Inr [pushOpcode 1, 3, i_JUMP, i_JUMPDEST, i_STOP]"
    by (simp add: resolveTag_def Let_def size copyTo_def)
  have w: "withInvalid tagAssembly [] ?e = ?e" by (simp add: withInvalid_def st)
  have "\<exists>st'. fillReferences tagAssembly [] 1 1 ?e = Inr st' \<and>
      bytecode (m_assembledObject st') = [pushOpcode 1, 3, i_JUMP, i_JUMPDEST, i_STOP]"
    unfolding fillReferences_def w placeSubs.simps bindE_simps pos fill st placeData.simps by simp
  moreover have "assembleState tagAssembly [] = fillReferences tagAssembly [] 1 1 ?e"
    using assembleState_eq [of tagAssembly "[]" 6 1 1] tagAssembly_size size e by (simp add: st)
  moreover have "pushOpcode 1 = i_PUSH1" by (simp add: pushOpcode_def)
  ultimately show ?thesis by (auto simp: st emptyObject_def)
qed

theorem assemble_tags_witness:
  "\<exists>st' n it p tag. assemble (Assembly tagAssembly []) = Inr (Assembly st' []) \<and> m_type it = PushTag \<and>
     m_type tag = Tag \<and> tagId tag = tagId it \<and> bytecode (m_assembledObject st') ! p = i_JUMPDEST"
proof -
  obtain st' where st': "assemble (Assembly tagAssembly []) = Inr (Assembly st' [])"
    using assemble_tagAssembly by blast
  have "bytecode (m_assembledObject tagAssembly) = []"
    by (simp add: tagAssembly_def emptyState_def emptyObject_def)
  from assemble_tags [OF st' this] obtain bT bD where
    t: "\<forall>n it. (n, it) \<in> set (placedItems tagAssembly [] bT bD) \<longrightarrow>
      (m_type it = Tag \<longrightarrow> bytecode (m_assembledObject st') ! n = i_JUMPDEST) \<and>
      (m_type it = PushTag \<longrightarrow> localTag it \<longrightarrow> tagId it \<noteq> 0 \<longrightarrow>
        (\<exists>p tag. (p, tag) \<in> set (placedItems tagAssembly [] bT bD) \<and> m_type tag = Tag \<and> tagId tag = tagId it))"
    by blast
  have "(0, itemOfType PushTag 1 noLocation) \<in> set (placedItems tagAssembly [] bT bD)"
    by (simp add: tagAssembly_def)
  moreover have push: "m_type (itemOfType PushTag 1 noLocation) = PushTag" "localTag (itemOfType PushTag 1 noLocation)"
    "tagId (itemOfType PushTag 1 noLocation) \<noteq> 0" by (simp_all add: tag_1)
  ultimately obtain p tag where "(p, tag) \<in> set (placedItems tagAssembly [] bT bD)" "m_type tag = Tag"
    "tagId tag = tagId (itemOfType PushTag 1 noLocation)"
    using t by blast
  with st' t push(1) show ?thesis by blast
qed

subsection \<open>Too little space for the tags\<close>

text \<open>
  The size of a push is estimated with the width of a tag, but references to sub-assemblies
  and data take the width of an offset in the whole code. An assembly with many references to a
  sub-assembly and a tag behind them is rejected, although two bytes per tag suffice.
\<close>

definition offsetAssembly :: AssemblyState where
  "offsetAssembly = emptyState\<lparr>m_usedTags := 2, m_auxiliaryData := replicate 100 0, m_items :=
     itemOfType PushTag 1 noLocation # replicate 86 (itemOfType PushSub 0 noLocation) @
     [itemOfType Tag 1 noLocation]\<rparr>"

definition stopState :: AssemblyState where
  "stopState = emptyState\<lparr>m_items := [opItem i_STOP]\<rparr>"

definition stopAssembly :: Assembly where
  "stopAssembly = Assembly stopState []"

lemma items_bytesRequired_replicate:
  "m_type it = PushSub \<Longrightarrow> items_bytesRequired (replicate n it) a = Inr (n * (1 + a))"
  by (induction n) (simp_all add: item_bytesRequired_def)

lemma offsetAssembly_size: "assembly_bytesRequired offsetAssembly 1 = Inr 176"
  by (simp add: assembly_bytesRequired_def, subst codeSizeLoop.simps)
    (simp add: codeSize_def offsetAssembly_def emptyState_def item_bytesRequired_def
      items_bytesRequired_append items_bytesRequired_replicate bytesRequired_small)

lemma emit_replicate:
  assumes "m_type it = PushSub" "(ucast (m_data it) :: u64) = 0"
  shows "e_positions e = p # ps \<Longrightarrow> p \<noteq> - 1 \<Longrightarrow>
    \<exists>e'. emitItems st subs bT bD (replicate n it) e = Inr e' \<and> e_positions e' = e_positions e \<and>
      e_size e' = e_size e + n * (bD + 1) \<and> e_tagRef e' = e_tagRef e \<and> e_dataRef e' = e_dataRef e \<and>
      e_sizeRef e' = e_sizeRef e \<and>
      (\<forall>(k, q) \<in> set (e_subRef e'). (k, q) \<in> set (e_subRef e) \<or> k = 0 \<and> q + bD \<le> e_size e')"
proof (induction n arbitrary: e)
  case (Suc n)
  let ?e = "emitted it (pushOpcode bD # replicate bD 0) e"
  have step: "emitItem st subs bT bD it e = Inr ?e" using assms(1) Suc.prems by (simp add: emitItem_emitted)
  have pos: "e_positions ?e = p # ps" using Suc.prems assms(1) by (simp add: positionsAfter_eval)
  from Suc.IH [OF pos Suc.prems(2)] obtain e' where e':
    "emitItems st subs bT bD (replicate n it) ?e = Inr e'" "e_positions e' = e_positions ?e"
    "e_size e' = e_size ?e + n * (bD + 1)" "e_tagRef e' = e_tagRef ?e" "e_dataRef e' = e_dataRef ?e"
    "e_sizeRef e' = e_sizeRef ?e"
    "\<forall>(k, q) \<in> set (e_subRef e'). (k, q) \<in> set (e_subRef ?e) \<or> k = 0 \<and> q + bD \<le> e_size e'" by blast
  have "(k, q) \<in> set (e_subRef e) \<or> k = 0 \<and> q + bD \<le> e_size e'" if "(k, q) \<in> set (e_subRef e')" for k q
    using e'(3,7) that assms by (fastforce simp: subRefAt_def)
  then show ?case
    using step e' pos Suc.prems assms by (intro exI [of _ e']) (auto simp: tagRefAt_def)
qed auto

lemma patchAll_total:
  "\<forall>p \<in> set ps. p + length bs \<le> length code \<Longrightarrow> \<exists>code'. patchAll ps bs code = Inr code'"
proof (induction ps bs code rule: patchAll.induct)
  case (2 p ps bs code)
  then obtain d where d: "copyTo bs p code = Inr d" "length d = length code"
    using copyTo_spec [of p bs code] by auto
  then show ?case using 2 by simp
qed simp

lemma emitItems_append:
  "emitItems st subs bT bD (xs @ ys) e = bindE (emitItems st subs bT bD xs e) (emitItems st subs bT bD ys)"
proof (induction xs arbitrary: e)
  case (Cons x xs)
  then show ?case by (cases "emitItem st subs bT bD x e") simp_all
qed simp

lemma assemble_stopAssembly:
  "\<exists>st'. assemble stopAssembly = Inr (Assembly st' []) \<and> bytecode (m_assembledObject st') = [i_STOP] \<and>
     m_tagPositionsInBytecode st' = [0]"
proof -
  let ?st = stopState
  let ?e = "emitted (opItem i_STOP) [i_STOP] (emptyEmission ?st)"
  have st: "m_items ?st = [opItem i_STOP]" "unat (m_usedTags ?st) = 1" "m_assembledObject ?st = emptyObject"
    "m_dataMap ?st = []" "m_auxiliaryData ?st = []"
    by (simp_all add: stopState_def emptyState_def)
  have size: "bytesRequired (2 :: u64) = 1" "bytesRequired (3 :: u32) = 1"
    by (simp_all add: bytesRequired_small)
  have req: "assembly_bytesRequired ?st 1 = Inr 2"
    by (simp add: assembly_bytesRequired_def, subst codeSizeLoop.simps)
      (simp add: codeSize_def stopState_def emptyState_def item_bytesRequired_def bytesRequired_small)
  have e: "emitItems ?st [] 1 1 (m_items ?st) (emptyEmission ?st) = Inr ?e"
    unfolding st(1) emitItems.simps by (simp add: emitItem_emitted st)
  have pos: "e_positions ?e = [0]" "e_tagRef ?e = []" "e_sizeRef ?e = []" "bytecode (e_ret ?e) = [i_STOP]"
    by (simp_all add: st positionsAfter_eval emptyObject_def tagRefAt_def del: replicate.simps)
      (simp_all add: positionsAfter_def)
  have w: "withInvalid ?st [] ?e = ?e" by (simp add: withInvalid_def st)
  have "\<exists>st'. fillReferences ?st [] 1 1 ?e = Inr st' \<and> bytecode (m_assembledObject st') = [i_STOP] \<and>
      m_tagPositionsInBytecode st' = [0]"
    unfolding fillReferences_def w placeSubs.simps bindE_simps pos st placeData.simps by simp
  moreover have "assembleState ?st [] = fillReferences ?st [] 1 1 ?e"
    using assembleState_eq [of ?st "[]" 2 1 1] req size e by (simp add: st)
  ultimately show ?thesis by (auto simp: stopAssembly_def st emptyObject_def)
qed

text \<open>C33: the reserved space can be too small: this assembly of a jump over 86 references to a
  sub-assembly, which assembles, is rejected.\<close>

theorem assemble_rejects_offsets:
  "(\<exists>sub. assemble stopAssembly = Inr sub) \<and>
   assemble (Assembly offsetAssembly [stopAssembly]) =
     Inl (AssemblyException ''Tag too large for reserved space.'')"
proof -
  obtain sub where sub: "assemble stopAssembly = Inr (Assembly sub [])" "bytecode (m_assembledObject sub) = [i_STOP]"
    "m_tagPositionsInBytecode sub = [0]" using assemble_stopAssembly by blast
  let ?subs = "[Assembly sub []]" and ?st = offsetAssembly
  let ?tag = "\<lambda>t. itemOfType t 1 noLocation" and ?sub = "itemOfType PushSub 0 noLocation"
  let ?e1 = "emitted (?tag PushTag) (pushOpcode 1 # replicate 1 0) (emptyEmission ?st)"
  have st: "m_items ?st = ?tag PushTag # replicate 86 ?sub @ [?tag Tag]" "unat (m_usedTags ?st) = 2"
    "m_assembledObject ?st = emptyObject" "length (m_auxiliaryData ?st) = 100"
    by (simp_all add: offsetAssembly_def emptyState_def)
  have size: "bytesRequired (176 :: u64) = 1" by (simp add: bytesRequired_small)
  have big: "bytesRequired (278 :: u32) = 2" "bytesRequired (260 :: u64) = 2" by (simp_all add: bytesRequired.simps)
  have e1: "e_positions ?e1 = [0, - 1]" "e_size ?e1 = 2" "e_tagRef ?e1 = [(1, (- 1, 1))]" "e_subRef ?e1 = []"
    using tag_1 by (simp_all add: st positionsAfter_eval emptyObject_def numeral_2_eq_2 tagRefAt_def subRefAt_def localTag_def)
  from emit_replicate [of ?sub ?e1 0 "[- 1]" ?st ?subs 1 2 86] obtain e2 where e2:
    "emitItems ?st ?subs 1 2 (replicate 86 ?sub) ?e1 = Inr e2" "e_positions e2 = [0, - 1]" "e_size e2 = 260"
    "e_tagRef e2 = [(1, (- 1, 1))]" "\<forall>(k, q) \<in> set (e_subRef e2). k = 0 \<and> q + 2 \<le> 260"
    using e1 by auto
  let ?e = "emitted (?tag Tag) [i_JUMPDEST] e2"
  have e: "emitItems ?st ?subs 1 2 (m_items ?st) (emptyEmission ?st) = Inr ?e"
    unfolding st(1) emitItems.simps emitItems_append
    using e1 e2 tag_1 st(2) by (simp add: emitItem_emitted)
  have pos: "e_positions ?e = [0, 260]" "e_tagRef ?e = [(1, (- 1, 1))]" "e_subRef ?e = e_subRef e2"
    using e2 tag_1 by (simp_all add: positionsAfter_eval tagRefAt_def subRefAt_def)
  have len: "260 \<le> length (bytecode (e_ret (withInvalid ?st ?subs ?e)))"
    using e2(3) by (simp add: withInvalid_def pushBytes_def e_size_def)
  have place: "\<exists>ret. placeSubs 0 ?subs 2 (e_subRef e2) (e_ret (withInvalid ?st ?subs ?e)) = Inr ret"
  proof -
    let ?ret = "e_ret (withInvalid ?st ?subs ?e)"
    have "\<forall>p \<in> set (referencesTo 0 (e_subRef e2)). p + 2 \<le> length (bytecode ?ret)"
      using e2(5) len by (fastforce simp: referencesTo_def)
    then obtain code where "patchAll (referencesTo 0 (e_subRef e2)) (toBigEndian 2 (codePosition ?ret)) (bytecode ?ret) = Inr code"
      using patchAll_total by (metis length_toBigEndian)
    then show ?thesis by (simp add: Let_def)
  qed
  have "resolveTag [0, 260] ?subs 1 (- 1, 1) = Inl (AssemblyException ''Tag too large for reserved space.'')"
    by (simp add: resolveTag_def Let_def big)
  with place have "fillReferences ?st ?subs 1 2 ?e = Inl (AssemblyException ''Tag too large for reserved space.'')"
    unfolding fillReferences_def pos placeTags.simps by (elim exE) (simp only: bindE_simps)
  moreover have req: "assembly_bytesRequired ?st (ucast (subTagSize ?subs)) = Inr 176"
    using offsetAssembly_size by (simp add: subTagSize_def sub)
  have bT: "1 = bytesRequired (ucast (176 :: u32) :: u64)" by (simp add: size)
  have bD: "2 = bytesRequired (176 + 1 + of_nat (length (m_auxiliaryData ?st)) +
      sum_list (map (\<lambda>s. ucast (subCodeSize s)) ?subs) :: u32)"
    using big by (simp add: st subCodeSize_def sub)
  have "assembleState ?st ?subs = fillReferences ?st ?subs 1 2 ?e"
    unfolding assembleState_eq [OF req bT bD] e by (rule bindE_simps)
  ultimately show ?thesis using sub st by (simp add: emptyObject_def)
qed

end
