(* ===== verification/AssemblyBuild.thy ===== *)
theory AssemblyBuild
  imports Assembly JumpdestRemover
begin

section \<open>Building assemblies keeps tags apart\<close>

text \<open>
  Every tag of the items is below the number of used tags. The operations that make and append
  tags keep this, and appending an assembly moves its tags behind the own ones.
\<close>

definition tagItem :: "AssemblyItem \<Rightarrow> bool" where
  "tagItem it \<longleftrightarrow> m_type it = Tag \<or> m_type it = PushTag"

definition tags_below :: "AssemblyState \<Rightarrow> bool" where
  "tags_below st \<longleftrightarrow> 0 < m_usedTags st \<and>
     (\<forall>it \<in> set (m_items st). tagItem it \<longrightarrow> m_data it < ucast (m_usedTags st)) \<and>
     (\<forall>name t. m_namedTags st name = Some t \<longrightarrow> t < ucast (m_usedTags st))"

text \<open>The tags of an assembly after appending it to one with so many tags used.\<close>

definition movedItem :: "u32 \<Rightarrow> nat \<Rightarrow> AssemblyItem \<Rightarrow> AssemblyItem" where
  "movedItem usedTags subs it =
     (if tagItem it then it\<lparr>m_data := m_data it + ucast usedTags\<rparr>
      else if m_type it = PushSub \<or> m_type it = PushSubSize then it\<lparr>m_data := m_data it + of_nat subs\<rparr>
      else it)"

lemma relocateItem_moved: "relocateItem usedTags subs it = Inr (movedItem usedTags subs it)"
  by (cases "m_type it") (auto simp: relocateItem_def movedItem_def tagItem_def dataOf_def setData_def)

definition located :: "SourceLocation \<Rightarrow> AssemblyItem \<Rightarrow> AssemblyItem" where
  "located l it = (if location_isEmpty (m_location it) \<and> \<not> location_isEmpty l then it\<lparr>m_location := l\<rparr> else it)"

lemma located_sel [simp]: "m_type (located l it) = m_type it" "m_data (located l it) = m_data it"
  "m_instruction (located l it) = m_instruction it"
  by (simp_all add: located_def)

lemma appendItem_Inr:
  "appendItem st it = Inr st' \<longleftrightarrow> 0 \<le> m_deposit st \<and>
     st' = st\<lparr>m_deposit := m_deposit st + item_deposit it, m_items := m_items st @ [located (m_currentSourceLocation st) it]\<rparr>"
  by (auto simp: appendItem_def located_def Let_def)

lemma relocateItems_Inr:
  "relocateItems usedTags subs st its = Inr st' \<Longrightarrow>
   \<exists>d. st' = st\<lparr>m_deposit := d, m_items := m_items st @
     map (located (m_currentSourceLocation st) \<circ> movedItem usedTags subs) its\<rparr>"
proof (induction its arbitrary: st)
  case (Cons it its)
  then obtain st1 where "appendItem st (movedItem usedTags subs it) = Inr st1"
    "relocateItems usedTags subs st1 its = Inr st'"
    by (auto simp: relocateItem_moved bindE_Inr_iff)
  with Cons.IH [OF this(2)] show ?case by (auto simp: appendItem_Inr)
qed (auto intro!: exI [of _ "m_deposit st'"])


lemma namedTag_cases:
  assumes "namedTag st name = Inr (it, st')"
  shows "name \<noteq> [] \<and> m_type it = Tag \<and>
    (m_namedTags st name = Some (ucast (m_data it)) \<and> st' = st \<and>
       m_data it = ucast (ucast (m_data it) :: u64) \<or>
     m_namedTags st name = None \<and> m_usedTags st < 0xffffffff \<and> m_data it = ucast (m_usedTags st) \<and>
       st' = st\<lparr>m_usedTags := m_usedTags st + 1, m_namedTags := (m_namedTags st)(name \<mapsto> ucast (m_usedTags st))\<rparr>)"
proof -
  have uc: "(ucast (ucast (v :: u32) :: u256) :: u64) = ucast v" "(ucast (ucast (v :: u32) :: u64) :: u256) = ucast v"
    "(ucast (ucast (t :: u64) :: u256) :: u64) = t" for v t
    by (rule bit_word_eqI; auto simp: bit_simps dest: bit_imp_le_length)+
  show ?thesis
    using assms
    by (auto simp: namedTag_def newTag_def dataOf_def itemOfType_def uc bindE_Inr_iff split: if_splits option.splits)
qed

text \<open>C35: named tags: asking again for a name gives the same tag, different names keep different tags,
  and the tags stay below the number of used tags.\<close>

theorem namedTag_stable:
  assumes "namedTag st name = Inr (it, st')" and "tags_below st"
  shows "tags_below st' \<and> m_type it = Tag \<and> m_data it < ucast (m_usedTags st') \<and>
    (\<exists>it'. namedTag st' name = Inr (it', st') \<and> item_eq it it') \<and>
    (inj_on (m_namedTags st) (dom (m_namedTags st)) \<longrightarrow> inj_on (m_namedTags st') (dom (m_namedTags st')))"
  using namedTag_cases [OF assms(1)]
proof (elim conjE disjE)
  assume c: "name \<noteq> []" "m_type it = Tag" "m_namedTags st name = Some (ucast (m_data it))" "st' = st"
    "m_data it = ucast (ucast (m_data it) :: u64)"
  have "unat (ucast (m_data it) :: u64) < unat (m_usedTags st)"
    using assms(2) c(3) by (auto simp: tags_below_def word_less_nat_alt unat_ucast_up)
  moreover have "unat (m_data it) = unat (ucast (m_data it) :: u64)"
    by (subst c(5)) (simp add: unat_ucast_up)
  ultimately show ?thesis
    using c assms by (auto simp: namedTag_def item_eq_def itemOfType_def word_less_nat_alt unat_ucast_up)
next
  assume c: "name \<noteq> []" "m_type it = Tag" "m_namedTags st name = None" "m_usedTags st < 0xffffffff"
    "m_data it = ucast (m_usedTags st)"
    "st' = st\<lparr>m_usedTags := m_usedTags st + 1, m_namedTags := (m_namedTags st)(name \<mapsto> ucast (m_usedTags st))\<rparr>"
  let ?u = "m_usedTags st"
  have u: "unat (ucast (v :: u32) :: u256) = unat v" "unat (ucast (v :: u32) :: u64) = unat v" for v
    by (simp_all add: unat_ucast_up)
  have suc: "unat (?u + 1) = unat ?u + 1"
    using c(4) by (subst unat_add_lem [THEN iffD1]) (simp_all add: word_less_nat_alt)
  have old: "unat t < unat ?u" if "m_namedTags st n = Some t" for n t
    using assms(2) that by (auto simp: tags_below_def word_less_nat_alt u)
  have items: "unat (m_data i) < unat ?u" if "i \<in> set (m_items st)" "tagItem i" for i
    using assms(2) that by (auto simp: tags_below_def word_less_nat_alt u)
  have "tags_below st'"
    unfolding tags_below_def
  proof (intro conjI ballI allI impI)
    show "0 < m_usedTags st'" using suc by (simp add: c(6) word_less_nat_alt)
    fix i assume "i \<in> set (m_items st')" "tagItem i"
    then have "unat (m_data i) < unat ?u" using items by (simp add: c(6))
    then show "m_data i < ucast (m_usedTags st')" using suc by (simp add: c(6) word_less_nat_alt u)
  next
    fix n t assume "m_namedTags st' n = Some t"
    then have "t = ucast ?u \<or> unat t < unat ?u" using old by (auto simp: c(6) split: if_splits)
    then show "t < ucast (m_usedTags st')" using suc u by (auto simp: c(6) word_less_nat_alt)
  qed
  moreover have "inj_on (m_namedTags st') (dom (m_namedTags st'))" if "inj_on (m_namedTags st) (dom (m_namedTags st))"
  proof (rule inj_onI)
    fix x y
    assume xy: "x \<in> dom (m_namedTags st')" "y \<in> dom (m_namedTags st')" "m_namedTags st' x = m_namedTags st' y"
    have "m_namedTags st n \<noteq> Some (ucast ?u)" for n using old [of n "ucast ?u"] u(2) by auto
    then show "x = y"
      using xy that c(6) by (auto simp: inj_on_def split: if_splits)
  qed
  moreover have "(ucast (ucast ?u :: u64) :: u256) = ucast ?u"
    by (rule bit_word_eqI) (auto simp: bit_simps dest: bit_imp_le_length)
  then have "\<exists>it'. namedTag st' name = Inr (it', st') \<and> item_eq it it'"
    using c(1,2,5) by (simp add: namedTag_def c(6) item_eq_def itemOfType_def)
  moreover have "m_data it < ucast (m_usedTags st')"
    using c(5) suc by (simp add: c(6) word_less_nat_alt u)
  ultimately show ?thesis using c(2) by blast
qed

text \<open>
  A push of a tag of a sub-assembly has the sub-assembly in its upper bits. Appending moves the
  tag and not the sub-assembly, although the sub-assemblies move.
\<close>

lemma ucast_and_mask: "(ucast (d AND 0xffffffffffffffff :: u256) :: u64) = ucast d"
proof -
  have m: "(0xffffffffffffffff :: u256) = mask 64" by (simp add: mask_eq_exp_minus_1)
  show ?thesis unfolding m by (rule bit_word_eqI) (auto simp: bit_simps)
qed

lemma add_low:
  fixes d :: u256 and u :: u64
  assumes "unat (ucast d :: u64) + unat u < 2 ^ 64"
  shows "drop_bit 64 (d + ucast u) = drop_bit 64 d" and "(ucast (d + ucast u) :: u64) = ucast d + u"
proof -
  define q r where "q = unat d div 2 ^ 64" and "r = unat d mod 2 ^ 64"
  have r: "unat (ucast d :: u64) = r" by (simp add: unsigned_ucast_eq take_bit_eq_mod r_def)
  have split: "unat d = q * 2 ^ 64 + r" unfolding q_def r_def by (rule div_mult_mod_eq [symmetric])
  have "unat d < 2 ^ 192 * 2 ^ 64" using word_size_less_256 [of d] by (simp flip: power_add)
  then have "q < 2 ^ 192" unfolding q_def by (rule less_mult_imp_div_less)
  moreover have "r + unat u < 2 ^ 64" using assms unfolding r .
  ultimately have small: "unat d + unat u < 2 ^ 256" and low: "(q * 2 ^ 64 + (r + unat u)) div 2 ^ 64 = q"
    "(q * 2 ^ 64 + (r + unat u)) mod 2 ^ 64 = r + unat u"
    unfolding split by simp_all
  have nov: "unat (d + ucast u) = q * 2 ^ 64 + (r + unat u)"
    using small by (simp add: unat_word_ariths unat_ucast_up split)
  have "unat (drop_bit 64 (d + ucast u)) = unat (drop_bit 64 d)"
    unfolding unat_drop_bit_div nov low by (simp add: q_def)
  then show "drop_bit 64 (d + ucast u) = drop_bit 64 d" by (rule unsigned_word_eqI)
  have "unat (ucast (d + ucast u) :: u64) = r + unat u"
    unfolding unsigned_ucast_eq nov using low by (simp add: take_bit_eq_mod)
  moreover have "unat (ucast d + u :: u64) = r + unat u"
    using assms r by (simp add: unat_word_ariths)
  ultimately show "(ucast (d + ucast u) :: u64) = ucast d + u"
    by (metis unsigned_word_eqI)
qed

text \<open>Appending an assembly leaves the sub-assembly of a foreign push tag as it is and moves its tag
  instead, so that it no longer names the tag of the appended sub-assembly.\<close>

theorem relocate_foreign:
  assumes "m_type it = PushTag" and "splitForeignPushTag it = Inr (sub, tag)"
    and "unat tag + unat usedTags < 2 ^ 64"
  shows "bindE (relocateItem usedTags subs it) splitForeignPushTag = Inr (sub, tag + ucast usedTags)"
proof -
  have t: "sub = ucast (drop_bit 64 (m_data it) - 1)" "tag = ucast (m_data it)"
    using assms(1,2) by (auto simp: splitForeignPushTag_def Let_def ucast_and_mask)
  have u: "(ucast (ucast usedTags :: u64) :: u256) = ucast usedTags"
    by (rule bit_word_eqI) (auto simp: bit_simps dest: bit_imp_le_length)
  note low = add_low [of "m_data it" "ucast usedTags", unfolded u]
  show ?thesis
    using assms(1,3) low t
    by (simp add: relocateItem_moved movedItem_def tagItem_def splitForeignPushTag_def Let_def
        unat_ucast_up ucast_and_mask)
qed

subsection \<open>Concrete assemblies\<close>

definition twoTags :: Assembly where
  "twoTags = Assembly (emptyState\<lparr>m_usedTags := 2, m_items := [itemOfType Tag 1 noLocation]\<rparr>) []"

lemma twoTags_below: "tags_below (asmState twoTags)"
  by (simp add: tags_below_def twoTags_def emptyState_def tagItem_def itemOfType_def)


theorem namedTag_stable_witness:
  "\<exists>it st'. namedTag (asmState twoTags) ''f'' = Inr (it, st') \<and> tags_below st' \<and>
     (\<exists>it'. namedTag st' ''f'' = Inr (it', st') \<and> item_eq it it')"
proof -
  have "\<exists>it st'. namedTag (asmState twoTags) ''f'' = Inr (it, st')"
    by (simp add: namedTag_def newTag_def twoTags_def emptyState_def dataOf_def itemOfType_def)
  then obtain it st' where "namedTag (asmState twoTags) ''f'' = Inr (it, st')" by blast
  from namedTag_stable [OF this twoTags_below] this show ?thesis by blast
qed

theorem relocate_foreign_witness:
  "bindE (relocateItem 5 7 (itemOfType PushTag 0x10000000000000003 noLocation)) splitForeignPushTag = Inr (0, 8)"
proof -
  have "splitForeignPushTag (itemOfType PushTag 0x10000000000000003 noLocation) = Inr (0, 3)" by code_simp
  from relocate_foreign [OF _ this, of 5 7] show ?thesis by (simp add: itemOfType_def)
qed

end
