(* ===== verification/Spec2Isabelle.thy ===== *)
theory Spec2Isabelle
  imports KnownStateProps OptimiserSound AddressChecksum AssemblerCorrect AssemblyBuild
begin

text \<open>
  A verification library for the EVM assembler and optimiser of the Solidity compiler
  (\<open>src/solidity/libevmasm\<close>, with the parts of \<open>libdevcore\<close> and \<open>liblangutil\<close> it uses). The
  repository is a fork of the compiler that adds the opcode \<open>ETHASH\<close> (0x46), which the
  tables and classifications here contain.

  \<^bold>\<open>The program.\<close> The code generator fills an \<^emph>\<open>assembly\<close>: a list of \<^emph>\<open>items\<close> (opcodes, pushed
  constants, tags and pushes of tags, references to data, to sub-assemblies and to libraries)
  with its data and its sub-assemblies. \<open>Assembly::optimise\<close> rewrites the items of the
  sub-assemblies and then its own, in rounds, until no pass changes anything: the jumpdest
  remover drops tags that nothing refers to; the peephole optimiser rewrites windows of up to
  four items; the block deduplicator redirects pushes of tags whose blocks are equal; the
  common subexpression eliminator executes each basic block symbolically (\<open>KnownState\<close>, whose
  values are classes of expressions kept by \<open>ExpressionClasses\<close>, simplified by the rules of
  \<open>RuleList.h\<close>) and generates new code from the final state (\<open>CSECodeGenerator\<close>); at the end
  the constant optimiser replaces constants by cheaper code. \<open>Assembly::assemble\<close> then turns
  the items into bytes, a \<open>LinkerObject\<close> with references to libraries, which \<open>link\<close> fills in.

  \<^bold>\<open>Theories and sources.\<close>
    \<^item> \<open>Prelude\<close>, \<open>OrderedMap\<close>: exceptions as values (\<open>exn\<close>, \<open>'a result\<close>, \<open>bindE\<close>), lemmas on words
      and lists, and \<open>std::map\<close> as sorted association lists.
    \<^item> \<open>CommonData\<close>, \<open>AddressChecksum\<close>, \<open>Keccak256\<close>: hexadecimal and big-endian conversions
      (\<open>libdevcore/CommonData\<close>), checksummed addresses, and the hash (\<open>libdevcore/Keccak256.cpp\<close>)
      with the step mappings of FIPS 202 as its reference.
    \<^item> \<open>Instruction\<close>, \<open>SourceLocation\<close>, \<open>AssemblyItem\<close>, \<open>SemanticInformation\<close>: opcodes with their
      table and decoder, locations, items (a record; \<open>m_type\<close>, \<open>m_data\<close>, ... are the members) and
      their classification.
    \<^item> \<open>EVM\<close>: the machine, a specification and no translation of code. \<open>CodePass\<close>: the locale
      \<open>code_pass\<close> of a pass that rewrites code block by block; \<open>Peephole\<close> and \<open>ConstantOptimiser\<close>
      interpret it with their passes.
    \<^item> \<open>Peephole\<close>, \<open>JumpdestRemover\<close>, \<open>BlockDeduplicator\<close>, \<open>ConstantOptimiser\<close> (with \<open>GasCosts\<close> for
      \<open>GasMeter.h\<close> and \<open>EVMVersion.h\<close>): the passes with these names.
    \<^item> \<open>SimplificationRules\<close> (patterns and their matching), \<open>RuleList\<close> (the rules), \<open>ExpressionClasses\<close>
      (\<open>find\<close> with \<open>tryToSimplify\<close> and \<open>rebuildExpression\<close>, and the queries); their proofs are in
      \<open>ExpressionMatching\<close>, \<open>ExpressionSoundness\<close> and \<open>ExpressionQueries\<close>.
    \<^item> \<open>KnownState\<close> (\<open>KnownState.cpp\<close>); proofs in \<open>SymbolicClasses\<close>, \<open>KnownStateSound\<close>,
      \<open>KnownStateFeed\<close> and \<open>KnownStateProps\<close>.
    \<^item> \<open>CommonSubexpressionEliminator\<close> (the eliminator and its code generator); proofs in
      \<open>CSECodeGeneratorSound\<close> (the stack routines), \<open>CSEGenerateSound\<close> (generating a class and a
      target stack), \<open>PlainClasses\<close> (the classes that blocks of computing items have), \<open>CSESound\<close>
      (feeding a block and generating its code) and \<open>BreakingItem\<close> (the item that ends a block).
    \<^item> \<open>Assembly\<close> and \<open>AssemblyBuild\<close> (tags, appending, sub-assemblies), \<open>AssemblyOptimiser\<close>
      (\<open>optimise\<close> and \<open>optimiseInternal\<close>) with \<open>OptimiserSound\<close>, \<open>Assembler\<close> and \<open>AssemblerCorrect\<close>
      (\<open>assemble\<close>), \<open>LinkerObject\<close>.
  \<^bold>\<open>Conventions.\<close> A record or datatype has the members of the class it models; a method is a
  function from the old object to the new one, paired with the result; a thrown exception is
  \<open>Inl\<close> of its kind. Words have their width (\<open>u256\<close>, \<open>u64\<close>, \<open>u32\<close>, \<open>u8\<close>) and wrap. The methods of
  \<open>KnownState\<close> and of the eliminator share the mutable \<open>ExpressionClasses\<close>; they are written in
  the state monad \<open>CM\<close> (\<open>cmBind\<close>, \<open>cmReturn\<close>, \<open>cmThrow\<close>).

  \<^bold>\<open>Fuel.\<close> Loops and recursions end by structural recursion or by a termination proof where the
  code has a measure (peephole: \<open>weight\<close>; decoder, constants, code size: the remaining data).
  \<open>ExpressionClasses::find\<close> recurses through rewriting: \<open>findF n\<close> gives up (\<open>None\<close>) at depth
  \<open>n\<close>; \<open>find_returns\<close> shows that a number computed from the expression is enough, since every
  rule lowers a weight. \<open>KnownState\<close> inherits that fuel, and \<open>cm_total\<close> states that for all large
  fuels there is a result. The code generator recurses along the dependencies of the classes:
  more fuel than the sum of the class weights is enough (\<open>generateCode_plain\<close>); dropping double
  swaps needs the number of generated items, and emptying the stack its length. The block
  deduplicator may loop on tags that are not distinct and is a \<open>partial_function\<close>;
  \<open>deduplicate_total\<close> shows that it returns for distinct tags. The number of rounds of
  \<open>optimiseInternal\<close> has no proved bound.

  \<^bold>\<open>What the lemmas show.\<close> Each pass keeps the runs of a program on \<open>EVM\<close> that do not fail:
  the peephole optimiser (with the termination of its loop), the constant optimiser where memory
  behaves as memory, the jumpdest remover where jumps go to referenced tags; the deduplicator
  maps tags only to tags with equal blocks. Every simplification rule but one keeps the value of
  its pattern, and the unsound one is never applied; \<open>find\<close> keeps the values of all classes, and
  what \<open>knownConstant\<close>, \<open>knownNonZero\<close>, \<open>knownToBeDifferent\<close> and its variant for 32-byte ranges
  answer is true. \<open>KnownState\<close> refines the machine: what it knows after a block is true of every
  run of the block on a machine whose storage and memory obey \<open>evm_laws\<close> (reading back what was
  written, memory as overlapping 32-byte words, other opcodes leaving alone what the
  classification says they do). Common subexpression elimination keeps the effect of a block of
  computing items together with the item that ends it. The assembler puts at every
  push of a tag the offset of its jump destination; the linker, the decoder, the conversions and
  the item operations satisfy their round trips. Errors are results to be stated as well: which
  calls never throw, and where the code is wrong (the unsound rule, the space estimate of the
  assembler, the table of known hashes, the tags of optimised sub-assemblies).

  \<^bold>\<open>Bounds.\<close> Gas, the limit of 1024 stack slots and the layout-dependent reads (\<open>PC\<close>, \<open>GAS\<close>,
  \<open>MSIZE\<close>) are outside the machine. Stacks are shorter than \<open>2 ^ 255\<close> where the code numbers
  their elements by words. The theorem on common subexpression elimination covers blocks without
  stores, \<open>MLOAD\<close> and hashes: stores are generated by the model, but their order is not proved
  correct, and hashes are excluded by the defect that \<open>keccak_length_forgotten\<close> shows.

  \<^bold>\<open>Not modelled.\<close> In \<open>libevmasm\<close>: \<open>ControlFlowGraph\<close> (used by no pass: the code says it is disabled), \<open>PathGasMeter\<close> and the estimates of \<open>GasMeter\<close> on known states. The Solidity front end (\<open>libsolidity\<close>: parsing,
  analysis, code generation), Yul (\<open>libyul\<close>), the SMT checker, \<open>liblll\<close>, the command line and the
  tools are other programs of the same size or larger each; they reach the code modelled here
  through the operations of \<open>Assembly\<close>. \<open>assemblyString\<close>, \<open>assemblyStream\<close> and \<open>assemblyJSON\<close>
  print assemblies through iostreams and JsonCpp and decide nothing. Memory management and
  asynchronous or parallel execution do not occur.
\<close>

end
